(* ===== verification/Prelude.thy ===== *)
theory Prelude
  imports Complex_Main "HOL-Library.Word"
begin

text \<open>
  Shared vocabulary of the development: machine integers, results, time, JSON values and
  strings, with the generic lemmas the component theories rely on.

  Conventions of the models.
  \<^item> \<open>Result<T, E>\<close> is \<open>'e + 'a\<close>; \<open>Err\<close> and \<open>Ok\<close> abbreviate the injections.
  \<^item> \<open>u32\<close>/\<open>u64\<close> counters are words; \<open>usize\<close> lengths are \<open>nat\<close>.
  \<^item> A reading of the clock (\<open>Utc::now()\<close>, \<open>Instant::now()\<close>) is an argument
    \<open>now :: time\<close>; a fresh \<open>Uuid::new_v4()\<close> is an argument of type \<open>uuid\<close>.
  \<^item> A \<open>HashMap\<close> is an association list with distinct keys. The list order stands for
    the unspecified iteration order; the theorems hold for every such list.
  \<^item> Text is a \<open>string\<close> with one HOL character per Rust \<open>char\<close>.
  \<^item> An operation on \<open>&mut self\<close> or on a lock's contents takes the old state and
    returns the new one.
\<close>

section \<open>Collections of facts\<close>

named_theorems hm_simps \<open>hash map operations seen through lookup\<close>
named_theorems u32_arith \<open>arithmetic on words without overflow\<close>

section \<open>Types\<close>

type_synonym u32 = "32 word"
type_synonym u64 = "64 word"
type_synonym time = int
type_synonym uuid = nat

abbreviation Ok :: "'a \<Rightarrow> 'e + 'a" where "Ok \<equiv> Inr"
abbreviation Err :: "'e \<Rightarrow> 'e + 'a" where "Err \<equiv> Inl"

definition is_ok :: "'e + 'a \<Rightarrow> bool" where
  "is_ok r = (case r of Inl _ \<Rightarrow> False | Inr _ \<Rightarrow> True)"

lemma is_ok_simps [simp]: "is_ok (Ok a)" "\<not> is_ok (Err e)"
  by (simp_all add: is_ok_def)

lemma is_ok_iff: "is_ok r \<longleftrightarrow> (\<exists>a. r = Ok a)"
  by (cases r) simp_all

section \<open>Time\<close>

text \<open>
  Times and durations count nanoseconds. \<open>chrono::Duration::num_seconds\<close> truncates
  towards zero.
\<close>

definition secs :: "int \<Rightarrow> time" where "secs n = n * 1000000000"

definition num_seconds :: "time \<Rightarrow> int" where
  "num_seconds d = (if d < 0 then - ((- d) div 1000000000) else d div 1000000000)"

section \<open>JSON values\<close>

text \<open>
  The data of \<open>serde_json::Value\<close>. A number keeps its representation, as \<open>serde_json::Number\<close>
  does: an unsigned integer, a negative integer (in two's complement) or the bits of a float, so
  that \<open>1\<close> and \<open>1.0\<close> are different numbers. An object is the list of its members.
\<close>

datatype json_number = PosInt "64 word" | NegInt "64 word" | FloatBits "64 word"

datatype json = JNull | JBool bool | JNumber json_number | JString string
  | JArray "json list" | JObject "(string \<times> json) list"

section \<open>Words\<close>

lemma unat_inc [u32_arith]:
  fixes w :: "'n::len word"
  assumes "w < m"
  shows "unat (w + 1) = unat w + 1"
proof -
  have "unat w < unat m" using assms by (simp add: word_less_nat_alt)
  moreover have "unat m < 2 ^ LENGTH('n)" by simp
  ultimately have "unat w + 1 < 2 ^ LENGTH('n)" by linarith
  then show ?thesis by (simp add: unat_word_ariths)
qed

lemma unat_dec [u32_arith]:
  fixes w :: "'n::len word"
  assumes "w \<noteq> 0"
  shows "unat (w - 1) = unat w - 1"
  using assms by (simp add: unat_minus_one)

lemma word_inc_le [u32_arith]:
  fixes w :: "'n::len word"
  assumes "w < m"
  shows "w + 1 \<le> m"
  using assms unat_inc [OF assms] by (simp add: word_le_nat_alt word_less_nat_alt)

lemma word_dec_le [u32_arith]:
  fixes w :: "'n::len word"
  assumes "w \<noteq> 0"
  shows "w - 1 \<le> w"
  using unat_dec [OF assms] by (simp add: word_le_nat_alt)

lemma unat_diff [u32_arith]:
  fixes a b :: "'n::len word"
  assumes "b \<le> a"
  shows "unat (a - b) = unat a - unat b"
  using assms by (simp add: unat_sub)

lemma unat_of_nat_below [u32_arith]:
  fixes w :: "'n::len word"
  assumes "n < unat w"
  shows "unat (of_nat n :: 'n word) = n"
proof -
  have "n < 2 ^ LENGTH('n)" by (rule less_trans [OF assms]) simp
  then show ?thesis by (simp add: unat_of_nat)
qed

text \<open>Rust's \<open>saturating_sub\<close> and \<open>saturating_add\<close>.\<close>

definition sat_sub :: "'n::len word \<Rightarrow> 'n word \<Rightarrow> 'n word" where
  "sat_sub a b = (if a \<le> b then 0 else a - b)"

definition sat_add :: "'n::len word \<Rightarrow> 'n word \<Rightarrow> 'n word" where
  "sat_add a b = (if unat a + unat b < 2 ^ LENGTH('n) then a + b else - 1)"

lemma unat_sat_sub: "unat (sat_sub a b) = unat a - unat b"
proof (cases "a \<le> b")
  case True
  then show ?thesis by (simp add: sat_sub_def word_le_nat_alt)
next
  case False
  then have "b \<le> a" by simp
  with False show ?thesis by (simp add: sat_sub_def unat_diff)
qed

section \<open>Lists\<close>

lemma find_Some_mem: "List.find P xs = Some x \<Longrightarrow> x \<in> set xs \<and> P x"
  by (auto simp: find_Some_iff)

lemma replicate_two: "replicate 2 x = [x, x]"
  by (simp add: numeral_2_eq_2)

section \<open>Strings\<close>

text \<open>
  \<open>str::replace(c, d)\<close> for single ASCII characters, \<open>str::ends_with\<close>, \<open>str::starts_with\<close> and
  \<open>str::contains\<close>.
\<close>

definition starts_with :: "string \<Rightarrow> string \<Rightarrow> bool" where
  "starts_with s p = (take (length p) s = p)"

fun contains_str :: "string \<Rightarrow> string \<Rightarrow> bool" where
  "contains_str [] p = (p = [])"
| "contains_str (c # s) p = (starts_with (c # s) p \<or> contains_str s p)"

definition str_replace :: "char \<Rightarrow> char \<Rightarrow> string \<Rightarrow> string" where
  "str_replace c d s = map (\<lambda>x. if x = c then d else x) s"

definition ends_with :: "string \<Rightarrow> string \<Rightarrow> bool" where
  "ends_with s suf = (length suf \<le> length s \<and> drop (length s - length suf) s = suf)"

lemma str_replace_absorb [simp]:
  "str_replace c d (str_replace c d s) = str_replace c d s"
  "str_replace c d (str_replace d c s) = str_replace c d s"
  by (simp_all add: str_replace_def)

text \<open>Decimal rendering of unsigned and signed integers (\<open>Display\<close>).\<close>

fun show_nat :: "nat \<Rightarrow> string" where
  "show_nat n =
     (if n < 10 then [char_of (48 + n)] else show_nat (n div 10) @ [char_of (48 + n mod 10)])"

declare show_nat.simps [simp del]

definition show_int :: "int \<Rightarrow> string" where
  "show_int i = (if i < 0 then ''-'' @ show_nat (nat (- i)) else show_nat (nat i))"

end
