(* ===== verification/Lifecycle.thy ===== *)
theory Lifecycle
  imports Prelude
begin

text \<open>
  The contract of a lifecycle: an enum of states with a transition table and a set of
  terminal states. \<open>ThreadState\<close> and \<open>JobState\<close> both implement it. A log of transitions
  is a list of pairs; \<open>valid_path\<close> says that a log leads from one state to another along
  the table.
\<close>

fun valid_path :: "('s \<Rightarrow> 's \<Rightarrow> bool) \<Rightarrow> 's \<Rightarrow> ('s \<times> 's) list \<Rightarrow> 's \<Rightarrow> bool" where
  "valid_path can s [] t = (s = t)"
| "valid_path can s ((a, b) # es) t = (a = s \<and> can a b \<and> valid_path can b es t)"

lemma valid_path_append:
  "valid_path can s (es @ fs) t \<longleftrightarrow> (\<exists>u. valid_path can s es u \<and> valid_path can u fs t)"
  by (induction can s es t rule: valid_path.induct) auto

lemma valid_path_snoc:
  "valid_path can s es t \<Longrightarrow> can t u \<Longrightarrow> valid_path can s (es @ [(t, u)]) u"
  by (auto simp: valid_path_append)

lemma valid_path_reach: "valid_path can s es t \<Longrightarrow> can\<^sup>*\<^sup>* s t"
  by (induction can s es t rule: valid_path.induct) (auto intro: converse_rtranclp_into_rtranclp)

lemma valid_path_drop: "valid_path can s es t \<Longrightarrow> \<exists>u. valid_path can u (drop n es) t"
  by (metis append_take_drop_id valid_path_append)

lemma valid_path_mono:
  "valid_path can s es t \<Longrightarrow> (\<And>a b. can a b \<Longrightarrow> can' a b) \<Longrightarrow> valid_path can' s es t"
  by (induction can s es t rule: valid_path.induct) auto

locale lifecycle =
  fixes can :: "'s \<Rightarrow> 's \<Rightarrow> bool"
    and terminal :: "'s \<Rightarrow> bool"
  assumes terminal_stuck: "terminal s \<Longrightarrow> \<not> can s t"
    and exit_step: "\<not> terminal s \<Longrightarrow> \<exists>t. can s t \<and> terminal t"
begin

lemma terminal_iff_stuck: "terminal s \<longleftrightarrow> (\<forall>t. \<not> can s t)"
  using terminal_stuck exit_step by blast

lemma terminal_final: "can\<^sup>*\<^sup>* s t \<Longrightarrow> terminal s \<Longrightarrow> t = s"
  by (induction rule: converse_rtranclp_induct) (auto dest: terminal_stuck)

lemma terminal_path: "valid_path can s es t \<Longrightarrow> terminal s \<Longrightarrow> es = [] \<and> t = s"
  by (cases es) (auto dest: terminal_stuck)

lemma terminal_reachable: "\<exists>t. can\<^sup>*\<^sup>* s t \<and> terminal t"
  using exit_step by blast

lemma path_interior:
  assumes "valid_path can s (es @ (a, b) # fs) t"
  shows "\<not> terminal a"
  using assms terminal_stuck by (auto simp: valid_path_append)

end

end
