(* ===== verification/Keyed_Store.thy ===== *)
theory Keyed_Store
  imports Prelude
begin

text \<open>
  Hash maps as association lists, and the interface the components use them through.
  The locale \<open>keyed_store\<close> states what a lookup returns after each operation; the
  interpretation \<open>hm\<close> discharges it for the association lists of this theory.
\<close>

type_synonym ('k, 'v) hmap = "('k \<times> 'v) list"

definition hm_get :: "('k, 'v) hmap \<Rightarrow> 'k \<Rightarrow> 'v option" where
  "hm_get m k = map_of m k"

fun hm_insert :: "('k, 'v) hmap \<Rightarrow> 'k \<Rightarrow> 'v \<Rightarrow> ('k, 'v) hmap" where
  "hm_insert [] k v = [(k, v)]"
| "hm_insert ((k', v') # m) k v = (if k' = k then (k, v) # m else (k', v') # hm_insert m k v)"

definition hm_remove :: "('k, 'v) hmap \<Rightarrow> 'k \<Rightarrow> ('k, 'v) hmap" where
  "hm_remove m k = filter (\<lambda>kv. fst kv \<noteq> k) m"

definition hm_modify :: "('k, 'v) hmap \<Rightarrow> 'k \<Rightarrow> ('v \<Rightarrow> 'v) \<Rightarrow> ('k, 'v) hmap" where
  "hm_modify m k f = map (\<lambda>kv. (fst kv, if fst kv = k then f (snd kv) else snd kv)) m"

definition hm_retain :: "('k, 'v) hmap \<Rightarrow> ('k \<Rightarrow> 'v \<Rightarrow> bool) \<Rightarrow> ('k, 'v) hmap" where
  "hm_retain m P = filter (\<lambda>kv. P (fst kv) (snd kv)) m"

definition hm_values :: "('k, 'v) hmap \<Rightarrow> 'v list" where
  "hm_values m = map snd m"

definition hm_keys :: "('k, 'v) hmap \<Rightarrow> 'k list" where
  "hm_keys m = map fst m"

definition hm_wf :: "('k, 'v) hmap \<Rightarrow> bool" where
  "hm_wf m = distinct (map fst m)"

section \<open>The interface\<close>

locale keyed_store =
  fixes empty :: 'm
    and get :: "'m \<Rightarrow> 'k \<Rightarrow> 'v option"
    and put :: "'m \<Rightarrow> 'k \<Rightarrow> 'v \<Rightarrow> 'm"
    and del :: "'m \<Rightarrow> 'k \<Rightarrow> 'm"
    and upd :: "'m \<Rightarrow> 'k \<Rightarrow> ('v \<Rightarrow> 'v) \<Rightarrow> 'm"
    and keep :: "'m \<Rightarrow> ('k \<Rightarrow> 'v \<Rightarrow> bool) \<Rightarrow> 'm"
    and size_of :: "'m \<Rightarrow> nat"
    and wf :: "'m \<Rightarrow> bool"
  assumes get_empty: "get empty k = None"
    and get_put: "get (put m k v) k' = (if k' = k then Some v else get m k')"
    and get_del: "get (del m k) k' = (if k' = k then None else get m k')"
    and get_upd: "get (upd m k f) k' = (if k' = k then map_option f (get m k) else get m k')"
    and get_keep: "wf m \<Longrightarrow> get (keep m P) k =
      (case get m k of None \<Rightarrow> None | Some v \<Rightarrow> if P k v then Some v else None)"
    and wf_empty: "wf empty"
    and wf_put: "wf m \<Longrightarrow> wf (put m k v)"
    and wf_del: "wf m \<Longrightarrow> wf (del m k)"
    and wf_upd: "wf m \<Longrightarrow> wf (upd m k f)"
    and wf_keep: "wf m \<Longrightarrow> wf (keep m P)"
    and size_put: "size_of (put m k v) = (if get m k = None then Suc (size_of m) else size_of m)"
    and size_upd: "size_of (upd m k f) = size_of m"
begin

lemmas get_laws = get_empty get_put get_del get_upd
lemmas wf_laws = wf_empty wf_put wf_del wf_upd wf_keep

lemma put_then_get: "get (put m k v) k = Some v"
  by (simp add: get_put)

lemma put_frame: "k' \<noteq> k \<Longrightarrow> get (put m k v) k' = get m k'"
  by (simp add: get_put)

lemma del_then_get: "get (del m k) k = None"
  by (simp add: get_del)

lemma put_del_roundtrip: "get m k = None \<Longrightarrow> get (del (put m k v) k) = get m"
  by (rule ext) (simp add: get_del get_put)

lemma dom_put: "dom (get (put m k v)) = insert k (dom (get m))"
  by (auto simp: dom_def get_put)

lemma dom_del: "dom (get (del m k)) = dom (get m) - {k}"
  by (auto simp: dom_def get_del)

lemma dom_upd: "dom (get (upd m k f)) = dom (get m)"
  by (auto simp: dom_def get_upd)

lemma size_put_le: "size_of (put m k v) \<le> Suc (size_of m)"
  by (simp add: size_put)

end

section \<open>The association lists implement it\<close>

lemma hm_get_insert:
  "hm_get (hm_insert m k v) k' = (if k' = k then Some v else hm_get m k')"
  by (induction m k v rule: hm_insert.induct) (auto simp: hm_get_def)

lemma hm_keys_insert: "fst ` set (hm_insert m k v) = insert k (fst ` set m)"
  by (induction m k v rule: hm_insert.induct) auto

lemma hm_get_remove: "hm_get (hm_remove m k) k' = (if k' = k then None else hm_get m k')"
  by (induction m) (auto simp: hm_get_def hm_remove_def)

lemma hm_get_modify:
  "hm_get (hm_modify m k f) k' = (if k' = k then map_option f (hm_get m k) else hm_get m k')"
  by (induction m) (auto simp: hm_get_def hm_modify_def)

lemma hm_get_None_iff: "hm_get m k = None \<longleftrightarrow> k \<notin> fst ` set m"
  by (simp add: hm_get_def map_of_eq_None_iff)

lemma hm_get_retain:
  "hm_wf m \<Longrightarrow> hm_get (hm_retain m P) k =
     (case hm_get m k of None \<Rightarrow> None | Some v \<Rightarrow> if P k v then Some v else None)"
proof (induction m)
  case Nil
  then show ?case by (simp add: hm_get_def hm_retain_def)
next
  case (Cons kv m)
  then have IH: "hm_get (hm_retain m P) k =
      (case hm_get m k of None \<Rightarrow> None | Some v \<Rightarrow> if P k v then Some v else None)"
    and new: "fst kv \<notin> fst ` set m"
    by (simp_all add: hm_wf_def)
  have out: "k = fst kv \<Longrightarrow> hm_get m k = None"
    using new by (simp add: hm_get_None_iff)
  show ?case
    using IH out by (cases kv) (auto simp: hm_get_def hm_retain_def)
qed

lemma hm_wf_insert: "hm_wf m \<Longrightarrow> hm_wf (hm_insert m k v)"
proof (induction m k v rule: hm_insert.induct)
  case (1 k v)
  then show ?case by (simp add: hm_wf_def)
next
  case (2 k' v' m k v)
  have "k' \<noteq> k \<Longrightarrow> k' \<notin> fst ` set (hm_insert m k v)"
    using "2.prems" by (simp add: hm_keys_insert hm_wf_def)
  with "2" show ?case by (auto simp: hm_wf_def)
qed

lemma hm_wf_filter: "hm_wf m \<Longrightarrow> hm_wf (filter Q m)"
  by (simp add: hm_wf_def distinct_map_filter)

lemma hm_length_insert:
  "length (hm_insert m k v) = (if hm_get m k = None then Suc (length m) else length m)"
  by (induction m k v rule: hm_insert.induct) (auto simp: hm_get_def)

interpretation hm: keyed_store "[]" hm_get hm_insert hm_remove hm_modify hm_retain length hm_wf
proof (unfold_locales, goal_cases)
  case 1 then show ?case by (simp add: hm_get_def)
next
  case 2 then show ?case by (rule hm_get_insert)
next
  case 3 then show ?case by (rule hm_get_remove)
next
  case 4 then show ?case by (rule hm_get_modify)
next
  case 5 then show ?case by (rule hm_get_retain)
next
  case 6 then show ?case by (simp add: hm_wf_def)
next
  case 7 then show ?case by (rule hm_wf_insert)
next
  case 8 then show ?case by (simp add: hm_remove_def hm_wf_filter)
next
  case 9 then show ?case by (simp add: hm_wf_def hm_modify_def comp_def)
next
  case 10 then show ?case by (simp add: hm_retain_def hm_wf_filter)
next
  case 11 then show ?case by (rule hm_length_insert)
next
  case 12 then show ?case by (simp add: hm_modify_def)
qed

lemmas hm_laws [hm_simps] = hm.get_laws

section \<open>Iteration\<close>

lemma hm_values_get: "hm_wf m \<Longrightarrow> v \<in> set (hm_values m) \<longleftrightarrow> (\<exists>k. hm_get m k = Some v)"
  by (force simp: hm_values_def hm_get_def hm_wf_def intro: map_of_is_SomeI dest: map_of_SomeD)

lemma hm_entry_get: "hm_wf m \<Longrightarrow> (k, v) \<in> set m \<longleftrightarrow> hm_get m k = Some v"
  by (auto simp: hm_get_def hm_wf_def intro: map_of_is_SomeI dest: map_of_SomeD)

lemma hm_get_retain_Some:
  "hm_wf m \<Longrightarrow> hm_get (hm_retain m P) k = Some v \<longleftrightarrow> hm_get m k = Some v \<and> P k v"
  by (auto simp: hm.get_keep split: option.splits)

lemma hm_get_entry: "hm_get m k = Some v \<Longrightarrow> (k, v) \<in> set m"
  by (simp add: hm_get_def map_of_SomeD)

lemma hm_keys_get: "k \<in> set (hm_keys m) \<longleftrightarrow> hm_get m k \<noteq> None"
  by (simp add: hm_keys_def hm_get_None_iff)

lemma hm_keys_modify [simp]: "hm_keys (hm_modify m k f) = hm_keys m"
  by (simp add: hm_keys_def hm_modify_def comp_def)

text \<open>Counting the entries of a map that satisfy a predicate (\<open>values().filter(..).count()\<close>).\<close>

definition hm_count :: "('v \<Rightarrow> bool) \<Rightarrow> ('k, 'v) hmap \<Rightarrow> nat" where
  "hm_count P m = length (filter P (hm_values m))"

lemma hm_count_simps [simp]:
  "hm_count P [] = 0"
  "hm_count P ((k, v) # m) = (if P v then 1 else 0) + hm_count P m"
  by (simp_all add: hm_count_def hm_values_def)

lemma hm_count_insert_le: "hm_count P (hm_insert m k v) \<le> Suc (hm_count P m)"
  by (induction m k v rule: hm_insert.induct) auto

lemma hm_count_insert_not: "\<not> P v \<Longrightarrow> hm_count P (hm_insert m k v) \<le> hm_count P m"
  by (induction m k v rule: hm_insert.induct) auto

lemma hm_count_filter_le: "hm_count P (filter Q m) \<le> hm_count P m"
  by (induction m) auto

lemma hm_count_remove_le: "hm_count P (hm_remove m k) \<le> hm_count P m"
  by (simp add: hm_remove_def hm_count_filter_le)

lemma hm_count_modify_le:
  "(\<And>v. (k, v) \<in> set m \<Longrightarrow> P (f v) \<Longrightarrow> P v) \<Longrightarrow> hm_count P (hm_modify m k f) \<le> hm_count P m"
proof (induction m)
  case Nil
  then show ?case by (simp add: hm_modify_def)
next
  case (Cons kv m)
  then have "hm_count P (hm_modify m k f) \<le> hm_count P m" by simp
  then show ?case
    using Cons.prems by (cases kv) (auto simp: hm_modify_def)
qed

lemma hm_count_le_length: "hm_count P m \<le> length m"
  by (induction m) auto

end
