(* ===== verification/Text.thy ===== *)
theory Text
  imports Prelude
begin

text \<open>
  The string operations of Rust's standard library that several components use: prefixes and
  suffixes, splitting and joining, ASCII case, and the wildcard test on host names that the
  credential registry and the endpoint allowlist share.
\<close>

definition strip_prefix :: "string \<Rightarrow> string \<Rightarrow> string option" where
  "strip_prefix pre s = (if take (length pre) s = pre then Some (drop (length pre) s) else None)"

definition ascii_lower :: "char \<Rightarrow> char" where
  "ascii_lower c = (let n = (of_char c :: nat) in if 65 \<le> n \<and> n \<le> 90 then char_of (n + 32) else c)"

definition ascii_upper :: "char \<Rightarrow> char" where
  "ascii_upper c = (let n = (of_char c :: nat) in if 97 \<le> n \<and> n \<le> 122 then char_of (n - 32) else c)"

fun split_char :: "char \<Rightarrow> string \<Rightarrow> string list" where
  "split_char c [] = [[]]"
| "split_char c (x # xs) =
     (if x = c then [] # split_char c xs else (x # hd (split_char c xs)) # tl (split_char c xs))"

definition NL :: char where "NL = CHR 0x0A"

fun join :: "string \<Rightarrow> string list \<Rightarrow> string" where
  "join sep [] = []"
| "join sep [w] = w"
| "join sep (w # v # ws) = w @ sep @ join sep (v # ws)"

text \<open>
  The wildcard branch of the two host tests: a pattern \<open>*.suffix\<close>, a host that is longer than the
  suffix and ends in it, and a dot before it.
\<close>

definition wildcard_matches :: "string \<Rightarrow> string \<Rightarrow> bool" where
  "wildcard_matches pattern host =
     (case strip_prefix ''*.'' pattern of
        None \<Rightarrow> False
      | Some suffix \<Rightarrow>
          if ends_with host suffix \<and> length host > length suffix then
            let prefix = take (length host - length suffix) host
            in ends_with prefix ''.'' \<or> prefix = []
          else False)"

text \<open>\<open>char::is_whitespace\<close> and the operations of \<open>str\<close> that look for it.\<close>

definition is_space :: "char \<Rightarrow> bool" where
  "is_space c = (let n = (of_char c :: nat) in (9 \<le> n \<and> n \<le> 13) \<or> n = 32 \<or> n = 133 \<or> n = 160)"

definition trim_start :: "string \<Rightarrow> string" where
  "trim_start s = dropWhile is_space s"

definition trim :: "string \<Rightarrow> string" where
  "trim s = rev (dropWhile is_space (rev (trim_start s)))"

fun split_pred :: "(char \<Rightarrow> bool) \<Rightarrow> string \<Rightarrow> string list" where
  "split_pred P [] = [[]]"
| "split_pred P (x # xs) =
     (if P x then [] # split_pred P xs else (x # hd (split_pred P xs)) # tl (split_pred P xs))"

definition split_whitespace :: "string \<Rightarrow> string list" where
  "split_whitespace s = filter (\<lambda>w. w \<noteq> []) (split_pred is_space s)"

text \<open>\<open>str::split_once(c)\<close>.\<close>

definition split_once :: "char \<Rightarrow> string \<Rightarrow> (string \<times> string) option" where
  "split_once c s =
     (if c \<in> set s then Some (takeWhile (\<lambda>x. x \<noteq> c) s, tl (dropWhile (\<lambda>x. x \<noteq> c) s)) else None)"

text \<open>The length of a string in bytes of UTF-8: the characters of the model take one or two.\<close>

definition utf8_len :: "char \<Rightarrow> nat" where
  "utf8_len c = (if (of_char c :: nat) < 128 then 1 else 2)"

definition byte_len :: "string \<Rightarrow> nat" where
  "byte_len s = sum_list (map utf8_len s)"

text \<open>The prefix up to the last character boundary at or before the byte position.\<close>

fun take_bytes :: "nat \<Rightarrow> string \<Rightarrow> string" where
  "take_bytes n [] = []"
| "take_bytes n (c # s) = (if utf8_len c \<le> n then c # take_bytes (n - utf8_len c) s else [])"

section \<open>Lemmas\<close>

lemma ends_with_iff: "ends_with s suf \<longleftrightarrow> (\<exists>pre. s = pre @ suf)"
  by (auto simp: ends_with_def) (metis append_take_drop_id)

lemma starts_with_iff: "starts_with s p \<longleftrightarrow> (\<exists>t. s = p @ t)"
  by (auto simp: starts_with_def) (metis append_take_drop_id)

lemma strip_prefix_Some: "strip_prefix p s = Some t \<longleftrightarrow> s = p @ t"
  by (auto simp: strip_prefix_def) (metis append_take_drop_id)

lemma takeWhile_upto: "x \<notin> set ys \<Longrightarrow> takeWhile (\<lambda>c. c \<noteq> x) (ys @ x # zs) = ys"
  by (induction ys) auto

lemma wildcard_iff:
  "wildcard_matches pattern host \<longleftrightarrow> (\<exists>domain sub. pattern = ''*.'' @ domain \<and> host = sub @ ''.'' @ domain)"
proof (cases "strip_prefix ''*.'' pattern")
  case None
  then have "\<nexists>domain. pattern = ''*.'' @ domain" by (metis option.distinct(1) strip_prefix_Some)
  with None show ?thesis by (simp add: wildcard_matches_def)
next
  case (Some suffix)
  then have "pattern = ''*.'' @ suffix" by (simp add: strip_prefix_Some)
  with Some show ?thesis by (auto simp: wildcard_matches_def ends_with_iff Let_def)
qed

lemma contains_str_iff: "contains_str s p \<longleftrightarrow> (\<exists>a b. s = a @ p @ b)"
proof (induction s)
  case IH: (Cons c s)
  show ?case
  proof
    assume "contains_str (c # s) p"
    then consider "starts_with (c # s) p" | "\<exists>a b. s = a @ p @ b" using IH by auto
    then show "\<exists>a b. c # s = a @ p @ b"
    proof cases
      case 1
      then obtain t where "c # s = [] @ p @ t" by (auto simp: starts_with_iff)
      then show ?thesis by blast
    next
      case 2
      then obtain a b where "s = a @ p @ b" by blast
      then show ?thesis by (intro exI [of _ "c # a"] exI [of _ b]) simp
    qed
  next
    assume "\<exists>a b. c # s = a @ p @ b"
    then obtain a b where ab: "c # s = a @ p @ b" by blast
    show "contains_str (c # s) p"
    proof (cases a)
      case Nil
      with ab have "starts_with (c # s) p" by (auto simp: starts_with_iff)
      then show ?thesis by simp
    next
      case (Cons d a')
      with ab have "s = a' @ p @ b" by simp
      then have "contains_str s p" using IH by blast
      then show ?thesis by simp
    qed
  qed
qed simp

lemma split_char_ne [simp]: "split_char c s \<noteq> []"
  by (cases s) auto

lemma split_char_clean: "w \<in> set (split_char c s) \<Longrightarrow> c \<notin> set w"
proof (induction s arbitrary: w)
  case (Cons x xs)
  have "hd (split_char c xs) \<in> set (split_char c xs)" by simp
  with Cons show ?case by (auto split: if_splits dest: list.set_sel(2) [OF split_char_ne])
qed simp

lemma split_char_free: "c \<notin> set s \<Longrightarrow> split_char c s = [s]"
  by (induction s) auto

lemma split_char_append: "c \<notin> set w \<Longrightarrow> split_char c (w @ c # s) = w # split_char c s"
  by (induction w) auto

lemma split_join: "ws \<noteq> [] \<Longrightarrow> (\<And>w. w \<in> set ws \<Longrightarrow> c \<notin> set w) \<Longrightarrow> split_char c (join [c] ws) = ws"
  by (induction "[c]" ws rule: join.induct) (auto simp: split_char_free split_char_append)

lemma join_split: "join [c] (split_char c s) = s"
proof (induction s)
  case (Cons x xs)
  obtain w ws where w: "split_char c xs = w # ws" by (metis list.exhaust split_char_ne)
  with Cons show ?case by (cases ws) auto
qed simp

lemma join_snoc: "ws \<noteq> [] \<Longrightarrow> join sep (ws @ [w]) = join sep ws @ sep @ w"
  by (induction sep ws rule: join.induct) auto

lemma split_char_sub: "w \<in> set (split_char c s) \<Longrightarrow> set w \<subseteq> set s"
proof (induction s arbitrary: w)
  case (Cons x xs)
  obtain v vs where v: "split_char c xs = v # vs" by (metis list.exhaust split_char_ne)
  have "set u \<subseteq> set xs" if "u \<in> set (v # vs)" for u using Cons.IH that v by simp
  then have "set u \<subseteq> set (x # xs)" if "u \<in> set (v # vs)" for u using that by fastforce
  then show ?case using Cons.prems v by (fastforce split: if_splits)
qed simp

lemma join_ne: "\<exists>w \<in> set ws. w \<noteq> [] \<Longrightarrow> join sep ws \<noteq> []"
  by (induction sep ws rule: join.induct) auto

lemma byte_len_simps [simp]: "byte_len [] = 0" "byte_len (c # s) = utf8_len c + byte_len s"
  "byte_len (s @ t) = byte_len s + byte_len t"
  by (simp_all add: byte_len_def)

lemma byte_len_ascii: "(\<And>c. c \<in> set s \<Longrightarrow> (of_char c :: nat) < 128) \<Longrightarrow> byte_len s = length s"
  by (induction s) (simp_all add: utf8_len_def)

lemma trim_edges: "trim s = [] \<or> \<not> is_space (hd (trim s)) \<and> \<not> is_space (last (trim s))"
proof -
  let ?u = "trim_start s"
  obtain x where x: "?u = trim s @ x"
    unfolding trim_def by (metis rev_append rev_rev_ident takeWhile_dropWhile_id)
  have "?u = [] \<or> \<not> is_space (hd ?u)"
    using hd_dropWhile [of is_space s] by (auto simp: trim_start_def)
  moreover have "trim s = [] \<or> \<not> is_space (last (trim s))"
    using hd_dropWhile [of is_space "rev ?u"] by (auto simp: trim_def hd_rev [symmetric] last_rev)
  ultimately show ?thesis using x by (cases "trim s") auto
qed

lemma trim_id: "s = [] \<or> \<not> is_space (hd s) \<and> \<not> is_space (last s) \<Longrightarrow> trim s = s"
proof (cases "s = []")
  case False
  assume "s = [] \<or> \<not> is_space (hd s) \<and> \<not> is_space (last s)"
  with False have ends: "\<not> is_space (hd s)" "\<not> is_space (last s)" by auto
  from False ends(1) have "trim_start s = s" by (cases s) (simp_all add: trim_start_def)
  moreover from False ends(2) have "dropWhile is_space (rev s) = rev s" by (cases s rule: rev_cases) simp_all
  ultimately show ?thesis by (simp add: trim_def)
qed (simp add: trim_def trim_start_def)

lemma trim_trim [simp]: "trim (trim s) = trim s"
  by (rule trim_id) (rule trim_edges)

end
