(* ===== verification/Engine_Types.thy ===== *)
theory Engine_Types
  imports Keyed_Store Text
begin

text \<open>
  The engine's plain data types (\<open>crates/t3claw_engine/src/types\<close>): owners, provenance,
  effects, steps, messages, events and errors. No behaviour beyond the small helper
  functions those files define.
\<close>

type_synonym thread_id = uuid
type_synonym lease_id = uuid
type_synonym step_id = uuid
type_synonym doc_id = uuid
type_synonym project_id = uuid
type_synonym event_id = uuid

section \<open>Owners\<close>

definition LEGACY_SHARED_OWNER_ID :: string where "LEGACY_SHARED_OWNER_ID = ''system''"
definition SHARED_OWNER_ID :: string where "SHARED_OWNER_ID = ''__shared__''"

datatype owner_id = Shared | User string

definition is_shared_owner :: "string \<Rightarrow> bool" where
  "is_shared_owner user_id = (user_id = SHARED_OWNER_ID \<or> user_id = LEGACY_SHARED_OWNER_ID)"

definition from_user_id :: "string \<Rightarrow> owner_id" where
  "from_user_id user_id = (if is_shared_owner user_id then Shared else User user_id)"

fun is_shared :: "owner_id \<Rightarrow> bool" where
  "is_shared Shared = True"
| "is_shared (User _) = False"

fun matches_user :: "owner_id \<Rightarrow> string \<Rightarrow> bool" where
  "matches_user (User owner) user_id = (owner = user_id)"
| "matches_user Shared user_id = False"

fun as_user_id :: "owner_id \<Rightarrow> string" where
  "as_user_id Shared = SHARED_OWNER_ID"
| "as_user_id (User user_id) = user_id"

definition shared_owner_candidates :: "string list" where
  "shared_owner_candidates = [SHARED_OWNER_ID, LEGACY_SHARED_OWNER_ID]"

lemmas owner_defs = is_shared_owner_def from_user_id_def SHARED_OWNER_ID_def LEGACY_SHARED_OWNER_ID_def

lemma from_user_id_shared: "is_shared (from_user_id u) \<longleftrightarrow> u \<in> set shared_owner_candidates"
  by (auto simp: owner_defs shared_owner_candidates_def)

lemma owner_roundtrip: "from_user_id (as_user_id (from_user_id u)) = from_user_id u"
  by (simp add: owner_defs)

section \<open>Slugs\<close>

text \<open>
  \<open>slugify_simple\<close>: the loop over the lower-cased characters with the \<open>prev_dash\<close> flag, then
  the trailing dash trimmed. Lower-casing is ASCII lower-casing on the model's characters.
\<close>

definition is_ascii_alnum :: "char \<Rightarrow> bool" where
  "is_ascii_alnum c = (let n = (of_char c :: nat) in
     (48 \<le> n \<and> n \<le> 57) \<or> (65 \<le> n \<and> n \<le> 90) \<or> (97 \<le> n \<and> n \<le> 122))"

fun slug_loop :: "bool \<Rightarrow> string \<Rightarrow> string" where
  "slug_loop prev_dash [] = []"
| "slug_loop prev_dash (c # cs) =
     (if is_ascii_alnum c then c # slug_loop False cs
      else if \<not> prev_dash then CHR ''-'' # slug_loop True cs
      else slug_loop prev_dash cs)"

definition trim_end_char :: "char \<Rightarrow> string \<Rightarrow> string" where
  "trim_end_char c s = rev (dropWhile (\<lambda>x. x = c) (rev s))"

definition slugify_simple :: "string \<Rightarrow> string" where
  "slugify_simple name = trim_end_char (CHR ''-'') (slug_loop True (map ascii_lower name))"

section \<open>Provenance, effects, steps\<close>

datatype provenance = ProvUser | ProvSystem | ToolOutput string | LlmGenerated
  | MemoryRetrieval doc_id

datatype effect_type = ReadLocal | ReadExternal | WriteLocal | WriteExternal
  | CredentialedNetwork | Compute | Financial

datatype code_execution_failure = SyntaxError | RuntimeError | NameLookup | VmPanic
  | ResourceLimit | ToolError | OsDenied

record token_usage =
  input_tokens :: u64
  output_tokens :: u64
  cache_read_tokens :: u64
  cache_write_tokens :: u64
  cost_usd :: real

record action_call =
  ac_id :: string
  ac_action_name :: string
  ac_parameters :: json

section \<open>Messages\<close>

datatype message_role = RoleSystem | RoleUser | RoleAssistant | RoleActionResult

fun role_debug :: "message_role \<Rightarrow> string" where
  "role_debug RoleSystem = ''System''"
| "role_debug RoleUser = ''User''"
| "role_debug RoleAssistant = ''Assistant''"
| "role_debug RoleActionResult = ''ActionResult''"

record thread_message =
  msg_role :: message_role
  msg_content :: string
  msg_provenance :: provenance
  msg_action_call_id :: "string option"
  msg_action_name :: "string option"
  msg_action_calls :: "action_call list option"
  msg_timestamp :: time

definition msg_system :: "time \<Rightarrow> string \<Rightarrow> thread_message" where
  "msg_system now content = \<lparr>msg_role = RoleSystem, msg_content = content,
     msg_provenance = ProvSystem, msg_action_call_id = None, msg_action_name = None,
     msg_action_calls = None, msg_timestamp = now\<rparr>"

definition msg_user :: "time \<Rightarrow> string \<Rightarrow> thread_message" where
  "msg_user now content = \<lparr>msg_role = RoleUser, msg_content = content,
     msg_provenance = ProvUser, msg_action_call_id = None, msg_action_name = None,
     msg_action_calls = None, msg_timestamp = now\<rparr>"

definition msg_assistant :: "time \<Rightarrow> string \<Rightarrow> thread_message" where
  "msg_assistant now content = \<lparr>msg_role = RoleAssistant, msg_content = content,
     msg_provenance = LlmGenerated, msg_action_call_id = None, msg_action_name = None,
     msg_action_calls = None, msg_timestamp = now\<rparr>"

definition msg_assistant_with_actions ::
  "time \<Rightarrow> string option \<Rightarrow> action_call list \<Rightarrow> thread_message" where
  "msg_assistant_with_actions now content calls = \<lparr>msg_role = RoleAssistant,
     msg_content = (case content of None \<Rightarrow> [] | Some c \<Rightarrow> c),
     msg_provenance = LlmGenerated, msg_action_call_id = None, msg_action_name = None,
     msg_action_calls = Some calls, msg_timestamp = now\<rparr>"

definition msg_action_result :: "time \<Rightarrow> string \<Rightarrow> string \<Rightarrow> string \<Rightarrow> thread_message" where
  "msg_action_result now call_id name content = \<lparr>msg_role = RoleActionResult,
     msg_content = content, msg_provenance = ToolOutput name,
     msg_action_call_id = Some call_id, msg_action_name = Some name,
     msg_action_calls = None, msg_timestamp = now\<rparr>"

text \<open>Only user and system messages carry trusted provenance.\<close>

lemma message_provenance:
  "msg_provenance (msg_assistant now c) = LlmGenerated"
  "msg_provenance (msg_assistant_with_actions now co calls) = LlmGenerated"
  "msg_provenance (msg_action_result now i n c) = ToolOutput n"
  by (simp_all add: msg_assistant_def msg_assistant_with_actions_def msg_action_result_def)

section \<open>Thread states\<close>

datatype thread_state = Created | Running | Waiting | Suspended | Completed | Done | Failed

datatype thread_type = Foreground | Research | Mission

section \<open>Capabilities and leases\<close>

datatype granted_actions = All | Specific "string list"

record action_def =
  ad_name :: string
  ad_description :: string
  ad_parameters_schema :: json
  ad_effects :: "effect_type list"
  ad_requires_approval :: bool

datatype policy_condition = Always | ActionMatches string | EffectTypeIs effect_type

datatype policy_effect = PolicyAllow | PolicyDeny | PolicyRequireApproval

record policy_rule =
  pr_name :: string
  pr_condition :: policy_condition
  pr_effect :: policy_effect

record capability =
  cap_name :: string
  cap_description :: string
  cap_actions :: "action_def list"
  cap_knowledge :: "string list"
  cap_policies :: "policy_rule list"

record capability_lease =
  ls_id :: lease_id
  ls_thread_id :: thread_id
  ls_capability_name :: string
  ls_granted_actions :: granted_actions
  ls_granted_at :: time
  ls_expires_at :: "time option"
  ls_max_uses :: "u32 option"
  ls_uses_remaining :: "u32 option"
  ls_revoked :: bool
  ls_revoked_reason :: "string option"

datatype resume_kind = Approval bool
  | Authentication string string "string option"
  | External string

section \<open>Errors\<close>

datatype thread_error = AlreadyRunning thread_id | Terminal thread_state
  | ParentNotRunning thread_id

datatype step_error = StepTimeout time | ActionDenied string

datatype capability_error = NotFound string | EffectDenied effect_type

datatype engine_error =
    Thread thread_error
  | Step step_error
  | Capability capability_error
  | Store string
  | Llm string
  | Effect string
  | InvalidCadence string
  | InvalidTransition thread_state thread_state
  | ThreadNotFound thread_id
  | ProjectNotFound project_id
  | LeaseNotFound string
  | LeaseExpired string
  | LeaseDenied string
  | MaxIterations nat
  | TokenLimitExceeded u64 u64
  | ConsecutiveErrors u32 u32
  | Timeout time time
  | Skill string
  | InvalidInput string
  | AccessDenied string string
  | GatePaused string string string json resume_kind "json option" "capability_lease option"

section \<open>Events\<close>

datatype event_kind =
    StateChanged thread_state thread_state "string option"
  | StepStarted step_id
  | StepCompleted step_id token_usage
  | StepFailed step_id string
  | ActionExecuted step_id string string u64 "string option"
  | ActionFailed step_id string string string u64 "string option"
  | LeaseGranted lease_id string
  | LeaseRevoked lease_id string
  | LeaseExpiredEvent lease_id
  | MessageAdded string string
  | ChildSpawned thread_id string
  | ChildCompleted thread_id
  | ApprovalRequested string string "json option" "string option" "bool option"
      "string option" "string option"
  | ApprovalReceived string bool
  | SelfImprovementStarted
  | SelfImprovementComplete bool nat
  | SelfImprovementFailed string
  | SkillActivated "string list"
  | CodeExecutionFailed step_id code_execution_failure string "string option" u64
  | OrchestratorRollback u64 u64 string
  | UnknownEvent

record thread_event =
  ev_id :: event_id
  ev_thread_id :: thread_id
  ev_timestamp :: time
  ev_kind :: event_kind

definition new_event :: "event_id \<Rightarrow> time \<Rightarrow> thread_id \<Rightarrow> event_kind \<Rightarrow> thread_event" where
  "new_event eid now tid kind =
     \<lparr>ev_id = eid, ev_thread_id = tid, ev_timestamp = now, ev_kind = kind\<rparr>"

fun is_state_change :: "event_kind \<Rightarrow> bool" where
  "is_state_change (StateChanged _ _ _) = True"
| "is_state_change _ = False"

section \<open>Parameter summaries\<close>

text \<open>
  \<open>truncate\<close> of \<open>event.rs\<close>, with one byte per character; on such text every index is a
  character boundary, so the boundary loop does not move.
\<close>

definition truncate_text :: "string \<Rightarrow> nat \<Rightarrow> string" where
  "truncate_text s n = (if length s \<le> n then s else take n s @ ''...'')"

lemma truncate_text_length: "length (truncate_text s n) \<le> n + 3"
  by (simp add: truncate_text_def)

definition json_get :: "json \<Rightarrow> string \<Rightarrow> json option" where
  "json_get j k = (case j of JObject ms \<Rightarrow> map_of ms k | _ \<Rightarrow> None)"

fun json_as_str :: "json \<Rightarrow> string option" where
  "json_as_str (JString s) = Some s"
| "json_as_str _ = None"

definition json_str_field :: "json \<Rightarrow> string \<Rightarrow> string option" where
  "json_str_field j k = Option.bind (json_get j k) json_as_str"

fun first_str :: "json list \<Rightarrow> string option" where
  "first_str [] = None"
| "first_str (v # vs) = (case json_as_str v of Some s \<Rightarrow> Some s | None \<Rightarrow> first_str vs)"

definition summarize_params :: "string \<Rightarrow> json \<Rightarrow> string option" where
  "summarize_params action_name params =
     (let summary =
        (if action_name \<in> {''http'', ''web_fetch''} then
           map_option (\<lambda>u. truncate_text u 80) (json_str_field params ''url'')
         else if action_name \<in> {''web_search'', ''llm_context''} then
           map_option (\<lambda>q. truncate_text q 60) (json_str_field params ''query'')
         else if action_name = ''memory_search'' then
           map_option (\<lambda>q. truncate_text q 60) (json_str_field params ''query'')
         else if action_name = ''memory_write'' then json_str_field params ''target''
         else if action_name = ''memory_read'' then json_str_field params ''path''
         else if action_name = ''shell'' then
           map_option (\<lambda>c. truncate_text c 60) (json_str_field params ''command'')
         else if action_name = ''message'' then
           map_option (\<lambda>c. truncate_text c 40) (json_str_field params ''content'')
         else (case params of
             JObject ms \<Rightarrow> map_option (\<lambda>s. truncate_text s 50) (first_str (map snd ms))
           | _ \<Rightarrow> None))
      in (case summary of Some s \<Rightarrow> if s = [] then None else Some s | None \<Rightarrow> None))"

end
