(* ===== verification/Thread_Life.thy ===== *)
theory Thread_Life
  imports Lifecycle Engine_Types
begin

text \<open>
  The thread, the engine's unit of work (\<open>types/thread.rs\<close>): the transition table, the
  thread record and its operations.
  The main result is that the event log of a thread, read as a list of state changes, is a
  walk along the transition table from \<open>Created\<close> to the current state.
\<close>

section \<open>The state machine\<close>

fun can_transition_to :: "thread_state \<Rightarrow> thread_state \<Rightarrow> bool" where
  "can_transition_to Created Running = True"
| "can_transition_to Created Failed = True"
| "can_transition_to Running Waiting = True"
| "can_transition_to Running Suspended = True"
| "can_transition_to Running Completed = True"
| "can_transition_to Running Failed = True"
| "can_transition_to Waiting Running = True"
| "can_transition_to Waiting Failed = True"
| "can_transition_to Suspended Running = True"
| "can_transition_to Suspended Failed = True"
| "can_transition_to Completed Done = True"
| "can_transition_to _ _ = False"

fun is_terminal :: "thread_state \<Rightarrow> bool" where
  "is_terminal Done = True"
| "is_terminal Failed = True"
| "is_terminal _ = False"

fun is_active :: "thread_state \<Rightarrow> bool" where
  "is_active Running = True"
| "is_active Waiting = True"
| "is_active _ = False"

interpretation thread_sm: lifecycle can_transition_to is_terminal
proof
  fix s t assume "is_terminal s" then show "\<not> can_transition_to s t"
    by (cases s) simp_all
next
  fix s assume "\<not> is_terminal s"
  then have "can_transition_to s (if s = Completed then Done else Failed)"
    by (cases s) simp_all
  moreover have "is_terminal (if s = Completed then Done else Failed)" by simp
  ultimately show "\<exists>t. can_transition_to s t \<and> is_terminal t" by blast
qed

section \<open>Configuration and the thread record\<close>

record thread_config =
  max_iterations :: nat
  max_duration :: "time option"
  enable_tool_intent_nudge :: bool
  max_tool_intent_nudges :: u32
  require_action_attempt :: bool
  max_action_requirement_nudges :: u32
  max_tokens_total :: "u64 option"
  max_consecutive_errors :: "u32 option"
  model_context_limit :: nat
  enable_compaction :: bool
  compaction_threshold :: real
  max_budget_usd :: "real option"
  cfg_depth :: u32
  cfg_max_depth :: u32

definition default_thread_config :: thread_config where
  "default_thread_config = \<lparr>max_iterations = 50, max_duration = None,
     enable_tool_intent_nudge = True, max_tool_intent_nudges = 2,
     require_action_attempt = False, max_action_requirement_nudges = 2,
     max_tokens_total = None, max_consecutive_errors = Some 5,
     model_context_limit = 128000, enable_compaction = False,
     compaction_threshold = 85 / 100, max_budget_usd = None, cfg_depth = 0, cfg_max_depth = 1\<rparr>"

record active_skill_provenance =
  as_doc_id :: doc_id
  as_name :: string
  as_version :: u32
  as_snippet_names :: "string list"
  as_force_activated :: bool

definition ACTIVE_SKILLS_METADATA_KEY :: string where
  "ACTIVE_SKILLS_METADATA_KEY = ''active_skills''"

record thread =
  th_id :: thread_id
  th_goal :: string
  th_type :: thread_type
  th_state :: thread_state
  th_project_id :: project_id
  th_user_id :: string
  th_parent_id :: "thread_id option"
  th_config :: thread_config
  th_messages :: "thread_message list"
  th_internal_messages :: "thread_message list"
  th_events :: "thread_event list"
  th_capability_leases :: "lease_id list"
  th_metadata :: json
  th_created_at :: time
  th_updated_at :: time
  th_completed_at :: "time option"
  th_step_count :: nat
  th_total_tokens_used :: u64
  th_total_cost_usd :: real

definition thread_new ::
  "thread_id \<Rightarrow> time \<Rightarrow> string \<Rightarrow> thread_type \<Rightarrow> project_id \<Rightarrow> string \<Rightarrow> thread_config \<Rightarrow> thread" where
  "thread_new tid now goal ty project_id user_id config =
     \<lparr>th_id = tid, th_goal = goal, th_type = ty, th_state = Created,
      th_project_id = project_id, th_user_id = user_id, th_parent_id = None,
      th_config = config, th_messages = [], th_internal_messages = [], th_events = [],
      th_capability_leases = [], th_metadata = JObject [], th_created_at = now,
      th_updated_at = now, th_completed_at = None, th_step_count = 0,
      th_total_tokens_used = 0, th_total_cost_usd = 0\<rparr>"

definition with_parent :: "thread \<Rightarrow> thread_id \<Rightarrow> thread" where
  "with_parent t parent_id = t\<lparr>th_parent_id := Some parent_id\<rparr>"

definition thread_owner_id :: "thread \<Rightarrow> owner_id" where
  "thread_owner_id t = from_user_id (th_user_id t)"

definition thread_is_owned_by :: "thread \<Rightarrow> string \<Rightarrow> bool" where
  "thread_is_owned_by t user_id = matches_user (thread_owner_id t) user_id"

section \<open>Operations\<close>

text \<open>
  \<open>serde_json::to_value\<close> on the skill list and \<open>from_value\<close> back are derived code; they
  are the parameters \<open>to_value\<close> and \<open>from_value\<close>.
\<close>

definition set_active_skills ::
  "(active_skill_provenance list \<Rightarrow> string + json) \<Rightarrow> time \<Rightarrow> thread \<Rightarrow>
   active_skill_provenance list \<Rightarrow> engine_error + thread" where
  "set_active_skills to_value now t skills =
     (case th_metadata t of
        JObject ms \<Rightarrow>
          (case to_value skills of
             Inl e \<Rightarrow> Err (Store (''failed to serialize active skill provenance: '' @ e))
           | Inr v \<Rightarrow> Ok (t\<lparr>th_metadata := JObject (hm_insert ms ACTIVE_SKILLS_METADATA_KEY v),
                             th_updated_at := now\<rparr>))
      | _ \<Rightarrow> Err (Store ''thread metadata is not a JSON object''))"

definition active_skills ::
  "(json \<Rightarrow> active_skill_provenance list option) \<Rightarrow> thread \<Rightarrow> active_skill_provenance list" where
  "active_skills from_value t =
     (case Option.bind (json_get (th_metadata t) ACTIVE_SKILLS_METADATA_KEY) from_value of
        Some ss \<Rightarrow> ss | None \<Rightarrow> [])"

definition transition_to ::
  "event_id \<Rightarrow> time \<Rightarrow> thread \<Rightarrow> thread_state \<Rightarrow> string option \<Rightarrow> engine_error + thread" where
  "transition_to eid now t new_state reason =
     (if \<not> can_transition_to (th_state t) new_state then
        Err (InvalidTransition (th_state t) new_state)
      else
        let event = new_event eid now (th_id t) (StateChanged (th_state t) new_state reason);
            t1 = t\<lparr>th_events := th_events t @ [event], th_state := new_state, th_updated_at := now\<rparr>
        in Ok (if new_state = Completed \<or> new_state = Done
               then t1\<lparr>th_completed_at := Some now\<rparr> else t1))"

definition add_event :: "event_id \<Rightarrow> time \<Rightarrow> thread \<Rightarrow> event_kind \<Rightarrow> thread" where
  "add_event eid now t kind =
     t\<lparr>th_events := th_events t @ [new_event eid now (th_id t) kind], th_updated_at := now\<rparr>"

definition message_preview :: "string \<Rightarrow> string" where
  "message_preview content = (if length content > 80 then take 80 content @ ''...'' else content)"

definition add_message :: "event_id \<Rightarrow> time \<Rightarrow> thread \<Rightarrow> thread_message \<Rightarrow> thread" where
  "add_message eid now t message =
     (let t1 = add_event eid now t
        (MessageAdded (role_debug (msg_role message)) (message_preview (msg_content message)))
      in t1\<lparr>th_messages := th_messages t1 @ [message]\<rparr>)"

definition add_internal_message :: "time \<Rightarrow> thread \<Rightarrow> thread_message \<Rightarrow> thread" where
  "add_internal_message now t message =
     t\<lparr>th_internal_messages := th_internal_messages t @ [message], th_updated_at := now\<rparr>"

section \<open>The event log\<close>

text \<open>The state changes recorded in an event log, in order.\<close>

fun state_log :: "thread_event list \<Rightarrow> (thread_state \<times> thread_state) list" where
  "state_log [] = []"
| "state_log (e # es) =
     (case ev_kind e of StateChanged a b _ \<Rightarrow> (a, b) # state_log es | _ \<Rightarrow> state_log es)"

lemma state_log_append [simp]: "state_log (es @ fs) = state_log es @ state_log fs"
  by (induction es) (auto split: event_kind.splits)

lemma ev_kind_new [simp]: "ev_kind (new_event eid now tid k) = k"
  by (simp add: new_event_def)

lemma state_log_other:
  "\<not> is_state_change k \<Longrightarrow> state_log (es @ [new_event eid now tid k]) = state_log es"
  by (cases k) simp_all

definition thread_inv :: "thread \<Rightarrow> bool" where
  "thread_inv t \<longleftrightarrow> valid_path can_transition_to Created (state_log (th_events t)) (th_state t)
     \<and> (th_completed_at t \<noteq> None \<longleftrightarrow> th_state t \<in> {Completed, Done})"

text \<open>
  The steps a thread takes through the operations of this file. An event other than a state
  change may be logged at any time; state changes only come from \<open>transition_to\<close>.
\<close>

inductive thread_step :: "thread \<Rightarrow> thread \<Rightarrow> bool" where
  transition: "transition_to eid now t s reason = Ok t' \<Longrightarrow> thread_step t t'"
| event: "\<not> is_state_change k \<Longrightarrow> thread_step t (add_event eid now t k)"
| message: "thread_step t (add_message eid now t m)"
| internal: "thread_step t (add_internal_message now t m)"
| skills: "set_active_skills to_value now t ss = Ok t' \<Longrightarrow> thread_step t t'"

lemma transition_to_Ok:
  assumes "transition_to eid now t s reason = Ok t'"
  shows "can_transition_to (th_state t) s" "th_state t' = s"
    "state_log (th_events t') = state_log (th_events t) @ [(th_state t, s)]"
    "th_completed_at t' = (if s \<in> {Completed, Done} then Some now else th_completed_at t)"
  using assms by (auto simp: transition_to_def Let_def split: if_splits)

lemma set_active_skills_frame:
  assumes "set_active_skills to_value now t ss = Ok t'"
  shows "th_state t' = th_state t" "th_events t' = th_events t"
    "th_completed_at t' = th_completed_at t"
  using assms by (auto simp: set_active_skills_def split: json.splits sum.splits)

lemma thread_inv_new: "thread_inv (thread_new tid now g ty p u c)"
  by (simp add: thread_inv_def thread_new_def)

lemma thread_inv_transition:
  assumes "transition_to eid now t s reason = Ok t'" and "thread_inv t"
  shows "thread_inv t'"
proof -
  note ok = transition_to_Ok [OF assms(1)]
  have "th_state t \<in> {Completed, Done} \<Longrightarrow> s \<in> {Completed, Done}"
    using ok(1) by (cases s) auto
  then show ?thesis
    using ok assms(2) by (auto simp: thread_inv_def intro: valid_path_snoc)
qed

lemma thread_inv_step: "thread_step t t' \<Longrightarrow> thread_inv t \<Longrightarrow> thread_inv t'"
proof (induction rule: thread_step.induct)
  case (transition eid now t s reason t')
  then show ?case by (rule thread_inv_transition)
next
  case (event k t eid now)
  then show ?case
    by (simp add: thread_inv_def add_event_def state_log_other del: state_log_append)
next
  case (message t eid now m)
  then show ?case
    by (simp add: thread_inv_def add_message_def add_event_def Let_def new_event_def)
next
  case (internal t now m)
  then show ?case by (simp add: thread_inv_def add_internal_message_def)
next
  case (skills to_value now t ss t')
  then show ?case using set_active_skills_frame [OF skills(1)] by (simp add: thread_inv_def)
qed

lemma thread_inv_run: "thread_step\<^sup>*\<^sup>* t t' \<Longrightarrow> thread_inv t \<Longrightarrow> thread_inv t'"
  by (induction rule: rtranclp_induct) (auto intro: thread_inv_step)

lemma thread_step_state: "thread_step t t' \<Longrightarrow>
    th_state t' = th_state t \<or> can_transition_to (th_state t) (th_state t')"
  by (induction rule: thread_step.induct)
    (auto simp: add_event_def add_message_def add_internal_message_def Let_def
      dest: transition_to_Ok set_active_skills_frame)

lemma thread_run_state: "thread_step\<^sup>*\<^sup>* t t' \<Longrightarrow> can_transition_to\<^sup>*\<^sup>* (th_state t) (th_state t')"
proof (induction rule: rtranclp_induct)
  case base
  show ?case by simp
next
  case (step u v)
  then show ?case using thread_step_state [OF step(2)] by auto
qed

section \<open>Properties\<close>

text \<open>
  C4. On every thread the engine can build from \<open>Thread::new\<close>, the recorded state changes form
  an unbroken walk along the transition table from \<open>Created\<close> to the thread's current state,
  and the completion time is set exactly in the states \<open>Completed\<close> and \<open>Done\<close>.
\<close>

theorem thread_log_is_path:
  assumes "thread_step\<^sup>*\<^sup>* (thread_new tid now goal ty pid uid cfg) t"
  shows "valid_path can_transition_to Created (state_log (th_events t)) (th_state t)
     \<and> (th_completed_at t \<noteq> None \<longleftrightarrow> th_state t \<in> {Completed, Done})"
  using thread_inv_run [OF assms thread_inv_new] by (simp add: thread_inv_def)

definition sample_thread :: thread where
  "sample_thread = thread_new 1 0 ''goal'' Foreground 2 ''alice'' default_thread_config"

lemma thread_log_is_path_witness:
  "\<exists>t. transition_to 5 3 sample_thread Running None = Ok t
     \<and> valid_path can_transition_to Created (state_log (th_events t)) (th_state t)"
proof -
  obtain t where t: "transition_to 5 3 sample_thread Running None = Ok t"
    by (simp add: transition_to_def sample_thread_def thread_new_def Let_def)
  then have "thread_step\<^sup>*\<^sup>* sample_thread t" by (auto intro: thread_step.transition)
  with thread_log_is_path t show ?thesis unfolding sample_thread_def by blast
qed

text \<open>
  \<open>Done\<close> and \<open>Failed\<close> are final: no sequence of operations leaves them, and
  \<open>transition_to\<close> answers \<open>InvalidTransition\<close> whatever the target. From every other state
  \<open>transition_to\<close> can reach one of the two.
\<close>

theorem terminal_thread_final:
  "(is_terminal (th_state t) \<longrightarrow>
      (\<forall>t'. thread_step\<^sup>*\<^sup>* t t' \<longrightarrow> th_state t' = th_state t
        \<and> transition_to eid now t' s r = Err (InvalidTransition (th_state t) s)))
   \<and> (\<exists>t'. thread_step\<^sup>*\<^sup>* t t' \<and> is_terminal (th_state t'))"
proof (intro conjI impI allI)
  fix t' assume fin: "is_terminal (th_state t)" and run: "thread_step\<^sup>*\<^sup>* t t'"
  show same: "th_state t' = th_state t"
    using thread_sm.terminal_final [OF thread_run_state [OF run] fin] .
  show "transition_to eid now t' s r = Err (InvalidTransition (th_state t) s)"
    using fin same thread_sm.terminal_stuck by (simp add: transition_to_def)
next
  show "\<exists>t'. thread_step\<^sup>*\<^sup>* t t' \<and> is_terminal (th_state t')"
  proof (cases "is_terminal (th_state t)")
    case False
    then obtain s where s: "can_transition_to (th_state t) s" "is_terminal s"
      using thread_sm.exit_step by blast
    then obtain t' where "transition_to eid now t s r = Ok t'"
      by (simp add: transition_to_def Let_def)
    with s(2) show ?thesis
      using transition_to_Ok(2) by (blast intro: thread_step.transition)
  qed blast
qed

lemma terminal_thread_final_witness:
  "transition_to 5 3 (add_internal_message 2 (sample_thread\<lparr>th_state := Failed\<rparr>) (msg_user 1 ''hi'')) Running None
     = Err (InvalidTransition Failed Running)"
proof -
  let ?t = "sample_thread\<lparr>th_state := Failed\<rparr>"
  have "thread_step\<^sup>*\<^sup>* ?t (add_internal_message 2 ?t (msg_user 1 ''hi''))"
    by (blast intro: thread_step.internal)
  with terminal_thread_final [of ?t] show ?thesis by simp
qed

text \<open>
  Skills written by \<open>set_active_skills\<close> are the skills \<open>active_skills\<close> reads back,
  whatever else the metadata holds, provided \<open>serde\<close> reads back the value it wrote.
\<close>

theorem active_skills_roundtrip:
  assumes serde: "\<And>v. to_value ss = Ok v \<Longrightarrow> from_value v = Some ss"
    and "set_active_skills to_value now t ss = Ok t'"
  shows "active_skills from_value t' = ss
     \<and> (\<forall>k. k \<noteq> ACTIVE_SKILLS_METADATA_KEY \<longrightarrow> json_get (th_metadata t') k = json_get (th_metadata t) k)"
proof -
  obtain ms v where "th_metadata t = JObject ms" "to_value ss = Ok v"
      "t' = t\<lparr>th_metadata := JObject (hm_insert ms ACTIVE_SKILLS_METADATA_KEY v), th_updated_at := now\<rparr>"
    using assms(2) by (auto simp: set_active_skills_def split: json.splits sum.splits)
  then show ?thesis
    using serde by (simp add: active_skills_def json_get_def hm_get_def [symmetric] hm_simps)
qed

definition sample_skill :: active_skill_provenance where
  "sample_skill = \<lparr>as_doc_id = 3, as_name = ''s'', as_version = 1, as_snippet_names = [],
     as_force_activated = False\<rparr>"

lemma active_skills_roundtrip_witness:
  "\<exists>t'. set_active_skills (\<lambda>ss. Ok (JNumber (PosInt (of_nat (length ss))))) 4 sample_thread [sample_skill] = Ok t'
     \<and> active_skills (\<lambda>v. if v = JNumber (PosInt 1) then Some [sample_skill] else None) t' = [sample_skill]"
proof -
  let ?to = "\<lambda>ss :: active_skill_provenance list. Ok (JNumber (PosInt (of_nat (length ss)))) :: string + json"
  obtain t' where t': "set_active_skills ?to 4 sample_thread [sample_skill] = Ok t'"
    by (simp add: set_active_skills_def sample_thread_def thread_new_def)
  have "active_skills (\<lambda>v. if v = JNumber (PosInt 1) then Some [sample_skill] else None) t' = [sample_skill]"
    by (rule active_skills_roundtrip [OF _ t', THEN conjunct1]) auto
  with t' show ?thesis by blast
qed

end
