(* ===== verification/Thread_Tree.thy ===== *)
theory Thread_Tree
  imports Engine_Types
begin

text \<open>
  The parent/child forest of threads (\<open>runtime/tree.rs\<close>). \<open>ancestors\<close> is a \<open>while let\<close>
  loop with no bound of its own: it is a \<open>partial_function (option)\<close>, so that \<open>None\<close> is a
  loop that does not return, and its termination on every forest the runtime can build is
  a theorem.
\<close>

record thread_tree =
  parents :: "(thread_id, thread_id) hmap"
  children :: "(thread_id, thread_id list) hmap"

definition tree_new :: thread_tree where
  "tree_new = \<lparr>parents = [], children = []\<rparr>"

definition children_of :: "thread_tree \<Rightarrow> thread_id \<Rightarrow> thread_id list" where
  "children_of t i = (case hm_get (children t) i of Some cs \<Rightarrow> cs | None \<Rightarrow> [])"

definition parent_of :: "thread_tree \<Rightarrow> thread_id \<Rightarrow> thread_id option" where
  "parent_of t i = hm_get (parents t) i"

definition add_child :: "thread_tree \<Rightarrow> thread_id \<Rightarrow> thread_id \<Rightarrow> thread_tree" where
  "add_child t parent_id child_id =
     t\<lparr>parents := hm_insert (parents t) child_id parent_id,
       children := hm_insert (children t) parent_id (children_of t parent_id @ [child_id])\<rparr>"

partial_function (option) ancestors_from ::
  "thread_tree \<Rightarrow> thread_id \<Rightarrow> thread_id list \<Rightarrow> thread_id list option" where
  "ancestors_from t current result =
     (case hm_get (parents t) current of
        None \<Rightarrow> Some result
      | Some parent \<Rightarrow> ancestors_from t parent (result @ [parent]))"

definition ancestors :: "thread_tree \<Rightarrow> thread_id \<Rightarrow> thread_id list option" where
  "ancestors t i = ancestors_from t i []"

definition tree_remove :: "thread_tree \<Rightarrow> thread_id \<Rightarrow> thread_tree" where
  "tree_remove t i =
     (let ps = hm_remove (parents t) i;
          cs = (case hm_get (parents t) i of
                  None \<Rightarrow> children t
                | Some parent \<Rightarrow> hm_modify (children t) parent (filter (\<lambda>x. x \<noteq> i)))
      in t\<lparr>parents := ps, children := hm_remove cs i\<rparr>)"

definition is_root :: "thread_tree \<Rightarrow> thread_id \<Rightarrow> bool" where
  "is_root t i = (hm_get (parents t) i = None)"

section \<open>Invariants of the forest\<close>

definition child_rel :: "thread_tree \<Rightarrow> (thread_id \<times> thread_id) set" where
  "child_rel t = {(p, c). hm_get (parents t) c = Some p}"

definition tree_inv :: "thread_tree \<Rightarrow> bool" where
  "tree_inv t \<longleftrightarrow> acyclic (child_rel t)
     \<and> (\<forall>p c. c \<in> set (children_of t p) \<longrightarrow> hm_get (parents t) c = Some p)
     \<and> (\<forall>p. distinct (children_of t p))"

definition fresh_child :: "thread_tree \<Rightarrow> thread_id \<Rightarrow> thread_id \<Rightarrow> bool" where
  "fresh_child t p c \<longleftrightarrow> c \<noteq> p \<and> hm_get (parents t) c = None \<and> (\<forall>x. hm_get (parents t) x \<noteq> Some c)"

inductive tree_reach :: "thread_tree \<Rightarrow> bool" where
  new: "tree_reach tree_new"
| add: "tree_reach t \<Longrightarrow> fresh_child t p c \<Longrightarrow> tree_reach (add_child t p c)"
| remove: "tree_reach t \<Longrightarrow> tree_reach (tree_remove t i)"

lemma finite_child_rel: "finite (child_rel t)"
proof -
  have "child_rel t \<subseteq> (\<lambda>(c, p). (p, c)) ` set (parents t)"
    by (auto simp: child_rel_def hm_get_def dest: map_of_SomeD)
  then show ?thesis by (rule finite_subset) simp
qed

lemma child_rel_add: "fresh_child t p c \<Longrightarrow> child_rel (add_child t p c) = insert (p, c) (child_rel t)"
  by (auto simp: child_rel_def add_child_def fresh_child_def hm_simps split: if_splits)

lemma child_rel_remove: "child_rel (tree_remove t i) \<subseteq> child_rel t"
  by (auto simp: child_rel_def tree_remove_def Let_def hm_simps split: if_splits)

lemma fresh_no_descendant:
  assumes "fresh_child t p c"
  shows "(c, x) \<notin> (child_rel t)\<^sup>+"
proof
  assume "(c, x) \<in> (child_rel t)\<^sup>+"
  then obtain y where "(c, y) \<in> child_rel t" by (meson tranclD)
  with assms show False by (auto simp: child_rel_def fresh_child_def)
qed

lemma acyclic_add:
  assumes "acyclic (child_rel t)" and "fresh_child t p c"
  shows "acyclic (child_rel (add_child t p c))"
proof -
  have "(c, p) \<notin> (child_rel t)\<^sup>*"
    using fresh_no_descendant [OF assms(2)] assms(2)
    by (auto simp: fresh_child_def rtrancl_eq_or_trancl)
  with assms show ?thesis by (simp add: child_rel_add acyclic_insert)
qed

lemma children_of_add:
  "children_of (add_child t p c) q = (if q = p then children_of t p @ [c] else children_of t q)"
  by (simp add: children_of_def add_child_def hm_simps)

lemma parents_add: "hm_get (parents (add_child t p c)) x = (if x = c then Some p else hm_get (parents t) x)"
  by (simp add: add_child_def hm_simps)

lemma children_of_remove:
  "children_of (tree_remove t i) q =
     (if q = i then []
      else if hm_get (parents t) i = Some q then filter (\<lambda>x. x \<noteq> i) (children_of t q)
      else children_of t q)"
  by (auto simp: children_of_def tree_remove_def Let_def hm_simps split: option.splits)

lemma parents_remove: "hm_get (parents (tree_remove t i)) x = (if x = i then None else hm_get (parents t) x)"
  by (simp add: tree_remove_def Let_def hm_simps)

lemma tree_inv_add:
  assumes "tree_inv t" and "fresh_child t p c"
  shows "tree_inv (add_child t p c)"
proof -
  have own: "\<And>q x. x \<in> set (children_of t q) \<Longrightarrow> hm_get (parents t) x = Some q"
    and acy: "acyclic (child_rel t)" and dist: "\<And>q. distinct (children_of t q)"
    using assms(1) by (auto simp: tree_inv_def)
  have new: "\<And>q. c \<notin> set (children_of t q)"
    using own assms(2) by (auto simp: fresh_child_def)
  have "\<And>q x. x \<in> set (children_of (add_child t p c) q) \<Longrightarrow>
      hm_get (parents (add_child t p c)) x = Some q"
    using own new by (auto simp: children_of_add parents_add split: if_splits)
  moreover have "\<And>q. distinct (children_of (add_child t p c) q)"
    using dist new by (simp add: children_of_add)
  ultimately show ?thesis
    using acyclic_add [OF acy assms(2)] by (simp add: tree_inv_def)
qed

lemma tree_inv_remove: "tree_inv t \<Longrightarrow> tree_inv (tree_remove t i)"
  using child_rel_remove [of t i]
  by (auto simp: tree_inv_def children_of_remove parents_remove
      intro: acyclic_subset split: if_splits)

lemma tree_reach_inv: "tree_reach t \<Longrightarrow> tree_inv t"
proof (induction rule: tree_reach.induct)
  case new
  show ?case
    by (simp add: tree_inv_def tree_new_def children_of_def child_rel_def hm_simps acyclic_def)
next
  case (add t p c)
  then show ?case by (simp add: tree_inv_add)
next
  case (remove t i)
  then show ?case by (simp add: tree_inv_remove)
qed

section \<open>The ancestor walk\<close>

text \<open>\<open>xs\<close> is the chain of parents above \<open>i\<close>, ending at a root.\<close>

fun parent_chain :: "thread_tree \<Rightarrow> thread_id \<Rightarrow> thread_id list \<Rightarrow> bool" where
  "parent_chain t i [] = (hm_get (parents t) i = None)"
| "parent_chain t i (p # ps) = (hm_get (parents t) i = Some p \<and> parent_chain t p ps)"

lemma parent_chain_above: "parent_chain t i xs \<Longrightarrow> x \<in> set xs \<Longrightarrow> (x, i) \<in> (child_rel t)\<^sup>+"
proof (induction t i xs rule: parent_chain.induct)
  case (1 t i)
  then show ?case by simp
next
  case (2 t i p ps)
  then have "(p, i) \<in> child_rel t" by (simp add: child_rel_def)
  with 2 show ?case by (auto intro: trancl_into_trancl)
qed

lemma parent_chain_distinct:
  "parent_chain t i xs \<Longrightarrow> acyclic (child_rel t) \<Longrightarrow> distinct xs \<and> i \<notin> set xs"
proof (induction t i xs rule: parent_chain.induct)
  case (1 t i)
  then show ?case by simp
next
  case (2 t i p ps)
  then have "i \<notin> set (p # ps)"
    using parent_chain_above [of t i "p # ps" i] by (auto simp: acyclic_def)
  with 2 show ?case by simp
qed

lemma ancestors_from_wf:
  assumes "wf (child_rel t)"
  shows "\<exists>xs. ancestors_from t i acc = Some (acc @ xs) \<and> parent_chain t i xs"
  using assms
proof (induction i arbitrary: acc rule: wf_induct_rule)
  case (less i)
  show ?case
  proof (cases "hm_get (parents t) i")
    case None
    then have "ancestors_from t i acc = Some (acc @ []) \<and> parent_chain t i []"
      by (simp add: ancestors_from.simps)
    then show ?thesis by blast
  next
    case (Some p)
    then have "(p, i) \<in> child_rel t" by (simp add: child_rel_def)
    then obtain xs where "ancestors_from t p (acc @ [p]) = Some ((acc @ [p]) @ xs)"
      and "parent_chain t p xs"
      using less.IH by blast
    with Some have "ancestors_from t i acc = Some (acc @ p # xs) \<and> parent_chain t i (p # xs)"
      by (simp add: ancestors_from.simps [of t i])
    then show ?thesis by blast
  qed
qed

lemma ancestors_returns:
  assumes "tree_inv t"
  obtains xs where "ancestors t i = Some xs" "parent_chain t i xs"
proof -
  have "wf (child_rel t)"
    using assms finite_child_rel by (simp add: tree_inv_def finite_acyclic_wf)
  from ancestors_from_wf [OF this, of i "[]"] that show ?thesis
    by (auto simp: ancestors_def)
qed

lemma ancestors_from_self_loop:
  assumes ret: "ancestors_from t i acc = Some r"
  shows "hm_get (parents t) i \<noteq> Some i"
proof (rule ancestors_from.raw_induct
    [where P = "\<lambda>t i acc r. hm_get (parents t) i \<noteq> Some i", OF _ ret])
  fix f t i acc r
  assume IH: "\<And>t i acc r. f t i acc = Some r \<Longrightarrow> hm_get (parents t) i \<noteq> Some i"
    and eq: "(case hm_get (parents t) i of None \<Rightarrow> Some acc | Some p \<Rightarrow> f t p (acc @ [p])) = Some r"
  show "hm_get (parents t) i \<noteq> Some i"
  proof
    assume loop: "hm_get (parents t) i = Some i"
    with eq have "f t i (acc @ [i]) = Some r" by simp
    from IH [OF this] loop show False by simp
  qed
qed

section \<open>Properties\<close>

text \<open>
  C5. On every forest built by adding new threads and removing threads, \<open>ancestors\<close> returns,
  and what it returns is the chain of parents from the thread's parent up to a root,
  without repetition and without the thread itself.
\<close>

theorem ancestors_total:
  assumes "tree_reach t"
  shows "\<exists>xs. ancestors t i = Some xs \<and> parent_chain t i xs \<and> distinct xs \<and> i \<notin> set xs"
proof -
  have inv: "tree_inv t" using assms by (rule tree_reach_inv)
  then obtain xs where "ancestors t i = Some xs" "parent_chain t i xs"
    by (rule ancestors_returns)
  moreover have "distinct xs \<and> i \<notin> set xs"
    using parent_chain_distinct calculation(2) inv by (auto simp: tree_inv_def)
  ultimately show ?thesis by blast
qed

lemma ancestors_total_witness:
  "\<exists>xs. ancestors (add_child (add_child tree_new 1 2) 2 3) 3 = Some xs \<and> distinct xs \<and> 3 \<notin> set xs"
proof -
  have "tree_reach (add_child (add_child tree_new 1 2) 2 3)"
    by (intro tree_reach.intros)
      (simp_all add: fresh_child_def add_child_def tree_new_def children_of_def hm_get_def)
  from ancestors_total [OF this, of 3] show ?thesis by blast
qed

text \<open>
  \<open>ThreadTree::add_child\<close> has no guard of its own: registering a thread as its own child
  makes \<open>ancestors\<close> run forever.
\<close>

theorem ancestors_diverges_on_self_child: "ancestors (add_child t i i) i = None"
proof (cases "ancestors (add_child t i i) i")
  case (Some r)
  then have "hm_get (parents (add_child t i i)) i \<noteq> Some i"
    using ancestors_from_self_loop by (simp add: ancestors_def)
  then show ?thesis by (simp add: add_child_def hm_simps)
qed

text \<open>
  The two maps of the forest agree: in every reachable forest the children listed under
  a thread have it as parent and are listed once, and removing a thread leaves it neither a
  parent entry nor a place in any child list.
\<close>

theorem tree_maps_agree:
  assumes "tree_reach t"
  shows "(\<forall>p c. c \<in> set (children_of t p) \<longrightarrow> parent_of t c = Some p) \<and> (\<forall>p. distinct (children_of t p))
     \<and> is_root (tree_remove t i) i \<and> (\<forall>p. i \<notin> set (children_of (tree_remove t i) p))
     \<and> children_of (tree_remove t i) i = []"
proof -
  have inv: "tree_inv t" "tree_inv (tree_remove t i)"
    using assms tree_reach_inv tree_reach.remove by blast+
  have root: "hm_get (parents (tree_remove t i)) i = None" by (simp add: parents_remove)
  have "\<forall>p. i \<notin> set (children_of (tree_remove t i) p)"
    using inv(2) root by (auto simp: tree_inv_def)
  with inv(1) root show ?thesis
    by (simp add: tree_inv_def parent_of_def is_root_def children_of_remove)
qed

lemma tree_maps_agree_witness: "is_root (tree_remove (add_child tree_new 1 2) 2) 2"
proof -
  have "tree_reach (add_child tree_new 1 2)"
    by (intro tree_reach.intros) (simp add: fresh_child_def tree_new_def hm_get_def)
  from tree_maps_agree [OF this, of 2] show ?thesis by blast
qed

end
