(* ===== verification/Capability.thy ===== *)
theory Capability
  imports Engine_Types
begin

text \<open>
  Granted actions and capability leases (\<open>types/capability.rs\<close>): which action names a
  grant covers, when a lease is valid, and how its use budget is consumed and refunded.
\<close>

section \<open>Granted actions\<close>

definition hyphenated :: "string \<Rightarrow> string" where
  "hyphenated s = str_replace (CHR ''_'') (CHR ''-'') s"

definition underscored :: "string \<Rightarrow> string" where
  "underscored s = str_replace (CHR ''-'') (CHR ''_'') s"

fun covers :: "granted_actions \<Rightarrow> string \<Rightarrow> bool" where
  "covers All action_name = True"
| "covers (Specific actions) action_name =
     (\<exists>action \<in> set actions. action = action_name
        \<or> action = hyphenated action_name \<or> action = underscored action_name)"

fun is_all :: "granted_actions \<Rightarrow> bool" where
  "is_all All = True"
| "is_all (Specific _) = False"

fun ga_actions :: "granted_actions \<Rightarrow> string list" where
  "ga_actions All = []"
| "ga_actions (Specific actions) = actions"

text \<open>The wire format is a JSON array of names.\<close>

fun ga_serialize :: "granted_actions \<Rightarrow> string list" where
  "ga_serialize All = []"
| "ga_serialize (Specific v) = v"

definition ga_deserialize :: "string list \<Rightarrow> granted_actions" where
  "ga_deserialize v = (if v = [] then All else Specific v)"

lemma hyphenated_idem [simp]:
  "hyphenated (hyphenated s) = hyphenated s"
  "underscored (underscored s) = underscored s"
  "hyphenated (underscored s) = hyphenated s"
  "underscored (hyphenated s) = underscored s"
  by (simp_all add: hyphenated_def underscored_def)

lemma covers_alias:
  "covers g a \<or> covers g (hyphenated a) \<or> covers g (underscored a) \<longleftrightarrow> covers g a"
  by (cases g) auto

lemma covers_mono: "set xs \<subseteq> set ys \<Longrightarrow> covers (Specific xs) a \<Longrightarrow> covers (Specific ys) a"
  by auto

section \<open>Leases\<close>

definition is_valid :: "time \<Rightarrow> capability_lease \<Rightarrow> bool" where
  "is_valid now l =
     (if ls_revoked l then False
      else if (case ls_expires_at l of Some e \<Rightarrow> now \<ge> e | None \<Rightarrow> False) then False
      else if (case ls_uses_remaining l of Some r \<Rightarrow> r = 0 | None \<Rightarrow> False) then False
      else True)"

definition covers_action :: "capability_lease \<Rightarrow> string \<Rightarrow> bool" where
  "covers_action l action_name = covers (ls_granted_actions l) action_name"

definition consume_use :: "capability_lease \<Rightarrow> bool \<times> capability_lease" where
  "consume_use l =
     (case ls_uses_remaining l of
        Some r \<Rightarrow> if r = 0 then (False, l) else (True, l\<lparr>ls_uses_remaining := Some (r - 1)\<rparr>)
      | None \<Rightarrow> (True, l))"

definition refund_use :: "capability_lease \<Rightarrow> capability_lease" where
  "refund_use l =
     (case (ls_max_uses l, ls_uses_remaining l) of
        (Some m, Some r) \<Rightarrow> if r < m then l\<lparr>ls_uses_remaining := Some (r + 1)\<rparr> else l
      | _ \<Rightarrow> l)"

definition lease_wf :: "capability_lease \<Rightarrow> bool" where
  "lease_wf l \<longleftrightarrow> (case (ls_max_uses l, ls_uses_remaining l) of
      (Some m, Some r) \<Rightarrow> r \<le> m | (None, None) \<Rightarrow> True | _ \<Rightarrow> False)"

lemma is_valid_iff:
  "is_valid now l \<longleftrightarrow> \<not> ls_revoked l \<and> (\<forall>e. ls_expires_at l = Some e \<longrightarrow> now < e)
     \<and> ls_uses_remaining l \<noteq> Some 0"
  by (auto simp: is_valid_def split: option.splits)

lemma valid_consume:
  assumes "is_valid now l"
  shows "fst (consume_use l)"
    "snd (consume_use l) = l\<lparr>ls_uses_remaining := map_option (\<lambda>r. r - 1) (ls_uses_remaining l)\<rparr>"
  using assms by (auto simp: is_valid_iff consume_use_def split: option.splits)

lemma consume_frame:
  "snd (consume_use l)\<lparr>ls_uses_remaining := u\<rparr> = l\<lparr>ls_uses_remaining := u\<rparr>"
  by (simp add: consume_use_def split: option.splits)

lemma consume_wf: "lease_wf l \<Longrightarrow> lease_wf (snd (consume_use l))"
  by (auto simp: lease_wf_def consume_use_def split: option.splits
      intro: order_trans [OF word_dec_le])

lemma refund_frame: "refund_use l\<lparr>ls_uses_remaining := u\<rparr> = l\<lparr>ls_uses_remaining := u\<rparr>"
  by (auto simp: refund_use_def split: option.splits)

lemma refund_wf: "lease_wf l \<Longrightarrow> lease_wf (refund_use l)"
  by (auto simp: lease_wf_def refund_use_def split: option.splits intro: word_inc_le)

lemma refund_after_consume:
  assumes "lease_wf l" and "ls_uses_remaining l \<noteq> Some 0"
  shows "refund_use (snd (consume_use l)) = l"
proof (cases "ls_uses_remaining l")
  case None
  then show ?thesis by (simp add: consume_use_def refund_use_def split: option.splits)
next
  case (Some r)
  with assms obtain m where m: "ls_max_uses l = Some m" "r \<le> m" and r: "r \<noteq> 0"
    by (auto simp: lease_wf_def split: option.splits)
  have "0 < unat r" using r by (simp add: unat_gt_0)
  moreover have "unat r \<le> unat m" using m by (simp add: word_le_nat_alt)
  ultimately have "r - 1 < m"
    using unat_dec [OF r] by (simp add: word_less_nat_alt)
  with Some m r show ?thesis by (simp add: consume_use_def refund_use_def)
qed

section \<open>Properties\<close>

text \<open>
  The wire format of a grant is lossy exactly at the empty list: \<open>Specific []\<close> (no
  action) is written as \<open>[]\<close>, which is read back as \<open>All\<close> (every action). Every other grant
  survives the round trip.
\<close>

theorem granted_actions_roundtrip:
  "(ga_deserialize (ga_serialize g) = g \<longleftrightarrow> g \<noteq> Specific [])
   \<and> ga_deserialize (ga_serialize (Specific [])) = All
   \<and> \<not> covers (Specific []) a \<and> covers (ga_deserialize (ga_serialize (Specific []))) a"
  by (cases g) (simp_all add: ga_deserialize_def)

end
