(* ===== verification/Lease_Manager.thy ===== *)
theory Lease_Manager
  imports Capability
begin

text \<open>
  The lease manager (\<open>capability/lease.rs\<close>): granting, checking, consuming, refunding,
  narrowing, revoking and expiring leases, and deriving a child thread's leases from its
  parent's. Each operation runs under one lock of the \<open>active\<close> map, so it is one step;
  \<open>derive_child_leases\<close> reads under one lock and inserts under another, so its step inserts
  what was derived from an arbitrary earlier snapshot.
\<close>

type_synonym lease_manager = "(lease_id, capability_lease) hmap"

definition lease_manager_new :: lease_manager where
  "lease_manager_new = []"

definition debug_lease_id :: "lease_id \<Rightarrow> string" where
  "debug_lease_id i = ''LeaseId('' @ show_nat i @ '')''"

section \<open>Operations\<close>

definition grant ::
  "lease_id \<Rightarrow> time \<Rightarrow> lease_manager \<Rightarrow> thread_id \<Rightarrow> string \<Rightarrow> granted_actions \<Rightarrow>
   time option \<Rightarrow> u32 option \<Rightarrow> (engine_error + capability_lease) \<times> lease_manager" where
  "grant new_id now active thread_id capability_name granted_actions duration max_uses =
     (if (case duration of Some d \<Rightarrow> d \<le> 0 | None \<Rightarrow> False) then
        (Err (Effect (''lease duration must be positive, got ''
           @ show_int (num_seconds (the duration)) @ ''s'')), active)
      else if max_uses = Some 0 then
        (Err (Effect ''lease max_uses must be > 0''), active)
      else
        let lease = \<lparr>ls_id = new_id, ls_thread_id = thread_id,
              ls_capability_name = capability_name, ls_granted_actions = granted_actions,
              ls_granted_at = now, ls_expires_at = map_option (\<lambda>d. now + d) duration,
              ls_max_uses = max_uses, ls_uses_remaining = max_uses,
              ls_revoked = False, ls_revoked_reason = None\<rparr>
        in (Ok lease, hm_insert active new_id lease))"

definition check :: "time \<Rightarrow> lease_manager \<Rightarrow> lease_id \<Rightarrow> engine_error + capability_lease" where
  "check now active lease_id =
     (case hm_get active lease_id of
        None \<Rightarrow> Err (LeaseNotFound (debug_lease_id lease_id))
      | Some lease \<Rightarrow>
          if \<not> is_valid now lease then Err (LeaseExpired (ls_capability_name lease))
          else Ok lease)"

definition mgr_consume_use ::
  "time \<Rightarrow> lease_manager \<Rightarrow> lease_id \<Rightarrow> (engine_error + unit) \<times> lease_manager" where
  "mgr_consume_use now active lease_id =
     (case hm_get active lease_id of
        None \<Rightarrow> (Err (LeaseExpired (''lease '' @ debug_lease_id lease_id @ '' not found'')), active)
      | Some lease \<Rightarrow>
          if \<not> is_valid now lease then (Err (LeaseExpired (ls_capability_name lease)), active)
          else let (ok, lease') = consume_use lease; active' = hm_insert active lease_id lease'
               in if \<not> ok then (Err (LeaseExpired (ls_capability_name lease)), active')
                  else (Ok (), active'))"

definition mgr_refund_use ::
  "lease_manager \<Rightarrow> lease_id \<Rightarrow> (engine_error + unit) \<times> lease_manager" where
  "mgr_refund_use active lease_id =
     (case hm_get active lease_id of
        None \<Rightarrow> (Err (LeaseExpired (''lease '' @ debug_lease_id lease_id @ '' not found'')), active)
      | Some lease \<Rightarrow> (Ok (), hm_insert active lease_id (refund_use lease)))"

definition update_granted_actions ::
  "lease_manager \<Rightarrow> lease_id \<Rightarrow> granted_actions \<Rightarrow>
   (engine_error + capability_lease) \<times> lease_manager" where
  "update_granted_actions active lease_id granted_actions =
     (case hm_get active lease_id of
        None \<Rightarrow> (Err (LeaseNotFound (debug_lease_id lease_id)), active)
      | Some lease \<Rightarrow>
          let lease' = lease\<lparr>ls_granted_actions := granted_actions\<rparr>
          in (Ok lease', hm_insert active lease_id lease'))"

definition revoke :: "lease_manager \<Rightarrow> lease_id \<Rightarrow> string \<Rightarrow> lease_manager" where
  "revoke active lease_id reason =
     (case hm_get active lease_id of
        None \<Rightarrow> active
      | Some lease \<Rightarrow>
          hm_insert active lease_id
            (lease\<lparr>ls_revoked := True, ls_revoked_reason := Some reason\<rparr>))"

definition expire_stale :: "time \<Rightarrow> lease_manager \<Rightarrow> nat \<times> lease_manager" where
  "expire_stale now active =
     (let active' = hm_retain active (\<lambda>_ lease. is_valid now lease)
      in (length active - length active', active'))"

definition active_for_thread :: "time \<Rightarrow> lease_manager \<Rightarrow> thread_id \<Rightarrow> capability_lease list" where
  "active_for_thread now active thread_id =
     filter (\<lambda>l. ls_thread_id l = thread_id \<and> is_valid now l) (hm_values active)"

definition find_lease_for_action ::
  "time \<Rightarrow> lease_manager \<Rightarrow> thread_id \<Rightarrow> string \<Rightarrow> capability_lease option" where
  "find_lease_for_action now active thread_id action_name =
     List.find (\<lambda>l. ls_thread_id l = thread_id \<and> is_valid now l
        \<and> (covers_action l action_name \<or> covers_action l (hyphenated action_name)
           \<or> covers_action l (underscored action_name))) (hm_values active)"

text \<open>
  The loop of \<open>derive_child_leases\<close>. \<open>new_id k\<close> is the identifier drawn for the \<open>k\<close>-th child
  lease; \<open>req\<close> is the iteration order of the requested set. The parent leases were
  selected at an earlier clock reading, hence the second validity check at \<open>now\<close>.
\<close>

definition child_grants :: "string list option \<Rightarrow> granted_actions \<Rightarrow> granted_actions" where
  "child_grants requested parent_grants =
     (case requested of
        Some req \<Rightarrow>
          (case parent_grants of
             All \<Rightarrow> Specific req
           | Specific parent_actions \<Rightarrow> Specific (filter (\<lambda>a. a \<in> set req) parent_actions))
      | None \<Rightarrow> parent_grants)"

definition derive_lease ::
  "lease_id \<Rightarrow> time \<Rightarrow> thread_id \<Rightarrow> granted_actions \<Rightarrow> capability_lease \<Rightarrow> capability_lease" where
  "derive_lease new_id now child_thread_id grants parent =
     \<lparr>ls_id = new_id, ls_thread_id = child_thread_id,
      ls_capability_name = ls_capability_name parent, ls_granted_actions = grants,
      ls_granted_at = now, ls_expires_at = ls_expires_at parent,
      ls_max_uses = ls_uses_remaining parent, ls_uses_remaining = ls_uses_remaining parent,
      ls_revoked = False, ls_revoked_reason = None\<rparr>"

fun derive_loop ::
  "(nat \<Rightarrow> lease_id) \<Rightarrow> time \<Rightarrow> thread_id \<Rightarrow> string list option \<Rightarrow> nat \<Rightarrow>
   capability_lease list \<Rightarrow> capability_lease list" where
  "derive_loop new_id now child requested k [] = []"
| "derive_loop new_id now child requested k (parent # ps) =
     (if \<not> is_valid now parent then derive_loop new_id now child requested k ps
      else
        let grants = child_grants requested (ls_granted_actions parent)
        in if grants = Specific [] \<and> requested \<noteq> None
           then derive_loop new_id now child requested k ps
           else derive_lease (new_id k) now child grants parent
                  # derive_loop new_id now child requested (Suc k) ps)"

definition insert_all :: "lease_manager \<Rightarrow> capability_lease list \<Rightarrow> lease_manager" where
  "insert_all active ls = foldl (\<lambda>m l. hm_insert m (ls_id l) l) active ls"

definition derive_from ::
  "(nat \<Rightarrow> lease_id) \<Rightarrow> time \<Rightarrow> time \<Rightarrow> lease_manager \<Rightarrow> thread_id \<Rightarrow> thread_id \<Rightarrow>
   string list option \<Rightarrow> capability_lease list" where
  "derive_from new_id now now' snapshot parent child requested =
     derive_loop new_id now' child requested 0 (active_for_thread now snapshot parent)"

definition derive_child_leases ::
  "(nat \<Rightarrow> lease_id) \<Rightarrow> time \<Rightarrow> time \<Rightarrow> lease_manager \<Rightarrow> thread_id \<Rightarrow> thread_id \<Rightarrow>
   string list option \<Rightarrow> capability_lease list \<times> lease_manager" where
  "derive_child_leases new_id now now' active parent child requested =
     (let child_leases = derive_from new_id now now' active parent child requested
      in (child_leases, insert_all active child_leases))"

definition find_and_consume ::
  "time \<Rightarrow> lease_manager \<Rightarrow> thread_id \<Rightarrow> string \<Rightarrow>
   (engine_error + capability_lease) \<times> lease_manager" where
  "find_and_consume now active thread_id action_name =
     (case List.find (\<lambda>kl. ls_thread_id (snd kl) = thread_id \<and> is_valid now (snd kl)
              \<and> covers_action (snd kl) action_name) active of
        None \<Rightarrow> (Err (LeaseNotFound (''no valid lease for action '' @ [CHR 39] @ action_name @ [CHR 39])), active)
      | Some (k, lease) \<Rightarrow>
          let (ok, lease') = consume_use lease; active' = hm_insert active k lease'
          in if \<not> ok then (Err (LeaseExpired (ls_capability_name lease)), active')
             else (Ok lease', active'))"

section \<open>Invariant\<close>

text \<open>Entries are stored under their own identifier, and no lease exceeds its budget.\<close>

definition mgr_inv :: "lease_manager \<Rightarrow> bool" where
  "mgr_inv m \<longleftrightarrow> hm_wf m \<and> (\<forall>k l. hm_get m k = Some l \<longrightarrow> ls_id l = k \<and> lease_wf l)"

text \<open>
  The steps of the manager, over the manager and the set of identifiers drawn so far: those
  drawn by \<open>grant\<close> and \<open>derive_child_leases\<close> are new, as \<open>Uuid::new_v4\<close> promises.
\<close>

inductive mgr_step :: "lease_id set \<times> lease_manager \<Rightarrow> lease_id set \<times> lease_manager \<Rightarrow> bool" where
  grant: "new_id \<notin> used \<Longrightarrow>
    mgr_step (used, m) (insert new_id used, snd (grant new_id now m tid cap ga dur mu))"
| consume: "mgr_step (used, m) (used, snd (mgr_consume_use now m i))"
| refund: "mgr_step (used, m) (used, snd (mgr_refund_use m i))"
| narrow: "mgr_step (used, m) (used, snd (update_granted_actions m i ga))"
| revoke: "mgr_step (used, m) (used, revoke m i reason)"
| expire: "mgr_step (used, m) (used, snd (expire_stale now m))"
| derive: "derive_from new_id now now' snapshot parent child req = cs \<Longrightarrow>
    ls_id ` set cs \<inter> used = {} \<Longrightarrow> mgr_step (used, m) (used \<union> ls_id ` set cs, insert_all m cs)"
| find_consume: "mgr_step (used, m) (used, snd (find_and_consume now m tid a))"

definition ids_used :: "lease_id set \<times> lease_manager \<Rightarrow> bool" where
  "ids_used s \<longleftrightarrow> mgr_inv (snd s) \<and> dom (hm_get (snd s)) \<subseteq> fst s"

lemma mgr_inv_insert:
  "mgr_inv m \<Longrightarrow> ls_id l = k \<Longrightarrow> lease_wf l \<Longrightarrow> mgr_inv (hm_insert m k l)"
  by (auto simp: mgr_inv_def hm_simps hm.wf_put split: if_splits)

lemma mgr_inv_get: "mgr_inv m \<Longrightarrow> hm_get m k = Some l \<Longrightarrow> ls_id l = k \<and> lease_wf l"
  by (simp add: mgr_inv_def)

lemma mgr_inv_wf: "mgr_inv m \<Longrightarrow> hm_wf m"
  by (simp add: mgr_inv_def)

lemma ls_updates [simp]:
  "ls_id (snd (consume_use l)) = ls_id l" "ls_id (refund_use l) = ls_id l"
  "ls_revoked (snd (consume_use l)) = ls_revoked l" "ls_revoked (refund_use l) = ls_revoked l"
  by (auto simp: consume_use_def refund_use_def split: option.splits)

lemma derive_loop_mem:
  "c \<in> set (derive_loop new_id now child req k ps) \<Longrightarrow>
   \<exists>p j. p \<in> set ps \<and> is_valid now p \<and>
     c = derive_lease (new_id j) now child (child_grants req (ls_granted_actions p)) p"
  by (induction new_id now child req k ps rule: derive_loop.induct)
    (force simp: Let_def split: if_splits)+

lemma lease_wf_derive: "lease_wf (derive_lease i now child g p)"
  by (simp add: lease_wf_def derive_lease_def split: option.splits)

lemma mgr_inv_insert_all:
  "mgr_inv m \<Longrightarrow> (\<And>l. l \<in> set ls \<Longrightarrow> lease_wf l) \<Longrightarrow> mgr_inv (insert_all m ls)"
  by (induction ls arbitrary: m) (auto simp: insert_all_def mgr_inv_insert)

lemma insert_all_get:
  "hm_get (insert_all m ls) k = Some l \<Longrightarrow> hm_get m k = Some l \<or> (l \<in> set ls \<and> ls_id l = k)"
  by (induction ls arbitrary: m) (force simp: insert_all_def hm_simps split: if_splits)+

lemma insert_all_frame:
  "k \<notin> ls_id ` set ls \<Longrightarrow> hm_get (insert_all m ls) k = hm_get m k"
  by (induction ls arbitrary: m) (auto simp: insert_all_def hm_simps)

lemma find_entry:
  assumes "hm_wf m" and "List.find P m = Some (k, l)"
  shows "hm_get m k = Some l" "P (k, l)"
  using assms by (auto simp: find_Some_iff hm_entry_get [symmetric] simp del: split_paired_All)

text \<open>Every operation on existing leases rewrites at most one entry, in one of four ways.\<close>

inductive lease_edit :: "capability_lease \<Rightarrow> capability_lease \<Rightarrow> bool" where
  "lease_edit l (snd (consume_use l))"
| "lease_edit l (refund_use l)"
| "lease_edit l (l\<lparr>ls_granted_actions := ga\<rparr>)"
| "lease_edit l (l\<lparr>ls_revoked := True, ls_revoked_reason := r\<rparr>)"

lemma lease_edit_keeps:
  "lease_edit l l' \<Longrightarrow> ls_id l' = ls_id l \<and> (lease_wf l \<longrightarrow> lease_wf l') \<and> (ls_revoked l \<longrightarrow> ls_revoked l')"
  by (induction rule: lease_edit.induct)
    (simp_all add: consume_wf refund_wf, simp_all add: lease_wf_def split: option.splits)

definition edits_one :: "lease_manager \<Rightarrow> lease_manager \<Rightarrow> bool" where
  "edits_one m m' \<longleftrightarrow> m' = m \<or>
     (\<exists>k l l'. hm_get m k = Some l \<and> lease_edit l l' \<and> m' = hm_insert m k l')"

lemma edits_one_refl [simp]: "edits_one m m"
  by (simp add: edits_one_def)

lemma edits_oneI: "hm_get m k = Some l \<Longrightarrow> lease_edit l l' \<Longrightarrow> edits_one m (hm_insert m k l')"
  by (auto simp: edits_one_def)

lemma consume_edits: "edits_one m (snd (mgr_consume_use now m i))"
proof (cases "hm_get m i")
  case (Some l)
  then have "snd (mgr_consume_use now m i) = (if is_valid now l then hm_insert m i (snd (consume_use l)) else m)"
    by (simp add: mgr_consume_use_def Let_def split: prod.splits)
  then show ?thesis using edits_oneI [OF Some lease_edit.intros(1)] by simp
qed (simp add: mgr_consume_use_def)

lemma refund_edits: "edits_one m (snd (mgr_refund_use m i))"
  by (simp add: mgr_refund_use_def edits_oneI lease_edit.intros split: option.splits)

lemma narrow_edits: "edits_one m (snd (update_granted_actions m i ga))"
  by (simp add: update_granted_actions_def Let_def edits_oneI lease_edit.intros split: option.splits)

lemma revoke_edits: "edits_one m (revoke m i r)"
  by (simp add: revoke_def edits_oneI lease_edit.intros split: option.splits)

lemma find_consume_edits:
  assumes "hm_wf m"
  shows "edits_one m (snd (find_and_consume now m tid a))"
proof -
  let ?P = "\<lambda>kl. ls_thread_id (snd kl) = tid \<and> is_valid now (snd kl) \<and> covers_action (snd kl) a"
  show ?thesis
  proof (cases "List.find ?P m")
    case (Some kl)
    then obtain k l where kl: "List.find ?P m = Some (k, l)" by (cases kl) simp
    have "edits_one m (hm_insert m k (snd (consume_use l)))"
      using find_entry(1) [OF assms kl] edits_oneI lease_edit.intros(1) by blast
    then show ?thesis
      by (auto simp: find_and_consume_def kl Let_def split: prod.splits)
  qed (simp add: find_and_consume_def)
qed

lemma edits_one_inv:
  assumes "edits_one m m'" and "ids_used (used, m)"
  shows "ids_used (used, m')"
proof -
  consider "m' = m" | k l l' where "hm_get m k = Some l" "lease_edit l l'" "m' = hm_insert m k l'"
    using assms(1) by (auto simp: edits_one_def)
  then show ?thesis
  proof cases
    case 2
    have m: "mgr_inv m" and k: "k \<in> used" and d: "dom (hm_get m) \<subseteq> used"
      using assms(2) 2(1) by (auto simp: ids_used_def)
    have "ls_id l' = k" "lease_wf l'"
      using mgr_inv_get [OF m 2(1)] lease_edit_keeps [OF 2(2)] by auto
    then show ?thesis using mgr_inv_insert [OF m, of l' k] k d 2(3) by (simp add: ids_used_def hm.dom_put)
  qed (use assms(2) in simp)
qed

lemma grant_inv:
  assumes "ids_used (used, m)"
  shows "ids_used (insert i used, snd (grant i now m tid cap ga dur mu))"
  using assms
  by (auto simp: ids_used_def grant_def Let_def lease_wf_def hm.dom_put split: option.splits
      intro!: mgr_inv_insert)

lemma derive_inv:
  assumes "ids_used (used, m)" and "derive_from f now now' snapshot parent child req = cs"
  shows "ids_used (used \<union> ls_id ` set cs, insert_all m cs)"
proof -
  have "lease_wf c" if "c \<in> set cs" for c
    using assms(2) that by (auto simp: derive_from_def lease_wf_derive dest!: derive_loop_mem)
  then have "mgr_inv (insert_all m cs)" using assms(1) by (simp add: ids_used_def mgr_inv_insert_all)
  then show ?thesis
    using assms(1) by (auto simp: ids_used_def dest!: insert_all_get)
qed

lemma expire_inv:
  assumes "ids_used (used, m)"
  shows "ids_used (used, snd (expire_stale now m))"
  using assms
  by (auto simp: ids_used_def expire_stale_def Let_def mgr_inv_def hm.get_keep hm.wf_keep
      split: option.splits if_splits)

lemma mgr_inv_step: "mgr_step s s' \<Longrightarrow> ids_used s \<Longrightarrow> ids_used s'"
proof (induction rule: mgr_step.induct)
  case (find_consume used m now tid a)
  then have "hm_wf m" by (simp add: ids_used_def mgr_inv_wf)
  with find_consume show ?case using edits_one_inv find_consume_edits by blast
qed (auto intro: grant_inv derive_inv expire_inv edits_one_inv [OF consume_edits]
    edits_one_inv [OF refund_edits] edits_one_inv [OF narrow_edits] edits_one_inv [OF revoke_edits])

lemma mgr_inv_run: "mgr_step\<^sup>*\<^sup>* s s' \<Longrightarrow> ids_used s \<Longrightarrow> ids_used s'"
  by (induction rule: rtranclp_induct) (auto intro: mgr_inv_step)

section \<open>Properties\<close>

subsection \<open>Budgets\<close>

text \<open>A sequence of uses of one lease at successive clock readings.\<close>

fun consume_many ::
  "lease_manager \<Rightarrow> lease_id \<Rightarrow> time list \<Rightarrow> (engine_error + unit) list \<times> lease_manager" where
  "consume_many m i [] = ([], m)"
| "consume_many m i (now # ts) =
     (let (r, m1) = mgr_consume_use now m i; (rs, m2) = consume_many m1 i ts in (r # rs, m2))"

lemma consume_dead:
  assumes "hm_get m i = Some l" "ls_uses_remaining l = Some 0"
  shows "mgr_consume_use now m i = (Err (LeaseExpired (ls_capability_name l)), m)"
  using assms by (simp add: mgr_consume_use_def is_valid_iff)

lemma consume_live:
  assumes "hm_get m i = Some l" "is_valid now l"
  shows "mgr_consume_use now m i = (Ok (), hm_insert m i (snd (consume_use l)))"
  using assms valid_consume(1) [OF assms(2)]
  by (auto simp: mgr_consume_use_def Let_def split: prod.splits)

lemma valid_at:
  "\<not> ls_revoked l \<Longrightarrow> \<forall>e. ls_expires_at l = Some e \<longrightarrow> now < e \<Longrightarrow>
   ls_uses_remaining l = Some r \<Longrightarrow> is_valid now l \<longleftrightarrow> r \<noteq> 0"
  by (auto simp: is_valid_iff)

lemma consume_many_dead:
  "hm_get m i = Some l \<Longrightarrow> ls_uses_remaining l = Some 0 \<Longrightarrow>
   consume_many m i ts = (replicate (length ts) (Err (LeaseExpired (ls_capability_name l))), m)"
  by (induction ts) (simp_all add: consume_dead)

lemma consume_many_live:
  assumes "hm_get m i = Some l" and "\<not> ls_revoked l"
    and "\<forall>now \<in> set ts. \<forall>e. ls_expires_at l = Some e \<longrightarrow> now < e"
    and "ls_uses_remaining l = Some r"
  shows "\<exists>m' u. consume_many m i ts =
       (replicate (min (length ts) (unat r)) (Ok ())
        @ replicate (length ts - unat r) (Err (LeaseExpired (ls_capability_name l))), m')
     \<and> hm_get m' i = Some (l\<lparr>ls_uses_remaining := Some u\<rparr>) \<and> unat u = unat r - length ts"
  using assms
proof (induction ts arbitrary: m l r)
  case Nil
  then have "l\<lparr>ls_uses_remaining := Some r\<rparr> = l" by simp
  with Nil show ?case by (auto intro!: exI [of _ r])
next
  case (Cons now ts)
  show ?case
  proof (cases "r = 0")
    case True
    with Cons.prems have "l\<lparr>ls_uses_remaining := Some 0\<rparr> = l" by simp
    with True Cons.prems show ?thesis
      by (auto simp: consume_many_dead consume_dead intro!: exI [of _ 0])
  next
    case False
    let ?l = "l\<lparr>ls_uses_remaining := Some (r - 1)\<rparr>"
    have "is_valid now l" using Cons.prems False valid_at by simp
    then have step: "mgr_consume_use now m i = (Ok (), hm_insert m i ?l)"
      using consume_live Cons.prems(1,4) valid_consume(2) by fastforce
    obtain k where k: "unat r = Suc k" using False unat_gt_0 gr0_conv_Suc by blast
    have "unat (r - 1) = k" using unat_dec [OF False] k by simp
    with Cons.IH [of "hm_insert m i ?l" ?l "r - 1"] Cons.prems(2,3) step k show ?thesis
      by (auto simp: hm_simps)
  qed
qed

text \<open>
  C3. A lease with \<open>r\<close> uses left, neither revoked nor expired at any of \<open>n\<close> successive uses,
  permits exactly the first \<open>min n r\<close> of them and refuses the rest with \<open>LeaseExpired\<close>, and
  its counter ends at \<open>r - n\<close> (zero when \<open>n\<close> is larger) without wrapping.
\<close>

theorem lease_budget_exact:
  assumes "hm_get m i = Some l" and "\<not> ls_revoked l"
    and "\<forall>now \<in> set ts. \<forall>e. ls_expires_at l = Some e \<longrightarrow> now < e"
    and "ls_uses_remaining l = Some r"
    and "consume_many m i ts = (rs, m')"
  shows "rs = replicate (min (length ts) (unat r)) (Ok ())
        @ replicate (length ts - unat r) (Err (LeaseExpired (ls_capability_name l)))
     \<and> (\<exists>u. hm_get m' i = Some (l\<lparr>ls_uses_remaining := Some u\<rparr>) \<and> unat u = unat r - length ts)"
  using consume_many_live [OF assms(1-4)] assms(5) by auto

definition sample_lease :: capability_lease where
  "sample_lease = \<lparr>ls_id = 7, ls_thread_id = 1, ls_capability_name = ''tools'',
     ls_granted_actions = Specific [''web-search''], ls_granted_at = 0, ls_expires_at = Some 100,
     ls_max_uses = Some 2, ls_uses_remaining = Some 2, ls_revoked = False, ls_revoked_reason = None\<rparr>"

abbreviation sample_mgr :: lease_manager where
  "sample_mgr \<equiv> [(7, sample_lease)]"

lemma lease_budget_exact_witness:
  "fst (consume_many sample_mgr 7 [10, 20, 30])
     = [Ok (), Ok (), Err (LeaseExpired ''tools'')]"
proof -
  obtain rs m' where run: "consume_many sample_mgr 7 [10, 20, 30] = (rs, m')"
    by (cases "consume_many sample_mgr 7 [10, 20, 30]")
  have "hm_get sample_mgr 7 = Some sample_lease" by (simp add: hm_get_def)
  from lease_budget_exact [OF this _ _ _ run] run show ?thesis
    by (simp add: sample_lease_def replicate_two)
qed

subsection \<open>Revocation\<close>

definition dead :: "lease_manager \<Rightarrow> lease_id \<Rightarrow> bool" where
  "dead m i \<longleftrightarrow> (\<forall>l. hm_get m i = Some l \<longrightarrow> ls_revoked l)"

lemma edits_one_dead: "edits_one m m' \<Longrightarrow> dead m i \<Longrightarrow> dead m' i"
  by (auto simp: edits_one_def dead_def hm_simps dest: lease_edit_keeps split: if_splits)

lemma dead_step:
  "mgr_step s s' \<Longrightarrow> ids_used s \<Longrightarrow> i \<in> fst s \<Longrightarrow> dead (snd s) i \<Longrightarrow> i \<in> fst s' \<and> dead (snd s') i"
proof (induction rule: mgr_step.induct)
  case (grant new_id used m now tid cap ga dur mu)
  then show ?case
    by (auto simp: dead_def grant_def Let_def hm_simps)
next
  case (derive new_id now now' snapshot parent child req cs used m)
  then have "i \<notin> ls_id ` set cs" by auto
  with derive show ?case by (simp add: dead_def insert_all_frame)
next
  case (expire used m now)
  then show ?case
    by (auto simp: dead_def expire_stale_def Let_def ids_used_def mgr_inv_def hm.get_keep
        split: option.splits if_splits)
next
  case (find_consume used m now tid a)
  then have "hm_wf m" by (simp add: ids_used_def mgr_inv_wf)
  with find_consume show ?case using edits_one_dead find_consume_edits by fastforce
qed (auto intro: edits_one_dead [OF consume_edits] edits_one_dead [OF refund_edits]
    edits_one_dead [OF narrow_edits] edits_one_dead [OF revoke_edits])

lemma dead_run:
  "mgr_step\<^sup>*\<^sup>* s s' \<Longrightarrow> ids_used s \<Longrightarrow> i \<in> fst s \<Longrightarrow> dead (snd s) i \<Longrightarrow>
   ids_used s' \<and> dead (snd s') i"
proof -
  assume "mgr_step\<^sup>*\<^sup>* s s'" "ids_used s" "i \<in> fst s" "dead (snd s) i"
  then have "ids_used s' \<and> i \<in> fst s' \<and> dead (snd s') i"
    by (induction rule: rtranclp_induct) (auto dest: dead_step mgr_inv_step)
  then show ?thesis by simp
qed

lemma find_consume_Ok:
  assumes "hm_wf m" and "find_and_consume now m tid a = (Ok l', m')"
  obtains k l where "hm_get m k = Some l" "ls_thread_id l = tid" "is_valid now l"
    "covers_action l a" "l' = snd (consume_use l)" "m' = hm_insert m k l'"
proof -
  let ?P = "\<lambda>kl. ls_thread_id (snd kl) = tid \<and> is_valid now (snd kl) \<and> covers_action (snd kl) a"
  obtain k l where kl: "List.find ?P m = Some (k, l)" "l' = snd (consume_use l)" "m' = hm_insert m k l'"
    using assms(2)
    by (fastforce simp: find_and_consume_def Let_def split: option.splits prod.splits if_splits)
  from that find_entry [OF assms(1) kl(1)] kl(2,3) show ?thesis by simp
qed

text \<open>
  C1. Revocation is permanent: once \<open>revoke\<close> has run on a lease, no sequence of manager
  operations makes it pass \<open>check\<close> again, be consumed, or be returned by
  \<open>find_and_consume\<close>.
\<close>

theorem revoked_forever:
  assumes "ids_used (used, m)" and "hm_get m i \<noteq> None"
    and "mgr_step\<^sup>*\<^sup>* (used, revoke m i reason) (used', m')"
  shows "\<not> is_ok (check now m' i) \<and> \<not> is_ok (fst (mgr_consume_use now m' i))
     \<and> (\<forall>l. fst (find_and_consume now m' tid a) = Ok l \<longrightarrow> ls_id l \<noteq> i)"
proof -
  have "ids_used (used, revoke m i reason)"
    using edits_one_inv [OF revoke_edits assms(1)] .
  moreover have "i \<in> used" using assms(1,2) by (auto simp: ids_used_def)
  moreover have "dead (revoke m i reason) i"
    by (auto simp: dead_def revoke_def hm_simps split: option.splits)
  ultimately have inv: "mgr_inv m'" and dead: "dead m' i"
    using dead_run [OF assms(3)] by (auto simp: ids_used_def)
  have "\<not> is_ok (check now m' i)" "\<not> is_ok (fst (mgr_consume_use now m' i))"
    using dead by (auto simp: dead_def check_def mgr_consume_use_def is_valid_iff split: option.splits)
  moreover have "\<forall>l. fst (find_and_consume now m' tid a) = Ok l \<longrightarrow> ls_id l \<noteq> i"
  proof (intro allI impI)
    fix l assume "fst (find_and_consume now m' tid a) = Ok l"
    then obtain m2 where "find_and_consume now m' tid a = (Ok l, m2)"
      by (metis prod.collapse)
    from find_consume_Ok [OF mgr_inv_wf [OF inv] this] obtain k p where
      p: "hm_get m' k = Some p" "is_valid now p" "l = snd (consume_use p)" by metis
    then show "ls_id l \<noteq> i"
      using mgr_inv_get [OF inv p(1)] dead by (auto simp: dead_def is_valid_iff)
  qed
  ultimately show ?thesis by blast
qed

lemma revoked_forever_witness:
  "\<not> is_ok (check 10 (snd (mgr_refund_use (revoke sample_mgr 7 ''stop'') 7)) 7)"
proof -
  let ?m = "sample_mgr"
  have "mgr_inv ?m"
    by (simp add: mgr_inv_def hm_wf_def hm_get_def lease_wf_def sample_lease_def)
  then have "ids_used ({7}, ?m)" "hm_get ?m 7 \<noteq> None"
    by (auto simp: ids_used_def hm_get_def split: if_splits)
  moreover have "mgr_step\<^sup>*\<^sup>* ({7}, revoke ?m 7 ''stop'') ({7}, snd (mgr_refund_use (revoke ?m 7 ''stop'') 7))"
    by (rule r_into_rtranclp) (rule mgr_step.refund)
  ultimately show ?thesis using revoked_forever by blast
qed

subsection \<open>Delegation\<close>

definition lease_within :: "capability_lease \<Rightarrow> capability_lease \<Rightarrow> bool" where
  "lease_within c p \<longleftrightarrow> ls_capability_name c = ls_capability_name p
     \<and> (\<forall>a. covers_action c a \<longrightarrow> covers_action p a)
     \<and> ls_expires_at c = ls_expires_at p \<and> ls_uses_remaining c = ls_uses_remaining p
     \<and> (\<forall>now. is_valid now c \<longrightarrow> ls_revoked p \<or> is_valid now p)"

lemma child_grants_sub: "covers (child_grants req g) a \<Longrightarrow> covers g a"
  by (cases g; cases req) (auto simp: child_grants_def)

lemma child_grants_requested:
  "covers (child_grants (Some req) g) a \<Longrightarrow> covers (Specific req) a"
  by (cases g) (auto simp: child_grants_def)

lemma derive_within: "lease_within (derive_lease i now child (child_grants req (ls_granted_actions p)) p) p"
  using child_grants_sub
  by (auto simp: lease_within_def derive_lease_def covers_action_def is_valid_iff)

text \<open>
  C2. Delegation does not amplify authority: every lease derived for a child thread comes
  from a lease of the parent that was valid, covers only actions the parent's lease covers
  and that were requested, expires with it, starts with the parent's remaining uses, and
  is stored for the child; no other entry of the manager changes.
\<close>

theorem child_leases_within_parent:
  assumes "hm_wf m" and "derive_child_leases f now now' m parent child req = (cs, m')"
    and "c \<in> set cs"
  shows "(\<exists>k p. hm_get m k = Some p \<and> ls_thread_id p = parent \<and> is_valid now p \<and> is_valid now' p
            \<and> lease_within c p)
     \<and> ls_thread_id c = child \<and> is_valid now' c
     \<and> (\<forall>rs a. req = Some rs \<longrightarrow> covers_action c a \<longrightarrow> covers (Specific rs) a)
     \<and> (\<forall>k. k \<notin> ls_id ` set cs \<longrightarrow> hm_get m' k = hm_get m k)"
proof -
  have cs: "cs = derive_loop f now' child req 0 (active_for_thread now m parent)"
    and m': "m' = insert_all m cs"
    using assms(2) by (auto simp: derive_child_leases_def derive_from_def Let_def)
  from assms(3) obtain p j where p: "p \<in> set (active_for_thread now m parent)" "is_valid now' p"
    and c: "c = derive_lease (f j) now' child (child_grants req (ls_granted_actions p)) p"
    unfolding cs using derive_loop_mem by blast
  have "\<exists>k. hm_get m k = Some p" "ls_thread_id p = parent" "is_valid now p"
    using p(1) assms(1) by (auto simp: active_for_thread_def hm_values_get)
  moreover have "lease_within c p" unfolding c by (rule derive_within)
  moreover have "ls_thread_id c = child" "is_valid now' c"
    using p(2) by (simp_all add: c derive_lease_def is_valid_iff)
  moreover have "\<forall>rs a. req = Some rs \<longrightarrow> covers_action c a \<longrightarrow> covers (Specific rs) a"
    using child_grants_requested by (auto simp: c derive_lease_def covers_action_def)
  ultimately show ?thesis using p(2) insert_all_frame by (metis m')
qed

lemma child_leases_within_parent_witness:
  "covers_action (hd (fst (derive_child_leases Suc 10 11 sample_mgr 1 2 (Some [''web-search'', ''shell'']))))
      ''shell'' = False"
proof -
  let ?d = "derive_child_leases Suc 10 11 sample_mgr 1 2 (Some [''web-search'', ''shell''])"
  obtain cs m' where d: "?d = (cs, m')" by (cases ?d)
  have "hm_wf sample_mgr" by (simp add: hm_wf_def)
  moreover have "cs \<noteq> []"
    using d by (auto simp: derive_child_leases_def derive_from_def active_for_thread_def hm_values_def
        sample_lease_def is_valid_iff child_grants_def Let_def)
  ultimately obtain k p where "hm_get sample_mgr k = Some p" "lease_within (hd cs) p"
    using child_leases_within_parent [OF _ d, of "hd cs"] by auto
  moreover have "\<not> covers_action sample_lease ''shell''"
    by (simp add: sample_lease_def covers_action_def hyphenated_def underscored_def str_replace_def)
  ultimately have "\<not> covers_action (hd cs) ''shell''"
    by (auto simp: lease_within_def hm_get_def split: if_splits)
  then show ?thesis unfolding d by simp
qed

subsection \<open>Finding and granting\<close>

lemma find_None_iff_get:
  assumes "hm_wf m"
  shows "List.find P m = None \<longleftrightarrow> (\<forall>k l. hm_get m k = Some l \<longrightarrow> \<not> P (k, l))"
  using assms by (auto simp: find_None_iff hm_entry_get)

lemma find_lease_holder:
  assumes "hm_wf m" and "find_lease_for_action now m tid a \<noteq> None"
  shows "\<exists>k l. hm_get m k = Some l \<and> ls_thread_id l = tid \<and> is_valid now l \<and> covers_action l a"
proof -
  obtain l where "l \<in> set (hm_values m)" "ls_thread_id l = tid" "is_valid now l" "covers_action l a"
    using assms(2) covers_alias
    by (auto simp: find_lease_for_action_def covers_action_def dest!: find_Some_mem)
  with assms(1) show ?thesis by (auto simp: hm_values_get)
qed

text \<open>
  \<open>find_and_consume\<close> succeeds exactly when \<open>find_lease_for_action\<close> finds a lease, that is,
  when the thread holds a valid lease covering the action under any hyphen/underscore
  spelling. On success one use of one such lease is spent and nothing else changes; on
  failure the error is \<open>LeaseNotFound\<close> and the manager is unchanged.
\<close>

theorem find_and_consume_spec:
  assumes "hm_wf m"
  shows "(is_ok (fst (find_and_consume now m tid a)) \<longleftrightarrow> find_lease_for_action now m tid a \<noteq> None)
     \<and> (case find_and_consume now m tid a of
          (Inl e, m') \<Rightarrow> m' = m
            \<and> e = LeaseNotFound (''no valid lease for action '' @ [CHR 39] @ a @ [CHR 39])
        | (Inr l', m') \<Rightarrow> (\<exists>k l. hm_get m k = Some l \<and> ls_thread_id l = tid \<and> is_valid now l
            \<and> covers_action l a
            \<and> l' = l\<lparr>ls_uses_remaining := map_option (\<lambda>r. r - 1) (ls_uses_remaining l)\<rparr>
            \<and> hm_get m' = (hm_get m)(k \<mapsto> l')))"
proof -
  let ?P = "\<lambda>kl. ls_thread_id (snd kl) = tid \<and> is_valid now (snd kl) \<and> covers_action (snd kl) a"
  have same: "find_lease_for_action now m tid a = None \<longleftrightarrow> List.find ?P m = None"
    using assms covers_alias
    by (auto simp: find_lease_for_action_def find_None_iff hm_values_def covers_action_def)
  show ?thesis
  proof (cases "List.find ?P m")
    case None
    with same show ?thesis by (simp add: find_and_consume_def)
  next
    case (Some kl)
    then obtain k l where kl: "List.find ?P m = Some (k, l)" by (cases kl) simp
    note l = find_entry [OF assms kl]
    then have "consume_use l = (True, snd (consume_use l))"
      using valid_consume(1) [of now l] by (metis (full_types) prod.collapse snd_conv)
    then obtain l' where "consume_use l = (True, l')" by metis
    then have run: "find_and_consume now m tid a =
        (Ok (snd (consume_use l)), hm_insert m k (snd (consume_use l)))"
      by (simp add: find_and_consume_def kl Let_def split: prod.splits)
    have "hm_get (hm_insert m k v) = (hm_get m)(k \<mapsto> v)" for v
      by (rule ext) (simp add: hm_simps)
    with run l same kl valid_consume(2) [of now l] show ?thesis by auto
  qed
qed

lemma find_and_consume_spec_witness:
  "is_ok (fst (find_and_consume 10 sample_mgr 1 ''web_search''))"
proof -
  have "hm_wf sample_mgr" by (simp add: hm_wf_def)
  moreover have "find_lease_for_action 10 sample_mgr 1 ''web_search'' \<noteq> None"
    by (simp add: find_lease_for_action_def hm_values_def sample_lease_def is_valid_iff
        covers_action_def hyphenated_def underscored_def str_replace_def)
  ultimately show ?thesis using find_and_consume_spec by blast
qed

text \<open>
  \<open>grant\<close> rejects a non-positive duration and a zero budget without storing anything;
  every other grant stores a lease that passes \<open>check\<close> at the moment of the grant and
  fails it from its expiry on.
\<close>

theorem grant_then_check:
  "(is_ok (fst (grant i now m tid cap ga dur mu)) \<longleftrightarrow>
      (\<forall>d. dur = Some d \<longrightarrow> 0 < d) \<and> mu \<noteq> Some 0)
   \<and> (case grant i now m tid cap ga dur mu of
        (Inl _, m') \<Rightarrow> m' = m
      | (Inr l, m') \<Rightarrow> check now m' i = Ok l \<and> ls_granted_actions l = ga \<and> lease_wf l
          \<and> (\<forall>d t. dur = Some d \<longrightarrow> now + d \<le> t \<longrightarrow> check t m' i = Err (LeaseExpired cap)))"
  by (auto simp: grant_def check_def Let_def hm_simps is_valid_iff lease_wf_def
      split: option.splits)

lemma grant_then_check_witness:
  "check 160 (snd (grant 9 100 [] 1 ''tools'' All (Some 60) None)) 9 = Err (LeaseExpired ''tools'')"
  using grant_then_check [of 9 100 "[]" 1 "''tools''" All "Some 60" None]
  by (auto split: prod.splits sum.splits)

end
