(* ===== verification/Policy_Engine.thy ===== *)
theory Policy_Engine
  imports Capability
begin

text \<open>
  The deterministic policy engine (\<open>capability/policy.rs\<close>): the decision on one action under
  a lease, the global and capability policies, and the provenance of the data that
  triggered the action. Decisions are ordered \<open>Deny > RequireApproval > Allow\<close>; the
  strictness of a decision and the fold of the rules over it carry the proofs.
\<close>

datatype policy_decision = Allow | Deny string | RequireApproval string

record policy_engine =
  global_policies :: "policy_rule list"
  denied_effects :: "effect_type list"

definition policy_engine_new :: policy_engine where
  "policy_engine_new = \<lparr>global_policies = [], denied_effects = []\<rparr>"

definition add_global_policy :: "policy_engine \<Rightarrow> policy_rule \<Rightarrow> policy_engine" where
  "add_global_policy e rule = e\<lparr>global_policies := global_policies e @ [rule]\<rparr>"

definition deny_effect :: "policy_engine \<Rightarrow> effect_type \<Rightarrow> policy_engine" where
  "deny_effect e effect = e\<lparr>denied_effects := denied_effects e @ [effect]\<rparr>"

fun effect_debug :: "effect_type \<Rightarrow> string" where
  "effect_debug ReadLocal = ''ReadLocal''"
| "effect_debug ReadExternal = ''ReadExternal''"
| "effect_debug WriteLocal = ''WriteLocal''"
| "effect_debug WriteExternal = ''WriteExternal''"
| "effect_debug CredentialedNetwork = ''CredentialedNetwork''"
| "effect_debug Compute = ''Compute''"
| "effect_debug Financial = ''Financial''"

fun condition_matches :: "policy_condition \<Rightarrow> action_def \<Rightarrow> bool" where
  "condition_matches Always action = True"
| "condition_matches (ActionMatches pattern) action = (ad_name action = pattern)"
| "condition_matches (EffectTypeIs effect) action = (effect \<in> set (ad_effects action))"

definition rule_matches :: "policy_rule \<Rightarrow> action_def \<Rightarrow> bool" where
  "rule_matches rule action = condition_matches (pr_condition rule) action"

fun merge_decision :: "policy_decision \<Rightarrow> policy_effect \<Rightarrow> string \<Rightarrow> policy_decision" where
  "merge_decision current PolicyDeny source = Deny source"
| "merge_decision current PolicyRequireApproval source =
     (case current of Deny _ \<Rightarrow> current | _ \<Rightarrow> RequireApproval source)"
| "merge_decision current PolicyAllow source = current"

fun apply_rules :: "action_def \<Rightarrow> policy_decision \<Rightarrow> policy_rule list \<Rightarrow> policy_decision" where
  "apply_rules action decision [] = decision"
| "apply_rules action decision (rule # rules) =
     apply_rules action
       (if rule_matches rule action then merge_decision decision (pr_effect rule) (pr_name rule)
        else decision) rules"

definition evaluate ::
  "time \<Rightarrow> policy_engine \<Rightarrow> action_def \<Rightarrow> capability_lease \<Rightarrow> policy_rule list \<Rightarrow> policy_decision" where
  "evaluate now e action lease capability_policies =
     (if \<not> is_valid now lease then
        Deny (''lease for '' @ ls_capability_name lease @ '' is expired/revoked'')
      else if \<not> covers_action lease (ad_name action) then
        Deny (''lease for '' @ ls_capability_name lease @ '' does not cover action '' @ ad_name action)
      else
        (case List.find (\<lambda>effect. effect \<in> set (denied_effects e)) (ad_effects action) of
           Some effect \<Rightarrow>
             Deny (''effect type '' @ effect_debug effect @ '' is denied by global policy'')
         | None \<Rightarrow>
             let d1 = apply_rules action Allow (global_policies e);
                 d2 = apply_rules action d1 capability_policies
             in if ad_requires_approval action
                then merge_decision d2 PolicyRequireApproval ''action requires approval''
                else d2))"

definition taint_merge :: "bool \<Rightarrow> string \<Rightarrow> policy_decision \<Rightarrow> policy_decision" where
  "taint_merge cond reason d = (if cond then merge_decision d PolicyRequireApproval reason else d)"

definition evaluate_with_provenance ::
  "time \<Rightarrow> policy_engine \<Rightarrow> action_def \<Rightarrow> capability_lease \<Rightarrow> policy_rule list \<Rightarrow> provenance \<Rightarrow>
   policy_decision" where
  "evaluate_with_provenance now e action lease capability_policies prov =
     (let decision = evaluate now e action lease capability_policies;
          financial = Financial \<in> set (ad_effects action);
          write_external = WriteExternal \<in> set (ad_effects action)
      in (case prov of
            LlmGenerated \<Rightarrow>
              taint_merge write_external ''LLM-generated data requires approval for external writes''
                (taint_merge financial
                   ''LLM-generated data cannot trigger financial effects without approval'' decision)
          | ToolOutput _ \<Rightarrow>
              taint_merge financial ''tool output data requires approval for financial effects'' decision
          | ProvUser \<Rightarrow> decision
          | ProvSystem \<Rightarrow> decision
          | MemoryRetrieval _ \<Rightarrow> decision))"

section \<open>Strictness\<close>

fun strictness :: "policy_decision \<Rightarrow> nat" where
  "strictness Allow = 0"
| "strictness (RequireApproval _) = 1"
| "strictness (Deny _) = 2"

fun effect_strictness :: "policy_effect \<Rightarrow> nat" where
  "effect_strictness PolicyAllow = 0"
| "effect_strictness PolicyRequireApproval = 1"
| "effect_strictness PolicyDeny = 2"

lemma strictness_le: "strictness d \<le> 2"
  by (cases d) simp_all

lemma strictness_merge [simp]:
  "strictness (merge_decision d f r) = max (strictness d) (effect_strictness f)"
  by (cases f; cases d) simp_all

declare merge_decision.simps [simp del]

lemma strictness_taint [simp]:
  "strictness (taint_merge c r d) = max (strictness d) (if c then 1 else 0)"
  by (simp add: taint_merge_def)

fun rules_strictness :: "action_def \<Rightarrow> policy_rule list \<Rightarrow> nat" where
  "rules_strictness action [] = 0"
| "rules_strictness action (r # rs) =
     max (if rule_matches r action then effect_strictness (pr_effect r) else 0)
       (rules_strictness action rs)"

lemma rules_strictness_append:
  "rules_strictness a (xs @ ys) = max (rules_strictness a xs) (rules_strictness a ys)"
  by (induction xs) auto

lemma strictness_apply_rules:
  "strictness (apply_rules a d rs) = max (strictness d) (rules_strictness a rs)"
  by (induction a d rs rule: apply_rules.induct) auto

definition base_denied :: "time \<Rightarrow> policy_engine \<Rightarrow> action_def \<Rightarrow> capability_lease \<Rightarrow> bool" where
  "base_denied now e action lease \<longleftrightarrow> \<not> is_valid now lease \<or> \<not> covers_action lease (ad_name action)
     \<or> (\<exists>f \<in> set (ad_effects action). f \<in> set (denied_effects e))"

lemma strictness_evaluate:
  "strictness (evaluate now e a l ps) =
     (if base_denied now e a l then 2
      else max (rules_strictness a (global_policies e @ ps)) (if ad_requires_approval a then 1 else 0))"
  by (auto simp: evaluate_def base_denied_def strictness_apply_rules rules_strictness_append Let_def
      find_None_iff find_Some_iff split: option.splits)

lemma strictness_cases:
  "d = Allow \<longleftrightarrow> strictness d = 0" "(\<exists>r. d = RequireApproval r) \<longleftrightarrow> strictness d = 1"
  "(\<exists>r. d = Deny r) \<longleftrightarrow> strictness d = 2"
  by (cases d; simp)+

lemma effect_strictness_iff:
  "effect_strictness f = 0 \<longleftrightarrow> f = PolicyAllow" "effect_strictness f = 2 \<longleftrightarrow> f = PolicyDeny"
  "effect_strictness f \<le> 2"
  by (cases f; simp)+

lemma rules_strictness_le: "rules_strictness a rs \<le> 2"
  by (induction rs) (auto simp: effect_strictness_iff)

lemma rules_strictness_iff:
  "rules_strictness a rs = 0 \<longleftrightarrow> (\<forall>r \<in> set rs. rule_matches r a \<longrightarrow> pr_effect r = PolicyAllow)"
  "rules_strictness a rs = 2 \<longleftrightarrow> (\<exists>r \<in> set rs. rule_matches r a \<and> pr_effect r = PolicyDeny)"
proof -
  show "rules_strictness a rs = 0 \<longleftrightarrow> (\<forall>r \<in> set rs. rule_matches r a \<longrightarrow> pr_effect r = PolicyAllow)"
    by (induction rs) (auto simp: effect_strictness_iff)
  have max2: "max x y = 2 \<longleftrightarrow> x = 2 \<or> y = 2" if "x \<le> 2" "y \<le> 2" for x y :: nat
    using that by (auto simp: max_def)
  show "rules_strictness a rs = 2 \<longleftrightarrow> (\<exists>r \<in> set rs. rule_matches r a \<and> pr_effect r = PolicyDeny)"
  proof (induction rs)
    case (Cons r rs)
    then show ?case
      using max2 [OF _ rules_strictness_le, of "if rule_matches r a then effect_strictness (pr_effect r) else 0"]
      by (auto simp: effect_strictness_iff)
  qed simp
qed

section \<open>Properties\<close>

text \<open>
  C6. Precedence \<open>Deny > RequireApproval > Allow\<close>, independent of the order of the rules: an
  action is denied exactly when the lease is invalid or does not cover it, one of its
  effects is denied, or some matching rule denies; it is allowed exactly when none of that
  holds, no matching rule asks for approval and the action does not either.
\<close>

theorem evaluate_precedence:
  "((\<exists>r. evaluate now e a l ps = Deny r) \<longleftrightarrow>
      base_denied now e a l
      \<or> (\<exists>r \<in> set (global_policies e @ ps). rule_matches r a \<and> pr_effect r = PolicyDeny))
   \<and> (evaluate now e a l ps = Allow \<longleftrightarrow>
      \<not> base_denied now e a l \<and> \<not> ad_requires_approval a
      \<and> (\<forall>r \<in> set (global_policies e @ ps). rule_matches r a \<longrightarrow> pr_effect r = PolicyAllow))"
proof -
  have m: "max x (if c then 1 else 0) = 2 \<longleftrightarrow> x = 2" "max x (if c then 1 else 0) = 0 \<longleftrightarrow> x = 0 \<and> \<not> c"
    for x :: nat and c by auto
  show ?thesis
    unfolding strictness_cases strictness_evaluate
    by (auto simp: m rules_strictness_iff simp del: set_append)
qed

text \<open>
  C7. Taint: data written by the model never triggers a financial or external-write action
  without approval, and tool output never triggers a financial one. Provenance only ever
  makes a decision stricter, and trusted provenance leaves it unchanged.
\<close>

theorem provenance_taint:
  "(Financial \<in> set (ad_effects a) \<or> WriteExternal \<in> set (ad_effects a) \<longrightarrow>
      evaluate_with_provenance now e a l ps LlmGenerated \<noteq> Allow)
   \<and> (Financial \<in> set (ad_effects a) \<longrightarrow> evaluate_with_provenance now e a l ps (ToolOutput t) \<noteq> Allow)
   \<and> strictness (evaluate now e a l ps) \<le> strictness (evaluate_with_provenance now e a l ps p)
   \<and> (p \<in> {ProvUser, ProvSystem} \<union> range MemoryRetrieval \<longrightarrow>
      evaluate_with_provenance now e a l ps p = evaluate now e a l ps)"
  unfolding strictness_cases
  by (auto simp: evaluate_with_provenance_def Let_def split: provenance.splits)

definition sample_action :: action_def where
  "sample_action = \<lparr>ad_name = ''pay'', ad_description = [], ad_parameters_schema = JObject [],
     ad_effects = [Financial], ad_requires_approval = False\<rparr>"

definition sample_any_lease :: capability_lease where
  "sample_any_lease = \<lparr>ls_id = 7, ls_thread_id = 1, ls_capability_name = ''tools'',
     ls_granted_actions = All, ls_granted_at = 0, ls_expires_at = None,
     ls_max_uses = None, ls_uses_remaining = None, ls_revoked = False, ls_revoked_reason = None\<rparr>"

lemma provenance_taint_witness:
  "evaluate_with_provenance 5 policy_engine_new sample_action sample_any_lease [] LlmGenerated \<noteq> Allow
   \<and> evaluate_with_provenance 5 policy_engine_new sample_action sample_any_lease [] ProvUser = Allow"
proof -
  have "Financial \<in> set (ad_effects sample_action)" by (simp add: sample_action_def)
  moreover have "evaluate 5 policy_engine_new sample_action sample_any_lease [] = Allow"
    by (simp add: evaluate_def policy_engine_new_def sample_action_def sample_any_lease_def
        is_valid_iff covers_action_def)
  ultimately show ?thesis
    using provenance_taint [of sample_action 5 policy_engine_new sample_any_lease "[]" _ ProvUser] by simp
qed

lemma evaluate_precedence_witness:
  "\<exists>r. evaluate 5 (deny_effect policy_engine_new Financial) sample_action sample_any_lease [] = Deny r"
proof -
  have "base_denied 5 (deny_effect policy_engine_new Financial) sample_action sample_any_lease"
    by (simp add: base_denied_def deny_effect_def policy_engine_new_def sample_action_def)
  with evaluate_precedence show ?thesis by blast
qed

end
