(* ===== verification/Planner.thy ===== *)
theory Planner
  imports Capability
begin

text \<open>
  Which actions a new thread may use: the tool tiers (\<open>gate/tool_tier.rs\<close>), the capability
  registry (\<open>capability/registry.rs\<close>) and the lease planner (\<open>capability/planner.rs\<close>).
\<close>

section \<open>Tool tiers\<close>

definition AUTONOMOUS_TOOL_DENYLIST :: "string list" where
  "AUTONOMOUS_TOOL_DENYLIST =
     [''routine_create'', ''routine_update'', ''routine_delete'', ''routine_fire'', ''event_emit'',
      ''create_job'', ''job_prompt'', ''restart'', ''tool_install'', ''tool_auth'', ''tool_activate'',
      ''tool_remove'', ''tool_upgrade'', ''skill_install'', ''skill_remove'', ''secret_list'',
      ''secret_delete'']"

definition is_autonomous_denylisted :: "string \<Rightarrow> bool" where
  "is_autonomous_denylisted action_name = (action_name \<in> set AUTONOMOUS_TOOL_DENYLIST)"

datatype tool_tier = ReadOnly | Stateful | Privileged | Administrative

text \<open>The derived \<open>Ord\<close> follows the order of the constructors.\<close>

fun tier_rank :: "tool_tier \<Rightarrow> nat" where
  "tier_rank ReadOnly = 0"
| "tier_rank Stateful = 1"
| "tier_rank Privileged = 2"
| "tier_rank Administrative = 3"

lemma tier_rank_inj: "tier_rank a = tier_rank b \<longleftrightarrow> a = b"
  by (cases a; cases b) simp_all

instantiation tool_tier :: linorder
begin

definition less_eq_tool_tier :: "tool_tier \<Rightarrow> tool_tier \<Rightarrow> bool" where
  "less_eq_tool_tier a b \<longleftrightarrow> tier_rank a \<le> tier_rank b"

definition less_tool_tier :: "tool_tier \<Rightarrow> tool_tier \<Rightarrow> bool" where
  "less_tool_tier a b \<longleftrightarrow> tier_rank a < tier_rank b"

instance
  by standard (auto simp: less_eq_tool_tier_def less_tool_tier_def tier_rank_inj)

end

definition classify_tool_tier :: "action_def \<Rightarrow> tool_tier" where
  "classify_tool_tier action =
     (if is_autonomous_denylisted (ad_name action) then Administrative
      else if ad_requires_approval action then Privileged
      else if ad_effects action \<noteq> [] \<and> list_all (\<lambda>e. e = ReadLocal \<or> e = Compute) (ad_effects action)
      then ReadOnly
      else Stateful)"

section \<open>The capability registry\<close>

type_synonym capability_registry = "(string, capability) hmap"

definition registry_new :: capability_registry where
  "registry_new = []"

definition register :: "capability_registry \<Rightarrow> capability \<Rightarrow> capability_registry" where
  "register r cap = hm_insert r (cap_name cap) cap"

definition registry_get :: "capability_registry \<Rightarrow> string \<Rightarrow> capability option" where
  "registry_get r name = hm_get r name"

definition registry_list :: "capability_registry \<Rightarrow> capability list" where
  "registry_list r = hm_values r"

fun find_action_in :: "capability list \<Rightarrow> string \<Rightarrow> (string \<times> action_def) option" where
  "find_action_in [] action_name = None"
| "find_action_in (cap # caps) action_name =
     (case List.find (\<lambda>a. ad_name a = action_name) (cap_actions cap) of
        Some action \<Rightarrow> Some (cap_name cap, action)
      | None \<Rightarrow> find_action_in caps action_name)"

definition find_action :: "capability_registry \<Rightarrow> string \<Rightarrow> (string \<times> action_def) option" where
  "find_action r action_name = find_action_in (hm_values r) action_name"

definition get_action :: "capability_registry \<Rightarrow> string \<Rightarrow> string \<Rightarrow> action_def option" where
  "get_action r capability_name action_name =
     Option.bind (hm_get r capability_name)
       (\<lambda>cap. List.find (\<lambda>a. ad_name a = action_name) (cap_actions cap))"

definition all_actions :: "capability_registry \<Rightarrow> action_def list" where
  "all_actions r = concat (map cap_actions (hm_values r))"

definition registry_len :: "capability_registry \<Rightarrow> nat" where
  "registry_len r = length r"

definition registry_is_empty :: "capability_registry \<Rightarrow> bool" where
  "registry_is_empty r = (r = [])"

section \<open>The planner\<close>

record capability_grant_plan =
  gp_capability_name :: string
  gp_granted_actions :: granted_actions

fun tier_allowed :: "thread_type \<Rightarrow> string \<Rightarrow> tool_tier \<Rightarrow> bool" where
  "tier_allowed Foreground action_name tier = True"
| "tier_allowed Research action_name tier = (tier \<le> Stateful)"
| "tier_allowed Mission action_name tier =
     (case tier of
        ReadOnly \<Rightarrow> True
      | Stateful \<Rightarrow> True
      | Privileged \<Rightarrow> \<not> is_autonomous_denylisted action_name
      | Administrative \<Rightarrow> False)"

definition plan_capability :: "thread_type \<Rightarrow> capability \<Rightarrow> capability_grant_plan option" where
  "plan_capability ty cap =
     (let granted = map ad_name
            (filter (\<lambda>a. tier_allowed ty (ad_name a) (classify_tool_tier a)) (cap_actions cap))
      in if granted = [] then None
         else Some \<lparr>gp_capability_name = cap_name cap, gp_granted_actions = Specific granted\<rparr>)"

definition plan_for_thread :: "thread_type \<Rightarrow> capability_registry \<Rightarrow> capability_grant_plan list" where
  "plan_for_thread ty r = List.map_filter (plan_capability ty) (registry_list r)"

section \<open>Lemmas\<close>

lemma map_filter_mem: "y \<in> set (List.map_filter f xs) \<longleftrightarrow> (\<exists>x \<in> set xs. f x = Some y)"
  by (force simp: map_filter_def)

lemma plan_mem:
  "g \<in> set (plan_for_thread ty r) \<longleftrightarrow>
     (\<exists>cap \<in> set (registry_list r). plan_capability ty cap = Some g)"
  by (simp add: plan_for_thread_def map_filter_mem)

lemma plan_capability_Some:
  "plan_capability ty cap = Some g \<longleftrightarrow>
     (\<exists>a \<in> set (cap_actions cap). tier_allowed ty (ad_name a) (classify_tool_tier a))
     \<and> g = \<lparr>gp_capability_name = cap_name cap,
            gp_granted_actions = Specific (map ad_name
              (filter (\<lambda>a. tier_allowed ty (ad_name a) (classify_tool_tier a)) (cap_actions cap)))\<rparr>"
  by (auto simp: plan_capability_def Let_def filter_empty_conv)

lemma tier_allowed_iff:
  "tier_allowed ty (ad_name a) (classify_tool_tier a) \<longleftrightarrow>
     ty = Foreground
     \<or> (ty = Research \<and> \<not> is_autonomous_denylisted (ad_name a) \<and> \<not> ad_requires_approval a)
     \<or> (ty = Mission \<and> \<not> is_autonomous_denylisted (ad_name a))"
  by (cases ty) (auto simp: classify_tool_tier_def less_eq_tool_tier_def)

lemma find_action_in_Some:
  "find_action_in caps n = Some (c, a) \<Longrightarrow>
   \<exists>cap \<in> set caps. cap_name cap = c \<and> a \<in> set (cap_actions cap) \<and> ad_name a = n"
  by (induction caps n rule: find_action_in.induct)
    (auto split: option.splits simp: find_Some_iff)

lemma find_action_in_None:
  "find_action_in caps n = None \<longleftrightarrow> (\<forall>cap \<in> set caps. \<forall>a \<in> set (cap_actions cap). ad_name a \<noteq> n)"
  by (induction caps n rule: find_action_in.induct)
    (auto split: option.splits simp: find_None_iff find_Some_iff)

definition registry_inv :: "capability_registry \<Rightarrow> bool" where
  "registry_inv r \<longleftrightarrow> hm_wf r \<and> (\<forall>n cap. hm_get r n = Some cap \<longrightarrow> cap_name cap = n)"

lemma registry_inv_register: "registry_inv r \<Longrightarrow> registry_inv (register r cap)"
  by (auto simp: registry_inv_def register_def hm_simps hm.wf_put split: if_splits)

section \<open>Properties\<close>

text \<open>
  The plan for a thread is exactly the specification by thread type: a foreground
  thread is granted every action of every capability that has one, a mission thread every
  action outside the autonomous denylist, a research thread those that in addition need no
  approval; a capability left without actions gets no plan, so an empty grant, which would
  be read back from storage as \<open>All\<close>, is never planned.
\<close>

theorem plan_for_thread_spec:
  "set (plan_for_thread ty r) =
     {\<lparr>gp_capability_name = cap_name cap, gp_granted_actions = Specific ns\<rparr> | cap ns.
        cap \<in> set (registry_list r) \<and> ns \<noteq> [] \<and>
        ns = map ad_name (filter (\<lambda>a. (case ty of
               Foreground \<Rightarrow> True
             | Research \<Rightarrow> \<not> is_autonomous_denylisted (ad_name a) \<and> \<not> ad_requires_approval a
             | Mission \<Rightarrow> \<not> is_autonomous_denylisted (ad_name a))) (cap_actions cap))}"
proof -
  have same: "tier_allowed ty (ad_name a) (classify_tool_tier a) = (case ty of
               Foreground \<Rightarrow> True
             | Research \<Rightarrow> \<not> is_autonomous_denylisted (ad_name a) \<and> \<not> ad_requires_approval a
             | Mission \<Rightarrow> \<not> is_autonomous_denylisted (ad_name a))" for a
    unfolding tier_allowed_iff by (cases ty) simp_all
  show ?thesis
    by (auto simp: plan_mem plan_capability_def Let_def same split: if_splits)
qed

text \<open>
  No autonomous thread is planned a lease that names a denylisted action. Such a lease
  can still cover one, because coverage ignores the difference between hyphens and
  underscores while the denylist does not: it does so only if the registry holds an action
  whose name is another spelling of a denylisted one.
\<close>

theorem autonomous_plan_denies:
  assumes "ty \<noteq> Foreground" and "g \<in> set (plan_for_thread ty r)"
    and "\<And>a. a \<in> set (all_actions r) \<Longrightarrow> underscored (ad_name a) \<in> set AUTONOMOUS_TOOL_DENYLIST \<Longrightarrow>
      ad_name a \<in> set AUTONOMOUS_TOOL_DENYLIST"
    and "is_autonomous_denylisted n"
  shows "n \<notin> set (ga_actions (gp_granted_actions g)) \<and> \<not> covers (gp_granted_actions g) n"
proof -
  obtain cap where cap: "cap \<in> set (registry_list r)" "plan_capability ty cap = Some g"
    using assms(2) plan_mem by blast
  have listed: "\<exists>a \<in> set (all_actions r). ad_name a = m \<and> \<not> is_autonomous_denylisted m"
    if mem: "m \<in> set (ga_actions (gp_granted_actions g))" for m
  proof -
    obtain a where "a \<in> set (cap_actions cap)" "ad_name a = m"
        "tier_allowed ty (ad_name a) (classify_tool_tier a)"
      using mem cap(2) by (auto simp: plan_capability_Some)
    with assms(1) cap(1) show ?thesis
      by (auto simp: tier_allowed_iff all_actions_def registry_list_def)
  qed
  have under: "underscored n = n"
    using assms(4) by (auto simp: is_autonomous_denylisted_def AUTONOMOUS_TOOL_DENYLIST_def
        underscored_def str_replace_def)
  have "n \<notin> set (ga_actions (gp_granted_actions g))" using listed assms(4) by blast
  moreover have "hyphenated n \<notin> set (ga_actions (gp_granted_actions g))"
    using listed assms(3,4) under unfolding is_autonomous_denylisted_def
    by (metis hyphenated_idem(4))
  moreover have "\<exists>ns. gp_granted_actions g = Specific ns"
    using cap(2) by (auto simp: plan_capability_Some)
  ultimately show ?thesis using under by auto
qed

definition sample_tools :: capability where
  "sample_tools = \<lparr>cap_name = ''tools'', cap_description = [],
     cap_actions = map (\<lambda>n. \<lparr>ad_name = n, ad_description = [], ad_parameters_schema = JObject [],
         ad_effects = [WriteExternal], ad_requires_approval = False\<rparr>) [''http'', ''restart''],
     cap_knowledge = [], cap_policies = []\<rparr>"

lemma autonomous_plan_denies_witness:
  "\<not> covers (gp_granted_actions (hd (plan_for_thread Mission (register registry_new sample_tools)))) ''restart''"
proof -
  let ?r = "register registry_new sample_tools"
  have r: "?r = [(''tools'', sample_tools)]"
    by (simp add: register_def registry_new_def sample_tools_def)
  have den: "\<not> is_autonomous_denylisted ''http''" "is_autonomous_denylisted ''restart''"
    by (simp_all add: is_autonomous_denylisted_def AUTONOMOUS_TOOL_DENYLIST_def)
  have "plan_capability Mission sample_tools =
      Some \<lparr>gp_capability_name = ''tools'', gp_granted_actions = Specific [''http'']\<rparr>"
    by (simp add: plan_capability_def sample_tools_def classify_tool_tier_def den)
  then have plan: "plan_for_thread Mission ?r =
      [\<lparr>gp_capability_name = ''tools'', gp_granted_actions = Specific [''http'']\<rparr>]"
    unfolding plan_for_thread_def r by (simp add: map_filter_def registry_list_def hm_values_def)
  have mem: "hd (plan_for_thread Mission ?r) \<in> set (plan_for_thread Mission ?r)" by (simp add: plan)
  have "all_actions ?r = cap_actions sample_tools" by (simp add: all_actions_def hm_values_def r)
  then have names: "ad_name a \<in> {''http'', ''restart''}" if "a \<in> set (all_actions ?r)" for a
    using that by (auto simp: sample_tools_def)
  have "ad_name a \<in> set AUTONOMOUS_TOOL_DENYLIST"
    if "a \<in> set (all_actions ?r)" "underscored (ad_name a) \<in> set AUTONOMOUS_TOOL_DENYLIST" for a
    using names [OF that(1)] that(2) by (auto simp: underscored_def str_replace_def)
  then show ?thesis using autonomous_plan_denies [OF _ mem _ den(2)] by blast
qed

text \<open>
  Lookup in the registry: \<open>find_action\<close> returns an action of that name together with
  the name of a capability that lists it, and \<open>get_action\<close> on that capability finds one
  too; it returns nothing only if no registered capability lists the name. Registering a
  capability replaces the one of the same name and no other.
\<close>

theorem registry_lookup:
  assumes "registry_inv r"
  shows "(case find_action r n of
            Some (c, a) \<Rightarrow> ad_name a = n \<and> a \<in> set (all_actions r) \<and> get_action r c n \<noteq> None
          | None \<Rightarrow> \<forall>a \<in> set (all_actions r). ad_name a \<noteq> n)
     \<and> registry_inv (register r cap)
     \<and> registry_get (register r cap) m = (if m = cap_name cap then Some cap else registry_get r m)"
proof -
  have "ad_name a = n \<and> a \<in> set (all_actions r) \<and> get_action r c n \<noteq> None"
    if some: "find_action r n = Some (c, a)" for c a
  proof -
    obtain cp where cp: "cp \<in> set (hm_values r)" "cap_name cp = c" "a \<in> set (cap_actions cp)" "ad_name a = n"
      using find_action_in_Some some by (metis find_action_def)
    then have "hm_get r c = Some cp"
      using assms by (auto simp: registry_inv_def hm_values_get)
    with cp show ?thesis
      by (auto simp: get_action_def all_actions_def find_None_iff)
  qed
  moreover have "\<forall>a \<in> set (all_actions r). ad_name a \<noteq> n" if "find_action r n = None"
    using that by (auto simp: find_action_def find_action_in_None all_actions_def)
  ultimately show ?thesis
    using registry_inv_register [OF assms]
    by (auto simp: registry_get_def register_def hm_simps split: option.splits)
qed

lemma registry_lookup_witness:
  "get_action (register registry_new sample_tools) (fst (the (find_action (register registry_new sample_tools) ''http''))) ''http'' \<noteq> None"
proof -
  let ?r = "register registry_new sample_tools"
  have "registry_inv ?r"
    by (rule registry_inv_register) (simp add: registry_inv_def registry_new_def hm_wf_def hm_simps)
  moreover obtain c a where "find_action ?r ''http'' = Some (c, a)"
    by (simp add: find_action_def register_def registry_new_def hm_values_def sample_tools_def)
  ultimately show ?thesis using registry_lookup [of ?r "''http''"] by auto
qed

end
