(* ===== verification/Lease_Refresh.thy ===== *)
theory Lease_Refresh
  imports Lease_Manager Planner Thread_Life "HOL-Library.List_Lexorder" "HOL-Library.Char_ord"
begin

text \<open>
  Reconciling a thread's \<open>tools\<close> lease with the actions now available
  (\<open>runtime/lease_refresh.rs\<close>). The effect executor's \<open>available_actions\<close> and the store's
  \<open>save_lease\<close> are parameters; the leases handed to \<open>save_lease\<close> are returned, in order.
  A \<open>HashSet\<close> of names that is sorted before use is \<open>sort (remdups ..)\<close>, which depends only
  on its elements.
\<close>

definition tools_capability :: "action_def list \<Rightarrow> capability" where
  "tools_capability actions = \<lparr>cap_name = ''tools'', cap_description = ''Available tools'',
     cap_actions = actions, cap_knowledge = [], cap_policies = []\<rparr>"

definition desired_actions :: "thread_type \<Rightarrow> action_def list \<Rightarrow> string list option" where
  "desired_actions ty actions =
     (case List.find (\<lambda>g. gp_capability_name g = ''tools'')
             (plan_for_thread ty (register registry_new (tools_capability actions))) of
        None \<Rightarrow> None
      | Some g \<Rightarrow> (case gp_granted_actions g of All \<Rightarrow> None | Specific as \<Rightarrow> Some as))"

definition save_to ::
  "(capability_lease \<Rightarrow> engine_error + unit) option \<Rightarrow> capability_lease \<Rightarrow>
   (engine_error + unit) \<times> capability_lease list" where
  "save_to store lease = (case store of None \<Rightarrow> (Ok (), []) | Some save \<Rightarrow> (save lease, [lease]))"

definition reconcile_dynamic_tool_lease ::
  "lease_id \<Rightarrow> time \<Rightarrow> time \<Rightarrow> (capability_lease list \<Rightarrow> engine_error + action_def list) \<Rightarrow>
   (capability_lease \<Rightarrow> engine_error + unit) option \<Rightarrow> thread \<Rightarrow> lease_manager \<Rightarrow>
   (engine_error + unit) \<times> thread \<times> lease_manager \<times> capability_lease list" where
  "reconcile_dynamic_tool_lease new_id now now' available_actions store t leases =
     (let active_leases = active_for_thread now leases (th_id t)
      in (case available_actions active_leases of
            Inl e \<Rightarrow> (Err e, t, leases, [])
          | Inr actions \<Rightarrow>
              if actions = [] then (Ok (), t, leases, [])
              else (case desired_actions (th_type t) actions of
                  None \<Rightarrow> (Ok (), t, leases, [])
                | Some desired \<Rightarrow>
                    if desired = [] then (Ok (), t, leases, [])
                    else (case List.find (\<lambda>l. ls_capability_name l = ''tools'') active_leases of
                        Some existing \<Rightarrow>
                          if is_all (ls_granted_actions existing) then (Ok (), t, leases, [])
                          else
                            let before = remdups (ga_actions (ls_granted_actions existing));
                                merged = remdups (before @ desired)
                            in if length merged = length before then (Ok (), t, leases, [])
                               else (case update_granted_actions leases (ls_id existing)
                                            (Specific (sort merged)) of
                                   (Inl e, leases') \<Rightarrow> (Err e, t, leases', [])
                                 | (Inr updated, leases') \<Rightarrow>
                                     let (r, saved) = save_to store updated in (r, t, leases', saved))
                      | None \<Rightarrow>
                          (case grant new_id now' leases (th_id t) ''tools''
                                  (Specific (sort (remdups desired))) None None of
                             (Inl e, leases') \<Rightarrow> (Err e, t, leases', [])
                           | (Inr lease, leases') \<Rightarrow>
                               let (r, saved) = save_to store lease
                               in (case r of
                                     Inl e \<Rightarrow> (Err e, t, leases', saved)
                                   | Inr _ \<Rightarrow>
                                       (Ok (),
                                        if ls_id lease \<in> set (th_capability_leases t) then t
                                        else t\<lparr>th_capability_leases := th_capability_leases t @ [ls_id lease]\<rparr>,
                                        leases', saved)))))))"

section \<open>What a reconciliation can do\<close>

lemma desired_spec:
  "desired_actions ty actions =
     (let ns = map ad_name (filter (\<lambda>a. tier_allowed ty (ad_name a) (classify_tool_tier a)) actions)
      in if ns = [] then None else Some ns)"
  by (simp add: desired_actions_def plan_for_thread_def registry_list_def register_def registry_new_def
      hm_values_def map_filter_def plan_capability_def tools_capability_def Let_def)

lemma remdups_append_length:
  "length (remdups (remdups xs @ ys)) = length (remdups xs) \<longleftrightarrow> set ys \<subseteq> set xs"
proof -
  have "length (remdups (remdups xs @ ys)) = card (set xs \<union> set ys)"
    by (simp add: length_remdups_card_conv)
  moreover have "length (remdups xs) = card (set xs)" by (simp add: length_remdups_card_conv)
  moreover have "card (set xs \<union> set ys) = card (set xs) \<longleftrightarrow> set xs \<union> set ys = set xs"
    by (metis List.finite_set Un_upper1 card_subset_eq finite_UnI)
  ultimately show ?thesis by auto
qed

text \<open>The three ways a reconciliation ends: nothing to do, widen the lease, grant a new one.\<close>

definition holds_tools :: "time \<Rightarrow> lease_manager \<Rightarrow> thread_id \<Rightarrow> string list \<Rightarrow> bool" where
  "holds_tools now m tid ns \<longleftrightarrow>
     (\<exists>k l. hm_get m k = Some l \<and> ls_thread_id l = tid \<and> ls_capability_name l = ''tools''
        \<and> is_valid now l \<and> (\<forall>n \<in> set ns. covers_action l n))"

definition no_narrower :: "lease_manager \<Rightarrow> lease_manager \<Rightarrow> bool" where
  "no_narrower m m' \<longleftrightarrow> (\<forall>k l. hm_get m k = Some l \<longrightarrow>
     (\<exists>l'. hm_get m' k = Some l' \<and> (\<forall>n. covers_action l n \<longrightarrow> covers_action l' n)
        \<and> l'\<lparr>ls_granted_actions := ls_granted_actions l\<rparr> = l))"

lemma no_narrower_refl: "no_narrower m m"
  by (auto simp: no_narrower_def)

lemma no_narrower_grant:
  "hm_get m i = None \<Longrightarrow> no_narrower m (hm_insert m i l)"
  by (auto simp: no_narrower_def hm_simps)

lemma no_narrower_widen:
  assumes "hm_get m i = Some l" "ls_granted_actions l = Specific xs" "set xs \<subseteq> set ys"
  shows "no_narrower m (hm_insert m i (l\<lparr>ls_granted_actions := Specific ys\<rparr>))"
  using assms by (auto simp: no_narrower_def hm_simps covers_action_def)

lemma active_entry:
  assumes "mgr_inv m" "List.find P (active_for_thread now m tid) = Some l"
  shows "hm_get m (ls_id l) = Some l" "ls_thread_id l = tid" "is_valid now l" "P l"
proof -
  have "l \<in> set (active_for_thread now m tid)" "P l"
    using assms(2) by (auto simp: find_Some_iff)
  then have l: "l \<in> set (hm_values m)" and *: "ls_thread_id l = tid" "is_valid now l" "P l"
    by (auto simp: active_for_thread_def)
  show "hm_get m (ls_id l) = Some l"
    using l assms(1) by (auto simp: mgr_inv_def hm_values_get)
  show "ls_thread_id l = tid" "is_valid now l" "P l" using * .
qed

lemma holds_toolsI:
  "hm_get m k = Some l \<Longrightarrow> ls_thread_id l = tid \<Longrightarrow> ls_capability_name l = ''tools'' \<Longrightarrow> is_valid now l \<Longrightarrow>
   (\<And>n. n \<in> set ns \<Longrightarrow> covers_action l n) \<Longrightarrow> holds_tools now m tid ns"
  by (auto simp: holds_tools_def)

lemma widen_holds:
  assumes l: "hm_get m (ls_id l) = Some l" "ls_thread_id l = tid" "is_valid now l"
      "ls_capability_name l = ''tools''" and ns: "set ns \<subseteq> set ys"
  shows "holds_tools now (hm_insert m (ls_id l) (l\<lparr>ls_granted_actions := Specific ys\<rparr>)) tid ns"
  using assms
  by (intro holds_toolsI [where k = "ls_id l" and l = "l\<lparr>ls_granted_actions := Specific ys\<rparr>"])
    (auto simp: hm_simps is_valid_iff covers_action_def)

lemma grant_holds:
  assumes "set ns \<subseteq> set ys"
  shows "\<exists>l. grant i now' m tid ''tools'' (Specific ys) None None = (Ok l, hm_insert m i l) \<and> ls_id l = i
     \<and> lease_wf l \<and> holds_tools now (hm_insert m i l) tid ns"
proof -
  obtain l where l: "grant i now' m tid ''tools'' (Specific ys) None None = (Ok l, hm_insert m i l)"
      "ls_id l = i" "ls_thread_id l = tid" "ls_capability_name l = ''tools''" "is_valid now l"
      "ls_granted_actions l = Specific ys" "lease_wf l"
    by (simp add: grant_def Let_def is_valid_iff lease_wf_def)
  have "\<And>n. n \<in> set ns \<Longrightarrow> covers_action l n" using assms l(6) by (auto simp: covers_action_def)
  then have "holds_tools now (hm_insert m i l) tid ns"
    using l holds_toolsI [of "hm_insert m i l" i l] by (simp add: hm_simps)
  with l show ?thesis by blast
qed

text \<open>The outcome of a reconciliation that found something to do.\<close>

definition good_outcome ::
  "time \<Rightarrow> thread \<Rightarrow> lease_manager \<Rightarrow> string list \<Rightarrow> thread \<times> lease_manager \<Rightarrow> bool" where
  "good_outcome now t m ns out \<longleftrightarrow> (case out of (t', m') \<Rightarrow>
     mgr_inv m' \<and> no_narrower m m' \<and> holds_tools now m' (th_id t) ns
     \<and> t'\<lparr>th_capability_leases := th_capability_leases t\<rparr> = t)"

lemma reconcile_existing:
  assumes inv: "mgr_inv m"
    and found: "List.find (\<lambda>l. ls_capability_name l = ''tools'') (active_for_thread now m (th_id t)) = Some l"
    and avail: "av (active_for_thread now m (th_id t)) = Ok actions" "actions \<noteq> []"
      "desired_actions (th_type t) actions = Some ns" "ns \<noteq> []"
    and run: "reconcile_dynamic_tool_lease i now now' av store t m = (r, t', m', saved)"
  shows "good_outcome now t m ns (t', m')"
proof -
  note l = active_entry [OF inv found]
  have wf: "lease_wf l" using mgr_inv_get [OF inv l(1)] by blast
  let ?xs = "ga_actions (ls_granted_actions l)"
  show ?thesis
  proof (cases "is_all (ls_granted_actions l) \<or> set ns \<subseteq> set ?xs")
    case True
    then have "t' = t" "m' = m"
      using run avail found remdups_append_length [of ?xs ns]
      by (auto simp: reconcile_dynamic_tool_lease_def Let_def split: if_splits)
    moreover have "\<And>n. n \<in> set ns \<Longrightarrow> covers_action l n"
      using True by (cases "ls_granted_actions l") (auto simp: covers_action_def)
    then have "holds_tools now m (th_id t) ns" using l holds_toolsI by blast
    ultimately show ?thesis using inv by (simp add: good_outcome_def no_narrower_refl)
  next
    case False
    then obtain xs where xs: "ls_granted_actions l = Specific xs" by (cases "ls_granted_actions l") auto
    let ?ys = "sort (remdups (remdups xs @ ns))"
    have "t' = t" and m': "m' = hm_insert m (ls_id l) (l\<lparr>ls_granted_actions := Specific ?ys\<rparr>)"
      using run avail found False xs l(1)
      by (auto simp: reconcile_dynamic_tool_lease_def Let_def remdups_append_length
          update_granted_actions_def split: prod.splits)
    moreover have "no_narrower m m'" unfolding m' by (rule no_narrower_widen [OF l(1) xs]) auto
    moreover have "holds_tools now m' (th_id t) ns"
      unfolding m' using l by (intro widen_holds) auto
    moreover have "mgr_inv m'"
      unfolding m' using wf by (intro mgr_inv_insert [OF inv]) (simp_all add: lease_wf_def)
    ultimately show ?thesis by (simp add: good_outcome_def)
  qed
qed

lemma reconcile_new:
  assumes inv: "mgr_inv m" and fresh: "hm_get m i = None"
    and found: "List.find (\<lambda>l. ls_capability_name l = ''tools'') (active_for_thread now m (th_id t)) = None"
    and avail: "av (active_for_thread now m (th_id t)) = Ok actions" "actions \<noteq> []"
      "desired_actions (th_type t) actions = Some ns" "ns \<noteq> []"
    and run: "reconcile_dynamic_tool_lease i now now' av store t m = (r, t', m', saved)"
  shows "good_outcome now t m ns (t', m')"
proof -
  have "set ns \<subseteq> set (sort (remdups ns))" by simp
  from grant_holds [OF this, of i now' m "th_id t" now] obtain l where
    l: "grant i now' m (th_id t) ''tools'' (Specific (sort (remdups ns))) None None = (Ok l, hm_insert m i l)"
      "ls_id l = i" "lease_wf l" "holds_tools now (hm_insert m i l) (th_id t) ns" by blast
  have "m' = hm_insert m i l" "t'\<lparr>th_capability_leases := th_capability_leases t\<rparr> = t"
    using run avail found l(1)
    by (auto simp: reconcile_dynamic_tool_lease_def Let_def split: prod.splits sum.splits if_splits)
  with l inv fresh show ?thesis
    by (simp add: good_outcome_def no_narrower_grant mgr_inv_insert)
qed

section \<open>Properties\<close>

text \<open>
  After a reconciliation the thread holds a valid \<open>tools\<close> lease covering every available
  action its type may use, no lease has lost an action or changed in any other field, and
  the thread differs at most in its list of leases. This holds even when saving the lease
  fails: the manager has then been updated already.
\<close>

theorem reconcile_covers_available:
  assumes "mgr_inv m" and "hm_get m i = None"
    and "av (active_for_thread now m (th_id t)) = Ok actions"
    and "reconcile_dynamic_tool_lease i now now' av store t m = (r, t', m', saved)"
  shows "mgr_inv m' \<and> no_narrower m m' \<and> t'\<lparr>th_capability_leases := th_capability_leases t\<rparr> = t
     \<and> ((\<exists>a \<in> set actions. tier_allowed (th_type t) (ad_name a) (classify_tool_tier a)) \<longrightarrow>
          holds_tools now m' (th_id t) (map ad_name
            (filter (\<lambda>a. tier_allowed (th_type t) (ad_name a) (classify_tool_tier a)) actions)))"
proof -
  let ?ns = "map ad_name (filter (\<lambda>a. tier_allowed (th_type t) (ad_name a) (classify_tool_tier a)) actions)"
  show ?thesis
  proof (cases "?ns = []")
    case True
    then have "t' = t" "m' = m"
      using assms(3,4) by (auto simp: reconcile_dynamic_tool_lease_def desired_spec Let_def split: if_splits)
    moreover have "\<not> (\<exists>a \<in> set actions. tier_allowed (th_type t) (ad_name a) (classify_tool_tier a))"
      using True by (auto simp: filter_empty_conv)
    ultimately show ?thesis using assms(1) no_narrower_refl [of m] by auto
  next
    case False
    then have d: "actions \<noteq> []" "desired_actions (th_type t) actions = Some ?ns" by (auto simp: desired_spec Let_def)
    then have "good_outcome now t m ?ns (t', m')"
      using reconcile_existing [OF assms(1) _ assms(3) d False assms(4)]
        reconcile_new [OF assms(1,2) _ assms(3) d False assms(4)]
      by (cases "List.find (\<lambda>l. ls_capability_name l = ''tools'') (active_for_thread now m (th_id t))") blast+
    then show ?thesis by (simp add: good_outcome_def)
  qed
qed

lemma reconcile_covers_available_witness:
  "holds_tools 5
     (fst (snd (snd (reconcile_dynamic_tool_lease 9 5 6 (\<lambda>_. Ok (cap_actions sample_tools)) None sample_thread []))))
     1 [''http'', ''restart'']"
proof -
  let ?run = "reconcile_dynamic_tool_lease 9 5 6 (\<lambda>_. Ok (cap_actions sample_tools)) None sample_thread []"
  obtain r t' m' saved where run: "?run = (r, t', m', saved)" by (cases ?run)
  have ty: "th_type sample_thread = Foreground" "th_id sample_thread = 1"
    by (simp_all add: sample_thread_def thread_new_def)
  have inv: "mgr_inv []" by (simp add: mgr_inv_def hm_wf_def hm_get_def)
  have new: "hm_get ([] :: lease_manager) 9 = None" by (simp add: hm_get_def)
  have "cap_actions sample_tools \<noteq> []" by (simp add: sample_tools_def)
  then have "holds_tools 5 m' 1 (map ad_name (cap_actions sample_tools))"
    using reconcile_covers_available [OF inv new refl run] by (simp add: ty neq_Nil_conv) auto
  then show ?thesis unfolding run by (simp add: sample_tools_def)
qed

end
