(* ===== verification/Rate_Limiter.thy ===== *)
theory Rate_Limiter
  imports Keyed_Store
begin

text \<open>
  The per-user, per-tool rate limiter (\<open>src/tools/rate_limiter.rs\<close>) with its configuration
  (\<open>src/tools/tool.rs\<close>). One call reads the clock several times within one lock; the model
  takes one reading per call. \<open>Instant::elapsed\<close> saturates at zero.
\<close>

record tool_rate_limit_config =
  requests_per_minute :: u32
  requests_per_hour :: u32

definition rate_config_new :: "u32 \<Rightarrow> u32 \<Rightarrow> tool_rate_limit_config" where
  "rate_config_new per_minute per_hour =
     \<lparr>requests_per_minute = per_minute, requests_per_hour = per_hour\<rparr>"

definition rate_config_default :: tool_rate_limit_config where
  "rate_config_default = \<lparr>requests_per_minute = 60, requests_per_hour = 1000\<rparr>"

definition MINUTE :: time where "MINUTE = secs 60"
definition HOUR :: time where "HOUR = secs 3600"

datatype limit_type = PerMinute | PerHour

datatype rate_limit_result =
    RlAllowed (remaining_minute: u32) (remaining_hour: u32)
  | RlLimited (rl_retry_after: time) (rl_limit_type: limit_type)

fun is_allowed :: "rate_limit_result \<Rightarrow> bool" where
  "is_allowed (RlAllowed _ _) = True"
| "is_allowed (RlLimited _ _) = False"

fun limit_type_display :: "limit_type \<Rightarrow> string" where
  "limit_type_display PerMinute = ''per-minute''"
| "limit_type_display PerHour = ''per-hour''"

record window_state =
  window_start :: time
  w_count :: u32

definition window_new :: "time \<Rightarrow> window_state" where
  "window_new now = \<lparr>window_start = now, w_count = 0\<rparr>"

definition elapsed :: "time \<Rightarrow> window_state \<Rightarrow> time" where
  "elapsed now w = (if now < window_start w then 0 else now - window_start w)"

definition maybe_reset :: "time \<Rightarrow> time \<Rightarrow> window_state \<Rightarrow> window_state" where
  "maybe_reset now window_duration w =
     (if elapsed now w \<ge> window_duration then w\<lparr>window_start := now, w_count := 0\<rparr> else w)"

definition time_until_reset :: "time \<Rightarrow> time \<Rightarrow> window_state \<Rightarrow> time" where
  "time_until_reset now window_duration w =
     (let e = elapsed now w in if e \<ge> window_duration then 0 else window_duration - e)"

record tool_rate_limit_state =
  minute_window :: window_state
  hour_window :: window_state

definition tool_rate_limit_state_new :: "time \<Rightarrow> tool_rate_limit_state" where
  "tool_rate_limit_state_new now = \<lparr>minute_window = window_new now, hour_window = window_new now\<rparr>"

type_synonym rate_limiter = "(string \<times> string, tool_rate_limit_state) hmap"

definition rate_limiter_new :: rate_limiter where
  "rate_limiter_new = []"

text \<open>The part of \<open>check_internal\<close> that works on one entry of the map.\<close>

definition check_entry ::
  "time \<Rightarrow> tool_rate_limit_config \<Rightarrow> bool \<Rightarrow> tool_rate_limit_state \<Rightarrow>
   rate_limit_result \<times> tool_rate_limit_state" where
  "check_entry now config record_it s0 =
     (let s = \<lparr>minute_window = maybe_reset now MINUTE (minute_window s0),
               hour_window = maybe_reset now HOUR (hour_window s0)\<rparr>
      in if w_count (minute_window s) \<ge> requests_per_minute config then
           (RlLimited (time_until_reset now MINUTE (minute_window s)) PerMinute, s)
         else if w_count (hour_window s) \<ge> requests_per_hour config then
           (RlLimited (time_until_reset now HOUR (hour_window s)) PerHour, s)
         else
           let s' = (if record_it then
                 \<lparr>minute_window = (minute_window s)\<lparr>w_count := w_count (minute_window s) + 1\<rparr>,
                  hour_window = (hour_window s)\<lparr>w_count := w_count (hour_window s) + 1\<rparr>\<rparr>
               else s)
           in (RlAllowed (requests_per_minute config - w_count (minute_window s'))
                         (requests_per_hour config - w_count (hour_window s')), s'))"

definition check_internal ::
  "time \<Rightarrow> rate_limiter \<Rightarrow> string \<Rightarrow> string \<Rightarrow> tool_rate_limit_config \<Rightarrow> bool \<Rightarrow>
   rate_limit_result \<times> rate_limiter" where
  "check_internal now state user_id tool_name config record_it =
     (let key = (user_id, tool_name);
          entry = (case hm_get state key of Some s \<Rightarrow> s | None \<Rightarrow> tool_rate_limit_state_new now);
          (r, s) = check_entry now config record_it entry
      in (r, hm_insert state key s))"

definition check_and_record ::
  "time \<Rightarrow> rate_limiter \<Rightarrow> string \<Rightarrow> string \<Rightarrow> tool_rate_limit_config \<Rightarrow> rate_limit_result \<times> rate_limiter" where
  "check_and_record now state user_id tool_name config = check_internal now state user_id tool_name config True"

definition rl_check ::
  "time \<Rightarrow> rate_limiter \<Rightarrow> string \<Rightarrow> string \<Rightarrow> tool_rate_limit_config \<Rightarrow> rate_limit_result \<times> rate_limiter" where
  "rl_check now state user_id tool_name config = check_internal now state user_id tool_name config False"

definition get_usage :: "rate_limiter \<Rightarrow> string \<Rightarrow> string \<Rightarrow> (u32 \<times> u32) option" where
  "get_usage state user_id tool_name =
     map_option (\<lambda>s. (w_count (minute_window s), w_count (hour_window s))) (hm_get state (user_id, tool_name))"

definition rl_clear :: "rate_limiter \<Rightarrow> string \<Rightarrow> string \<Rightarrow> rate_limiter" where
  "rl_clear state user_id tool_name = hm_remove state (user_id, tool_name)"

definition rl_clear_all :: "rate_limiter \<Rightarrow> rate_limiter" where
  "rl_clear_all state = []"

record rate_limit_error =
  rle_retry_after :: time
  rle_limit_type :: limit_type

fun rate_limit_into_result :: "rate_limit_result \<Rightarrow> rate_limit_error + unit" where
  "rate_limit_into_result (RlAllowed _ _) = Ok ()"
| "rate_limit_into_result (RlLimited d ty) = Err \<lparr>rle_retry_after = d, rle_limit_type = ty\<rparr>"

section \<open>One entry\<close>

lemma windows_pos [simp]: "0 < MINUTE" "0 < HOUR" "MINUTE < HOUR"
  by (simp_all add: MINUTE_def HOUR_def secs_def)

lemma maybe_reset_cases:
  "maybe_reset now d w = (if d \<le> elapsed now w then window_new now else w)"
  by (simp add: maybe_reset_def window_new_def)

lemma reset_open: "0 < d \<Longrightarrow> elapsed now (maybe_reset now d w) < d"
  by (simp add: maybe_reset_cases elapsed_def window_new_def)

definition within_limits :: "tool_rate_limit_config \<Rightarrow> tool_rate_limit_state \<Rightarrow> bool" where
  "within_limits c s \<longleftrightarrow> w_count (minute_window s) \<le> requests_per_minute c
     \<and> w_count (hour_window s) \<le> requests_per_hour c"

lemma reset_count_le: "w_count w \<le> m \<Longrightarrow> w_count (maybe_reset now d w) \<le> m"
  by (simp add: maybe_reset_cases window_new_def)

lemma check_entry_within: "within_limits c s \<Longrightarrow> within_limits c (snd (check_entry now c rec s))"
  by (simp add: check_entry_def within_limits_def Let_def reset_count_le word_inc_le not_le)

lemma wait_bounds:
  "0 < d \<Longrightarrow> 0 < time_until_reset now d (maybe_reset now d w) \<and> time_until_reset now d (maybe_reset now d w) \<le> d"
  using reset_open [of d now w] by (auto simp: time_until_reset_def Let_def elapsed_def)

lemma check_entry_result:
  "case check_entry now c True s of
     (RlAllowed rm rh, s') \<Rightarrow>
         unat rm + unat (w_count (minute_window s')) = unat (requests_per_minute c)
         \<and> unat rh + unat (w_count (hour_window s')) = unat (requests_per_hour c)
   | (RlLimited d PerMinute, s') \<Rightarrow> 0 < d \<and> d \<le> MINUTE \<and> requests_per_minute c \<le> w_count (minute_window s')
   | (RlLimited d PerHour, s') \<Rightarrow> 0 < d \<and> d \<le> HOUR \<and> requests_per_hour c \<le> w_count (hour_window s')"
proof -
  have sub: "unat (m - (n + 1)) + unat (n + 1) = unat m" if "n < m" for m n :: u32
    using word_inc_le [OF that] by (simp add: unat_diff word_le_nat_alt)
  show ?thesis
    by (auto simp: check_entry_def Let_def wait_bounds sub not_le)
qed

section \<open>Runs of calls on one key\<close>

fun run_calls ::
  "rate_limiter \<Rightarrow> string \<Rightarrow> string \<Rightarrow> tool_rate_limit_config \<Rightarrow> time list \<Rightarrow> rate_limit_result list \<times> rate_limiter" where
  "run_calls state u t c [] = ([], state)"
| "run_calls state u t c (now # ts) =
     (let (r, state1) = check_and_record now state u t c; (rs, state2) = run_calls state1 u t c ts
      in (r # rs, state2))"

fun run_entry :: "tool_rate_limit_config \<Rightarrow> tool_rate_limit_state \<Rightarrow> time list \<Rightarrow> rate_limit_result list" where
  "run_entry c s [] = []"
| "run_entry c s (now # ts) = (case check_entry now c True s of (r, s') \<Rightarrow> r # run_entry c s' ts)"

definition allowed_count :: "rate_limit_result list \<Rightarrow> nat" where
  "allowed_count rs = length (filter is_allowed rs)"

lemma allowed_count_simps [simp]:
  "allowed_count [] = 0"
  "allowed_count (r # rs) = (if is_allowed r then Suc (allowed_count rs) else allowed_count rs)"
  by (simp_all add: allowed_count_def)

lemma run_calls_Cons:
  "fst (run_calls state u t c (now # ts)) =
     (case check_entry now c True
             (case hm_get state (u, t) of Some s \<Rightarrow> s | None \<Rightarrow> tool_rate_limit_state_new now) of
        (r, s') \<Rightarrow> r # fst (run_calls (hm_insert state (u, t) s') u t c ts))"
  by (auto simp: check_and_record_def check_internal_def Let_def split: prod.splits)

lemma run_calls_entry:
  "hm_get state (u, t) = Some s \<Longrightarrow> fst (run_calls state u t c ts) = run_entry c s ts"
  by (induction ts arbitrary: state s)
    (simp_all add: run_calls_Cons hm_simps del: run_calls.simps(2) split: prod.splits)

lemma run_calls_new:
  "hm_get state (u, t) = None \<Longrightarrow>
   fst (run_calls state u t c (now # ts)) = run_entry c (tool_rate_limit_state_new now) (now # ts)"
  by (simp add: run_calls_Cons run_calls_entry hm_simps del: run_calls.simps(2) split: prod.splits)

lemma check_entry_minute:
  "minute_window (snd (check_entry now c True s)) =
     (let w = maybe_reset now MINUTE (minute_window s)
      in if is_allowed (fst (check_entry now c True s)) then w\<lparr>w_count := w_count w + 1\<rparr> else w)"
  "is_allowed (fst (check_entry now c True s)) \<Longrightarrow>
     w_count (maybe_reset now MINUTE (minute_window s)) < requests_per_minute c"
  by (auto simp: check_entry_def Let_def not_le split: if_splits)

text \<open>Calls that fall into the open window spend what is left of the budget.\<close>

lemma run_entry_open:
  "\<forall>t \<in> set ts. t < window_start (minute_window s) + MINUTE \<Longrightarrow>
   allowed_count (run_entry c s ts) \<le> unat (requests_per_minute c) - unat (w_count (minute_window s))"
proof (induction ts arbitrary: s)
  case (Cons now ts)
  obtain r s' where step: "check_entry now c True s = (r, s')" by (cases "check_entry now c True s")
  have open': "maybe_reset now MINUTE (minute_window s) = minute_window s"
    using Cons.prems windows_pos(1) by (auto simp: maybe_reset_cases elapsed_def simp del: windows_pos)
  show ?case
  proof (cases "is_allowed r")
    case True
    have less: "w_count (minute_window s) < requests_per_minute c"
      using check_entry_minute(2) [of now c s] step True open' by simp
    have w: "minute_window s' = (minute_window s)\<lparr>w_count := w_count (minute_window s) + 1\<rparr>"
      using check_entry_minute(1) [of now c s] step True open' by (simp add: Let_def)
    have "allowed_count (run_entry c s' ts) \<le> unat (requests_per_minute c) - unat (w_count (minute_window s'))"
      using Cons.prems w by (intro Cons.IH) simp
    with less w step True show ?thesis
      by (simp add: unat_inc [OF less]) (simp add: word_less_nat_alt)
  next
    case False
    have "minute_window s' = minute_window s"
      using check_entry_minute(1) [of now c s] step False open' by (simp add: Let_def)
    with Cons.IH [of s'] Cons.prems step False show ?thesis by simp
  qed
qed simp

lemma run_entry_minute:
  "\<forall>t \<in> set ts. a \<le> t \<and> t < a + MINUTE \<Longrightarrow>
   allowed_count (run_entry c s ts)
     \<le> unat (requests_per_minute c) + (unat (requests_per_minute c) - unat (w_count (minute_window s)))"
proof (induction ts arbitrary: s)
  case (Cons now ts)
  obtain r s' where step: "check_entry now c True s = (r, s')" by (cases "check_entry now c True s")
  let ?w = "maybe_reset now MINUTE (minute_window s)" and ?l = "unat (requests_per_minute c)"
  have w: "minute_window s' = (if is_allowed r then ?w\<lparr>w_count := w_count ?w + 1\<rparr> else ?w)"
    using check_entry_minute(1) [of now c s] step by (simp add: Let_def)
  have less: "is_allowed r \<Longrightarrow> w_count ?w < requests_per_minute c"
    using check_entry_minute(2) [of now c s] step by simp
  have count: "(if is_allowed r then 1 else 0) + (?l - unat (w_count (minute_window s'))) \<le> ?l - unat (w_count ?w)"
    using less w unat_inc [OF less] by (auto simp: word_less_nat_alt)
  show ?case
  proof (cases "?w = minute_window s")
    case True
    have "allowed_count (run_entry c s' ts) \<le> ?l + (?l - unat (w_count (minute_window s')))"
      using Cons by simp
    with count True step show ?thesis by (auto split: if_splits)
  next
    case False
    then have "?w = window_new now" by (auto simp: maybe_reset_cases split: if_splits)
    then have "window_start (minute_window s') = now" "w_count ?w = 0"
      using w by (auto simp: window_new_def)
    then have "allowed_count (run_entry c s' ts) \<le> ?l - unat (w_count (minute_window s'))"
      using Cons.prems by (intro run_entry_open) auto
    with count \<open>w_count ?w = 0\<close> step show ?thesis by (auto split: if_splits)
  qed
qed simp

section \<open>Properties\<close>

text \<open>
  In any period of less than a minute, whatever the state of the limiter, at most twice
  \<open>requests_per_minute\<close> calls of one user and tool are let through.
\<close>

theorem rate_limit_burst_bound:
  assumes "\<forall>t \<in> set ts. a \<le> t \<and> t < a + MINUTE"
  shows "allowed_count (fst (run_calls state u tool c ts)) \<le> 2 * unat (requests_per_minute c)"
proof (cases ts)
  case (Cons now ts')
  have "\<exists>s. fst (run_calls state u tool c ts) = run_entry c s ts"
    unfolding Cons using run_calls_new run_calls_entry by (cases "hm_get state (u, tool)") blast+
  then obtain s where "fst (run_calls state u tool c ts) = run_entry c s ts" by blast
  with run_entry_minute [OF assms, of c s] show ?thesis by simp
qed simp

lemma rate_limit_burst_bound_witness:
  "allowed_count (fst (run_calls rate_limiter_new ''u'' ''http'' rate_config_default [1, 2, 3])) \<le> 120"
  using rate_limit_burst_bound [of "[1, 2, 3]" 1 rate_limiter_new "''u''" "''http''" rate_config_default]
  by (simp add: MINUTE_def secs_def rate_config_default_def)

text \<open>
  The bound is attained: the windows are fixed, not sliding. With a limit of two per
  minute, four calls within one second are all let through when they straddle the end of a
  window.
\<close>

theorem rate_limit_burst_attained:
  "let c = rate_config_new 2 100;
       s0 = snd (rl_check 0 rate_limiter_new ''u'' ''shell'' c)
   in map is_allowed (fst (run_calls s0 ''u'' ''shell'' c [secs 59, secs 59, secs 60, secs 60]))
        = [True, True, True, True]"
  by (simp add: rl_check_def check_and_record_def check_internal_def check_entry_def Let_def
      rate_config_new_def rate_limiter_new_def tool_rate_limit_state_new_def window_new_def
      maybe_reset_def elapsed_def MINUTE_def HOUR_def secs_def hm_get_def word_le_nat_alt)

text \<open>
  Accounting of one call, whatever limits earlier calls were made with: on an allowed
  call the two subtractions that report the remaining budget do not underflow; a refused
  call gets a positive waiting time no longer than the window whose limit it hit; counters
  within the limits stay within them; other users and tools are unaffected.
\<close>

theorem rate_limit_accounting:
  assumes "check_and_record now state u tool c = (r, state')"
  shows "(\<exists>s'. hm_get state' (u, tool) = Some s'
        \<and> ((\<forall>s. hm_get state (u, tool) = Some s \<longrightarrow> within_limits c s) \<longrightarrow> within_limits c s')
        \<and> (case r of
             RlAllowed rm rh \<Rightarrow>
               unat rm + unat (w_count (minute_window s')) = unat (requests_per_minute c)
               \<and> unat rh + unat (w_count (hour_window s')) = unat (requests_per_hour c)
           | RlLimited d PerMinute \<Rightarrow> 0 < d \<and> d \<le> MINUTE \<and> requests_per_minute c \<le> w_count (minute_window s')
           | RlLimited d PerHour \<Rightarrow> 0 < d \<and> d \<le> HOUR \<and> requests_per_hour c \<le> w_count (hour_window s')))
     \<and> (\<forall>k. k \<noteq> (u, tool) \<longrightarrow> hm_get state' k = hm_get state k)"
proof -
  define s where "s = (case hm_get state (u, tool) of Some s \<Rightarrow> s | None \<Rightarrow> tool_rate_limit_state_new now)"
  obtain s' where e: "check_entry now c True s = (r, s')" and st: "state' = hm_insert state (u, tool) s'"
    using assms by (auto simp: check_and_record_def check_internal_def s_def Let_def split: prod.splits)
  have "within_limits c s'" if "\<forall>s. hm_get state (u, tool) = Some s \<longrightarrow> within_limits c s"
  proof -
    have "within_limits c s"
      using that by (auto simp: s_def within_limits_def tool_rate_limit_state_new_def window_new_def
          split: option.splits)
    from check_entry_within [OF this] e show ?thesis by (metis snd_conv)
  qed
  moreover have "case r of
       RlAllowed rm rh \<Rightarrow>
         unat rm + unat (w_count (minute_window s')) = unat (requests_per_minute c)
         \<and> unat rh + unat (w_count (hour_window s')) = unat (requests_per_hour c)
     | RlLimited d PerMinute \<Rightarrow> 0 < d \<and> d \<le> MINUTE \<and> requests_per_minute c \<le> w_count (minute_window s')
     | RlLimited d PerHour \<Rightarrow> 0 < d \<and> d \<le> HOUR \<and> requests_per_hour c \<le> w_count (hour_window s')"
    using check_entry_result [where now = now and c = c and s = s] by (simp add: e)
  ultimately show ?thesis using st by (auto simp: hm_simps)
qed

lemma rate_limit_accounting_witness:
  "\<exists>s'. hm_get (snd (check_and_record 5 rate_limiter_new ''u'' ''http'' rate_config_default)) (''u'', ''http'') = Some s'
     \<and> within_limits rate_config_default s'"
proof -
  obtain r st where run: "check_and_record 5 rate_limiter_new ''u'' ''http'' rate_config_default = (r, st)"
    by (cases "check_and_record 5 rate_limiter_new ''u'' ''http'' rate_config_default")
  have "hm_get rate_limiter_new (''u'', ''http'') = None" by (simp add: rate_limiter_new_def hm_get_def)
  with rate_limit_accounting [OF run] run show ?thesis by auto
qed

end
