(* ===== verification/Hooks.thy ===== *)
theory Hooks
  imports Prelude
begin

text \<open>
  Lifecycle hooks (\<open>src/hooks/hook.rs\<close>, \<open>src/hooks/registry.rs\<close>): the registry ordered by
  priority, and the chain of hooks run on an event. A hook is a record of the trait's
  methods; its \<open>execute\<close> under the registry's timeout either returns or times out. JSON
  printing and parsing (\<open>serde_json\<close>) are the parameters \<open>to_string\<close> and \<open>from_str\<close>.
\<close>

datatype hook_point = BeforeInbound | BeforeToolCall | BeforeOutbound | OnSessionStart
  | OnSessionEnd | TransformResponse

fun hook_point_as_str :: "hook_point \<Rightarrow> string" where
  "hook_point_as_str BeforeInbound = ''beforeInbound''"
| "hook_point_as_str BeforeToolCall = ''beforeToolCall''"
| "hook_point_as_str BeforeOutbound = ''beforeOutbound''"
| "hook_point_as_str OnSessionStart = ''onSessionStart''"
| "hook_point_as_str OnSessionEnd = ''onSessionEnd''"
| "hook_point_as_str TransformResponse = ''transformResponse''"

datatype hook_event =
    Inbound string string string "string option"
  | ToolCall string json string string
  | Outbound string string string "string option"
  | SessionStart string string
  | SessionEnd string string "uuid list"
  | ResponseTransform string string string

fun event_hook_point :: "hook_event \<Rightarrow> hook_point" where
  "event_hook_point (Inbound _ _ _ _) = BeforeInbound"
| "event_hook_point (ToolCall _ _ _ _) = BeforeToolCall"
| "event_hook_point (Outbound _ _ _ _) = BeforeOutbound"
| "event_hook_point (SessionStart _ _) = OnSessionStart"
| "event_hook_point (SessionEnd _ _ _) = OnSessionEnd"
| "event_hook_point (ResponseTransform _ _ _) = TransformResponse"

fun apply_modification :: "(string \<Rightarrow> json option) \<Rightarrow> hook_event \<Rightarrow> string \<Rightarrow> hook_event" where
  "apply_modification from_str (Inbound u ch content t) modified = Inbound u ch modified t"
| "apply_modification from_str (Outbound u ch content t) modified = Outbound u ch modified t"
| "apply_modification from_str (ToolCall n params u ctx) modified =
     (case from_str modified of Some parsed \<Rightarrow> ToolCall n parsed u ctx | None \<Rightarrow> ToolCall n params u ctx)"
| "apply_modification from_str (ResponseTransform u t response) modified = ResponseTransform u t modified"
| "apply_modification from_str (SessionStart u s) modified = SessionStart u s"
| "apply_modification from_str (SessionEnd u s ts) modified = SessionEnd u s ts"

datatype hook_outcome = Continue "string option" | Reject string

datatype hook_failure_mode = FailOpen | FailClosed

datatype hook_error = ExecutionFailed string | HookTimeout time | Rejected string

text \<open>\<open>show_duration\<close> renders a \<open>Duration\<close> with \<open>{:?}\<close>; only error texts use it.\<close>

fun hook_error_display :: "(time \<Rightarrow> string) \<Rightarrow> hook_error \<Rightarrow> string" where
  "hook_error_display show_duration (ExecutionFailed reason) = ''Hook execution failed: '' @ reason"
| "hook_error_display show_duration (HookTimeout d) = ''Hook timed out after '' @ show_duration d"
| "hook_error_display show_duration (Rejected reason) = ''Hook rejected: '' @ reason"

datatype exec_result = Returned "hook_error + hook_outcome" | TimedOut

record hook =
  hk_name :: string
  hk_points :: "hook_point list"
  hk_failure_mode :: hook_failure_mode
  hk_timeout :: time
  hk_execute :: "hook_event \<Rightarrow> exec_result"

record hook_entry =
  he_hook :: hook
  he_priority :: u32

type_synonym hook_registry = "hook_entry list"

section \<open>Registration\<close>

fun replace_first :: "hook_entry list \<Rightarrow> hook \<Rightarrow> u32 \<Rightarrow> hook_entry list option" where
  "replace_first [] h p = None"
| "replace_first (e # es) h p =
     (if hk_name (he_hook e) = hk_name h then Some (\<lparr>he_hook = h, he_priority = p\<rparr> # es)
      else map_option (\<lambda>es'. e # es') (replace_first es h p))"

definition register_with_priority :: "hook_registry \<Rightarrow> hook \<Rightarrow> u32 \<Rightarrow> hook_registry" where
  "register_with_priority hooks h p =
     sort_key he_priority
       (case replace_first hooks h p of
          Some hooks' \<Rightarrow> hooks'
        | None \<Rightarrow> hooks @ [\<lparr>he_hook = h, he_priority = p\<rparr>])"

definition register_hook :: "hook_registry \<Rightarrow> hook \<Rightarrow> hook_registry" where
  "register_hook hooks h = register_with_priority hooks h 100"

definition unregister_hook :: "hook_registry \<Rightarrow> string \<Rightarrow> bool \<times> hook_registry" where
  "unregister_hook hooks name =
     (let hooks' = filter (\<lambda>e. hk_name (he_hook e) \<noteq> name) hooks
      in (length hooks' < length hooks, hooks'))"

definition list_hooks :: "hook_registry \<Rightarrow> string list" where
  "list_hooks hooks = map (\<lambda>e. hk_name (he_hook e)) hooks"

section \<open>Running\<close>

fun extract_content :: "(json \<Rightarrow> string) \<Rightarrow> hook_event \<Rightarrow> string" where
  "extract_content to_string (Inbound u ch content t) = content"
| "extract_content to_string (Outbound u ch content t) = content"
| "extract_content to_string (ToolCall n params u ctx) = to_string params"
| "extract_content to_string (ResponseTransform u t response) = response"
| "extract_content to_string (SessionStart u s) = s"
| "extract_content to_string (SessionEnd u s ts) = s"

fun run_chain ::
  "(time \<Rightarrow> string) \<Rightarrow> (string \<Rightarrow> json option) \<Rightarrow> hook_event \<Rightarrow> hook list \<Rightarrow> hook_error + hook_event" where
  "run_chain show_duration from_str ev [] = Ok ev"
| "run_chain show_duration from_str ev (h # hs) =
     (case hk_execute h ev of
        Returned (Inr (Reject reason)) \<Rightarrow> Err (Rejected reason)
      | Returned (Inr (Continue (Some value))) \<Rightarrow>
          run_chain show_duration from_str (apply_modification from_str ev value) hs
      | Returned (Inr (Continue None)) \<Rightarrow> run_chain show_duration from_str ev hs
      | Returned (Inl err) \<Rightarrow>
          (case hk_failure_mode h of
             FailOpen \<Rightarrow> run_chain show_duration from_str ev hs
           | FailClosed \<Rightarrow> Err (ExecutionFailed
               (''Hook '' @ [CHR 39] @ hk_name h @ [CHR 39] @ '' failed: '' @ hook_error_display show_duration err)))
      | TimedOut \<Rightarrow>
          (case hk_failure_mode h of
             FailOpen \<Rightarrow> run_chain show_duration from_str ev hs
           | FailClosed \<Rightarrow> Err (HookTimeout (hk_timeout h))))"

definition matching_hooks :: "hook_registry \<Rightarrow> hook_event \<Rightarrow> hook list" where
  "matching_hooks hooks ev =
     map he_hook (filter (\<lambda>e. event_hook_point ev \<in> set (hk_points (he_hook e))) hooks)"

definition run_hooks ::
  "(time \<Rightarrow> string) \<Rightarrow> (json \<Rightarrow> string) \<Rightarrow> (string \<Rightarrow> json option) \<Rightarrow> hook_registry \<Rightarrow> hook_event \<Rightarrow>
   hook_error + hook_outcome" where
  "run_hooks show_duration to_string from_str hooks ev =
     (let matching = matching_hooks hooks ev
      in if matching = [] then Ok (Continue None)
         else (case run_chain show_duration from_str ev matching of
            Inl e \<Rightarrow> Err e
          | Inr current \<Rightarrow>
              let modified = extract_content to_string current; original = extract_content to_string ev
              in if modified \<noteq> original then Ok (Continue (Some modified)) else Ok (Continue None)))"

section \<open>Lemmas\<close>

lemma replace_first_names:
  "replace_first es h p = Some es' \<Longrightarrow>
     map (\<lambda>e. hk_name (he_hook e)) es' = map (\<lambda>e. hk_name (he_hook e)) es"
  by (induction es h p arbitrary: es' rule: replace_first.induct) (auto split: if_splits)

lemma replace_first_None:
  "replace_first es h p = None \<longleftrightarrow> hk_name h \<notin> set (map (\<lambda>e. hk_name (he_hook e)) es)"
  by (induction es h p rule: replace_first.induct) auto

lemma replace_first_mem:
  "replace_first es h p = Some es' \<Longrightarrow> distinct (map (\<lambda>e. hk_name (he_hook e)) es) \<Longrightarrow>
   set es' = insert \<lparr>he_hook = h, he_priority = p\<rparr> {e \<in> set es. hk_name (he_hook e) \<noteq> hk_name h}"
proof (induction es h p arbitrary: es' rule: replace_first.induct)
  case (2 e es h p)
  show ?case
  proof (cases "hk_name (he_hook e) = hk_name h")
    case True
    have "hk_name (he_hook e) \<notin> (\<lambda>e. hk_name (he_hook e)) ` set es" using "2.prems"(2) by simp
    with True have "\<forall>x \<in> set es. hk_name (he_hook x) \<noteq> hk_name h" by force
    with True "2.prems" show ?thesis by auto
  qed (use 2 in auto)
qed simp

definition registry_ok :: "hook_registry \<Rightarrow> bool" where
  "registry_ok hooks \<longleftrightarrow> distinct (list_hooks hooks) \<and> sorted (map he_priority hooks)"

lemma distinct_map_sort: "distinct (map f (sort_key k xs)) \<longleftrightarrow> distinct (map f xs)"
  by (simp add: distinct_map)

definition hook_stops :: "hook \<Rightarrow> hook_event \<Rightarrow> bool" where
  "hook_stops h ev \<longleftrightarrow> (\<exists>r. hk_execute h ev = Returned (Inr (Reject r)))
     \<or> (hk_failure_mode h = FailClosed
        \<and> (hk_execute h ev = TimedOut \<or> (\<exists>e. hk_execute h ev = Returned (Inl e))))"

lemma run_chain_Cons:
  "is_ok (run_chain sd fs ev (h # hs)) \<longleftrightarrow>
     \<not> hook_stops h ev \<and> (\<exists>ev'. run_chain sd fs ev [h] = Ok ev' \<and> is_ok (run_chain sd fs ev' hs))"
  by (auto simp: hook_stops_def split: exec_result.splits sum.splits hook_outcome.splits
      option.splits hook_failure_mode.splits)

lemma run_chain_append:
  "run_chain sd fs ev (xs @ ys) =
     (case run_chain sd fs ev xs of Inl e \<Rightarrow> Inl e | Inr ev' \<Rightarrow> run_chain sd fs ev' ys)"
  by (induction xs arbitrary: ev)
    (auto split: exec_result.splits sum.splits hook_outcome.splits option.splits hook_failure_mode.splits)

lemma run_chain_single: "is_ok (run_chain sd fs ev [h]) \<longleftrightarrow> \<not> hook_stops h ev"
  by (auto simp: hook_stops_def split: exec_result.splits sum.splits hook_outcome.splits
      option.splits hook_failure_mode.splits)

declare run_chain.simps(2) [simp del]

lemma run_chain_stops:
  "\<not> is_ok (run_chain sd fs ev hs) \<longleftrightarrow>
     (\<exists>xs h ys ev'. hs = xs @ h # ys \<and> run_chain sd fs ev xs = Ok ev' \<and> hook_stops h ev')"
proof (induction hs arbitrary: ev)
  case (Cons h hs)
  have front: "(\<exists>xs k ys ev'. h # hs = xs @ k # ys \<and> run_chain sd fs ev xs = Ok ev' \<and> hook_stops k ev') \<longleftrightarrow>
     hook_stops h ev
     \<or> (\<exists>xs k ys ev'. hs = xs @ k # ys \<and> run_chain sd fs ev ([h] @ xs) = Ok ev' \<and> hook_stops k ev')"
    by (auto simp: Cons_eq_append_conv) force+
  show ?case
  proof (cases "hook_stops h ev")
    case True
    then show ?thesis unfolding front using run_chain_Cons [of sd fs ev h hs] by simp
  next
    case False
    then obtain ev1 where one: "run_chain sd fs ev [h] = Ok ev1"
      using run_chain_single [of sd fs ev h] by (auto simp: is_ok_iff)
    have shift: "run_chain sd fs ev ([h] @ xs) = run_chain sd fs ev1 xs" for xs
      unfolding run_chain_append one by simp
    have "run_chain sd fs ev (h # hs) = run_chain sd fs ev1 hs" using shift [of hs] by simp
    with Cons [of ev1] False show ?thesis unfolding front shift by simp
  qed
qed simp

section \<open>Properties\<close>

text \<open>
  The registry stays ordered by priority with one entry per name; registering a hook
  makes it the only entry of its name and keeps all others, unregistering removes exactly
  that name and says whether it was there.
\<close>

theorem hook_registration:
  assumes "registry_ok hooks"
  shows "registry_ok (register_with_priority hooks h p)
     \<and> set (register_with_priority hooks h p) =
         insert \<lparr>he_hook = h, he_priority = p\<rparr> {e \<in> set hooks. hk_name (he_hook e) \<noteq> hk_name h}
     \<and> registry_ok (snd (unregister_hook hooks name))
     \<and> (fst (unregister_hook hooks name) \<longleftrightarrow> name \<in> set (list_hooks hooks))
     \<and> name \<notin> set (list_hooks (snd (unregister_hook hooks name)))"
proof -
  have d: "distinct (map (\<lambda>e. hk_name (he_hook e)) hooks)" and s: "sorted (map he_priority hooks)"
    using assms by (auto simp: registry_ok_def list_hooks_def)
  have reg: "registry_ok (register_with_priority hooks h p)
      \<and> set (register_with_priority hooks h p) =
         insert \<lparr>he_hook = h, he_priority = p\<rparr> {e \<in> set hooks. hk_name (he_hook e) \<noteq> hk_name h}"
  proof (cases "replace_first hooks h p")
    case None
    then have new: "hk_name h \<notin> (\<lambda>e. hk_name (he_hook e)) ` set hooks"
      using replace_first_None [of hooks h p] by simp
    then have "{e \<in> set hooks. hk_name (he_hook e) \<noteq> hk_name h} = set hooks" by force
    with None new d show ?thesis
      by (simp add: registry_ok_def list_hooks_def register_with_priority_def distinct_map_sort)
  next
    case (Some es)
    with d replace_first_names [OF Some] replace_first_mem [OF Some d] show ?thesis
      by (simp add: registry_ok_def list_hooks_def register_with_priority_def distinct_map_sort)
  qed
  have "fst (unregister_hook hooks name) \<longleftrightarrow> name \<in> set (list_hooks hooks)"
  proof
    assume "fst (unregister_hook hooks name)"
    then have "filter (\<lambda>e. hk_name (he_hook e) \<noteq> name) hooks \<noteq> hooks"
      by (auto simp: unregister_hook_def Let_def)
    then show "name \<in> set (list_hooks hooks)"
      by (auto simp: list_hooks_def filter_id_conv image_iff)
  next
    assume "name \<in> set (list_hooks hooks)"
    then show "fst (unregister_hook hooks name)"
      by (auto simp: list_hooks_def unregister_hook_def Let_def intro: length_filter_less)
  qed
  with reg d s show ?thesis
    by (auto simp: registry_ok_def list_hooks_def unregister_hook_def Let_def distinct_map_filter
        sorted_filter)
qed

definition sample_hook :: hook where
  "sample_hook = \<lparr>hk_name = ''audit'', hk_points = [BeforeToolCall], hk_failure_mode = FailClosed,
     hk_timeout = secs 5, hk_execute = (\<lambda>_. TimedOut)\<rparr>"

lemma hook_registration_witness:
  "set (register_with_priority [] sample_hook 7) = {\<lparr>he_hook = sample_hook, he_priority = 7\<rparr>}"
  using hook_registration [of "[]" sample_hook 7] by (simp add: registry_ok_def list_hooks_def)

text \<open>
  What the registry answers: it never returns \<open>Ok(Reject)\<close>; it returns an error exactly
  when some hook of the chain, reached with the event as modified so far, rejects or, being
  fail-closed, fails or times out; hooks after that one are not consulted.
\<close>

theorem hook_chain_verdict:
  "(\<forall>r. run_hooks sd ts fs hooks ev \<noteq> Ok (Reject r))
   \<and> (\<not> is_ok (run_hooks sd ts fs hooks ev) \<longleftrightarrow>
        (\<exists>xs h ys ev'. matching_hooks hooks ev = xs @ h # ys \<and> run_chain sd fs ev xs = Ok ev'
           \<and> hook_stops h ev'))"
proof
  show "\<forall>r. run_hooks sd ts fs hooks ev \<noteq> Ok (Reject r)"
    by (auto simp: run_hooks_def Let_def split: sum.splits if_splits)
  have "is_ok (run_hooks sd ts fs hooks ev) \<longleftrightarrow> is_ok (run_chain sd fs ev (matching_hooks hooks ev))"
    by (auto simp: run_hooks_def Let_def split: sum.splits)
  then show "\<not> is_ok (run_hooks sd ts fs hooks ev) \<longleftrightarrow>
      (\<exists>xs h ys ev'. matching_hooks hooks ev = xs @ h # ys \<and> run_chain sd fs ev xs = Ok ev' \<and> hook_stops h ev')"
    by (simp add: run_chain_stops)
qed

end
