(* ===== verification/Tool_Registry.thy ===== *)
theory Tool_Registry
  imports Capability Rate_Limiter
begin

text \<open>
  The tool registry (\<open>src/tools/registry.rs\<close>): registration with the protection of built-in
  names, alias resolution, lookup and removal; the approval requirement and parameter
  redaction of \<open>src/tools/tool.rs\<close>; and the credential registry's host matching
  (\<open>src/tools/wasm/credential_injector.rs\<close>). A tool is a record of the trait methods the
  gates call. The outcome of the non-blocking \<open>try_write\<close> calls is a parameter.
\<close>

section \<open>Tools\<close>

datatype approval_requirement = NeverApprove | UnlessAutoApproved | AlwaysApprove

fun is_required :: "approval_requirement \<Rightarrow> bool" where
  "is_required NeverApprove = False"
| "is_required UnlessAutoApproved = True"
| "is_required AlwaysApprove = True"

record tool =
  tl_name :: string
  tl_requires_approval :: "json \<Rightarrow> approval_requirement"
  tl_sensitive_params :: "string list"
  tl_rate_limit_config :: "tool_rate_limit_config option"

fun redact_keys :: "(string \<times> json) list \<Rightarrow> string list \<Rightarrow> (string \<times> json) list" where
  "redact_keys obj [] = obj"
| "redact_keys obj (key # keys) =
     redact_keys (if hm_get obj key \<noteq> None then hm_insert obj key (JString ''[REDACTED]'') else obj) keys"

definition redact_params :: "json \<Rightarrow> string list \<Rightarrow> json" where
  "redact_params params sensitive =
     (if sensitive = [] then params
      else (case params of JObject obj \<Rightarrow> JObject (redact_keys obj sensitive) | _ \<Rightarrow> params))"

section \<open>Credentials\<close>

definition host_matches_pattern :: "string \<Rightarrow> string \<Rightarrow> bool" where
  "host_matches_pattern host pattern =
     (if pattern = host then True
      else if CHR '':'' \<in> set pattern \<and> takeWhile (\<lambda>c. c \<noteq> CHR '':'') pattern = host then True
      else wildcard_matches pattern host)"

record credential_mapping =
  cm_secret_name :: string
  cm_host_patterns :: "string list"

definition has_credentials_for_host :: "credential_mapping list \<Rightarrow> string \<Rightarrow> bool" where
  "has_credentials_for_host mappings host =
     list_ex (\<lambda>m. list_ex (host_matches_pattern host) (cm_host_patterns m)) mappings"

definition find_for_host :: "credential_mapping list \<Rightarrow> string \<Rightarrow> credential_mapping list" where
  "find_for_host mappings host =
     filter (\<lambda>m. list_ex (host_matches_pattern host) (cm_host_patterns m)) mappings"

definition has_secret :: "credential_mapping list \<Rightarrow> string \<Rightarrow> bool" where
  "has_secret mappings secret_name = list_ex (\<lambda>m. cm_secret_name m = secret_name) mappings"

section \<open>The registry\<close>

definition PROTECTED_TOOL_NAMES :: "string list" where
  "PROTECTED_TOOL_NAMES =
     [''echo'', ''time'', ''json'', ''http'', ''shell'', ''restart'', ''message'',
      ''read_file'', ''write_file'', ''list_dir'', ''apply_patch'', ''glob'', ''grep'',
      ''file_undo'', ''memory_search'', ''memory_write'', ''memory_read'', ''memory_tree'',
      ''create_job'', ''list_jobs'', ''job_status'', ''job_events'', ''job_prompt'',
      ''cancel_job'', ''build_software'', ''tool_search'', ''tool_install'', ''tool_auth'',
      ''tool_activate'', ''tool_list'', ''tool_remove'', ''tool_upgrade'', ''tool_info'',
      ''extension_info'', ''routine_create'', ''routine_list'', ''routine_update'',
      ''routine_delete'', ''routine_fire'', ''routine_history'', ''event_emit'',
      ''skill_list'', ''skill_search'', ''skill_install'', ''skill_remove'',
      ''secret_list'', ''secret_delete'', ''image_generate'', ''image_edit'',
      ''image_analyze'', ''plan_update'', ''tool_permission_set'', ''web_fetch'']"

definition is_protected_tool_name :: "string \<Rightarrow> bool" where
  "is_protected_tool_name name = (name \<in> set PROTECTED_TOOL_NAMES)"

record tool_registry =
  tr_tools :: "(string, tool) hmap"
  tr_builtin_names :: "string list"
  tr_credentials :: "credential_mapping list option"

definition tool_registry_new :: tool_registry where
  "tool_registry_new = \<lparr>tr_tools = [], tr_builtin_names = [], tr_credentials = None\<rparr>"

definition register_tool :: "tool_registry \<Rightarrow> tool \<Rightarrow> tool_registry" where
  "register_tool r t =
     (let name = tl_name t
      in if CHR ''.'' \<in> set name then r
         else if name \<in> set PROTECTED_TOOL_NAMES \<and> name \<in> set (tr_builtin_names r) then r
         else r\<lparr>tr_tools := hm_insert (tr_tools r) name t\<rparr>)"

definition register_sync :: "bool \<Rightarrow> bool \<Rightarrow> tool_registry \<Rightarrow> tool \<Rightarrow> tool_registry" where
  "register_sync tools_free builtins_free r t =
     (let name = tl_name t
      in if CHR ''.'' \<in> set name then r
         else if \<not> tools_free then r
         else
           let r1 = r\<lparr>tr_tools := hm_insert (tr_tools r) name t\<rparr>
           in if builtins_free then r1\<lparr>tr_builtin_names := List.insert name (tr_builtin_names r1)\<rparr> else r1)"

definition resolve_key :: "(string, tool) hmap \<Rightarrow> string \<Rightarrow> string option" where
  "resolve_key tools name =
     (if hm_get tools name \<noteq> None then Some name
      else
        let underscore_alias = underscored name
        in if underscore_alias \<noteq> name \<and> hm_get tools underscore_alias \<noteq> None then Some underscore_alias
           else
             let hyphen_alias = hyphenated name
             in if hyphen_alias \<noteq> name \<and> hm_get tools hyphen_alias \<noteq> None then Some hyphen_alias
                else None)"

definition unregister_tool :: "tool_registry \<Rightarrow> string \<Rightarrow> tool option \<times> tool_registry" where
  "unregister_tool r name =
     (case resolve_key (tr_tools r) name of
        None \<Rightarrow> (None, r)
      | Some key \<Rightarrow> (hm_get (tr_tools r) key, r\<lparr>tr_tools := hm_remove (tr_tools r) key\<rparr>))"

definition get_resolved :: "tool_registry \<Rightarrow> string \<Rightarrow> (string \<times> tool) option" where
  "get_resolved r name =
     Option.bind (resolve_key (tr_tools r) name)
       (\<lambda>key. map_option (\<lambda>t. (key, t)) (hm_get (tr_tools r) key))"

definition get_tool :: "tool_registry \<Rightarrow> string \<Rightarrow> tool option" where
  "get_tool r name = Option.bind (resolve_key (tr_tools r) name) (hm_get (tr_tools r))"

definition resolve_name :: "tool_registry \<Rightarrow> string \<Rightarrow> string option" where
  "resolve_name r name = resolve_key (tr_tools r) name"

definition has_tool :: "tool_registry \<Rightarrow> string \<Rightarrow> bool" where
  "has_tool r name = (get_tool r name \<noteq> None)"

definition retain_only :: "tool_registry \<Rightarrow> string list \<Rightarrow> tool_registry" where
  "retain_only r names =
     (if names = [] then r else r\<lparr>tr_tools := hm_retain (tr_tools r) (\<lambda>k _. k \<in> set names)\<rparr>)"

section \<open>Lemmas\<close>

lemma resolve_key_Some:
  "resolve_key tools name = Some key \<Longrightarrow> hm_get tools key \<noteq> None \<and> underscored key = underscored name"
  by (auto simp: resolve_key_def Let_def split: if_splits)

lemma resolve_key_None:
  "resolve_key tools name = None \<longleftrightarrow>
     hm_get tools name = None \<and> hm_get tools (underscored name) = None \<and> hm_get tools (hyphenated name) = None"
  by (auto simp: resolve_key_def Let_def)

lemma get_tool_resolved: "get_tool r name = map_option snd (get_resolved r name)"
  by (simp add: get_tool_def get_resolved_def option.map_comp comp_def option.map_ident split: bind_splits)

lemma redact_keys_get:
  "hm_get (redact_keys obj ks) k =
     (if k \<in> set ks \<and> hm_get obj k \<noteq> None then Some (JString ''[REDACTED]'') else hm_get obj k)"
  by (induction obj ks rule: redact_keys.induct) (auto simp: hm_simps)

section \<open>Properties\<close>

text \<open>
  A protected built-in cannot be shadowed: whatever tools are registered dynamically
  afterwards, looking up its name gives the built-in tool.
\<close>

theorem builtin_not_shadowed:
  assumes "tl_name t \<in> set PROTECTED_TOOL_NAMES" and "CHR ''.'' \<notin> set (tl_name t)"
  shows "get_tool (foldl register_tool (register_sync True True r t) ts) (tl_name t) = Some t"
proof -
  have "hm_get (tr_tools (foldl register_tool r1 ts)) (tl_name t) = Some t"
    if "hm_get (tr_tools r1) (tl_name t) = Some t" "tl_name t \<in> set (tr_builtin_names r1)" for r1
    using that
  proof (induction ts arbitrary: r1)
    case (Cons x ts)
    have "hm_get (tr_tools (register_tool r1 x)) (tl_name t) = Some t"
      "tl_name t \<in> set (tr_builtin_names (register_tool r1 x))"
      using Cons.prems assms by (auto simp: register_tool_def Let_def hm_simps)
    then show ?case using Cons.IH by simp
  qed simp
  moreover have "hm_get (tr_tools (register_sync True True r t)) (tl_name t) = Some t"
    "tl_name t \<in> set (tr_builtin_names (register_sync True True r t))"
    using assms(2) by (auto simp: register_sync_def Let_def hm_simps)
  ultimately show ?thesis by (simp add: get_tool_def resolve_key_def)
qed

definition sample_tool :: "string \<Rightarrow> approval_requirement \<Rightarrow> tool" where
  "sample_tool n a = \<lparr>tl_name = n, tl_requires_approval = (\<lambda>_. a), tl_sensitive_params = [],
     tl_rate_limit_config = None\<rparr>"

lemma builtin_not_shadowed_witness:
  "map_option (\<lambda>t. tl_requires_approval t JNull)
     (get_tool (register_tool (register_sync True True tool_registry_new (sample_tool ''shell'' AlwaysApprove))
        (sample_tool ''shell'' NeverApprove)) ''shell'') = Some AlwaysApprove"
proof -
  let ?t = "sample_tool ''shell'' AlwaysApprove" and ?u = "sample_tool ''shell'' NeverApprove"
  have "tl_name ?t \<in> set PROTECTED_TOOL_NAMES" "CHR ''.'' \<notin> set (tl_name ?t)"
    by (simp_all add: sample_tool_def PROTECTED_TOOL_NAMES_def)
  from builtin_not_shadowed [OF this, of tool_registry_new "[?u]"] show ?thesis
    by (simp add: sample_tool_def)
qed

text \<open>
  Name resolution: a lookup finds a tool exactly when one is registered under the name
  or its all-underscore or all-hyphen spelling, an exact match winning, and the key it
  resolves to differs from the name at most in hyphens and underscores. Removing what a
  name resolves to leaves every other key untouched.
\<close>

theorem tool_resolution:
  "(has_tool r name \<longleftrightarrow> (\<exists>k \<in> {name, underscored name, hyphenated name}. hm_get (tr_tools r) k \<noteq> None))
   \<and> (hm_get (tr_tools r) name \<noteq> None \<longrightarrow> get_resolved r name = Some (name, the (hm_get (tr_tools r) name)))
   \<and> (\<forall>key t. get_resolved r name = Some (key, t) \<longrightarrow>
        hm_get (tr_tools r) key = Some t \<and> underscored key = underscored name
        \<and> fst (unregister_tool r name) = Some t
        \<and> (\<forall>k. hm_get (tr_tools (snd (unregister_tool r name))) k = (if k = key then None else hm_get (tr_tools r) k)))"
proof (intro conjI allI impI)
  have "has_tool r name \<longleftrightarrow> resolve_key (tr_tools r) name \<noteq> None"
    by (auto simp: has_tool_def get_tool_def dest: resolve_key_Some split: bind_splits)
  then show "has_tool r name \<longleftrightarrow> (\<exists>k \<in> {name, underscored name, hyphenated name}. hm_get (tr_tools r) k \<noteq> None)"
    unfolding resolve_key_None by auto
qed (auto simp: get_resolved_def resolve_key_def [of _ name] unregister_tool_def hm_simps Let_def
    split: option.splits bind_splits if_splits)

lemma tool_resolution_witness:
  "get_resolved (register_tool tool_registry_new (sample_tool ''notion_search'' NeverApprove)) ''notion_search''
     = Some (''notion_search'', sample_tool ''notion_search'' NeverApprove)"
proof -
  let ?r = "register_tool tool_registry_new (sample_tool ''notion_search'' NeverApprove)"
  have "hm_get (tr_tools ?r) ''notion_search'' = Some (sample_tool ''notion_search'' NeverApprove)"
    by (simp add: register_tool_def tool_registry_new_def sample_tool_def Let_def hm_get_def)
  with tool_resolution [of ?r "''notion_search''"] show ?thesis by simp
qed

text \<open>
  Which hosts a credential applies to: the host itself, the host with a port, or, for a
  wildcard \<open>*.domain\<close>, a host that ends in a dot and the domain. A wildcard never matches the
  domain itself, nor a longer name that merely ends in the same letters.
\<close>

theorem host_pattern_spec:
  "host_matches_pattern host pattern \<longleftrightarrow>
     pattern = host
     \<or> (CHR '':'' \<notin> set host \<and> (\<exists>port. pattern = host @ '':'' @ port))
     \<or> (\<exists>domain sub. pattern = ''*.'' @ domain \<and> host = sub @ ''.'' @ domain)"
proof -
  have port: "CHR '':'' \<in> set pattern \<and> takeWhile (\<lambda>c. c \<noteq> CHR '':'') pattern = host \<longleftrightarrow>
      CHR '':'' \<notin> set host \<and> (\<exists>port. pattern = host @ '':'' @ port)"
  proof
    assume l: "CHR '':'' \<in> set pattern \<and> takeWhile (\<lambda>c. c \<noteq> CHR '':'') pattern = host"
    then obtain ys zs where "pattern = ys @ CHR '':'' # zs" "CHR '':'' \<notin> set ys"
      by (meson split_list_first)
    then show "CHR '':'' \<notin> set host \<and> (\<exists>port. pattern = host @ '':'' @ port)"
      using l by (auto simp: takeWhile_upto)
  next
    assume r: "CHR '':'' \<notin> set host \<and> (\<exists>port. pattern = host @ '':'' @ port)"
    then show "CHR '':'' \<in> set pattern \<and> takeWhile (\<lambda>c. c \<noteq> CHR '':'') pattern = host"
      by (auto simp: takeWhile_upto)
  qed
  show ?thesis unfolding host_matches_pattern_def wildcard_iff using port by auto
qed

text \<open>
  Redaction replaces the value of every sensitive parameter that is present and leaves
  all other parameters as they are; it adds no parameter.
\<close>

theorem redaction_spec:
  "json_get (redact_params params sensitive) k =
     (if k \<in> set sensitive \<and> json_get params k \<noteq> None then Some (JString ''[REDACTED]'')
      else json_get params k)"
  by (cases params) (auto simp: redact_params_def json_get_def hm_get_def [symmetric] redact_keys_get)

end
