(* ===== verification/Gate_Pipeline.thy ===== *)
theory Gate_Pipeline
  imports Lease_Manager Hooks Tool_Registry "HOL-Library.Multiset"
begin

text \<open>
  The execution gates in front of a tool call: the pipeline (\<open>gate/mod.rs\<close>,
  \<open>gate/pipeline.rs\<close>), the lease gate (\<open>gate/lease.rs\<close>) and the approval, authentication,
  hook, rate limit and relay gates (\<open>src/gate/approval.rs\<close>). A gate is a record of the
  trait's methods whose evaluation threads the shared state it may change, the rate
  limiter; one clock reading serves one pipeline run. The locale \<open>execution_gate\<close> is the
  contract of a gate, interpreted for each gate of the program.
\<close>

section \<open>Gates\<close>

datatype gate_decision = GateAllow | GatePause string resume_kind | GateDeny string

fun kind_name :: "resume_kind \<Rightarrow> string" where
  "kind_name (Approval _) = ''approval''"
| "kind_name (Authentication _ _ _) = ''authentication''"
| "kind_name (External _) = ''external confirmation''"

datatype gate_resolution = Approved bool | Denied "string option" | CredentialProvided string
  | GateCancelled | ExternalCallback json

datatype execution_mode = Interactive | InteractiveAutoApprove | Autonomous | Container

record gate_context =
  gc_user_id :: string
  gc_thread_id :: thread_id
  gc_source_channel :: string
  gc_action_name :: string
  gc_call_id :: string
  gc_parameters :: json
  gc_action_def :: action_def
  gc_execution_mode :: execution_mode
  gc_auto_approved :: "string list"

record gate_env =
  ge_leases :: lease_manager
  ge_limiter :: rate_limiter

record exec_gate =
  eg_name :: string
  eg_priority :: u32
  eg_evaluate :: "gate_context \<Rightarrow> gate_env \<Rightarrow> gate_decision \<times> gate_env"

section \<open>The pipeline\<close>

definition pipeline_new :: "exec_gate list \<Rightarrow> exec_gate list" where
  "pipeline_new gates = sort_key eg_priority gates"

definition pipeline_allow_all :: "exec_gate list" where
  "pipeline_allow_all = []"

fun pipeline_evaluate :: "exec_gate list \<Rightarrow> gate_context \<Rightarrow> gate_env \<Rightarrow> gate_decision \<times> gate_env" where
  "pipeline_evaluate [] ctx env = (GateAllow, env)"
| "pipeline_evaluate (g # gs) ctx env =
     (case eg_evaluate g ctx env of
        (GateAllow, env') \<Rightarrow> pipeline_evaluate gs ctx env'
      | (decision, env') \<Rightarrow> (decision, env'))"

section \<open>The gates of the program\<close>

definition quoted :: "string \<Rightarrow> string" where
  "quoted s = [CHR 39] @ s @ [CHR 39]"

definition lease_gate_evaluate ::
  "bool \<Rightarrow> time \<Rightarrow> gate_context \<Rightarrow> gate_env \<Rightarrow> gate_decision \<times> gate_env" where
  "lease_gate_evaluate permissive now ctx env =
     (if permissive then (GateAllow, env)
      else (case find_lease_for_action now (ge_leases env) (gc_thread_id ctx) (gc_action_name ctx) of
              Some lease \<Rightarrow>
                if is_valid now lease then (GateAllow, env)
                else (GateDeny (''No valid lease for action '' @ quoted (gc_action_name ctx)
                        @ '' on thread '' @ show_nat (gc_thread_id ctx)), env)
            | None \<Rightarrow> (GateDeny (''No valid lease for action '' @ quoted (gc_action_name ctx)
                        @ '' on thread '' @ show_nat (gc_thread_id ctx)), env)))"

definition lease_gate :: "bool \<Rightarrow> time \<Rightarrow> exec_gate" where
  "lease_gate permissive now =
     \<lparr>eg_name = ''lease'', eg_priority = 10, eg_evaluate = lease_gate_evaluate permissive now\<rparr>"

text \<open>
  \<open>extract_host_from_params\<close> parses the URL with the \<open>url\<close> crate: the parameter \<open>url_host\<close>.
\<close>

definition extract_host_from_params :: "(string \<Rightarrow> string option) \<Rightarrow> json \<Rightarrow> string option" where
  "extract_host_from_params url_host params = Option.bind (json_str_field params ''url'') url_host"

definition credentialed_http ::
  "(string \<Rightarrow> string option) \<Rightarrow> tool_registry \<Rightarrow> gate_context \<Rightarrow> bool" where
  "credentialed_http url_host tools ctx =
     ((gc_action_name ctx = ''http'' \<or> gc_action_name ctx = ''http_request'')
      \<and> (case tr_credentials tools of
           None \<Rightarrow> False
         | Some reg \<Rightarrow>
             (case extract_host_from_params url_host (gc_parameters ctx) of
                None \<Rightarrow> False
              | Some host \<Rightarrow> has_credentials_for_host reg host)))"

definition approval_decision ::
  "(string \<Rightarrow> string option) \<Rightarrow> tool_registry \<Rightarrow> gate_context \<Rightarrow> gate_decision" where
  "approval_decision url_host tools ctx =
     (case get_resolved tools (gc_action_name ctx) of
        None \<Rightarrow> GateAllow
      | Some (_, t) \<Rightarrow>
          let requirement = tl_requires_approval t (gc_parameters ctx)
          in (case gc_execution_mode ctx of
                Interactive \<Rightarrow>
                  (case requirement of
                     NeverApprove \<Rightarrow> GateAllow
                   | UnlessAutoApproved \<Rightarrow>
                       if gc_action_name ctx \<in> set (gc_auto_approved ctx) then GateAllow
                       else if credentialed_http url_host tools ctx then GateAllow
                       else GatePause (''Tool '' @ quoted (gc_action_name ctx) @ '' requires approval to execute.'')
                              (Approval True)
                   | AlwaysApprove \<Rightarrow>
                       GatePause (''Tool '' @ quoted (gc_action_name ctx)
                          @ '' requires explicit approval for this operation.'') (Approval False))
              | InteractiveAutoApprove \<Rightarrow>
                  (case requirement of
                     NeverApprove \<Rightarrow> GateAllow
                   | UnlessAutoApproved \<Rightarrow> GateAllow
                   | AlwaysApprove \<Rightarrow>
                       GatePause (''Tool '' @ quoted (gc_action_name ctx)
                          @ '' requires explicit approval (auto-approve does not cover this operation).'')
                          (Approval False))
              | Autonomous \<Rightarrow>
                  (case requirement of
                     NeverApprove \<Rightarrow> GateAllow
                   | UnlessAutoApproved \<Rightarrow> GateAllow
                   | AlwaysApprove \<Rightarrow>
                       GateDeny (''Tool '' @ quoted (gc_action_name ctx)
                          @ '' requires explicit approval and cannot run autonomously.''))
              | Container \<Rightarrow> GateAllow))"

definition approval_gate :: "(string \<Rightarrow> string option) \<Rightarrow> tool_registry \<Rightarrow> exec_gate" where
  "approval_gate url_host tools =
     \<lparr>eg_name = ''approval'', eg_priority = 100,
      eg_evaluate = (\<lambda>ctx env. (approval_decision url_host tools ctx, env))\<rparr>"

definition authentication_gate :: exec_gate where
  "authentication_gate =
     \<lparr>eg_name = ''authentication'', eg_priority = 200, eg_evaluate = (\<lambda>ctx env. (GateAllow, env))\<rparr>"

text \<open>
  Hooks live outside the program; \<open>run\<close> is \<open>HookRegistry::run\<close> on the registry in place.
\<close>

definition hook_event_of :: "tool_registry \<Rightarrow> gate_context \<Rightarrow> hook_event" where
  "hook_event_of tools ctx =
     ToolCall (gc_action_name ctx)
       (case get_tool tools (gc_action_name ctx) of
          Some t \<Rightarrow> redact_params (gc_parameters ctx) (tl_sensitive_params t)
        | None \<Rightarrow> gc_parameters ctx)
       (gc_user_id ctx) (''gate:'' @ show_nat (gc_thread_id ctx))"

definition hook_decision ::
  "(hook_event \<Rightarrow> hook_error + hook_outcome) \<Rightarrow> tool_registry \<Rightarrow> gate_context \<Rightarrow> gate_decision" where
  "hook_decision run tools ctx =
     (case run (hook_event_of tools ctx) of
        Inr (Reject reason) \<Rightarrow>
          GateDeny (''Tool '' @ quoted (gc_action_name ctx) @ '' blocked by hook: '' @ reason)
      | Inl (Rejected reason) \<Rightarrow>
          GateDeny (''Tool '' @ quoted (gc_action_name ctx) @ '' blocked by hook: '' @ reason)
      | Inl e \<Rightarrow> GateAllow
      | Inr (Continue _) \<Rightarrow> GateAllow)"

definition hook_gate :: "(hook_event \<Rightarrow> hook_error + hook_outcome) \<Rightarrow> tool_registry \<Rightarrow> exec_gate" where
  "hook_gate run tools =
     \<lparr>eg_name = ''hook'', eg_priority = 300, eg_evaluate = (\<lambda>ctx env. (hook_decision run tools ctx, env))\<rparr>"

text \<open>\<open>{:.0}\<close> of a duration in seconds: rounded to the nearest, ties to even.\<close>

definition round_secs :: "time \<Rightarrow> int" where
  "round_secs d =
     (let q = d div 1000000000; m = d mod 1000000000
      in if m < 500000000 \<or> (m = 500000000 \<and> even q) then q else q + 1)"

definition rate_limit_gate_evaluate ::
  "tool_registry \<Rightarrow> time \<Rightarrow> gate_context \<Rightarrow> gate_env \<Rightarrow> gate_decision \<times> gate_env" where
  "rate_limit_gate_evaluate tools now ctx env =
     (case get_tool tools (gc_action_name ctx) of
        None \<Rightarrow> (GateAllow, env)
      | Some t \<Rightarrow>
          (case tl_rate_limit_config t of
             None \<Rightarrow> (GateAllow, env)
           | Some config \<Rightarrow>
               (case check_and_record now (ge_limiter env) (gc_user_id ctx) (gc_action_name ctx) config of
                  (RlLimited retry_after _, l') \<Rightarrow>
                    (GateDeny (''Tool '' @ quoted (gc_action_name ctx)
                       @ '' is rate limited. Try again in '' @ show_int (round_secs retry_after) @ ''s.''),
                     env\<lparr>ge_limiter := l'\<rparr>)
                | (RlAllowed _ _, l') \<Rightarrow> (GateAllow, env\<lparr>ge_limiter := l'\<rparr>))))"

definition rate_limit_gate :: "tool_registry \<Rightarrow> time \<Rightarrow> exec_gate" where
  "rate_limit_gate tools now =
     \<lparr>eg_name = ''rate_limit'', eg_priority = 50, eg_evaluate = rate_limit_gate_evaluate tools now\<rparr>"

definition relay_decision :: "gate_context \<Rightarrow> gate_decision" where
  "relay_decision ctx =
     (if \<not> ends_with (gc_source_channel ctx) ''-relay'' then GateAllow
      else if ad_requires_approval (gc_action_def ctx) then
        GateDeny (''Tool '' @ quoted (gc_action_name ctx) @ '' requires approval but relay channel ''
          @ quoted (gc_source_channel ctx) @ '' cannot provide interactive response.'')
      else GateAllow)"

definition relay_channel_gate :: exec_gate where
  "relay_channel_gate =
     \<lparr>eg_name = ''relay_channel'', eg_priority = 80, eg_evaluate = (\<lambda>ctx env. (relay_decision ctx, env))\<rparr>"

section \<open>The contract of a gate\<close>

text \<open>
  A gate allows exactly what its condition permits, and does not touch the leases.
\<close>

locale execution_gate =
  fixes gate :: exec_gate
    and permits :: "gate_context \<Rightarrow> gate_env \<Rightarrow> bool"
  assumes allow_iff: "fst (eg_evaluate gate ctx env) = GateAllow \<longleftrightarrow> permits ctx env"
    and keeps_leases: "ge_leases (snd (eg_evaluate gate ctx env)) = ge_leases env"
begin

lemma stops_unless_permitted:
  "\<not> permits ctx env \<Longrightarrow> pipeline_evaluate (gate # gs) ctx env = eg_evaluate gate ctx env"
  using allow_iff [of ctx env] by (cases "eg_evaluate gate ctx env") (auto split: gate_decision.splits)

lemma passes_when_permitted:
  "permits ctx env \<Longrightarrow>
   pipeline_evaluate (gate # gs) ctx env = pipeline_evaluate gs ctx (snd (eg_evaluate gate ctx env))"
  using allow_iff [of ctx env] by (cases "eg_evaluate gate ctx env") (auto split: gate_decision.splits)

end

text \<open>
  A gate that stands once among gates that leave the shared state alone is asked in the
  state the call came with, and what it records is what the call leaves behind.
\<close>

context execution_gate
begin

lemma pipeline_without:
  "fst (pipeline_evaluate gs ctx env) = GateAllow \<Longrightarrow>
   (\<And>g e. g \<in> set gs \<Longrightarrow> snd (eg_evaluate g ctx e) = e) \<Longrightarrow> snd (pipeline_evaluate gs ctx env) = env"
proof (induction gs arbitrary: env)
  case (Cons g gs)
  obtain env' where step: "eg_evaluate g ctx env = (GateAllow, env')"
      "fst (pipeline_evaluate gs ctx env') = GateAllow"
    using Cons.prems(1) by (cases "eg_evaluate g ctx env") (auto split: gate_decision.splits)
  have "env' = env" using Cons.prems(2) [of g env] step by simp
  then show ?case using Cons.IH [OF step(2)] Cons.prems(2) step by simp
qed simp

lemma pipeline_permits_once:
  assumes "fst (pipeline_evaluate gs ctx env) = GateAllow" and "gate \<in> set gs" and "distinct gs"
    and frame: "\<And>g e. g \<in> set gs \<Longrightarrow> g \<noteq> gate \<Longrightarrow> snd (eg_evaluate g ctx e) = e"
  shows "permits ctx env \<and> snd (pipeline_evaluate gs ctx env) = snd (eg_evaluate gate ctx env)"
  using assms
proof (induction gs arbitrary: env)
  case (Cons g gs)
  obtain env' where step: "eg_evaluate g ctx env = (GateAllow, env')"
      "fst (pipeline_evaluate gs ctx env') = GateAllow"
    using Cons.prems(1) by (cases "eg_evaluate g ctx env") (auto split: gate_decision.splits)
  show ?case
  proof (cases "g = gate")
    case True
    have "snd (pipeline_evaluate gs ctx env') = env'"
      using Cons.prems(3,4) True by (intro pipeline_without [OF step(2)]) auto
    then show ?thesis using True step allow_iff [of ctx env] by simp
  next
    case False
    have "env' = env" using Cons.prems(4) [of g env] False step by simp
    then show ?thesis using Cons.IH [OF step(2)] Cons.prems False step by simp
  qed
qed simp

end

text \<open>A gate whose condition reads only the context and the leases.\<close>

locale stable_gate = execution_gate +
  assumes stable: "ge_leases env = ge_leases env' \<Longrightarrow> permits ctx env = permits ctx env'"
begin

lemma pipeline_permits:
  assumes "fst (pipeline_evaluate gs ctx env) = GateAllow" and "gate \<in> set gs"
    and frame: "\<And>g env. g \<in> set gs \<Longrightarrow> ge_leases (snd (eg_evaluate g ctx env)) = ge_leases env"
  shows "permits ctx env"
  using assms
proof (induction gs arbitrary: env)
  case (Cons g gs)
  obtain env' where step: "eg_evaluate g ctx env = (GateAllow, env')"
      "fst (pipeline_evaluate gs ctx env') = GateAllow"
    using Cons.prems(1) by (cases "eg_evaluate g ctx env") (auto split: gate_decision.splits)
  show ?case
  proof (cases "g = gate")
    case True
    then show ?thesis using step allow_iff [of ctx env] by simp
  next
    case False
    then have "permits ctx env'" using Cons.IH [OF step(2)] Cons.prems(2,3) by simp
    moreover have "ge_leases env' = ge_leases env" using Cons.prems(3) [of g env] step by simp
    ultimately show ?thesis using stable by blast
  qed
qed simp

end

interpretation leaseg: stable_gate "lease_gate permissive now"
  "\<lambda>ctx env. permissive \<or> find_lease_for_action now (ge_leases env) (gc_thread_id ctx) (gc_action_name ctx) \<noteq> None"
  for permissive now
proof
  fix ctx :: gate_context and env :: gate_env
  have "is_valid now l"
    if "find_lease_for_action now (ge_leases env) (gc_thread_id ctx) (gc_action_name ctx) = Some l" for l
    using that by (auto simp: find_lease_for_action_def find_Some_iff)
  then show "fst (eg_evaluate (lease_gate permissive now) ctx env) = GateAllow \<longleftrightarrow>
      permissive \<or> find_lease_for_action now (ge_leases env) (gc_thread_id ctx) (gc_action_name ctx) \<noteq> None"
    by (auto simp: lease_gate_def lease_gate_evaluate_def split: option.splits)
qed (auto simp: lease_gate_def lease_gate_evaluate_def split: option.splits)

interpretation relayg: stable_gate relay_channel_gate
  "\<lambda>ctx _. \<not> (ends_with (gc_source_channel ctx) ''-relay'' \<and> ad_requires_approval (gc_action_def ctx))"
  by unfold_locales (auto simp: relay_channel_gate_def relay_decision_def)

interpretation approvalg: stable_gate "approval_gate url_host tools"
  "\<lambda>ctx _. approval_decision url_host tools ctx = GateAllow" for url_host tools
  by unfold_locales (auto simp: approval_gate_def)

interpretation hookg: stable_gate "hook_gate run tools"
  "\<lambda>ctx _. (\<forall>r. run (hook_event_of tools ctx) \<noteq> Err (Rejected r))
     \<and> (\<forall>r. run (hook_event_of tools ctx) \<noteq> Ok (Reject r))" for run tools
  by unfold_locales
    (auto simp: hook_gate_def hook_decision_def split: sum.splits hook_error.splits hook_outcome.splits)

interpretation authg: stable_gate authentication_gate "\<lambda>_ _. True"
  by unfold_locales (auto simp: authentication_gate_def)

interpretation rateg: execution_gate "rate_limit_gate tools now"
  "\<lambda>ctx env. case Option.bind (get_tool tools (gc_action_name ctx)) tl_rate_limit_config of
      None \<Rightarrow> True
    | Some c \<Rightarrow> is_allowed (fst (check_and_record now (ge_limiter env) (gc_user_id ctx) (gc_action_name ctx) c))"
  for tools now
  by unfold_locales
    (auto simp: rate_limit_gate_def rate_limit_gate_evaluate_def
      split: option.splits prod.splits rate_limit_result.splits)

lemmas gate_frames = leaseg.keeps_leases relayg.keeps_leases approvalg.keeps_leases
  hookg.keeps_leases authg.keeps_leases rateg.keeps_leases

section \<open>Properties\<close>

text \<open>
  The specification of a pipeline: gate \<open>i\<close> is asked in the state the gates before it left.
\<close>

definition env_before :: "exec_gate list \<Rightarrow> gate_context \<Rightarrow> gate_env \<Rightarrow> nat \<Rightarrow> gate_env" where
  "env_before gs ctx env i = foldl (\<lambda>e g. snd (eg_evaluate g ctx e)) env (take i gs)"

definition answer_at :: "exec_gate list \<Rightarrow> gate_context \<Rightarrow> gate_env \<Rightarrow> nat \<Rightarrow> gate_decision" where
  "answer_at gs ctx env i = fst (eg_evaluate (gs ! i) ctx (env_before gs ctx env i))"

lemma env_before_simps [simp]:
  "env_before gs ctx env 0 = env"
  "env_before (g # gs) ctx env (Suc i) = env_before gs ctx (snd (eg_evaluate g ctx env)) i"
  by (simp_all add: env_before_def)

lemma answer_at_simps [simp]:
  "answer_at (g # gs) ctx env 0 = fst (eg_evaluate g ctx env)"
  "answer_at (g # gs) ctx env (Suc i) = answer_at gs ctx (snd (eg_evaluate g ctx env)) i"
  by (simp_all add: answer_at_def)

lemma pipeline_evaluate_allow:
  "pipeline_evaluate gs ctx env = (GateAllow, env2) \<longleftrightarrow>
     (\<forall>i < length gs. answer_at gs ctx env i = GateAllow) \<and> env2 = env_before gs ctx env (length gs)"
proof (induction gs arbitrary: env)
  case (Cons g gs)
  obtain d1 env1 where step: "eg_evaluate g ctx env = (d1, env1)" by (cases "eg_evaluate g ctx env")
  show ?case
    using Cons.IH [of env1] by (cases d1) (auto simp: step All_less_Suc2)
qed auto

lemma pipeline_evaluate_stop:
  "d \<noteq> GateAllow \<Longrightarrow> pipeline_evaluate gs ctx env = (d, env2) \<longleftrightarrow>
     (\<exists>i < length gs. answer_at gs ctx env i = d \<and> (\<forall>j < i. answer_at gs ctx env j = GateAllow)
        \<and> env2 = env_before gs ctx env (Suc i))"
proof (induction gs arbitrary: env)
  case (Cons g gs)
  obtain d1 env1 where step: "eg_evaluate g ctx env = (d1, env1)" by (cases "eg_evaluate g ctx env")
  show ?case
  proof (cases "d1 = GateAllow")
    case True
    then show ?thesis
      using Cons.IH [of env1] Cons.prems by (auto simp: step Ex_less_Suc2 All_less_Suc2)
  next
    case False
    then have "pipeline_evaluate (g # gs) ctx env = (d1, env1)" by (cases d1) (simp_all add: step)
    then show ?thesis using False by (auto simp: step Ex_less_Suc2 All_less_Suc2)
  qed
qed simp

text \<open>
  C8. The pipeline holds every gate it was given, as often as it was given, in ascending
  order of priority, gates of one priority in the order given. It allows a call exactly when
  every gate, asked in that order with the state the ones before it left, allows it; it
  answers a pause or a denial exactly when some gate gives that answer and every gate before
  it allows, and then no later gate is asked: the state is the one that gate left.
\<close>

theorem pipeline_first_stop:
  "mset (pipeline_new gs) = mset gs \<and> sorted (map eg_priority (pipeline_new gs))
   \<and> filter (\<lambda>g. eg_priority g = p) (pipeline_new gs) = filter (\<lambda>g. eg_priority g = p) gs
   \<and> (let ps = pipeline_new gs; asked = answer_at ps ctx env
      in pipeline_evaluate ps ctx env = (d, env2) \<longleftrightarrow>
           (d = GateAllow \<and> (\<forall>i < length ps. asked i = GateAllow) \<and> env2 = env_before ps ctx env (length ps))
         \<or> (d \<noteq> GateAllow \<and> (\<exists>i < length ps. asked i = d \<and> (\<forall>j < i. asked j = GateAllow)
              \<and> env2 = env_before ps ctx env (Suc i))))"
proof -
  have "filter (\<lambda>g. eg_priority g = p) (pipeline_new gs) = filter (\<lambda>g. eg_priority g = p) gs"
    unfolding pipeline_new_def by (rule sort_key_stable)
  moreover have "mset (pipeline_new gs) = mset gs" "sorted (map eg_priority (pipeline_new gs))"
    by (simp_all add: pipeline_new_def)
  ultimately show ?thesis
    using pipeline_evaluate_stop [of d "pipeline_new gs" ctx env env2]
      pipeline_evaluate_allow [of "pipeline_new gs" ctx env env2]
    by (cases "d = GateAllow") (simp_all add: Let_def)
qed

definition sample_ctx :: "string \<Rightarrow> execution_mode \<Rightarrow> gate_context" where
  "sample_ctx channel mode = \<lparr>gc_user_id = ''u'', gc_thread_id = 1, gc_source_channel = channel,
     gc_action_name = ''web_search'', gc_call_id = ''c1'', gc_parameters = JObject [],
     gc_action_def = \<lparr>ad_name = ''web_search'', ad_description = [], ad_parameters_schema = JObject [],
       ad_effects = [ReadExternal], ad_requires_approval = True\<rparr>,
     gc_execution_mode = mode, gc_auto_approved = []\<rparr>"

definition sample_env :: gate_env where
  "sample_env = \<lparr>ge_leases = sample_mgr, ge_limiter = []\<rparr>"

lemma pipeline_first_stop_witness:
  "pipeline_evaluate (pipeline_new [authentication_gate, relay_channel_gate])
     (sample_ctx ''sms-relay'' Interactive) sample_env
   = (relay_decision (sample_ctx ''sms-relay'' Interactive), sample_env)"
proof -
  let ?ctx = "sample_ctx ''sms-relay'' Interactive"
  have ps: "pipeline_new [authentication_gate, relay_channel_gate] = [relay_channel_gate, authentication_gate]"
    by (simp add: pipeline_new_def authentication_gate_def relay_channel_gate_def word_le_nat_alt)
  have "relay_decision ?ctx \<noteq> GateAllow" by (simp add: relay_decision_def sample_ctx_def ends_with_def)
  then show ?thesis
    using pipeline_first_stop [where gs = "[authentication_gate, relay_channel_gate]" and ctx = ?ctx
        and env = sample_env and d = "relay_decision ?ctx" and ?env2.0 = sample_env]
    unfolding ps by (simp add: Let_def Ex_less_Suc2 del: pipeline_evaluate.simps)
      (simp add: relay_channel_gate_def del: pipeline_evaluate.simps)
qed

text \<open>
  C9. What an allowed call has been checked for. If a pipeline built from the program's gates,
  each at most once and in any order, contains the enforcing lease gate, the rate limit gate,
  the relay gate, the approval gate and the hook gate, and allows a call, then: the thread
  holds a valid lease covering the action; the call does not need approval on a relay
  channel; a known tool outside a container either never needs approval, or needs it unless
  auto-approved and the mode, the user's approvals or stored HTTP credentials stand for it
  (a tool whose approval is always required does not get through); no hook rejected the
  call; and for a tool with a rate limit the limiter, in the state the call came with,
  allowed the call and recorded it.
\<close>

theorem pipeline_allow_safe:
  assumes gates: "set gs \<subseteq> range (\<lambda>p. lease_gate p now)
      \<union> {relay_channel_gate, authentication_gate, rate_limit_gate tools now}
      \<union> {approval_gate url_host tools, hook_gate run tools}" "distinct gs"
    and all: "{lease_gate False now, rate_limit_gate tools now, relay_channel_gate,
      approval_gate url_host tools, hook_gate run tools} \<subseteq> set gs"
    and wf: "hm_wf (ge_leases env)"
    and allow: "pipeline_evaluate (pipeline_new gs) ctx env = (GateAllow, env2)"
  shows "(\<exists>k l. hm_get (ge_leases env) k = Some l \<and> ls_thread_id l = gc_thread_id ctx \<and> is_valid now l
        \<and> covers_action l (gc_action_name ctx))
     \<and> \<not> (ends_with (gc_source_channel ctx) ''-relay'' \<and> ad_requires_approval (gc_action_def ctx))
     \<and> (\<forall>key t. get_resolved tools (gc_action_name ctx) = Some (key, t) \<longrightarrow>
          gc_execution_mode ctx = Container
          \<or> tl_requires_approval t (gc_parameters ctx) = NeverApprove
          \<or> tl_requires_approval t (gc_parameters ctx) = UnlessAutoApproved
            \<and> (gc_execution_mode ctx \<noteq> Interactive \<or> gc_action_name ctx \<in> set (gc_auto_approved ctx)
               \<or> credentialed_http url_host tools ctx))
     \<and> (\<forall>r. run (hook_event_of tools ctx) \<noteq> Err (Rejected r) \<and> run (hook_event_of tools ctx) \<noteq> Ok (Reject r))
     \<and> (\<forall>t c. get_tool tools (gc_action_name ctx) = Some t \<longrightarrow> tl_rate_limit_config t = Some c \<longrightarrow>
          (case check_and_record now (ge_limiter env) (gc_user_id ctx) (gc_action_name ctx) c of
             (verdict, l') \<Rightarrow> is_allowed verdict \<and> ge_limiter env2 = l'))"
proof -
  let ?gs = "pipeline_new gs"
  have mem: "set ?gs = set gs" and dist: "distinct ?gs" using gates(2) by (simp_all add: pipeline_new_def)
  have ok: "fst (pipeline_evaluate ?gs ctx env) = GateAllow" by (simp add: allow)
  have frame: "ge_leases (snd (eg_evaluate g ctx e)) = ge_leases e" if "g \<in> set ?gs" for g e
    using that gates(1) mem by (auto simp: gate_frames)
  have pure: "snd (eg_evaluate g ctx e) = e" if "g \<in> set ?gs" "g \<noteq> rate_limit_gate tools now" for g e
    using that gates(1) mem
    by (auto simp: lease_gate_def lease_gate_evaluate_def relay_channel_gate_def authentication_gate_def
        approval_gate_def hook_gate_def split: option.splits)
  have lease: "find_lease_for_action now (ge_leases env) (gc_thread_id ctx) (gc_action_name ctx) \<noteq> None"
    using leaseg.pipeline_permits [OF ok _ frame, of False] all mem by auto
  have relay: "\<not> (ends_with (gc_source_channel ctx) ''-relay'' \<and> ad_requires_approval (gc_action_def ctx))"
    using relayg.pipeline_permits [OF ok _ frame] all mem by blast
  have appr: "approval_decision url_host tools ctx = GateAllow"
    using approvalg.pipeline_permits [OF ok _ frame] all mem by blast
  have hook: "\<forall>r. run (hook_event_of tools ctx) \<noteq> Err (Rejected r) \<and> run (hook_event_of tools ctx) \<noteq> Ok (Reject r)"
    using hookg.pipeline_permits [OF ok _ frame] all mem by blast
  have rate: "(case Option.bind (get_tool tools (gc_action_name ctx)) tl_rate_limit_config of None \<Rightarrow> True
      | Some c \<Rightarrow> is_allowed (fst (check_and_record now (ge_limiter env) (gc_user_id ctx) (gc_action_name ctx) c)))
      \<and> env2 = snd (eg_evaluate (rate_limit_gate tools now) ctx env)"
    using rateg.pipeline_permits_once [OF ok _ dist pure] all mem allow by auto
  have limited: "is_allowed verdict \<and> ge_limiter env2 = l'"
    if "get_tool tools (gc_action_name ctx) = Some t" "tl_rate_limit_config t = Some c"
      "check_and_record now (ge_limiter env) (gc_user_id ctx) (gc_action_name ctx) c = (verdict, l')" for t c verdict l'
    using rate that
    by (cases verdict) (simp_all add: rate_limit_gate_def rate_limit_gate_evaluate_def)
  have "\<exists>k l. hm_get (ge_leases env) k = Some l \<and> ls_thread_id l = gc_thread_id ctx \<and> is_valid now l
        \<and> covers_action l (gc_action_name ctx)"
    using lease find_lease_holder [OF wf] by blast
  moreover have "gc_execution_mode ctx = Container
      \<or> tl_requires_approval t (gc_parameters ctx) = NeverApprove
      \<or> tl_requires_approval t (gc_parameters ctx) = UnlessAutoApproved
        \<and> (gc_execution_mode ctx \<noteq> Interactive \<or> gc_action_name ctx \<in> set (gc_auto_approved ctx)
           \<or> credentialed_http url_host tools ctx)"
    if "get_resolved tools (gc_action_name ctx) = Some (key, t)" for key t
    using appr that
    by (cases "gc_execution_mode ctx"; cases "tl_requires_approval t (gc_parameters ctx)")
      (auto simp: approval_decision_def Let_def split: if_splits)
  ultimately show ?thesis using relay hook limited by (auto split: prod.split)
qed

definition limited_tools :: tool_registry where
  "limited_tools = tool_registry_new\<lparr>tr_tools := [(''web_search'',
     (sample_tool ''web_search'' UnlessAutoApproved)\<lparr>tl_rate_limit_config := Some (rate_config_new 1 1)\<rparr>)]\<rparr>"

definition limited_gates :: "exec_gate list" where
  "limited_gates = [hook_gate (\<lambda>_. Ok (Continue None)) limited_tools,
     approval_gate (\<lambda>_. None) limited_tools, relay_channel_gate, rate_limit_gate limited_tools 10,
     lease_gate False 10]"

lemma limited_get: "resolve_key (tr_tools limited_tools) ''web_search'' = Some ''web_search''"
  "get_tool limited_tools ''web_search'' =
     Some ((sample_tool ''web_search'' UnlessAutoApproved)\<lparr>tl_rate_limit_config := Some (rate_config_new 1 1)\<rparr>)"
  by (simp_all add: get_tool_def resolve_key_def limited_tools_def hm_get_def)

lemma pipeline_allow_safe_witness:
  "(\<exists>k l. hm_get sample_mgr k = Some l \<and> ls_thread_id l = 1 \<and> covers_action l ''web_search'')
   \<and> get_usage (ge_limiter (snd (pipeline_evaluate (pipeline_new limited_gates)
        (sample_ctx ''cli'' InteractiveAutoApprove) sample_env))) ''u'' ''web_search'' = Some (1, 1)"
proof -
  let ?ctx = "sample_ctx ''cli'' InteractiveAutoApprove" and ?run = "\<lambda>_. Ok (Continue None)"
  have "find_lease_for_action 10 sample_mgr 1 ''web_search'' \<noteq> None"
    by (simp add: find_lease_for_action_def hm_values_def sample_lease_def is_valid_iff
        covers_action_def hyphenated_def underscored_def str_replace_def)
  then have "fst (eg_evaluate (lease_gate False 10) ?ctx sample_env) = GateAllow"
    unfolding leaseg.allow_iff by (simp add: sample_ctx_def sample_env_def)
  moreover have "snd (eg_evaluate (lease_gate False 10) ?ctx sample_env) = sample_env"
    by (simp add: lease_gate_def lease_gate_evaluate_def split: option.splits)
  ultimately have lg: "eg_evaluate (lease_gate False 10) ?ctx sample_env = (GateAllow, sample_env)"
    by (simp add: prod_eq_iff)
  have call: "gc_action_name ?ctx = ''web_search''" "gc_user_id ?ctx = ''u''"
    by (simp_all add: sample_ctx_def)
  obtain l' where check: "check_and_record 10 [] ''u'' ''web_search'' (rate_config_new 1 1) = (RlAllowed 0 0, l')"
      and used: "get_usage l' ''u'' ''web_search'' = Some (1, 1)"
    by (simp add: check_and_record_def check_internal_def check_entry_def Let_def hm_get_def
        tool_rate_limit_state_new_def maybe_reset_def window_new_def elapsed_def rate_config_new_def
        MINUTE_def HOUR_def secs_def get_usage_def)
  have rg: "eg_evaluate (rate_limit_gate limited_tools 10) ?ctx sample_env = (GateAllow, sample_env\<lparr>ge_limiter := l'\<rparr>)"
    by (simp add: rate_limit_gate_def rate_limit_gate_evaluate_def call limited_get check sample_env_def)
  have order: "pipeline_new limited_gates = [lease_gate False 10, rate_limit_gate limited_tools 10,
      relay_channel_gate, approval_gate (\<lambda>_. None) limited_tools, hook_gate ?run limited_tools]"
    by (simp add: limited_gates_def pipeline_new_def lease_gate_def relay_channel_gate_def approval_gate_def
        rate_limit_gate_def hook_gate_def word_le_nat_alt)
  have "approval_decision (\<lambda>_. None) limited_tools ?ctx = GateAllow"
    by (simp add: approval_decision_def get_resolved_def call limited_get)
      (simp add: limited_tools_def hm_get_def sample_ctx_def sample_tool_def)
  then have run: "pipeline_evaluate (pipeline_new limited_gates) ?ctx sample_env
      = (GateAllow, sample_env\<lparr>ge_limiter := l'\<rparr>)"
    unfolding order by (simp add: lg rg)
      (simp add: relay_channel_gate_def relay_decision_def approval_gate_def hook_gate_def hook_decision_def
        sample_ctx_def ends_with_def)
  have "distinct (map eg_name limited_gates)"
    by (simp add: limited_gates_def lease_gate_def relay_channel_gate_def approval_gate_def
        rate_limit_gate_def hook_gate_def)
  then have once: "distinct limited_gates" by (simp add: distinct_map)
  have "\<exists>k l. hm_get (ge_leases sample_env) k = Some l \<and> ls_thread_id l = gc_thread_id ?ctx
      \<and> is_valid 10 l \<and> covers_action l (gc_action_name ?ctx)"
    using pipeline_allow_safe [where gs = limited_gates and tools = limited_tools and run = ?run
        and url_host = "\<lambda>_. None" and now = 10 and env = sample_env and ctx = ?ctx, OF _ once _ _ run]
    by (auto simp: limited_gates_def sample_env_def hm_wf_def)
  moreover have "get_usage (ge_limiter (snd (pipeline_evaluate (pipeline_new limited_gates) ?ctx sample_env)))
      ''u'' ''web_search'' = Some (1, 1)"
    using used by (simp add: run)
  ultimately show ?thesis by (auto simp: sample_env_def sample_ctx_def)
qed

text \<open>
  The approval gate by mode: an autonomous call is never paused (nobody could answer);
  a pause offers the \<open>always\<close> answer exactly for tools that auto-approval may cover; a call is
  denied only when running autonomously with a tool that always needs approval; and an
  unknown tool is let through.
\<close>

theorem approval_gate_modes:
  "(gc_execution_mode ctx \<in> {Autonomous, Container} \<longrightarrow> (\<forall>r k. approval_decision uh tools ctx \<noteq> GatePause r k))
   \<and> (\<forall>r k. approval_decision uh tools ctx = GatePause r k \<longrightarrow>
        (\<exists>key t. get_resolved tools (gc_action_name ctx) = Some (key, t)
          \<and> k = Approval (tl_requires_approval t (gc_parameters ctx) = UnlessAutoApproved)
          \<and> gc_execution_mode ctx \<in> {Interactive, InteractiveAutoApprove}))
   \<and> ((\<exists>r. approval_decision uh tools ctx = GateDeny r) \<longleftrightarrow>
        gc_execution_mode ctx = Autonomous
        \<and> (\<exists>key t. get_resolved tools (gc_action_name ctx) = Some (key, t)
              \<and> tl_requires_approval t (gc_parameters ctx) = AlwaysApprove))
   \<and> (get_resolved tools (gc_action_name ctx) = None \<longrightarrow> approval_decision uh tools ctx = GateAllow)"
proof (cases "get_resolved tools (gc_action_name ctx)")
  case (Some kt)
  then obtain key t where kt: "get_resolved tools (gc_action_name ctx) = Some (key, t)" by (cases kt) simp
  show ?thesis
    by (cases "gc_execution_mode ctx"; cases "tl_requires_approval t (gc_parameters ctx)")
      (simp_all add: approval_decision_def kt)
qed (simp add: approval_decision_def)

lemma approval_gate_modes_witness:
  "approval_decision (\<lambda>_. None) tool_registry_new (sample_ctx ''cli'' Interactive) = GateAllow"
  using approval_gate_modes [of "sample_ctx ''cli'' Interactive" "\<lambda>_. None" tool_registry_new]
  by (simp add: get_resolved_def resolve_key_def tool_registry_new_def hm_get_def Let_def)

text \<open>
  The hook gate fails open even for hooks declared fail-closed: when the first matching
  hook is fail-closed and times out or returns an error, the registry reports an error but
  the gate lets the call through. Only a rejection stops the call.
\<close>

theorem hook_gate_ignores_fail_closed:
  assumes "matching_hooks hooks (hook_event_of tools ctx) = h # hs" and "hk_failure_mode h = FailClosed"
    and "hk_execute h (hook_event_of tools ctx) = TimedOut \<or> hk_execute h (hook_event_of tools ctx) = Returned (Inl e)"
  shows "\<not> is_ok (run_hooks sd ts fs hooks (hook_event_of tools ctx))
     \<and> hook_decision (run_hooks sd ts fs hooks) tools ctx = GateAllow"
  using assms by (auto simp: run_hooks_def hook_decision_def run_chain.simps)

lemma hook_gate_ignores_fail_closed_witness:
  "hook_decision (run_hooks (\<lambda>_. []) (\<lambda>_. []) (\<lambda>_. None) (register_hook [] sample_hook)) tool_registry_new
     (sample_ctx ''cli'' Interactive) = GateAllow"
proof -
  have "matching_hooks (register_hook [] sample_hook) (hook_event_of tool_registry_new (sample_ctx ''cli'' Interactive))
      = sample_hook # []"
    by (simp add: matching_hooks_def register_hook_def register_with_priority_def sample_hook_def hook_event_of_def)
  from hook_gate_ignores_fail_closed [OF this] show ?thesis by (simp add: sample_hook_def)
qed

end
