(* ===== verification/Gate_Store.thy ===== *)
theory Gate_Store
  imports Engine_Types
begin

text \<open>
  Pending gates: the paused tool calls waiting for a user (\<open>src/gate/pending.rs\<close>,
  \<open>src/gate/store.rs\<close>) and their file persistence (\<open>src/gate/persistence.rs\<close>). Every
  operation changes the two indices in one critical section and talks to the persistence
  afterwards. The locale \<open>gate_persistence\<close> is the contract of the \<open>GatePersistence\<close> trait
  as the store relies on it; it is interpreted for the file-backed implementation. The file
  is represented by what its text parses to, and the outcome of the input/output calls is
  a parameter.
\<close>

section \<open>Pending gates\<close>

type_synonym gate_key = "string \<times> thread_id"

record pending_gate =
  pg_request_id :: uuid
  pg_gate_name :: string
  pg_user_id :: string
  pg_thread_id :: thread_id
  pg_scope_thread_id :: "string option"
  pg_conversation_id :: uuid
  pg_source_channel :: string
  pg_action_name :: string
  pg_call_id :: string
  pg_parameters :: json
  pg_display_parameters :: "json option"
  pg_description :: string
  pg_resume_kind :: resume_kind
  pg_created_at :: time
  pg_expires_at :: time
  pg_original_message :: "string option"
  pg_resume_output :: "json option"
  pg_paused_lease :: "capability_lease option"
  pg_approval_already_granted :: bool

definition is_expired :: "time \<Rightarrow> pending_gate \<Rightarrow> bool" where
  "is_expired now g = (now > pg_expires_at g)"

definition effective_wire_thread_id :: "pending_gate \<Rightarrow> string" where
  "effective_wire_thread_id g =
     (case pg_scope_thread_id g of Some t \<Rightarrow> t | None \<Rightarrow> show_nat (pg_thread_id g))"

definition gate_key_of :: "pending_gate \<Rightarrow> gate_key" where
  "gate_key_of g = (pg_user_id g, pg_thread_id g)"

record pending_gate_view =
  pv_request_id :: string
  pv_thread_id :: string
  pv_gate_name :: string
  pv_tool_name :: string
  pv_description :: string
  pv_parameters :: string
  pv_resume_kind :: resume_kind

definition view_of :: "(json \<Rightarrow> string) \<Rightarrow> pending_gate \<Rightarrow> pending_gate_view" where
  "view_of pretty g =
     \<lparr>pv_request_id = show_nat (pg_request_id g), pv_thread_id = effective_wire_thread_id g,
      pv_gate_name = pg_gate_name g, pv_tool_name = pg_action_name g,
      pv_description = pg_description g,
      pv_parameters = pretty (case pg_display_parameters g of Some p \<Rightarrow> p | None \<Rightarrow> pg_parameters g),
      pv_resume_kind = pg_resume_kind g\<rparr>"

definition TRUSTED_GATE_CHANNELS :: "string list" where
  "TRUSTED_GATE_CHANNELS = [''web'', ''gateway'']"

definition RESERVED_CHANNEL_NAMES :: "string list" where
  "RESERVED_CHANNEL_NAMES =
     [''web'', ''gateway'', ''telegram'', ''signal'', ''slack'', ''discord'', ''repl'', ''cli'', ''http'',
      ''__bootstrap__'']"

definition is_channel_reserved :: "string \<Rightarrow> bool" where
  "is_channel_reserved name = (name \<in> set RESERVED_CHANNEL_NAMES)"

datatype gate_store_error = GateNotFound | RequestIdMismatch | ChannelMismatch string string
  | GateExpired | AlreadyExists | Persistence string

section \<open>Persistence\<close>

record 'p persistence_ops =
  ps_save :: "'p \<Rightarrow> pending_gate \<Rightarrow> (gate_store_error + unit) \<times> 'p"
  ps_remove :: "'p \<Rightarrow> gate_key \<Rightarrow> (gate_store_error + unit) \<times> 'p"
  ps_load_all :: "'p \<Rightarrow> gate_store_error + pending_gate list"

text \<open>
  A successful \<open>save\<close> replaces the gate of its key, a successful \<open>remove\<close> removes it, and
  nothing else changes; what they changed is what \<open>load_all\<close> reads.
\<close>

locale gate_persistence =
  fixes ops :: "'p persistence_ops"
  assumes save_load: "ps_save ops p g = (Ok (), p') \<Longrightarrow>
      \<exists>gs. ps_load_all ops p = Ok gs
        \<and> ps_load_all ops p' = Ok (filter (\<lambda>x. gate_key_of x \<noteq> gate_key_of g) gs @ [g])"
    and remove_load: "ps_remove ops p k = (Ok (), p') \<Longrightarrow>
      \<exists>gs. ps_load_all ops p = Ok gs \<and> ps_load_all ops p' = Ok (filter (\<lambda>x. gate_key_of x \<noteq> k) gs)"
begin

lemma save_then_present: "ps_save ops p g = (Ok (), p') \<Longrightarrow> \<exists>gs. ps_load_all ops p' = Ok gs \<and> g \<in> set gs"
  by (auto dest: save_load)

lemma remove_then_absent:
  "ps_remove ops p k = (Ok (), p') \<Longrightarrow> \<exists>gs. ps_load_all ops p' = Ok gs \<and> k \<notin> gate_key_of ` set gs"
  by (auto dest: remove_load)

lemma keys_stay_distinct:
  assumes "ps_load_all ops p = Ok gs" "distinct (map gate_key_of gs)"
  shows "ps_save ops p g = (Ok (), p') \<Longrightarrow> \<exists>gs'. ps_load_all ops p' = Ok gs' \<and> distinct (map gate_key_of gs')"
    and "ps_remove ops p k = (Ok (), p') \<Longrightarrow> \<exists>gs'. ps_load_all ops p' = Ok gs' \<and> distinct (map gate_key_of gs')"
  using assms by (auto dest!: save_load remove_load simp: distinct_map_filter)

end

subsection \<open>The file-backed implementation\<close>

datatype gate_file = BlankFile | GateFile nat "pending_gate list" | GarbledFile string

text \<open>
  \<open>open_fault\<close>: opening, locking, seeking or reading fails. \<open>write_fault\<close>: serialising or
  truncating fails, or writing fails after the file was truncated, leaving \<open>left\<close> behind.
\<close>

datatype write_fault = NoFault | BeforeTruncate string | AfterTruncate string gate_file

definition read_state :: "string option \<Rightarrow> gate_file \<Rightarrow> gate_store_error + (nat \<times> pending_gate list)" where
  "read_state open_fault f =
     (case open_fault of
        Some reason \<Rightarrow> Err (Persistence reason)
      | None \<Rightarrow>
          (case f of
             BlankFile \<Rightarrow> Ok (1, [])
           | GateFile v gs \<Rightarrow> Ok (v, gs)
           | GarbledFile reason \<Rightarrow> Err (Persistence reason)))"

definition write_state ::
  "write_fault \<Rightarrow> gate_file \<Rightarrow> nat \<times> pending_gate list \<Rightarrow> (gate_store_error + unit) \<times> gate_file" where
  "write_state fault f st =
     (case fault of
        NoFault \<Rightarrow> (Ok (), GateFile (fst st) (snd st))
      | BeforeTruncate reason \<Rightarrow> (Err (Persistence reason), f)
      | AfterTruncate reason left \<Rightarrow> (Err (Persistence reason), left))"

definition file_save ::
  "string option \<Rightarrow> write_fault \<Rightarrow> gate_file \<Rightarrow> pending_gate \<Rightarrow> (gate_store_error + unit) \<times> gate_file" where
  "file_save open_fault fault f gate =
     (case read_state open_fault f of
        Inl e \<Rightarrow> (Err e, f)
      | Inr (v, gs) \<Rightarrow>
          write_state fault f (v, filter (\<lambda>existing. gate_key_of existing \<noteq> gate_key_of gate) gs @ [gate]))"

definition file_remove ::
  "string option \<Rightarrow> write_fault \<Rightarrow> gate_file \<Rightarrow> gate_key \<Rightarrow> (gate_store_error + unit) \<times> gate_file" where
  "file_remove open_fault fault f key =
     (case read_state open_fault f of
        Inl e \<Rightarrow> (Err e, f)
      | Inr (v, gs) \<Rightarrow> write_state fault f (v, filter (\<lambda>existing. gate_key_of existing \<noteq> key) gs))"

definition file_load_all :: "string option \<Rightarrow> gate_file \<Rightarrow> gate_store_error + pending_gate list" where
  "file_load_all open_fault f = map_sum id snd (read_state open_fault f)"

text \<open>What a file holds is what \<open>load_all\<close> reads when nothing goes wrong.\<close>

definition file_ops :: "string option \<Rightarrow> write_fault \<Rightarrow> gate_file persistence_ops" where
  "file_ops open_fault fault =
     \<lparr>ps_save = file_save open_fault fault, ps_remove = file_remove open_fault fault,
      ps_load_all = file_load_all None\<rparr>"

lemma file_write_Ok:
  "write_state fault f st = (Ok (), f') \<longleftrightarrow> fault = NoFault \<and> f' = GateFile (fst st) (snd st)"
  by (auto simp: write_state_def split: write_fault.splits)

lemma read_state_load: "read_state open_fault f = Ok (v, gs) \<Longrightarrow> file_load_all None f = Ok gs"
  by (auto simp: read_state_def file_load_all_def split: option.splits gate_file.splits)

interpretation filep: gate_persistence "file_ops open_fault fault" for open_fault fault
proof
  fix p g p' assume "ps_save (file_ops open_fault fault) p g = (Ok (), p')"
  then obtain v gs where "read_state open_fault p = Ok (v, gs)"
      "p' = GateFile v (filter (\<lambda>x. gate_key_of x \<noteq> gate_key_of g) gs @ [g])"
    by (auto simp: file_ops_def file_save_def file_write_Ok split: sum.splits)
  then show "\<exists>gs. ps_load_all (file_ops open_fault fault) p = Ok gs
      \<and> ps_load_all (file_ops open_fault fault) p' = Ok (filter (\<lambda>x. gate_key_of x \<noteq> gate_key_of g) gs @ [g])"
    using read_state_load by (auto simp: file_ops_def file_load_all_def read_state_def)
next
  fix p k p' assume "ps_remove (file_ops open_fault fault) p k = (Ok (), p')"
  then obtain v gs where "read_state open_fault p = Ok (v, gs)"
      "p' = GateFile v (filter (\<lambda>x. gate_key_of x \<noteq> k) gs)"
    by (auto simp: file_ops_def file_remove_def file_write_Ok split: sum.splits)
  then show "\<exists>gs. ps_load_all (file_ops open_fault fault) p = Ok gs
      \<and> ps_load_all (file_ops open_fault fault) p' = Ok (filter (\<lambda>x. gate_key_of x \<noteq> k) gs)"
    using read_state_load by (auto simp: file_ops_def file_load_all_def read_state_def)
qed

section \<open>The store\<close>

record 'p gate_store =
  gs_by_key :: "(gate_key, pending_gate) hmap"
  gs_by_request_id :: "(uuid, gate_key) hmap"
  gs_persistence :: "'p option"

definition gate_store_new :: "'p option \<Rightarrow> 'p gate_store" where
  "gate_store_new persistence = \<lparr>gs_by_key = [], gs_by_request_id = [], gs_persistence = persistence\<rparr>"

definition gate_store_in_memory :: "'p gate_store" where
  "gate_store_in_memory = gate_store_new None"

text \<open>
  Every operation that changes the store is a critical section under the lock, and then,
  with the lock released, a call of the persistence for each change: a \<open>persist_job\<close>. The
  operation as its caller sees it is the section followed by its jobs; what other tasks may
  do in between is the subject of the section on interleaving below.
\<close>

datatype persist_job = JobSave pending_gate | JobRemove gate_key

fun run_job :: "'p persistence_ops \<Rightarrow> 'p \<Rightarrow> persist_job \<Rightarrow> (gate_store_error + unit) \<times> 'p" where
  "run_job ops p (JobSave gate) = ps_save ops p gate"
| "run_job ops p (JobRemove key) = ps_remove ops p key"

definition persist ::
  "'p persistence_ops \<Rightarrow> 'p gate_store \<Rightarrow> persist_job \<Rightarrow> (gate_store_error + unit) \<times> 'p gate_store" where
  "persist ops s job =
     (case gs_persistence s of
        None \<Rightarrow> (Ok (), s)
      | Some p \<Rightarrow> (case run_job ops p job of (r, p') \<Rightarrow> (r, s\<lparr>gs_persistence := Some p'\<rparr>)))"

definition insert_locked :: "'p gate_store \<Rightarrow> pending_gate \<Rightarrow> (gate_store_error + unit) \<times> 'p gate_store" where
  "insert_locked s gate =
     (let key = gate_key_of gate
      in if hm_get (gs_by_key s) key \<noteq> None then (Err AlreadyExists, s)
         else (Ok (), s\<lparr>gs_by_request_id := hm_insert (gs_by_request_id s) (pg_request_id gate) key,
                         gs_by_key := hm_insert (gs_by_key s) key gate\<rparr>))"

definition gs_insert ::
  "'p persistence_ops \<Rightarrow> 'p gate_store \<Rightarrow> pending_gate \<Rightarrow> (gate_store_error + unit) \<times> 'p gate_store" where
  "gs_insert ops s gate =
     (case insert_locked s gate of
        (Inl e, s1) \<Rightarrow> (Err e, s1)
      | (Inr _, s1) \<Rightarrow> persist ops s1 (JobSave gate))"

text \<open>Removal of one gate from both indices, under the lock.\<close>

definition drop_gate :: "'p gate_store \<Rightarrow> gate_key \<Rightarrow> pending_gate \<Rightarrow> 'p gate_store" where
  "drop_gate s key gate =
     s\<lparr>gs_by_key := hm_remove (gs_by_key s) key,
       gs_by_request_id := hm_remove (gs_by_request_id s) (pg_request_id gate)\<rparr>"

definition channel_authorized :: "pending_gate \<Rightarrow> string \<Rightarrow> bool" where
  "channel_authorized gate responding_channel =
     (pg_source_channel gate = responding_channel \<or> responding_channel \<in> set TRUSTED_GATE_CHANNELS)"

definition take_locked ::
  "time \<Rightarrow> 'p gate_store \<Rightarrow> gate_key \<Rightarrow> uuid \<Rightarrow> string \<Rightarrow>
   (gate_store_error + pending_gate) \<times> 'p gate_store" where
  "take_locked now s key request_id responding_channel =
     (case hm_get (gs_by_key s) key of
        None \<Rightarrow> (Err GateNotFound, s)
      | Some gate \<Rightarrow>
          if pg_request_id gate \<noteq> request_id then (Err RequestIdMismatch, s)
          else if \<not> channel_authorized gate responding_channel then
            (Err (ChannelMismatch (pg_source_channel gate) responding_channel), s)
          else if is_expired now gate then (Err GateExpired, drop_gate s key gate)
          else (Ok gate, drop_gate s key gate))"

text \<open>A failed removal is only logged: the taken gate is returned all the same.\<close>

definition take_verified ::
  "'p persistence_ops \<Rightarrow> time \<Rightarrow> 'p gate_store \<Rightarrow> gate_key \<Rightarrow> uuid \<Rightarrow> string \<Rightarrow>
   (gate_store_error + pending_gate) \<times> 'p gate_store" where
  "take_verified ops now s key request_id responding_channel =
     (case take_locked now s key request_id responding_channel of
        (Inl e, s1) \<Rightarrow> (Err e, s1)
      | (Inr gate, s1) \<Rightarrow> (Ok gate, snd (persist ops s1 (JobRemove key))))"

definition gs_peek :: "(json \<Rightarrow> string) \<Rightarrow> time \<Rightarrow> 'p gate_store \<Rightarrow> gate_key \<Rightarrow> pending_gate_view option" where
  "gs_peek pretty now s key =
     (case hm_get (gs_by_key s) key of
        None \<Rightarrow> None
      | Some g \<Rightarrow> if is_expired now g then None else Some (view_of pretty g))"

definition list_for_user :: "time \<Rightarrow> 'p gate_store \<Rightarrow> string \<Rightarrow> pending_gate list" where
  "list_for_user now s user_id =
     filter (\<lambda>g. pg_user_id g = user_id \<and> \<not> is_expired now g) (hm_values (gs_by_key s))"

definition list_all_gates :: "time \<Rightarrow> 'p gate_store \<Rightarrow> pending_gate list" where
  "list_all_gates now s = filter (\<lambda>g. \<not> is_expired now g) (hm_values (gs_by_key s))"

text \<open>The loop that drops a list of keys and collects the dropped gates.\<close>

fun drop_keys :: "'p gate_store \<Rightarrow> gate_key list \<Rightarrow> pending_gate list \<times> 'p gate_store" where
  "drop_keys s [] = ([], s)"
| "drop_keys s (key # keys) =
     (case hm_get (gs_by_key s) key of
        None \<Rightarrow> drop_keys s keys
      | Some gate \<Rightarrow> (case drop_keys (drop_gate s key gate) keys of (gates, s') \<Rightarrow> (gate # gates, s')))"

fun forget_all :: "'p persistence_ops \<Rightarrow> 'p gate_store \<Rightarrow> gate_key list \<Rightarrow> 'p gate_store" where
  "forget_all ops s [] = s"
| "forget_all ops s (key # keys) = forget_all ops (snd (persist ops s (JobRemove key))) keys"

definition discard_thread_locked ::
  "'p gate_store \<Rightarrow> thread_id \<Rightarrow> (gate_key list \<times> pending_gate list) \<times> 'p gate_store" where
  "discard_thread_locked s thread_id =
     (let keys = filter (\<lambda>k. snd k = thread_id) (hm_keys (gs_by_key s));
          (gates, s') = drop_keys s keys
      in ((keys, gates), s'))"

definition discard_for_thread ::
  "'p persistence_ops \<Rightarrow> 'p gate_store \<Rightarrow> thread_id \<Rightarrow> pending_gate list \<times> 'p gate_store" where
  "discard_for_thread ops s thread_id =
     (case discard_thread_locked s thread_id of
        ((keys, gates), s') \<Rightarrow> (gates, forget_all ops s' keys))"

definition discard_locked :: "'p gate_store \<Rightarrow> gate_key \<Rightarrow> (gate_store_error + pending_gate) \<times> 'p gate_store" where
  "discard_locked s key =
     (case hm_get (gs_by_key s) key of
        None \<Rightarrow> (Err GateNotFound, s)
      | Some gate \<Rightarrow> (Ok gate, drop_gate s key gate))"

definition gs_discard ::
  "'p persistence_ops \<Rightarrow> 'p gate_store \<Rightarrow> gate_key \<Rightarrow> (gate_store_error + unit) \<times> 'p gate_store" where
  "gs_discard ops s key =
     (case discard_locked s key of
        (Inl e, s1) \<Rightarrow> (Err e, s1)
      | (Inr _, s1) \<Rightarrow> persist ops s1 (JobRemove key))"

fun restore_gates :: "time \<Rightarrow> 'p gate_store \<Rightarrow> nat \<Rightarrow> pending_gate list \<Rightarrow> nat \<times> 'p gate_store" where
  "restore_gates now s count [] = (count, s)"
| "restore_gates now s count (gate # gates) =
     (if is_expired now gate then restore_gates now s count gates
      else
        let gate' = gate\<lparr>pg_approval_already_granted := False\<rparr>; key = gate_key_of gate'
        in restore_gates now
             (s\<lparr>gs_by_request_id := hm_insert (gs_by_request_id s) (pg_request_id gate') key,
                gs_by_key := hm_insert (gs_by_key s) key gate'\<rparr>) (count + 1) gates)"

definition restore_from_persistence ::
  "'p persistence_ops \<Rightarrow> time \<Rightarrow> 'p gate_store \<Rightarrow> (gate_store_error + nat) \<times> 'p gate_store" where
  "restore_from_persistence ops now s =
     (case gs_persistence s of
        None \<Rightarrow> (Ok 0, s)
      | Some p \<Rightarrow>
          (case ps_load_all ops p of
             Inl e \<Rightarrow> (Err e, s)
           | Inr gates \<Rightarrow> (case restore_gates now s 0 gates of (count, s') \<Rightarrow> (Ok count, s'))))"

definition expire_locked :: "time \<Rightarrow> 'p gate_store \<Rightarrow> gate_key list \<times> 'p gate_store" where
  "expire_locked now s =
     (let expired_keys = map fst (filter (\<lambda>kg. is_expired now (snd kg)) (gs_by_key s))
      in (expired_keys, snd (drop_keys s expired_keys)))"

definition gs_expire_stale :: "'p persistence_ops \<Rightarrow> time \<Rightarrow> 'p gate_store \<Rightarrow> nat \<times> 'p gate_store" where
  "gs_expire_stale ops now s =
     (case expire_locked now s of (keys, s') \<Rightarrow> (length keys, forget_all ops s' keys))"

section \<open>Invariant\<close>

text \<open>Both indices are well formed and describe the same gates.\<close>

definition agree :: "(gate_key \<Rightarrow> pending_gate option) \<Rightarrow> (uuid \<Rightarrow> gate_key option) \<Rightarrow> bool" where
  "agree K R \<longleftrightarrow> (\<forall>k g. K k = Some g \<longrightarrow> k = gate_key_of g \<and> R (pg_request_id g) = Some k)
     \<and> (\<forall>r k. R r = Some k \<longrightarrow> (\<exists>g. K k = Some g \<and> pg_request_id g = r))"

definition index_ok :: "'p gate_store \<Rightarrow> bool" where
  "index_ok s \<longleftrightarrow> hm_wf (gs_by_key s) \<and> hm_wf (gs_by_request_id s)
     \<and> agree (hm_get (gs_by_key s)) (hm_get (gs_by_request_id s))"

lemma agree_key: "agree K R \<Longrightarrow> K k = Some g \<Longrightarrow> k = gate_key_of g \<and> R (pg_request_id g) = Some k"
  unfolding agree_def by blast

lemma agree_id: "agree K R \<Longrightarrow> R r = Some k \<Longrightarrow> \<exists>g. K k = Some g \<and> pg_request_id g = r"
  unfolding agree_def by blast

lemma agree_add:
  assumes "agree K R" "K (gate_key_of g) = None" "R (pg_request_id g) = None"
  shows "agree (K(gate_key_of g \<mapsto> g)) (R(pg_request_id g \<mapsto> gate_key_of g))"
  unfolding agree_def
proof (intro conjI allI impI)
  fix k h assume h: "(K(gate_key_of g \<mapsto> g)) k = Some h"
  show "k = gate_key_of h" using h agree_key [OF assms(1), of k h] by (auto split: if_splits)
  show "(R(pg_request_id g \<mapsto> gate_key_of g)) (pg_request_id h) = Some k"
    using h agree_key [OF assms(1), of k h] assms(3) by (auto split: if_splits)
next
  fix r k assume r: "(R(pg_request_id g \<mapsto> gate_key_of g)) r = Some k"
  show "\<exists>h. (K(gate_key_of g \<mapsto> g)) k = Some h \<and> pg_request_id h = r"
    using r agree_id [OF assms(1), of r k] assms(2) by (auto split: if_splits)
qed

lemma agree_drop:
  assumes "agree K R" "K k = Some g"
  shows "agree (K(k := None)) (R(pg_request_id g := None))"
  unfolding agree_def
proof (intro conjI allI impI)
  note k = agree_key [OF assms]
  fix k' h assume h: "(K(k := None)) k' = Some h"
  then have K: "K k' = Some h" "k' \<noteq> k" by (auto split: if_splits)
  note k' = agree_key [OF assms(1) K(1)]
  show "k' = gate_key_of h" using k' by simp
  show "(R(pg_request_id g := None)) (pg_request_id h) = Some k'" using k k' K(2) by auto
next
  fix r k' assume r: "(R(pg_request_id g := None)) r = Some k'"
  then show "\<exists>h. (K(k := None)) k' = Some h \<and> pg_request_id h = r"
    using agree_id [OF assms(1), of r k'] assms(2) by (auto split: if_splits)
qed

lemma hm_get_fun: "hm_get (hm_insert m k v) = (hm_get m)(k \<mapsto> v)" "hm_get (hm_remove m k) = (hm_get m)(k := None)"
  by (auto simp: hm_simps)

lemma index_ok_new: "index_ok (gate_store_new p)"
  by (simp add: index_ok_def gate_store_new_def hm_wf_def agree_def hm_simps)

lemma index_ok_persistence [simp]: "index_ok (s\<lparr>gs_persistence := p\<rparr>) = index_ok s"
  by (simp add: index_ok_def)

lemma index_ok_add:
  assumes "index_ok s" and "hm_get (gs_by_key s) (gate_key_of g) = None"
    and "hm_get (gs_by_request_id s) (pg_request_id g) = None"
  shows "index_ok (s\<lparr>gs_by_request_id := hm_insert (gs_by_request_id s) (pg_request_id g) (gate_key_of g),
     gs_by_key := hm_insert (gs_by_key s) (gate_key_of g) g\<rparr>)"
  using assms agree_add by (simp add: index_ok_def hm_get_fun hm.wf_put)

lemma index_ok_drop:
  "index_ok s \<Longrightarrow> hm_get (gs_by_key s) k = Some g \<Longrightarrow> index_ok (drop_gate s k g)"
  by (simp add: index_ok_def drop_gate_def hm_get_fun hm.wf_del agree_drop)

lemma drop_gate_frame [simp]:
  "gs_by_key (drop_gate s k g) = hm_remove (gs_by_key s) k"
  "gs_persistence (drop_gate s k g) = gs_persistence s"
  by (simp_all add: drop_gate_def)

lemma drop_keys_spec:
  assumes "index_ok s"
  shows "index_ok (snd (drop_keys s ks))"
    and "hm_get (gs_by_key (snd (drop_keys s ks))) k = (if k \<in> set ks then None else hm_get (gs_by_key s) k)"
    and "gs_persistence (snd (drop_keys s ks)) = gs_persistence s"
  using assms
  by (induction s ks rule: drop_keys.induct)
    (auto split: option.splits prod.splits simp: index_ok_drop hm_simps)

section \<open>Interleaving\<close>

text \<open>
  A process with its store: the persistence jobs issued by critical sections and not yet
  run, the request identifiers used so far (each gate gets a new random one), the ones
  handed out, and the clock. A step is one critical section, of any operation at the time of
  the clock, or one job, or the clock advancing; a job is served by one of \<open>opss\<close>, which
  differ in the input/output faults they meet. With \<open>fifo\<close> the jobs run in the order their
  sections were entered; without it, in any order, which covers every schedule of the tasks.
\<close>

record 'p gate_world =
  gw_store :: "'p gate_store"
  gw_jobs :: "persist_job list"
  gw_used :: "uuid set"
  gw_taken :: "uuid list"
  gw_clock :: time

definition issue :: "'p gate_world \<Rightarrow> 'p gate_store \<Rightarrow> persist_job list \<Rightarrow> 'p gate_world" where
  "issue w s jobs = w\<lparr>gw_store := s, gw_jobs := gw_jobs w @ jobs\<rparr>"

inductive gw_step :: "'p persistence_ops set \<Rightarrow> bool \<Rightarrow> 'p gate_world \<Rightarrow> 'p gate_world \<Rightarrow> bool"
  for opss and fifo where
  insert: "pg_request_id g \<notin> gw_used w \<Longrightarrow> insert_locked (gw_store w) g = (r, s') \<Longrightarrow>
    gw_step opss fifo w
      ((issue w s' (if is_ok r then [JobSave g] else []))\<lparr>gw_used := insert (pg_request_id g) (gw_used w)\<rparr>)"
| take: "take_locked (gw_clock w) (gw_store w) k r ch = (Ok g, s') \<Longrightarrow>
    gw_step opss fifo w ((issue w s' [JobRemove k])\<lparr>gw_taken := gw_taken w @ [r]\<rparr>)"
| take_refused: "take_locked (gw_clock w) (gw_store w) k r ch = (Err e, s') \<Longrightarrow>
    gw_step opss fifo w (issue w s' [])"
| discard: "discard_locked (gw_store w) k = (r, s') \<Longrightarrow>
    gw_step opss fifo w (issue w s' (if is_ok r then [JobRemove k] else []))"
| discard_thread: "discard_thread_locked (gw_store w) t = ((keys, gates), s') \<Longrightarrow>
    gw_step opss fifo w (issue w s' (map JobRemove keys))"
| expire: "expire_locked (gw_clock w) (gw_store w) = (keys, s') \<Longrightarrow>
    gw_step opss fifo w (issue w s' (map JobRemove keys))"
| job: "i < length (gw_jobs w) \<Longrightarrow> (fifo \<Longrightarrow> i = 0) \<Longrightarrow> ops \<in> opss \<Longrightarrow>
    gw_step opss fifo w (w\<lparr>gw_store := snd (persist ops (gw_store w) (gw_jobs w ! i)),
      gw_jobs := take i (gw_jobs w) @ drop (Suc i) (gw_jobs w)\<rparr>)"
| tick: "gw_clock w \<le> now \<Longrightarrow> gw_step opss fifo w (w\<lparr>gw_clock := now\<rparr>)"

text \<open>A process starts with an empty store and restores the gates of the persistence.\<close>

definition gw_boot :: "'p persistence_ops \<Rightarrow> time \<Rightarrow> 'p option \<Rightarrow> 'p gate_world" where
  "gw_boot ops now p =
     (let s = snd (restore_from_persistence ops now (gate_store_new p))
      in \<lparr>gw_store = s, gw_jobs = [], gw_used = set (hm_keys (gs_by_request_id s)), gw_taken = [],
          gw_clock = now\<rparr>)"

lemma insert_locked_index:
  assumes "index_ok s" "hm_get (gs_by_request_id s) (pg_request_id g) = None"
  shows "index_ok (snd (insert_locked s g))"
  using index_ok_add [OF assms(1) _ assms(2)] assms(1) by (auto simp: insert_locked_def Let_def)

lemma take_locked_Ok:
  "fst (take_locked now s k r ch) = Ok g \<longleftrightarrow>
     hm_get (gs_by_key s) k = Some g \<and> pg_request_id g = r \<and> channel_authorized g ch \<and> \<not> is_expired now g"
  by (auto simp: take_locked_def split: option.splits)

lemma take_verified_Ok:
  "fst (take_verified ops now s k r ch) = Ok g \<longleftrightarrow>
     hm_get (gs_by_key s) k = Some g \<and> pg_request_id g = r \<and> channel_authorized g ch \<and> \<not> is_expired now g"
  unfolding take_locked_Ok [symmetric] by (auto simp: take_verified_def split: prod.splits sum.splits)

lemma take_locked_store:
  "take_locked now s k r ch = (Ok g, s') \<Longrightarrow> s' = drop_gate s k g \<and> hm_get (gs_by_key s) k = Some g \<and> pg_request_id g = r"
  by (auto simp: take_locked_def split: option.splits if_splits)

lemma take_locked_refused:
  "take_locked now s k r ch = (Err e, s') \<Longrightarrow>
   s' = s \<or> (\<exists>g. s' = drop_gate s k g \<and> hm_get (gs_by_key s) k = Some g \<and> is_expired now g \<and> e = GateExpired)"
  by (auto simp: take_locked_def split: option.splits if_splits)

lemma persist_frame [simp]:
  "gs_by_key (snd (persist ops s j)) = gs_by_key s"
  "gs_by_request_id (snd (persist ops s j)) = gs_by_request_id s"
  "index_ok (snd (persist ops s j)) = index_ok s"
  by (auto simp: persist_def split: option.splits prod.splits)

text \<open>
  The invariant of a process: the indices agree, every pending or taken identifier has been
  used, and no taken identifier is pending or was taken twice.
\<close>

definition gw_inv :: "'p gate_world \<Rightarrow> bool" where
  "gw_inv w \<longleftrightarrow> index_ok (gw_store w) \<and> distinct (gw_taken w)
     \<and> (\<forall>r. hm_get (gs_by_request_id (gw_store w)) r \<noteq> None \<longrightarrow> r \<in> gw_used w)
     \<and> (\<forall>r \<in> set (gw_taken w). r \<in> gw_used w \<and> hm_get (gs_by_request_id (gw_store w)) r = None)"

lemma drop_keys_ids:
  "hm_get (gs_by_request_id s) r = None \<Longrightarrow> hm_get (gs_by_request_id (snd (drop_keys s ks))) r = None"
  by (induction s ks rule: drop_keys.induct)
    (auto simp: drop_gate_def hm_simps split: option.splits prod.splits if_splits)

lemma gw_inv_fewer:
  assumes "gw_inv w" and "index_ok s"
    and "\<And>r. hm_get (gs_by_request_id (gw_store w)) r = None \<Longrightarrow> hm_get (gs_by_request_id s) r = None"
  shows "gw_inv (issue w s jobs)"
proof -
  have used: "hm_get (gs_by_request_id (gw_store w)) r \<noteq> None \<longrightarrow> r \<in> gw_used w" for r
    using assms(1) unfolding gw_inv_def by (elim conjE allE)
  have taken: "r \<in> gw_used w \<and> hm_get (gs_by_request_id (gw_store w)) r = None" if "r \<in> set (gw_taken w)" for r
    using assms(1) that unfolding gw_inv_def by (elim conjE ballE) auto
  have "r \<in> gw_used w" if "hm_get (gs_by_request_id s) r \<noteq> None" for r
    using that used [of r] assms(3) [of r] by argo
  moreover have "\<forall>r \<in> set (gw_taken w). r \<in> gw_used w \<and> hm_get (gs_by_request_id s) r = None"
    using taken assms(3) by simp
  moreover have "distinct (gw_taken w)" using assms(1) unfolding gw_inv_def by blast
  ultimately show ?thesis using assms(2) unfolding gw_inv_def issue_def
    by (simp del: split_paired_Ex not_None_eq)
qed

lemma drop_gate_ids:
  "hm_get (gs_by_request_id s) r = None \<Longrightarrow> hm_get (gs_by_request_id (drop_gate s k g)) r = None"
  by (simp add: drop_gate_def hm_simps)

lemma gw_step_inv:
  assumes "gw_step opss fifo w w'" and inv: "gw_inv w"
  shows "gw_inv w'"
  using assms(1)
proof cases
  case (insert g r s')
  have new: "hm_get (gs_by_request_id (gw_store w)) (pg_request_id g) = None" "pg_request_id g \<notin> set (gw_taken w)"
    using insert(2) inv unfolding gw_inv_def by blast+
  have "index_ok s'" using insert_locked_index [of "gw_store w" g] new insert(3) inv by (simp add: gw_inv_def)
  moreover have "hm_get (gs_by_request_id s') q = hm_get (gs_by_request_id (gw_store w)) q" if "q \<noteq> pg_request_id g" for q
    using insert(3) that by (auto simp: insert_locked_def Let_def hm_simps split: if_splits)
  ultimately show ?thesis
    using inv new(2) unfolding insert(1) gw_inv_def issue_def by (auto; metis)
next
  case (take k r ch g s')
  note t = take_locked_store [OF take(2)]
  have ids: "hm_get (gs_by_request_id (gw_store w)) r = Some k"
    using inv t agree_key [of "hm_get (gs_by_key (gw_store w))" _ k g] unfolding gw_inv_def index_ok_def by blast
  have "gw_inv (issue w s' [JobRemove k])"
    using t inv by (intro gw_inv_fewer [OF inv]) (auto simp: gw_inv_def index_ok_drop drop_gate_ids)
  moreover have "hm_get (gs_by_request_id s') r = None" using t by (auto simp: drop_gate_def hm_simps)
  moreover have "r \<notin> set (gw_taken w)" "r \<in> gw_used w" using inv ids by (auto simp: gw_inv_def)
  ultimately show ?thesis unfolding take(1) by (auto simp: gw_inv_def issue_def)
next
  case (take_refused k r ch e s')
  show ?thesis
    unfolding take_refused(1) using take_locked_refused [OF take_refused(2)] inv
    by (intro gw_inv_fewer [OF inv]) (auto simp: gw_inv_def index_ok_drop drop_gate_ids)
next
  case (discard k r s')
  then have "s' = gw_store w \<or> (\<exists>g. s' = drop_gate (gw_store w) k g \<and> hm_get (gs_by_key (gw_store w)) k = Some g)"
    by (auto simp: discard_locked_def split: option.splits)
  then show ?thesis
    unfolding discard(1) using inv
    by (intro gw_inv_fewer [OF inv]) (auto simp: gw_inv_def index_ok_drop drop_gate_ids)
next
  case (discard_thread t keys gates s')
  then have s': "s' = snd (drop_keys (gw_store w) keys)"
    by (auto simp: discard_thread_locked_def Let_def split: prod.splits)
  then show ?thesis
    unfolding discard_thread(1) s' using inv
    by (intro gw_inv_fewer [OF inv]) (auto simp: gw_inv_def drop_keys_spec(1) drop_keys_ids)
next
  case (expire keys s')
  then have s': "s' = snd (drop_keys (gw_store w) keys)" by (auto simp: expire_locked_def Let_def)
  then show ?thesis
    unfolding expire(1) s' using inv
    by (intro gw_inv_fewer [OF inv]) (auto simp: gw_inv_def drop_keys_spec(1) drop_keys_ids)
next
  case (job i ops)
  then show ?thesis using inv by (simp add: gw_inv_def)
next
  case (tick now)
  then show ?thesis using inv by (simp add: gw_inv_def)
qed

text \<open>A persisted state a process can start from: keys and identifiers are not repeated.\<close>

definition bootable :: "'p persistence_ops \<Rightarrow> 'p option \<Rightarrow> bool" where
  "bootable ops p \<longleftrightarrow> (\<forall>q gates. p = Some q \<longrightarrow> ps_load_all ops q = Ok gates \<longrightarrow>
     distinct (map gate_key_of gates) \<and> distinct (map pg_request_id gates))"

lemma restore_gates_index:
  "index_ok s \<Longrightarrow> distinct (map gate_key_of gates) \<Longrightarrow> distinct (map pg_request_id gates) \<Longrightarrow>
   (\<And>g. g \<in> set gates \<Longrightarrow> hm_get (gs_by_key s) (gate_key_of g) = None
      \<and> hm_get (gs_by_request_id s) (pg_request_id g) = None) \<Longrightarrow>
   index_ok (snd (restore_gates now s n gates))"
proof (induction now s n gates rule: restore_gates.induct)
  case (2 now s count gate gates)
  let ?g = "gate\<lparr>pg_approval_already_granted := False\<rparr>"
  have key: "gate_key_of ?g = gate_key_of gate" by (simp add: gate_key_of_def)
  have new: "gate_key_of g \<noteq> gate_key_of gate \<and> pg_request_id g \<noteq> pg_request_id gate" if "g \<in> set gates" for g
    using that "2.prems"(2,3) by (metis distinct.simps(2) image_eqI list.simps(9) set_map)
  show ?case
  proof (cases "is_expired now gate")
    case True
    then show ?thesis using 2 by simp
  next
    case False
    have "index_ok (s\<lparr>gs_by_request_id := hm_insert (gs_by_request_id s) (pg_request_id ?g) (gate_key_of ?g),
        gs_by_key := hm_insert (gs_by_key s) (gate_key_of ?g) ?g\<rparr>)"
      using "2.prems"(1,4) by (intro index_ok_add) (simp_all add: key)
    then show ?thesis
      using "2.IH"(2) [OF False refl refl] "2.prems" new False by (simp add: Let_def hm_simps key)
  qed
qed simp

lemma boot_store:
  "gw_store (gw_boot ops now p) =
     (case p of None \<Rightarrow> gate_store_new None
      | Some q \<Rightarrow> (case ps_load_all ops q of Inl _ \<Rightarrow> gate_store_new p
                  | Inr gates \<Rightarrow> snd (restore_gates now (gate_store_new p) 0 gates)))"
  by (auto simp: gw_boot_def restore_from_persistence_def gate_store_new_def Let_def split: option.splits sum.splits prod.splits)

lemma new_empty: "hm_get (gs_by_key (gate_store_new p)) k = None" "hm_get (gs_by_request_id (gate_store_new p)) r = None"
  by (simp_all add: gate_store_new_def hm_simps)

lemma gw_boot_inv:
  assumes "bootable ops p" shows "gw_inv (gw_boot ops now p)"
proof -
  have "index_ok (gw_store (gw_boot ops now p))"
    unfolding boot_store using assms
    by (auto simp: index_ok_new bootable_def new_empty split: option.splits sum.splits
        intro!: restore_gates_index)
  moreover have "hm_get m r \<noteq> None \<Longrightarrow> r \<in> set (hm_keys m)" for m :: "(uuid, gate_key) hmap" and r
    by (simp add: hm_get_None_iff hm_keys_def)
  ultimately show ?thesis unfolding gw_inv_def gw_boot_def Let_def by simp
qed

lemma gw_run_inv:
  "(gw_step opss fifo)\<^sup>*\<^sup>* w w' \<Longrightarrow> gw_inv w \<Longrightarrow> gw_inv w'"
  by (induction rule: rtranclp_induct) (auto intro: gw_step_inv)

section \<open>Properties\<close>

text \<open>
  However the critical sections and the persistence calls of the tasks interleave, the two
  indices agree: each pending gate is stored under its own user and thread and its request
  identifier leads back to it, and no request identifier outlives its gate.
\<close>

theorem gate_indices_agree:
  assumes "bootable ops p" and "(gw_step opss fifo)\<^sup>*\<^sup>* (gw_boot ops now p) w"
  shows "(\<forall>k g. hm_get (gs_by_key (gw_store w)) k = Some g \<longrightarrow>
            k = gate_key_of g \<and> hm_get (gs_by_request_id (gw_store w)) (pg_request_id g) = Some k)
     \<and> (\<forall>r k. hm_get (gs_by_request_id (gw_store w)) r = Some k \<longrightarrow>
            (\<exists>g. hm_get (gs_by_key (gw_store w)) k = Some g \<and> pg_request_id g = r))"
  using gw_run_inv [OF assms(2) gw_boot_inv [OF assms(1)]] unfolding gw_inv_def index_ok_def agree_def by blast

definition sample_gate :: pending_gate where
  "sample_gate = \<lparr>pg_request_id = 42, pg_gate_name = ''approval'', pg_user_id = ''alice'',
     pg_thread_id = 1, pg_scope_thread_id = None, pg_conversation_id = 9, pg_source_channel = ''telegram'',
     pg_action_name = ''shell'', pg_call_id = ''c'', pg_parameters = JNull, pg_display_parameters = None,
     pg_description = [], pg_resume_kind = Approval True, pg_created_at = 0, pg_expires_at = 100,
     pg_original_message = None, pg_resume_output = None, pg_paused_lease = None,
     pg_approval_already_granted = True\<rparr>"

text \<open>A process over an empty file that has inserted one gate and saved it.\<close>

definition sample_store :: "gate_file gate_store" where
  "sample_store = snd (gs_insert (file_ops None NoFault) (gate_store_new (Some BlankFile)) sample_gate)"

lemma sample_store_keys: "gs_by_key sample_store = [((''alice'', 1), sample_gate)]"
  "gs_by_request_id sample_store = [(42, (''alice'', 1))]"
  "gs_persistence sample_store = Some (GateFile 1 [sample_gate])"
  by (simp_all add: sample_store_def gs_insert_def insert_locked_def persist_def gate_store_new_def hm_get_def
      gate_key_of_def Let_def file_ops_def file_save_def read_state_def write_state_def sample_gate_def)

abbreviation sound_ops :: "gate_file persistence_ops" where "sound_ops \<equiv> file_ops None NoFault"

definition sample_world :: "gate_file gate_world" where
  "sample_world = \<lparr>gw_store = sample_store, gw_jobs = [], gw_used = {42}, gw_taken = [], gw_clock = 10\<rparr>"

definition sample_boot :: "gate_file gate_world" where
  "sample_boot = gw_boot sound_ops 10 (Some BlankFile)"

lemma sample_boot_eq: "sample_boot = \<lparr>gw_store = gate_store_new (Some BlankFile), gw_jobs = [], gw_used = {},
   gw_taken = [], gw_clock = 10\<rparr>"
  by (simp add: sample_boot_def gw_boot_def Let_def boot_store restore_from_persistence_def gate_store_new_def
      file_ops_def file_load_all_def read_state_def hm_keys_def)

lemma sample_bootable: "bootable sound_ops (Some BlankFile)"
  by (simp add: bootable_def file_ops_def file_load_all_def read_state_def)

lemma run_insert_save:
  assumes "hm_get (gs_by_key (gw_store w)) (gate_key_of g) = None" "pg_request_id g \<notin> gw_used w" "gw_jobs w = []"
    and "ops \<in> opss"
  shows "(gw_step opss fifo)\<^sup>*\<^sup>* w (w\<lparr>gw_store := snd (gs_insert ops (gw_store w) g),
     gw_used := insert (pg_request_id g) (gw_used w)\<rparr>)"
proof -
  obtain s' where s': "insert_locked (gw_store w) g = (Ok (), s')" using assms(1) by (simp add: insert_locked_def Let_def)
  let ?w = "(issue w s' [JobSave g])\<lparr>gw_used := insert (pg_request_id g) (gw_used w)\<rparr>"
  have "gw_step opss fifo w ?w"
    using gw_step.insert [OF assms(2) s', of opss fifo] by simp
  moreover have "gw_step opss fifo ?w (?w\<lparr>gw_store := snd (persist ops (gw_store ?w) (gw_jobs ?w ! 0)),
      gw_jobs := take 0 (gw_jobs ?w) @ drop (Suc 0) (gw_jobs ?w)\<rparr>)"
    using assms(3,4) by (intro gw_step.job) (simp_all add: issue_def)
  moreover have "?w\<lparr>gw_store := snd (persist ops (gw_store ?w) (gw_jobs ?w ! 0)),
      gw_jobs := take 0 (gw_jobs ?w) @ drop (Suc 0) (gw_jobs ?w)\<rparr>
      = w\<lparr>gw_store := snd (gs_insert ops (gw_store w) g), gw_used := insert (pg_request_id g) (gw_used w)\<rparr>"
    using s' assms(3) by (simp add: gs_insert_def issue_def)
  ultimately show ?thesis by (metis converse_rtranclp_into_rtranclp r_into_rtranclp)
qed

lemma sample_world_reachable: "sound_ops \<in> opss \<Longrightarrow> (gw_step opss fifo)\<^sup>*\<^sup>* sample_boot sample_world"
  using run_insert_save [of sample_boot sample_gate sound_ops opss fifo]
  by (simp add: sample_boot_eq sample_world_def sample_store_def gate_store_new_def hm_get_def)
    (simp add: sample_gate_def)

lemma gate_indices_agree_witness: "hm_get (gs_by_request_id (gw_store sample_world)) 42 = Some (''alice'', 1)"
proof -
  have "hm_get (gs_by_request_id (gw_store sample_world)) (pg_request_id sample_gate) = Some (''alice'', 1)"
    using gate_indices_agree [OF sample_bootable
        sample_world_reachable [of "{sound_ops}", unfolded sample_boot_def, OF singletonI]]
    by (simp add: sample_world_def sample_store_keys hm_get_def del: split_paired_All split_paired_Ex)
  then show ?thesis by (simp add: sample_gate_def)
qed

text \<open>
  C10. However the critical sections and persistence calls of the tasks interleave and
  whatever faults the persistence meets: \<open>take_verified\<close> hands out a gate exactly when it is
  pending under the key, the request identifier matches, the answering channel is the
  gate's source channel or a trusted one, and the gate has not expired; a refusal for any
  other reason than expiry changes nothing. No identifier is handed out twice in the life of
  the process, and one that has been handed out is never pending again: every later call
  with it fails, for every key and channel.
\<close>

theorem take_verified_once:
  assumes "bootable ops p" and "(gw_step opss fifo)\<^sup>*\<^sup>* (gw_boot ops t0 p) w"
  shows "(fst (take_verified ops' now (gw_store w) k r ch) = Ok g \<longleftrightarrow>
          hm_get (gs_by_key (gw_store w)) k = Some g \<and> pg_request_id g = r
          \<and> (pg_source_channel g = ch \<or> ch \<in> {''web'', ''gateway''}) \<and> now \<le> pg_expires_at g)
     \<and> (\<forall>e. fst (take_verified ops' now (gw_store w) k r ch) = Err e \<longrightarrow> e \<noteq> GateExpired \<longrightarrow>
          snd (take_verified ops' now (gw_store w) k r ch) = gw_store w)
     \<and> distinct (gw_taken w)
     \<and> (r \<in> set (gw_taken w) \<longrightarrow> \<not> is_ok (fst (take_verified ops' now (gw_store w) k r ch)))"
proof (intro conjI allI impI)
  have inv: "gw_inv w" using gw_run_inv [OF assms(2) gw_boot_inv [OF assms(1)]] .
  show "distinct (gw_taken w)" using inv by (simp add: gw_inv_def)
  show ok: "fst (take_verified ops' now (gw_store w) k r ch) = Ok g \<longleftrightarrow>
          hm_get (gs_by_key (gw_store w)) k = Some g \<and> pg_request_id g = r
          \<and> (pg_source_channel g = ch \<or> ch \<in> {''web'', ''gateway''}) \<and> now \<le> pg_expires_at g" for g
    unfolding take_verified_Ok by (auto simp: channel_authorized_def TRUSTED_GATE_CHANNELS_def is_expired_def)
  show "snd (take_verified ops' now (gw_store w) k r ch) = gw_store w"
    if "fst (take_verified ops' now (gw_store w) k r ch) = Err e" "e \<noteq> GateExpired" for e
    using that by (auto simp: take_verified_def take_locked_def split: option.splits if_splits)
  show "\<not> is_ok (fst (take_verified ops' now (gw_store w) k r ch))" if taken: "r \<in> set (gw_taken w)"
  proof
    assume "is_ok (fst (take_verified ops' now (gw_store w) k r ch))"
    then obtain h where h: "hm_get (gs_by_key (gw_store w)) k = Some h" "pg_request_id h = r"
      unfolding is_ok_iff take_verified_Ok by blast
    then have "hm_get (gs_by_request_id (gw_store w)) r = Some k"
      using inv agree_key [of "hm_get (gs_by_key (gw_store w))" _ k h] unfolding gw_inv_def index_ok_def by blast
    then show False using inv taken unfolding gw_inv_def by force
  qed
qed

text \<open>The gate of the sample process is taken, and then asked for again before its removal was persisted.\<close>

lemma take_verified_once_witness:
  "\<exists>w. (gw_step {sound_ops} False)\<^sup>*\<^sup>* sample_boot w \<and> gw_taken w = [42] \<and> gw_jobs w = [JobRemove (''alice'', 1)]
     \<and> \<not> is_ok (fst (take_verified sound_ops 11 (gw_store w) (''alice'', 1) 42 ''web''))"
proof -
  obtain s' where t: "take_locked 10 (gw_store sample_world) (''alice'', 1) 42 ''web'' = (Ok sample_gate, s')"
    by (simp add: take_locked_def sample_world_def sample_store_keys hm_get_def channel_authorized_def
        TRUSTED_GATE_CHANNELS_def is_expired_def sample_gate_def)
  let ?w = "(issue sample_world s' [JobRemove (''alice'', 1)])\<lparr>gw_taken := gw_taken sample_world @ [42]\<rparr>"
  have "gw_step {sound_ops} False sample_world ?w" using t by (intro gw_step.take) (simp add: sample_world_def)
  then have run: "(gw_step {sound_ops} False)\<^sup>*\<^sup>* sample_boot ?w"
    using sample_world_reachable [of "{sound_ops}" False] by (simp add: rtranclp.rtrancl_into_rtrancl)
  have "\<not> is_ok (fst (take_verified sound_ops 11 (gw_store ?w) (''alice'', 1) 42 ''web''))"
    using take_verified_once [OF sample_bootable run [unfolded sample_boot_def], where r = 42]
    by (simp add: sample_world_def)
  then show ?thesis using run by (intro exI [of _ ?w]) (simp add: issue_def sample_world_def)
qed

lemma restore_gates_keys:
  "distinct (map gate_key_of gates) \<Longrightarrow> (\<And>g. g \<in> set gates \<Longrightarrow> hm_get (gs_by_key s) (gate_key_of g) = None) \<Longrightarrow>
   hm_get (gs_by_key (snd (restore_gates now s n gates))) k =
     (case List.find (\<lambda>g. gate_key_of g = k \<and> \<not> is_expired now g) gates of
        Some g \<Rightarrow> Some (g\<lparr>pg_approval_already_granted := False\<rparr>) | None \<Rightarrow> hm_get (gs_by_key s) k)"
proof (induction now s n gates rule: restore_gates.induct)
  case (2 now s count gate gates)
  let ?g = "gate\<lparr>pg_approval_already_granted := False\<rparr>"
  have key: "gate_key_of ?g = gate_key_of gate" by (simp add: gate_key_of_def)
  have new: "gate_key_of g \<noteq> gate_key_of gate" if "g \<in> set gates" for g
    using that "2.prems"(1) by (metis distinct.simps(2) image_eqI list.simps(9) set_map)
  show ?case
  proof (cases "is_expired now gate")
    case True
    with 2 show ?thesis by simp
  next
    case False
    let ?s = "s\<lparr>gs_by_request_id := hm_insert (gs_by_request_id s) (pg_request_id ?g) (gate_key_of ?g),
                gs_by_key := hm_insert (gs_by_key s) (gate_key_of ?g) ?g\<rparr>"
    have "hm_get (gs_by_key (snd (restore_gates now ?s (count + 1) gates))) k =
        (case List.find (\<lambda>g. gate_key_of g = k \<and> \<not> is_expired now g) gates of
           Some g \<Rightarrow> Some (g\<lparr>pg_approval_already_granted := False\<rparr>) | None \<Rightarrow> hm_get (gs_by_key ?s) k)"
      using "2.prems" new by (intro "2.IH"(2) [OF False refl refl]) (simp_all add: hm_simps key)
    moreover have "List.find (\<lambda>g. gate_key_of g = gate_key_of gate \<and> \<not> is_expired now g) gates = None"
      using new by (auto simp: find_None_iff)
    ultimately show ?thesis using False by (auto simp: Let_def hm_simps key split: option.splits)
  qed
qed simp

subsection \<open>What a restart finds\<close>

text \<open>The gates on file as the persistence jobs change them, and the gate of a key.\<close>

fun job_effect :: "pending_gate list \<Rightarrow> persist_job \<Rightarrow> pending_gate list" where
  "job_effect gates (JobSave g) = filter (\<lambda>x. gate_key_of x \<noteq> gate_key_of g) gates @ [g]"
| "job_effect gates (JobRemove k) = filter (\<lambda>x. gate_key_of x \<noteq> k) gates"

definition on_file :: "pending_gate list \<Rightarrow> gate_key \<Rightarrow> pending_gate option" where
  "on_file gates k = List.find (\<lambda>g. gate_key_of g = k) gates"

definition unapproved :: "pending_gate \<Rightarrow> pending_gate" where
  "unapproved g = g\<lparr>pg_approval_already_granted := False\<rparr>"

lemma unapproved_simps [simp]: "gate_key_of (unapproved g) = gate_key_of g" "is_expired now (unapproved g) = is_expired now g"
  "unapproved (unapproved g) = unapproved g"
  by (simp_all add: unapproved_def gate_key_of_def is_expired_def)

lemma find_filter_key: "List.find (\<lambda>g. f g = k) (filter (\<lambda>x. f x \<noteq> j) xs) = (if k = j then None else List.find (\<lambda>g. f g = k) xs)"
  by (induction xs) auto

lemma find_append_option: "List.find P (xs @ ys) = (case List.find P xs of None \<Rightarrow> List.find P ys | Some x \<Rightarrow> Some x)"
  by (induction xs) auto

lemma on_file_job [simp]:
  "on_file (filter (\<lambda>x. gate_key_of x \<noteq> j) gates) k = (if k = j then None else on_file gates k)"
  "on_file (filter (\<lambda>x. gate_key_of x \<noteq> gate_key_of g) gates @ [g]) k
   = (if k = gate_key_of g then Some g else on_file gates k)"
  by (auto simp: on_file_def find_append_option find_filter_key split: option.splits)

lemma on_file_removes: "on_file (foldl job_effect gates (map JobRemove ks)) k = (if k \<in> set ks then None else on_file gates k)"
  by (induction ks arbitrary: gates) auto

lemma job_effect_distinct: "distinct (map gate_key_of gates) \<Longrightarrow> distinct (map gate_key_of (job_effect gates j))"
  by (cases j) (auto simp: distinct_map_filter)

lemma find_both:
  "distinct (map f xs) \<Longrightarrow> List.find (\<lambda>x. f x = k \<and> P x) xs =
     (case List.find (\<lambda>x. f x = k) xs of None \<Rightarrow> None | Some x \<Rightarrow> if P x then Some x else None)"
proof (induction xs)
  case (Cons a xs)
  moreover have "List.find (\<lambda>x. f x = f a) xs = None" if "f a \<notin> f ` set xs"
    using that by (simp add: find_None_iff) (metis image_eqI)
  ultimately show ?case by (auto split: option.splits)
qed simp

lemma boot_lookup:
  assumes "ps_load_all ops q = Ok gates" and "distinct (map gate_key_of gates)"
  shows "hm_get (gs_by_key (gw_store (gw_boot ops now (Some q)))) k =
     (case on_file gates k of None \<Rightarrow> None
      | Some g \<Rightarrow> if is_expired now g then None else Some (unapproved g))"
  using restore_gates_keys [OF assms(2), of "gate_store_new (Some q)" now 0 k]
  by (simp add: boot_store assms(1) new_empty find_both [OF assms(2)] on_file_def unapproved_def split: option.splits)

text \<open>
  The relation between memory and file while persistence calls are in order and succeed: the
  file, once the jobs still to run have run, has exactly the gates of memory, up to the
  approval flag that a restart clears and to gates that expired, which the lookup of an
  expired gate drops from memory only.
\<close>

definition mirrors :: "time \<Rightarrow> (gate_key \<Rightarrow> pending_gate option) \<Rightarrow> (gate_key \<Rightarrow> pending_gate option) \<Rightarrow> bool" where
  "mirrors now F K \<longleftrightarrow> (\<forall>k. map_option unapproved (F k) = map_option unapproved (K k)
     \<or> (K k = None \<and> (\<exists>g. F k = Some g \<and> is_expired now g)))"

lemma mirrorsD:
  "mirrors now F K \<Longrightarrow> map_option unapproved (F j) = map_option unapproved (K j)
     \<or> (K j = None \<and> (\<exists>g. F j = Some g \<and> is_expired now g))"
  unfolding mirrors_def by blast

lemma mirrors_change:
  assumes "mirrors now F K" and "\<And>j. (F' j = F j \<and> K' j = K j) \<or> F' j = K' j"
  shows "mirrors now F' K'"
  unfolding mirrors_def
proof
  fix j
  show "map_option unapproved (F' j) = map_option unapproved (K' j)
      \<or> (K' j = None \<and> (\<exists>g. F' j = Some g \<and> is_expired now g))"
    using assms(2) [of j] mirrorsD [OF assms(1), of j] by auto
qed

definition file_inv :: "gate_file gate_world \<Rightarrow> bool" where
  "file_inv w \<longleftrightarrow> (\<exists>q gates. gs_persistence (gw_store w) = Some q \<and> ps_load_all sound_ops q = Ok gates
     \<and> distinct (map gate_key_of gates)
     \<and> mirrors (gw_clock w) (on_file (foldl job_effect gates (gw_jobs w))) (hm_get (gs_by_key (gw_store w))))"

lemma sound_job:
  assumes "ps_load_all sound_ops q = Ok gates"
  shows "\<exists>q'. run_job sound_ops q j = (Ok (), q') \<and> ps_load_all sound_ops q' = Ok (job_effect gates j)"
  using assms
  by (cases j; cases q) (auto simp: file_ops_def file_save_def file_remove_def file_load_all_def read_state_def write_state_def)

lemma file_inv_issue:
  assumes "file_inv w" and "gs_persistence s = gs_persistence (gw_store w)"
    and "\<And>gates. mirrors (gw_clock w) (on_file gates) (hm_get (gs_by_key (gw_store w))) \<Longrightarrow>
      mirrors (gw_clock w) (on_file (foldl job_effect gates jobs)) (hm_get (gs_by_key s))"
  shows "file_inv (issue w s jobs)"
  using assms unfolding file_inv_def issue_def by auto

lemma file_inv_step:
  assumes step: "gw_step {sound_ops} True w w'" and inv: "file_inv w" "gw_inv w"
  shows "file_inv w'"
  using step
proof cases
  case (insert g r s')
  have "file_inv (issue w s' (if is_ok r then [JobSave g] else []))"
    using insert(3)
    by (intro file_inv_issue [OF inv(1)])
      (auto simp: insert_locked_def Let_def hm_simps split: if_splits elim!: mirrors_change)
  then show ?thesis unfolding insert(1) by (simp add: file_inv_def)
next
  case (take k r ch g s')
  have "file_inv (issue w s' [JobRemove k])"
    using take_locked_store [OF take(2)]
    by (intro file_inv_issue [OF inv(1)]) (auto simp: hm_simps elim!: mirrors_change)
  then show ?thesis unfolding take(1) by (simp add: file_inv_def)
next
  case (take_refused k r ch e s')
  have gone: "mirrors now F (hm_get (hm_remove m k))"
    if "mirrors now F (hm_get m)" "hm_get m k = Some g" "is_expired now g" for now F m g
    unfolding mirrors_def
  proof
    fix j
    have "map_option unapproved (F k) = Some (unapproved g)"
      using that(1,2) unfolding mirrors_def by (metis option.distinct(1) option.simps(9))
    then obtain h where "F k = Some h" "unapproved h = unapproved g" by auto
    moreover from this(2) have "is_expired now h" using that(3) by (metis unapproved_simps(2))
    ultimately show "map_option unapproved (F j) = map_option unapproved (hm_get (hm_remove m k) j)
        \<or> (hm_get (hm_remove m k) j = None \<and> (\<exists>g. F j = Some g \<and> is_expired now g))"
      using mirrorsD [OF that(1), of j] by (auto simp: hm_simps)
  qed
  then show ?thesis
    unfolding take_refused(1) using take_locked_refused [OF take_refused(2)]
    by (intro file_inv_issue [OF inv(1)]) auto
next
  case (discard k r s')
  then show ?thesis
    unfolding discard(1)
    by (intro file_inv_issue [OF inv(1)])
      (auto simp: discard_locked_def hm_simps split: option.splits elim!: mirrors_change)
next
  case (discard_thread t keys gates s')
  have s': "s' = snd (drop_keys (gw_store w) keys)"
    using discard_thread(2) by (auto simp: discard_thread_locked_def Let_def split: prod.splits)
  have "index_ok (gw_store w)" using inv(2) by (simp add: gw_inv_def)
  note d = drop_keys_spec [OF this]
  show ?thesis
    unfolding discard_thread(1) s'
    by (intro file_inv_issue [OF inv(1)]) (auto simp: d on_file_removes elim!: mirrors_change)
next
  case (expire keys s')
  have s': "s' = snd (drop_keys (gw_store w) keys)" using expire(2) by (auto simp: expire_locked_def Let_def)
  have "index_ok (gw_store w)" using inv(2) by (simp add: gw_inv_def)
  note d = drop_keys_spec [OF this]
  show ?thesis
    unfolding expire(1) s'
    by (intro file_inv_issue [OF inv(1)]) (auto simp: d on_file_removes elim!: mirrors_change)
next
  case (job i ops)
  obtain q gates where q: "gs_persistence (gw_store w) = Some q" "ps_load_all sound_ops q = Ok gates"
      "distinct (map gate_key_of gates)"
      "mirrors (gw_clock w) (on_file (foldl job_effect gates (gw_jobs w))) (hm_get (gs_by_key (gw_store w)))"
    using inv(1) unfolding file_inv_def by blast
  obtain j js where js: "gw_jobs w = j # js" using job(2) by (cases "gw_jobs w") auto
  obtain q' where q': "run_job sound_ops q j = (Ok (), q')" "ps_load_all sound_ops q' = Ok (job_effect gates j)"
    using sound_job [OF q(2)] by blast
  have "w' = w\<lparr>gw_store := (gw_store w)\<lparr>gs_persistence := Some q'\<rparr>, gw_jobs := js\<rparr>"
    using job q'(1) q(1) js by (simp add: persist_def)
  then show ?thesis
    using q q'(2) js job_effect_distinct [OF q(3), of j] by (auto simp: file_inv_def)
next
  case (tick now)
  have "is_expired now g" if "is_expired (gw_clock w) g" for g using that tick(2) by (simp add: is_expired_def)
  then have "mirrors now F K" if "mirrors (gw_clock w) F K" for F K using that unfolding mirrors_def by blast
  then show ?thesis using inv(1) unfolding tick(1) file_inv_def by auto
qed

lemma restore_gates_persistence: "gs_persistence (snd (restore_gates now s n gs)) = gs_persistence s"
  by (induction now s n gs rule: restore_gates.induct) (simp_all add: Let_def)

lemma file_inv_boot:
  assumes "ps_load_all sound_ops q = Ok gates" "distinct (map gate_key_of gates)"
  shows "file_inv (gw_boot sound_ops t (Some q))"
proof -
  have "gs_persistence (gw_store (gw_boot sound_ops t (Some q))) = Some q"
    by (simp add: boot_store assms(1) restore_gates_persistence) (simp add: gate_store_new_def)
  moreover have "mirrors t (on_file gates) (hm_get (gs_by_key (gw_store (gw_boot sound_ops t (Some q)))))"
    unfolding mirrors_def by (auto simp: boot_lookup [OF assms] split: option.splits)
  ultimately show ?thesis using assms by (auto simp: file_inv_def gw_boot_def Let_def)
qed



text \<open>
  Two ways a restart goes wrong. A removal that fails is only logged, so the gate handed out
  before is found again, to be approved and run a second time.
\<close>

theorem failed_removal_returns_gate:
  assumes "take_verified (file_ops (Some fault) write) now s k r ch = (Ok g, s1)"
    and "gs_persistence s = Some p" "ps_load_all sound_ops p = Ok gates" "distinct (map gate_key_of gates)"
    and "on_file gates k = Some h" "\<not> is_expired now' h"
  shows "hm_get (gs_by_key (gw_store (gw_boot sound_ops now' (gs_persistence s1)))) k = Some (unapproved h)"
proof -
  have "gs_persistence s1 = Some p"
  proof -
    obtain s' where s': "take_locked now s k r ch = (Ok g, s')"
        "s1 = snd (persist (file_ops (Some fault) write) s' (JobRemove k))"
      using assms(1) by (auto simp: take_verified_def split: prod.splits sum.splits)
    have "gs_persistence s' = Some p" using take_locked_store [OF s'(1)] assms(2) by simp
    then show ?thesis unfolding s'(2) by (simp add: persist_def file_ops_def file_remove_def read_state_def)
  qed
  then show ?thesis by (simp add: boot_lookup [OF assms(3,4)] assms(5,6))
qed

lemma failed_removal_returns_gate_witness:
  "hm_get (gs_by_key (gw_store (gw_boot sound_ops 60 (gs_persistence
     (snd (take_verified (file_ops (Some ''locked'') NoFault) 50 sample_store (''alice'', 1) 42 ''web''))))))
     (''alice'', 1) = Some (unapproved sample_gate)"
proof -
  obtain s1 where t: "take_verified (file_ops (Some ''locked'') NoFault) 50 sample_store (''alice'', 1) 42 ''web'' = (Ok sample_gate, s1)"
    by (simp add: take_verified_def take_locked_def sample_store_keys hm_get_def channel_authorized_def
        TRUSTED_GATE_CHANNELS_def is_expired_def sample_gate_def)
  have "ps_load_all sound_ops (GateFile 1 [sample_gate]) = Ok [sample_gate]"
    by (simp add: file_ops_def file_load_all_def read_state_def)
  moreover have "on_file [sample_gate] (''alice'', 1) = Some sample_gate" "\<not> is_expired 60 sample_gate"
    by (simp_all add: on_file_def gate_key_of_def sample_gate_def is_expired_def)
  ultimately show ?thesis
    using failed_removal_returns_gate [OF t sample_store_keys(3), of "[sample_gate]" sample_gate 60] t by simp
qed

text \<open>
  And a removal that runs late: between the critical section that takes a gate and its
  removal from the file, a new gate of the same user and thread can be inserted and saved.
  The removal goes by the key and deletes the new gate from the file; no fault and no expiry
  is involved, the process still has the gate pending, and the next process does not.
\<close>

definition second_gate :: pending_gate where
  "second_gate = sample_gate\<lparr>pg_request_id := 43\<rparr>"

lemma late_removal_forgets_gate:
  "\<exists>w. (gw_step {sound_ops} False)\<^sup>*\<^sup>* sample_boot w \<and> gw_jobs w = []
     \<and> hm_get (gs_by_key (gw_store w)) (''alice'', 1) = Some second_gate
     \<and> hm_get (gs_by_key (gw_store (gw_boot sound_ops 60 (gs_persistence (gw_store w))))) (''alice'', 1) = None"
proof -
  let ?k = "(''alice'', 1) :: gate_key" and ?R = "gw_step {sound_ops} False"
  let ?s1 = "(gate_store_new (Some (GateFile 1 [sample_gate])) :: gate_file gate_store)"
  let ?w1 = "\<lparr>gw_store = ?s1, gw_jobs = [JobRemove ?k], gw_used = {42}, gw_taken = [42], gw_clock = 10\<rparr>"
  let ?s2 = "?s1\<lparr>gs_by_key := [(?k, second_gate)], gs_by_request_id := [(43, ?k)]\<rparr>"
  let ?w2 = "?w1\<lparr>gw_store := ?s2, gw_jobs := [JobRemove ?k, JobSave second_gate], gw_used := {43, 42}\<rparr>"
  let ?w3 = "?w2\<lparr>gw_store := ?s2\<lparr>gs_persistence := Some (GateFile 1 [second_gate])\<rparr>, gw_jobs := [JobRemove ?k]\<rparr>"
  let ?w4 = "?w2\<lparr>gw_store := ?s2\<lparr>gs_persistence := Some (GateFile 1 [])\<rparr>, gw_jobs := []\<rparr>"
  have key: "gate_key_of second_gate = ?k" "pg_request_id second_gate = 43"
    by (simp_all add: second_gate_def sample_gate_def gate_key_of_def)
  have keys: "gate_key_of sample_gate = ?k" by (simp add: sample_gate_def gate_key_of_def)
  have "take_locked (gw_clock sample_world) (gw_store sample_world) ?k 42 ''web'' = (Ok sample_gate, ?s1)"
    by (simp add: take_locked_def sample_world_def sample_store_keys hm_get_def channel_authorized_def
        TRUSTED_GATE_CHANNELS_def is_expired_def drop_gate_def gate_store_new_def hm_remove_def)
      (simp add: sample_gate_def)
  from gw_step.take [OF this, of "{sound_ops}" False] have "?R sample_world ?w1"
    by (simp add: issue_def sample_world_def)
  moreover have "insert_locked (gw_store ?w1) second_gate = (Ok (), ?s2)"
    by (simp add: insert_locked_def key gate_store_new_def hm_get_def Let_def)
  from gw_step.insert [OF _ this, of "{sound_ops}" False] have "?R ?w1 ?w2"
    by (simp add: issue_def key)
  moreover have "?R ?w2 ?w3"
    using gw_step.job [of 1 ?w2 False sound_ops "{sound_ops}"]
    by (simp add: persist_def gate_store_new_def file_ops_def file_save_def read_state_def write_state_def key keys)
  moreover have "?R ?w3 ?w4"
    using gw_step.job [of 0 ?w3 False sound_ops "{sound_ops}"]
    by (simp add: persist_def gate_store_new_def file_ops_def file_remove_def read_state_def write_state_def key)
  ultimately have "?R\<^sup>*\<^sup>* sample_boot ?w4"
    using sample_world_reachable [of "{sound_ops}" False] by (meson rtranclp.rtrancl_into_rtrancl singletonI)
  moreover have "hm_get (gs_by_key (gw_store (gw_boot sound_ops 60 (Some (GateFile 1 []))))) ?k = None"
    by (subst boot_lookup [of _ _ "[]"]) (simp_all add: file_ops_def file_load_all_def read_state_def on_file_def)
  ultimately show ?thesis by (intro exI [of _ ?w4]) (simp add: hm_get_def)
qed

end
