(* ===== verification/Job_State.thy ===== *)
theory Job_State
  imports Lifecycle Keyed_Store
begin

text \<open>
  Jobs (\<open>src/context/state.rs\<close>): the state machine, the job context with its capped
  transition history, token and cost budgets, and recovery of stuck jobs. Decimal amounts
  are rationals. The context's handles on the outside (environment, HTTP interceptor,
  output stash) are not modelled.
\<close>

section \<open>The state machine\<close>

datatype job_state = JPending | JInProgress | JCompleted | JSubmitted | JAccepted | JFailed | JStuck
  | JCancelled

definition job_can_transition_to :: "job_state \<Rightarrow> job_state \<Rightarrow> bool" where
  "job_can_transition_to s target =
     (if s = JCompleted \<and> target = JCompleted then True
      else (s, target) \<in>
        {(JPending, JInProgress), (JPending, JFailed), (JPending, JCancelled),
         (JInProgress, JCompleted), (JInProgress, JFailed), (JInProgress, JStuck), (JInProgress, JCancelled),
         (JCompleted, JSubmitted), (JCompleted, JFailed),
         (JSubmitted, JAccepted), (JSubmitted, JFailed),
         (JStuck, JInProgress), (JStuck, JFailed), (JStuck, JCancelled)})"

definition job_is_terminal :: "job_state \<Rightarrow> bool" where
  "job_is_terminal s = (s \<in> {JAccepted, JFailed, JCancelled})"

definition job_is_active :: "job_state \<Rightarrow> bool" where
  "job_is_active s = (\<not> job_is_terminal s)"

definition is_parallel_blocking :: "job_state \<Rightarrow> bool" where
  "is_parallel_blocking s = (s \<in> {JPending, JInProgress, JStuck})"

fun job_state_display :: "job_state \<Rightarrow> string" where
  "job_state_display JPending = ''pending''"
| "job_state_display JInProgress = ''in_progress''"
| "job_state_display JCompleted = ''completed''"
| "job_state_display JSubmitted = ''submitted''"
| "job_state_display JAccepted = ''accepted''"
| "job_state_display JFailed = ''failed''"
| "job_state_display JStuck = ''stuck''"
| "job_state_display JCancelled = ''cancelled''"

interpretation job_sm: lifecycle job_can_transition_to job_is_terminal
proof
  fix s t assume "job_is_terminal s" then show "\<not> job_can_transition_to s t"
    by (auto simp: job_is_terminal_def job_can_transition_to_def)
next
  fix s assume "\<not> job_is_terminal s"
  then have "job_can_transition_to s JFailed \<and> job_is_terminal JFailed"
    by (cases s) (simp_all add: job_is_terminal_def job_can_transition_to_def)
  then show "\<exists>t. job_can_transition_to s t \<and> job_is_terminal t" by blast
qed

section \<open>The job context\<close>

record state_transition =
  st_from :: job_state
  st_to :: job_state
  st_timestamp :: time
  st_reason :: "string option"

record job_context =
  jc_job_id :: uuid
  jc_state :: job_state
  jc_user_id :: string
  jc_requester_id :: "string option"
  jc_conversation_id :: "uuid option"
  jc_title :: string
  jc_description :: string
  jc_category :: "string option"
  jc_budget :: "rat option"
  jc_budget_token :: "string option"
  jc_bid_amount :: "rat option"
  jc_estimated_cost :: "rat option"
  jc_estimated_duration :: "time option"
  jc_actual_cost :: rat
  jc_total_tokens_used :: u64
  jc_max_tokens :: u64
  jc_created_at :: time
  jc_started_at :: "time option"
  jc_completed_at :: "time option"
  jc_repair_attempts :: u32
  jc_transitions :: "state_transition list"
  jc_metadata :: json
  jc_user_timezone :: string

definition job_with_user :: "uuid \<Rightarrow> time \<Rightarrow> string \<Rightarrow> string \<Rightarrow> string \<Rightarrow> job_context" where
  "job_with_user jid now user_id title description =
     \<lparr>jc_job_id = jid, jc_state = JPending, jc_user_id = user_id, jc_requester_id = None,
      jc_conversation_id = None, jc_title = title, jc_description = description, jc_category = None,
      jc_budget = None, jc_budget_token = None, jc_bid_amount = None, jc_estimated_cost = None,
      jc_estimated_duration = None, jc_actual_cost = 0, jc_total_tokens_used = 0, jc_max_tokens = 0,
      jc_created_at = now, jc_started_at = None, jc_completed_at = None, jc_repair_attempts = 0,
      jc_transitions = [], jc_metadata = JNull, jc_user_timezone = ''UTC''\<rparr>"

definition job_new :: "uuid \<Rightarrow> time \<Rightarrow> string \<Rightarrow> string \<Rightarrow> job_context" where
  "job_new jid now title description = job_with_user jid now ''default'' title description"

definition job_system :: "time \<Rightarrow> string \<Rightarrow> uuid \<Rightarrow> job_context" where
  "job_system now user_id jid =
     (job_with_user jid now user_id ''system'' ''system operation'')
       \<lparr>jc_state := JCompleted, jc_category := Some ''system'', jc_started_at := Some now,
        jc_completed_at := Some now\<rparr>"

definition with_timezone :: "job_context \<Rightarrow> string \<Rightarrow> job_context" where
  "with_timezone c tz = c\<lparr>jc_user_timezone := tz\<rparr>"

definition with_requester_id :: "job_context \<Rightarrow> string \<Rightarrow> job_context" where
  "with_requester_id c rid = c\<lparr>jc_requester_id := Some rid\<rparr>"

definition job_is_owned_by :: "job_context \<Rightarrow> string \<Rightarrow> bool" where
  "job_is_owned_by c user_id = (jc_user_id c = user_id)"

definition MAX_TRANSITIONS :: nat where "MAX_TRANSITIONS = 200"

definition cap_transitions :: "state_transition list \<Rightarrow> state_transition list" where
  "cap_transitions ts =
     (if length ts > MAX_TRANSITIONS then drop (length ts - MAX_TRANSITIONS) ts else ts)"

definition stamp :: "time \<Rightarrow> job_state \<Rightarrow> job_context \<Rightarrow> job_context" where
  "stamp now new_state c =
     (if new_state = JInProgress \<and> jc_started_at c = None then c\<lparr>jc_started_at := Some now\<rparr>
      else if new_state \<in> {JCompleted, JAccepted, JFailed, JCancelled} then c\<lparr>jc_completed_at := Some now\<rparr>
      else c)"

definition job_transition_to ::
  "time \<Rightarrow> job_context \<Rightarrow> job_state \<Rightarrow> string option \<Rightarrow> string + job_context" where
  "job_transition_to now c new_state reason =
     (if \<not> job_can_transition_to (jc_state c) new_state then
        Err (''Cannot transition from '' @ job_state_display (jc_state c) @ '' to '' @ job_state_display new_state)
      else if jc_state c = new_state then Ok c
      else
        let transition = \<lparr>st_from = jc_state c, st_to = new_state, st_timestamp = now, st_reason = reason\<rparr>
        in Ok (stamp now new_state
             (c\<lparr>jc_transitions := cap_transitions (jc_transitions c @ [transition]), jc_state := new_state\<rparr>)))"

definition add_cost :: "job_context \<Rightarrow> rat \<Rightarrow> job_context" where
  "add_cost c cost = c\<lparr>jc_actual_cost := jc_actual_cost c + cost\<rparr>"

record token_budget_exceeded =
  tb_used :: u64
  tb_limit :: u64

definition add_tokens :: "job_context \<Rightarrow> u64 \<Rightarrow> (token_budget_exceeded + unit) \<times> job_context" where
  "add_tokens c tokens =
     (let c1 = c\<lparr>jc_total_tokens_used := jc_total_tokens_used c + tokens\<rparr>
      in if jc_max_tokens c1 > 0 \<and> jc_total_tokens_used c1 > jc_max_tokens c1
         then (Err \<lparr>tb_used = jc_total_tokens_used c1, tb_limit = jc_max_tokens c1\<rparr>, c1)
         else (Ok (), c1))"

definition budget_exceeded :: "job_context \<Rightarrow> bool" where
  "budget_exceeded c = (case jc_budget c of Some budget \<Rightarrow> jc_actual_cost c > budget | None \<Rightarrow> False)"

definition job_elapsed :: "time \<Rightarrow> job_context \<Rightarrow> time option" where
  "job_elapsed now c =
     map_option (\<lambda>start.
        let end_time = (case jc_completed_at c of Some e \<Rightarrow> e | None \<Rightarrow> now);
            s = num_seconds (end_time - start)
        in secs (if s < 0 then 0 else s)) (jc_started_at c)"

definition mark_stuck :: "time \<Rightarrow> job_context \<Rightarrow> string \<Rightarrow> string + job_context" where
  "mark_stuck now c reason = job_transition_to now c JStuck (Some reason)"

definition attempt_recovery :: "time \<Rightarrow> job_context \<Rightarrow> string + job_context" where
  "attempt_recovery now c =
     (if jc_state c \<noteq> JStuck then Err ''Job is not stuck''
      else job_transition_to now (c\<lparr>jc_repair_attempts := jc_repair_attempts c + 1\<rparr>) JInProgress
             (Some ''Recovery attempt''))"

section \<open>History\<close>

definition history :: "job_context \<Rightarrow> (job_state \<times> job_state) list" where
  "history c = map (\<lambda>t. (st_from t, st_to t)) (jc_transitions c)"

text \<open>
  The recorded history is a walk along the table that ends in the current state (it may
  have lost its beginning), it is never longer than the cap, and the completion time is
  set exactly in the states from which there is no return to work.
\<close>

definition job_inv :: "job_context \<Rightarrow> bool" where
  "job_inv c \<longleftrightarrow> (\<exists>s. valid_path job_can_transition_to s (history c) (jc_state c))
     \<and> length (jc_transitions c) \<le> MAX_TRANSITIONS
     \<and> (jc_completed_at c \<noteq> None \<longleftrightarrow> \<not> is_parallel_blocking (jc_state c))
     \<and> (jc_state c = JInProgress \<or> jc_state c = JStuck \<or> jc_state c = JCompleted \<longrightarrow> jc_started_at c \<noteq> None)"

inductive job_step :: "job_context \<Rightarrow> job_context \<Rightarrow> bool" where
  transition: "job_transition_to now c s reason = Ok c' \<Longrightarrow> job_step c c'"
| recovery: "attempt_recovery now c = Ok c' \<Longrightarrow> job_step c c'"
| stuck: "mark_stuck now c reason = Ok c' \<Longrightarrow> job_step c c'"
| cost: "job_step c (add_cost c x)"
| tokens: "job_step c (snd (add_tokens c n))"

inductive_cases job_stepE: "job_step c c'"

lemma stamp_simps [simp]:
  "jc_state (stamp now s c) = jc_state c" "jc_transitions (stamp now s c) = jc_transitions c"
  "jc_job_id (stamp now s c) = jc_job_id c" "jc_user_id (stamp now s c) = jc_user_id c"
  "jc_completed_at (stamp now s c) =
     (if s \<in> {JCompleted, JAccepted, JFailed, JCancelled} then Some now else jc_completed_at c)"
  "jc_started_at (stamp now s c) =
     (if s = JInProgress \<and> jc_started_at c = None then Some now else jc_started_at c)"
  by (auto simp: stamp_def)

lemma cap_transitions_drop:
  "cap_transitions ts = drop (length ts - MAX_TRANSITIONS) ts" "length (cap_transitions ts) \<le> MAX_TRANSITIONS"
  by (auto simp: cap_transitions_def)

lemma job_transition_Ok:
  assumes "job_transition_to now c s reason = Ok c'"
  shows "job_can_transition_to (jc_state c) s" "jc_state c' = s"
    "s = jc_state c \<Longrightarrow> c' = c"
    "s \<noteq> jc_state c \<Longrightarrow> c' = stamp now s (c\<lparr>jc_transitions := cap_transitions (jc_transitions c @
        [\<lparr>st_from = jc_state c, st_to = s, st_timestamp = now, st_reason = reason\<rparr>]), jc_state := s\<rparr>)"
  using assms by (auto simp: job_transition_to_def Let_def split: if_splits)

lemma job_inv_new: "job_inv (job_with_user jid now u t d)"
  by (auto simp: job_inv_def job_with_user_def history_def is_parallel_blocking_def MAX_TRANSITIONS_def)

lemma job_inv_transition:
  assumes "job_inv c" and "job_transition_to now c s reason = Ok c'"
  shows "job_inv c'"
proof (cases "s = jc_state c")
  case True
  then show ?thesis using job_transition_Ok(3) [OF assms(2)] assms(1) by simp
next
  case False
  note can = job_transition_Ok(1) [OF assms(2)] and c' = job_transition_Ok(4) [OF assms(2) False]
  obtain r where "valid_path job_can_transition_to r (history c) (jc_state c)"
    using assms(1) by (auto simp: job_inv_def)
  from valid_path_drop [OF valid_path_snoc [OF this can], of "length (jc_transitions c) + 1 - MAX_TRANSITIONS"]
  have path: "\<exists>r. valid_path job_can_transition_to r (history c') (jc_state c')"
    by (simp add: c' history_def cap_transitions_drop(1) drop_map MAX_TRANSITIONS_def)
  have comp: "jc_completed_at c \<noteq> None \<longleftrightarrow> \<not> is_parallel_blocking (jc_state c)"
    and start: "jc_state c \<in> {JInProgress, JStuck, JCompleted} \<Longrightarrow> jc_started_at c \<noteq> None"
    using assms(1) by (auto simp: job_inv_def)
  have "jc_completed_at c' \<noteq> None \<longleftrightarrow> \<not> is_parallel_blocking (jc_state c')"
    using comp can by (cases s; cases "jc_state c") (simp_all add: c' job_can_transition_to_def is_parallel_blocking_def)
  moreover have "jc_state c' \<in> {JInProgress, JStuck, JCompleted} \<longrightarrow> jc_started_at c' \<noteq> None"
    using start can False by (cases s; cases "jc_state c") (simp_all add: c' job_can_transition_to_def)
  moreover have "length (jc_transitions c') \<le> MAX_TRANSITIONS"
    by (simp add: c' cap_transitions_drop(2))
  ultimately show ?thesis using path by (simp add: job_inv_def)
qed

lemma job_inv_frame:
  "job_inv (c\<lparr>jc_repair_attempts := n\<rparr>) = job_inv c" "job_inv (c\<lparr>jc_actual_cost := x\<rparr>) = job_inv c"
  "job_inv (c\<lparr>jc_total_tokens_used := w\<rparr>) = job_inv c"
  by (simp_all add: job_inv_def history_def)

lemma recovery_transition:
  "attempt_recovery now c = Ok c' \<Longrightarrow>
   job_transition_to now (c\<lparr>jc_repair_attempts := jc_repair_attempts c + 1\<rparr>) JInProgress (Some ''Recovery attempt'') = Ok c'
   \<and> jc_state c = JStuck"
  by (simp add: attempt_recovery_def split: if_splits)

lemma job_inv_step: "job_step c c' \<Longrightarrow> job_inv c \<Longrightarrow> job_inv c'"
proof (induction rule: job_step.induct)
  case (transition now c s reason c')
  then show ?case by (blast intro: job_inv_transition)
next
  case (recovery now c c')
  then show ?case using recovery_transition job_inv_transition job_inv_frame(1) by blast
next
  case (stuck now c reason c')
  then show ?case by (auto simp: mark_stuck_def intro: job_inv_transition)
qed (simp_all add: add_cost_def add_tokens_def Let_def job_inv_frame)

lemma job_step_state:
  "job_step c c' \<Longrightarrow> jc_state c' = jc_state c \<or> job_can_transition_to (jc_state c) (jc_state c')"
proof (induction rule: job_step.induct)
  case (recovery now c c')
  then show ?case using recovery_transition [OF recovery] job_transition_Ok(1,2) by fastforce
next
  case (stuck now c reason c')
  then show ?case using job_transition_Ok(1,2) unfolding mark_stuck_def by metis
next
  case (transition now c s reason c')
  then show ?case using job_transition_Ok(1,2) by metis
qed (simp_all add: add_cost_def add_tokens_def Let_def)

lemma job_run_state: "job_step\<^sup>*\<^sup>* c c' \<Longrightarrow> job_can_transition_to\<^sup>*\<^sup>* (jc_state c) (jc_state c')"
proof (induction rule: rtranclp_induct)
  case (step u v)
  then show ?case using job_step_state [OF step(2)] by auto
qed simp

section \<open>Properties\<close>

text \<open>
  For every job built by \<open>JobContext::with_user\<close> and the operations of the context, the
  recorded history is a walk along the transition table that ends in the job's state, at
  most 200 entries long, and the completion time is set exactly in the states that hold no
  execution slot.
\<close>

theorem job_history_valid:
  assumes "job_step\<^sup>*\<^sup>* (job_with_user jid now u t d) c"
  shows "(\<exists>s. valid_path job_can_transition_to s (history c) (jc_state c))
     \<and> length (jc_transitions c) \<le> 200
     \<and> (jc_completed_at c \<noteq> None \<longleftrightarrow> \<not> is_parallel_blocking (jc_state c))
     \<and> (jc_state c \<in> {JInProgress, JStuck, JCompleted} \<longrightarrow> jc_started_at c \<noteq> None)"
proof -
  from assms have "job_inv c"
    by (induction rule: rtranclp_induct) (auto intro: job_inv_step job_inv_new)
  then show ?thesis by (simp add: job_inv_def MAX_TRANSITIONS_def)
qed

lemma job_history_valid_witness:
  "\<exists>c. job_transition_to 5 (job_with_user 1 0 ''u'' ''t'' ''d'') JInProgress None = Ok c \<and> jc_started_at c \<noteq> None"
proof -
  let ?j = "job_with_user 1 0 ''u'' ''t'' ''d''"
  obtain c where c: "job_transition_to 5 ?j JInProgress None = Ok c"
    by (simp add: job_transition_to_def job_can_transition_to_def job_with_user_def)
  then have "job_step\<^sup>*\<^sup>* ?j c" by (blast intro: job_step.transition)
  with job_history_valid job_transition_Ok(2) [OF c] c show ?thesis by blast
qed

text \<open>
  Accepted, failed and cancelled jobs stay so: no operation of the context leaves those
  states, and recovery applies to stuck jobs only, where it succeeds and counts one attempt.
\<close>

theorem job_terminal_final:
  "(job_is_terminal (jc_state c) \<longrightarrow> job_step\<^sup>*\<^sup>* c c' \<longrightarrow> jc_state c' = jc_state c)
   \<and> (is_ok (attempt_recovery now c) \<longleftrightarrow> jc_state c = JStuck)
   \<and> (\<forall>c2. attempt_recovery now c = Ok c2 \<longrightarrow> jc_state c2 = JInProgress)"
proof -
  have "job_is_terminal (jc_state c) \<Longrightarrow> job_step\<^sup>*\<^sup>* c c' \<Longrightarrow> jc_state c' = jc_state c"
    using job_sm.terminal_final job_run_state by metis
  moreover have "is_ok (attempt_recovery now c) \<longleftrightarrow> jc_state c = JStuck"
    by (simp add: attempt_recovery_def job_transition_to_def job_can_transition_to_def Let_def)
  ultimately show ?thesis using recovery_transition job_transition_Ok(2) by metis
qed

lemma job_terminal_final_witness:
  "jc_state (add_cost ((job_with_user 1 0 ''u'' ''t'' ''d'')\<lparr>jc_state := JCancelled\<rparr>) 3) = JCancelled"
proof -
  let ?c = "(job_with_user 1 0 ''u'' ''t'' ''d'')\<lparr>jc_state := JCancelled\<rparr>"
  have "job_step\<^sup>*\<^sup>* ?c (add_cost ?c 3)" by (blast intro: job_step.cost)
  with job_terminal_final [of ?c "add_cost ?c 3"] show ?thesis by (simp add: job_is_terminal_def)
qed

text \<open>
  The token budget. As long as the \<open>u64\<close> counter does not overflow, a call is refused
  exactly when a limit is set and the exact total exceeds it, and the counter holds the exact
  total either way. On overflow the sum wraps and an exhausted budget is reported as free.
\<close>

theorem token_budget:
  "(unat (jc_total_tokens_used c) + unat n < 2 ^ 64 \<longrightarrow>
      unat (jc_total_tokens_used (snd (add_tokens c n))) = unat (jc_total_tokens_used c) + unat n
      \<and> (is_ok (fst (add_tokens c n)) \<longleftrightarrow>
           jc_max_tokens c = 0 \<or> unat (jc_total_tokens_used c) + unat n \<le> unat (jc_max_tokens c)))
   \<and> is_ok (fst (add_tokens (c\<lparr>jc_total_tokens_used := - 1, jc_max_tokens := 1000\<rparr>) 1))"
proof -
  have "unat (jc_total_tokens_used c + n) = unat (jc_total_tokens_used c) + unat n"
    if "unat (jc_total_tokens_used c) + unat n < 2 ^ 64"
    using that by (simp add: unat_word_ariths)
  then show ?thesis
    by (auto simp: add_tokens_def Let_def word_less_nat_alt unat_eq_zero not_less)
qed

lemma token_budget_witness:
  "\<not> is_ok (fst (add_tokens ((job_with_user 1 0 ''u'' ''t'' ''d'')\<lparr>jc_max_tokens := 10\<rparr>) 11))"
  using token_budget [of "(job_with_user 1 0 ''u'' ''t'' ''d'')\<lparr>jc_max_tokens := 10\<rparr>" 11]
  by (simp add: job_with_user_def)

end
