(* ===== verification/Context_Manager.thy ===== *)
theory Context_Manager
  imports Job_State
begin

text \<open>
  The manager of concurrent jobs (\<open>src/context/manager.rs\<close>) and the per-job memory
  (\<open>src/context/memory.rs\<close>). Contexts and memories sit behind separate locks, so insertion
  and removal are two critical sections each; the step relation interleaves them freely.
  Chat messages are an arbitrary type \<open>'m\<close> with the test \<open>is_system\<close> for the system role.
\<close>

section \<open>Job memory\<close>

record action_record =
  ar_id :: uuid
  ar_sequence :: u32
  ar_tool_name :: string
  ar_input :: json
  ar_output_raw :: "string option"
  ar_output_sanitized :: "json option"
  ar_sanitization_warnings :: "string list"
  ar_cost :: "rat option"
  ar_duration :: time
  ar_success :: bool
  ar_error :: "string option"
  ar_executed_at :: time

definition action_record_new :: "uuid \<Rightarrow> time \<Rightarrow> u32 \<Rightarrow> string \<Rightarrow> json \<Rightarrow> action_record" where
  "action_record_new aid now sequence tool_name input =
     \<lparr>ar_id = aid, ar_sequence = sequence, ar_tool_name = tool_name, ar_input = input,
      ar_output_raw = None, ar_output_sanitized = None, ar_sanitization_warnings = [],
      ar_cost = None, ar_duration = 0, ar_success = False, ar_error = None, ar_executed_at = now\<rparr>"

definition action_succeed ::
  "(json \<Rightarrow> string) \<Rightarrow> action_record \<Rightarrow> string option \<Rightarrow> json \<Rightarrow> time \<Rightarrow> action_record" where
  "action_succeed pretty a output_sanitized output_raw duration =
     a\<lparr>ar_success := True, ar_output_raw := Some (pretty output_raw),
       ar_output_sanitized := map_option JString output_sanitized, ar_duration := duration\<rparr>"

definition action_fail :: "action_record \<Rightarrow> string \<Rightarrow> time \<Rightarrow> action_record" where
  "action_fail a error duration =
     a\<lparr>ar_success := False, ar_error := Some error, ar_duration := duration\<rparr>"

definition with_warnings :: "action_record \<Rightarrow> string list \<Rightarrow> action_record" where
  "with_warnings a warnings = a\<lparr>ar_sanitization_warnings := warnings\<rparr>"

definition with_cost :: "action_record \<Rightarrow> rat \<Rightarrow> action_record" where
  "with_cost a cost = a\<lparr>ar_cost := Some cost\<rparr>"

record 'm conversation_memory =
  cv_messages :: "'m list"
  cv_max_messages :: nat

definition conversation_new :: "nat \<Rightarrow> 'm conversation_memory" where
  "conversation_new max_messages = \<lparr>cv_messages = [], cv_max_messages = max_messages\<rparr>"

text \<open>The trimming loop: the oldest message goes, except a leading system message.\<close>

function trim_messages :: "('m \<Rightarrow> bool) \<Rightarrow> nat \<Rightarrow> 'm list \<Rightarrow> 'm list" where
  "trim_messages is_system max_messages ms =
     (if length ms > max_messages then
        (case ms of
           [] \<Rightarrow> ms
         | m # rest \<Rightarrow>
             if is_system m then
               (case rest of
                  [] \<Rightarrow> ms
                | _ # rest' \<Rightarrow> trim_messages is_system max_messages (m # rest'))
             else trim_messages is_system max_messages rest)
      else ms)"
  by pat_completeness auto
termination by (relation "measure (\<lambda>(_, _, ms). length ms)") auto

declare trim_messages.simps [simp del]

definition conversation_add :: "('m \<Rightarrow> bool) \<Rightarrow> 'm conversation_memory \<Rightarrow> 'm \<Rightarrow> 'm conversation_memory" where
  "conversation_add is_system c message =
     c\<lparr>cv_messages := trim_messages is_system (cv_max_messages c) (cv_messages c @ [message])\<rparr>"

definition last_n :: "'m conversation_memory \<Rightarrow> nat \<Rightarrow> 'm list" where
  "last_n c n = drop (length (cv_messages c) - n) (cv_messages c)"

definition conversation_clear :: "'m conversation_memory \<Rightarrow> 'm conversation_memory" where
  "conversation_clear c = c\<lparr>cv_messages := []\<rparr>"

record 'm memory =
  mm_job_id :: uuid
  mm_conversation :: "'m conversation_memory"
  mm_actions :: "action_record list"
  mm_next_sequence :: u32

definition memory_new :: "uuid \<Rightarrow> 'm memory" where
  "memory_new job_id =
     \<lparr>mm_job_id = job_id, mm_conversation = conversation_new 100, mm_actions = [], mm_next_sequence = 0\<rparr>"

definition memory_add_message :: "('m \<Rightarrow> bool) \<Rightarrow> 'm memory \<Rightarrow> 'm \<Rightarrow> 'm memory" where
  "memory_add_message is_system m message =
     m\<lparr>mm_conversation := conversation_add is_system (mm_conversation m) message\<rparr>"

definition create_action ::
  "uuid \<Rightarrow> time \<Rightarrow> 'm memory \<Rightarrow> string \<Rightarrow> json \<Rightarrow> action_record \<times> 'm memory" where
  "create_action aid now m tool_name input =
     (let sq = mm_next_sequence m
      in (action_record_new aid now sq tool_name input, m\<lparr>mm_next_sequence := mm_next_sequence m + 1\<rparr>))"

definition record_action :: "'m memory \<Rightarrow> action_record \<Rightarrow> 'm memory" where
  "record_action m action = m\<lparr>mm_actions := mm_actions m @ [action]\<rparr>"

definition total_cost :: "'m memory \<Rightarrow> rat" where
  "total_cost m = foldl (+) 0 (List.map_filter ar_cost (mm_actions m))"

definition total_duration :: "'m memory \<Rightarrow> time" where
  "total_duration m = foldl (+) 0 (map ar_duration (mm_actions m))"

definition successful_actions :: "'m memory \<Rightarrow> nat" where
  "successful_actions m = length (filter ar_success (mm_actions m))"

definition failed_actions :: "'m memory \<Rightarrow> nat" where
  "failed_actions m = length (filter (\<lambda>a. \<not> ar_success a) (mm_actions m))"

definition last_action :: "'m memory \<Rightarrow> action_record option" where
  "last_action m = (if mm_actions m = [] then None else Some (last (mm_actions m)))"

definition actions_by_tool :: "'m memory \<Rightarrow> string \<Rightarrow> action_record list" where
  "actions_by_tool m tool_name = filter (\<lambda>a. ar_tool_name a = tool_name) (mm_actions m)"

section \<open>The manager\<close>

datatype job_error = JobNotFound uuid | JobInvalidTransition uuid string string | JobFailed uuid string
  | JobStuck uuid time | MaxJobsExceeded nat | ContextError uuid string

record 'm context_manager =
  cm_contexts :: "(uuid, job_context) hmap"
  cm_memories :: "(uuid, 'm memory) hmap"
  cm_max_jobs :: nat

definition context_manager_new :: "nat \<Rightarrow> 'm context_manager" where
  "context_manager_new max_jobs = \<lparr>cm_contexts = [], cm_memories = [], cm_max_jobs = max_jobs\<rparr>"

abbreviation blocking :: "job_context \<Rightarrow> bool" where
  "blocking c \<equiv> is_parallel_blocking (jc_state c)"

text \<open>The critical section of \<open>insert_context\<close> on the contexts, then the one on the memories.\<close>

definition insert_ctx :: "'m context_manager \<Rightarrow> job_context \<Rightarrow> (job_error + uuid) \<times> 'm context_manager" where
  "insert_ctx m context =
     (let parallel_count = hm_count blocking (cm_contexts m)
      in if parallel_count \<ge> cm_max_jobs m then (Err (MaxJobsExceeded (cm_max_jobs m)), m)
         else (Ok (jc_job_id context),
               m\<lparr>cm_contexts := hm_insert (cm_contexts m) (jc_job_id context) context\<rparr>))"

definition insert_mem :: "'m context_manager \<Rightarrow> uuid \<Rightarrow> 'm context_manager" where
  "insert_mem m job_id = m\<lparr>cm_memories := hm_insert (cm_memories m) job_id (memory_new job_id)\<rparr>"

definition insert_context :: "'m context_manager \<Rightarrow> job_context \<Rightarrow> (job_error + unit) \<times> 'm context_manager" where
  "insert_context m context =
     (case insert_ctx m context of
        (Inl e, m') \<Rightarrow> (Err e, m')
      | (Inr job_id, m') \<Rightarrow> (Ok (), insert_mem m' job_id))"

definition create_job_for_user ::
  "uuid \<Rightarrow> time \<Rightarrow> 'm context_manager \<Rightarrow> string \<Rightarrow> string \<Rightarrow> string \<Rightarrow> (job_error + uuid) \<times> 'm context_manager" where
  "create_job_for_user jid now m user_id title description =
     (case insert_context m (job_with_user jid now user_id title description) of
        (Inl e, m') \<Rightarrow> (Err e, m')
      | (Inr _, m') \<Rightarrow> (Ok jid, m'))"

definition register_sandbox_job ::
  "uuid \<Rightarrow> time \<Rightarrow> 'm context_manager \<Rightarrow> uuid \<Rightarrow> string \<Rightarrow> string \<Rightarrow> string \<Rightarrow>
   (job_error + unit) \<times> 'm context_manager" where
  "register_sandbox_job fresh_id now m job_id user_id title description =
     insert_context m ((job_with_user fresh_id now user_id title description)
       \<lparr>jc_job_id := job_id, jc_state := JInProgress, jc_started_at := Some now\<rparr>)"

definition get_context :: "'m context_manager \<Rightarrow> uuid \<Rightarrow> job_error + job_context" where
  "get_context m job_id =
     (case hm_get (cm_contexts m) job_id of Some c \<Rightarrow> Ok c | None \<Rightarrow> Err (JobNotFound job_id))"

definition update_context ::
  "'m context_manager \<Rightarrow> uuid \<Rightarrow> (job_context \<Rightarrow> 'r \<times> job_context) \<Rightarrow> (job_error + 'r) \<times> 'm context_manager" where
  "update_context m job_id f =
     (case hm_get (cm_contexts m) job_id of
        None \<Rightarrow> (Err (JobNotFound job_id), m)
      | Some c \<Rightarrow> (case f c of (r, c') \<Rightarrow>
          (Ok r, m\<lparr>cm_contexts := hm_insert (cm_contexts m) job_id c'\<rparr>)))"

definition update_context_and_get ::
  "'m context_manager \<Rightarrow> uuid \<Rightarrow> (job_context \<Rightarrow> job_context) \<Rightarrow> (job_error + job_context) \<times> 'm context_manager" where
  "update_context_and_get m job_id f = update_context m job_id (\<lambda>c. (f c, f c))"

definition get_memory :: "'m context_manager \<Rightarrow> uuid \<Rightarrow> job_error + 'm memory" where
  "get_memory m job_id =
     (case hm_get (cm_memories m) job_id of Some x \<Rightarrow> Ok x | None \<Rightarrow> Err (JobNotFound job_id))"

definition update_memory ::
  "'m context_manager \<Rightarrow> uuid \<Rightarrow> ('m memory \<Rightarrow> 'r \<times> 'm memory) \<Rightarrow> (job_error + 'r) \<times> 'm context_manager" where
  "update_memory m job_id f =
     (case hm_get (cm_memories m) job_id of
        None \<Rightarrow> (Err (JobNotFound job_id), m)
      | Some x \<Rightarrow> (case f x of (r, x') \<Rightarrow>
          (Ok r, m\<lparr>cm_memories := hm_insert (cm_memories m) job_id x'\<rparr>)))"

definition jobs_where :: "'m context_manager \<Rightarrow> (job_context \<Rightarrow> bool) \<Rightarrow> uuid list" where
  "jobs_where m P = map fst (filter (\<lambda>kc. P (snd kc)) (cm_contexts m))"

definition active_jobs :: "'m context_manager \<Rightarrow> uuid list" where
  "active_jobs m = jobs_where m (\<lambda>c. job_is_active (jc_state c))"

definition all_jobs :: "'m context_manager \<Rightarrow> uuid list" where
  "all_jobs m = hm_keys (cm_contexts m)"

definition active_jobs_for :: "'m context_manager \<Rightarrow> string \<Rightarrow> uuid list" where
  "active_jobs_for m user_id = jobs_where m (\<lambda>c. job_is_owned_by c user_id \<and> job_is_active (jc_state c))"

definition parallel_blocking_count_for :: "'m context_manager \<Rightarrow> string \<Rightarrow> nat" where
  "parallel_blocking_count_for m user_id = length (jobs_where m (\<lambda>c. job_is_owned_by c user_id \<and> blocking c))"

definition all_jobs_for :: "'m context_manager \<Rightarrow> string \<Rightarrow> uuid list" where
  "all_jobs_for m user_id = jobs_where m (\<lambda>c. job_is_owned_by c user_id)"

definition active_count :: "'m context_manager \<Rightarrow> nat" where
  "active_count m = hm_count (\<lambda>c. job_is_active (jc_state c)) (cm_contexts m)"

text \<open>Removal: one critical section on the contexts, then one on the memories.\<close>

definition remove_ctx :: "'m context_manager \<Rightarrow> uuid \<Rightarrow> (job_error + job_context) \<times> 'm context_manager" where
  "remove_ctx m job_id =
     (case hm_get (cm_contexts m) job_id of
        None \<Rightarrow> (Err (JobNotFound job_id), m)
      | Some c \<Rightarrow> (Ok c, m\<lparr>cm_contexts := hm_remove (cm_contexts m) job_id\<rparr>))"

definition remove_mem :: "'m context_manager \<Rightarrow> uuid \<Rightarrow> (job_error + 'm memory) \<times> 'm context_manager" where
  "remove_mem m job_id =
     (case hm_get (cm_memories m) job_id of
        None \<Rightarrow> (Err (JobNotFound job_id), m)
      | Some x \<Rightarrow> (Ok x, m\<lparr>cm_memories := hm_remove (cm_memories m) job_id\<rparr>))"

definition remove_job ::
  "'m context_manager \<Rightarrow> uuid \<Rightarrow> (job_error + (job_context \<times> 'm memory)) \<times> 'm context_manager" where
  "remove_job m job_id =
     (case remove_ctx m job_id of
        (Inl e, m1) \<Rightarrow> (Err e, m1)
      | (Inr c, m1) \<Rightarrow>
          (case remove_mem m1 job_id of
             (Inl e, m2) \<Rightarrow> (Err e, m2)
           | (Inr x, m2) \<Rightarrow> (Ok (c, x), m2)))"

definition is_stuck_job :: "time \<Rightarrow> time option \<Rightarrow> job_context \<Rightarrow> bool" where
  "is_stuck_job now elapsed_threshold c =
     (if jc_state c = JStuck then True
      else (case (elapsed_threshold, jc_started_at c) of
              (Some threshold, Some started) \<Rightarrow>
                if jc_state c = JInProgress then
                  let e = num_seconds (now - started)
                  in (if e < 0 then 0 else e) > threshold div 1000000000
                else False
            | _ \<Rightarrow> False))"

definition find_stuck_jobs_with_threshold :: "time \<Rightarrow> 'm context_manager \<Rightarrow> time option \<Rightarrow> uuid list" where
  "find_stuck_jobs_with_threshold now m elapsed_threshold = jobs_where m (is_stuck_job now elapsed_threshold)"

definition find_stuck_jobs :: "time \<Rightarrow> 'm context_manager \<Rightarrow> uuid list" where
  "find_stuck_jobs now m = find_stuck_jobs_with_threshold now m None"

record context_summary =
  su_total :: nat
  su_pending :: nat
  su_in_progress :: nat
  su_completed :: nat
  su_submitted :: nat
  su_accepted :: nat
  su_failed :: nat
  su_stuck :: nat
  su_cancelled :: nat

definition summary_default :: context_summary where
  "summary_default = \<lparr>su_total = 0, su_pending = 0, su_in_progress = 0, su_completed = 0, su_submitted = 0,
     su_accepted = 0, su_failed = 0, su_stuck = 0, su_cancelled = 0\<rparr>"

fun count_state :: "context_summary \<Rightarrow> job_state \<Rightarrow> context_summary" where
  "count_state s JPending = s\<lparr>su_pending := su_pending s + 1\<rparr>"
| "count_state s JInProgress = s\<lparr>su_in_progress := su_in_progress s + 1\<rparr>"
| "count_state s JCompleted = s\<lparr>su_completed := su_completed s + 1\<rparr>"
| "count_state s JSubmitted = s\<lparr>su_submitted := su_submitted s + 1\<rparr>"
| "count_state s JAccepted = s\<lparr>su_accepted := su_accepted s + 1\<rparr>"
| "count_state s JFailed = s\<lparr>su_failed := su_failed s + 1\<rparr>"
| "count_state s JStuck = s\<lparr>su_stuck := su_stuck s + 1\<rparr>"
| "count_state s JCancelled = s\<lparr>su_cancelled := su_cancelled s + 1\<rparr>"

definition by_state_total :: "context_summary \<Rightarrow> nat" where
  "by_state_total s = su_pending s + su_in_progress s + su_completed s + su_submitted s + su_accepted s
     + su_failed s + su_stuck s + su_cancelled s"

definition manager_summary :: "'m context_manager \<Rightarrow> context_summary" where
  "manager_summary m =
     (foldl (\<lambda>s c. count_state s (jc_state c)) summary_default (hm_values (cm_contexts m)))
       \<lparr>su_total := length (cm_contexts m)\<rparr>"

definition summary_for :: "'m context_manager \<Rightarrow> string \<Rightarrow> context_summary" where
  "summary_for m user_id =
     (let s = foldl (\<lambda>s c. count_state s (jc_state c)) summary_default
                (filter (\<lambda>c. job_is_owned_by c user_id) (hm_values (cm_contexts m)))
      in s\<lparr>su_total := by_state_total s\<rparr>)"

section \<open>Interleaved steps\<close>

text \<open>
  Updates run a closure under the lock; its result does not matter here and is \<open>unit\<close>.
\<close>

inductive cm_step :: "'m context_manager \<Rightarrow> 'm context_manager \<Rightarrow> bool" where
  insert_ctx: "cm_step m (snd (insert_ctx m c))"
| insert_mem: "cm_step m (insert_mem m j)"
| remove_ctx: "cm_step m (snd (remove_ctx m j))"
| remove_mem: "cm_step m (snd (remove_mem m j))"
| update: "(\<And>c. job_step\<^sup>*\<^sup>* c (snd (f c :: unit \<times> job_context))) \<Longrightarrow> cm_step m (snd (update_context m j f))"
| update_mem: "cm_step m (snd (update_memory m j (g :: 'm memory \<Rightarrow> unit \<times> 'm memory)))"

lemma blocking_backwards: "job_step\<^sup>*\<^sup>* c c' \<Longrightarrow> blocking c' \<Longrightarrow> blocking c"
proof (induction rule: converse_rtranclp_induct)
  case (step x y)
  then show ?case
    using job_step_state [OF step(1)]
    by (cases "jc_state x"; cases "jc_state y") (auto simp: is_parallel_blocking_def job_can_transition_to_def)
qed simp

lemma hm_count_replace:
  "hm_get m k = Some v \<Longrightarrow> (P v' \<Longrightarrow> P v) \<Longrightarrow> hm_count P (hm_insert m k v') \<le> hm_count P m"
  by (induction m k v' rule: hm_insert.induct) (auto simp: hm_get_def split: if_splits)

definition slots_ok :: "'m context_manager \<Rightarrow> bool" where
  "slots_ok m \<longleftrightarrow> hm_count blocking (cm_contexts m) \<le> cm_max_jobs m"

lemma slots_step: "cm_step m m' \<Longrightarrow> slots_ok m \<Longrightarrow> slots_ok m' \<and> cm_max_jobs m' = cm_max_jobs m"
proof (induction rule: cm_step.induct)
  case (insert_ctx m c)
  have "hm_count blocking (hm_insert (cm_contexts m) (jc_job_id c) c) \<le> Suc (hm_count blocking (cm_contexts m))"
    by (rule hm_count_insert_le)
  with insert_ctx show ?case by (auto simp: insert_ctx_def slots_ok_def Let_def)
next
  case (remove_ctx m j)
  then show ?case
    using hm_count_remove_le [of blocking "cm_contexts m" j]
    by (auto simp: remove_ctx_def slots_ok_def split: option.splits)
next
  case (update f m j)
  show ?case
  proof (cases "hm_get (cm_contexts m) j")
    case (Some c)
    have "hm_count blocking (hm_insert (cm_contexts m) j (snd (f c))) \<le> hm_count blocking (cm_contexts m)"
      by (rule hm_count_replace [OF Some]) (rule blocking_backwards [OF update(1)])
    with Some update(2) show ?thesis by (auto simp: update_context_def slots_ok_def split: prod.splits)
  qed (use update in \<open>simp add: update_context_def\<close>)
qed (auto simp: insert_mem_def remove_mem_def update_memory_def slots_ok_def split: option.splits prod.splits)

section \<open>Properties\<close>

text \<open>
  However insertions, removals and job operations interleave, the jobs holding an
  execution slot (pending, in progress or stuck) never exceed \<open>max_jobs\<close>.
\<close>

theorem job_slots_bounded:
  assumes "cm_step\<^sup>*\<^sup>* (context_manager_new n :: 'm context_manager) m"
  shows "hm_count blocking (cm_contexts m) \<le> n"
proof -
  from assms have "slots_ok m \<and> cm_max_jobs m = n"
  proof (induction rule: rtranclp_induct)
    case base
    show ?case by (simp add: slots_ok_def context_manager_new_def)
  next
    case (step u v)
    then show ?case using slots_step by metis
  qed
  then show ?thesis by (simp add: slots_ok_def)
qed

lemma job_slots_bounded_witness:
  "hm_count blocking (cm_contexts (snd (insert_ctx (context_manager_new 1 :: bool context_manager)
      (job_with_user 4 0 ''u'' ''t'' ''d'')))) \<le> 1"
  by (rule job_slots_bounded) (blast intro: cm_step.insert_ctx)

text \<open>
  A removal between the two critical sections of an insertion: it takes the context away
  but answers \<open>NotFound\<close> because the memory is not there yet; the insertion then stores a
  memory that no context belongs to and that no later removal of the job can reach.
\<close>

theorem insert_remove_race:
  assumes "hm_count blocking (cm_contexts m) < cm_max_jobs m" and "hm_get (cm_memories m) (jc_job_id c) = None"
  defines "m1 \<equiv> snd (insert_ctx m c)"
  defines "m2 \<equiv> insert_mem (snd (remove_job m1 (jc_job_id c))) (jc_job_id c)"
  shows "fst (remove_job m1 (jc_job_id c)) = Err (JobNotFound (jc_job_id c))
     \<and> hm_get (cm_contexts m2) (jc_job_id c) = None \<and> is_ok (get_memory m2 (jc_job_id c))
     \<and> remove_job m2 (jc_job_id c) = (Err (JobNotFound (jc_job_id c)), m2)"
  using assms(1,2)
  by (simp add: m1_def m2_def insert_ctx_def insert_mem_def remove_job_def remove_ctx_def remove_mem_def
      get_memory_def Let_def hm_simps)

lemma insert_remove_race_witness:
  "fst (remove_job (snd (insert_ctx (context_manager_new 1 :: bool context_manager)
      (job_with_user 4 0 ''u'' ''t'' ''d''))) 4) = Err (JobNotFound 4)"
  using insert_remove_race [of "context_manager_new 1 :: bool context_manager" "job_with_user 4 0 ''u'' ''t'' ''d''"]
  by (simp add: context_manager_new_def job_with_user_def hm_get_def)

lemma count_state_total [simp]: "by_state_total (count_state s j) = Suc (by_state_total s)"
  by (cases j) (simp_all add: by_state_total_def)

lemma fold_state_total:
  "by_state_total (foldl (\<lambda>s c. count_state s (jc_state c)) s cs) = by_state_total s + length cs"
  by (induction cs arbitrary: s) simp_all

text \<open>
  The summaries add up: the per-state counts of the global summary sum to the number of
  jobs, those of a user's summary to the number of jobs that user owns, and a user's jobs
  are exactly the jobs whose context names that user.
\<close>

theorem summaries_add_up:
  "su_total (manager_summary m) = by_state_total (manager_summary m)
   \<and> su_total (manager_summary m) = length (all_jobs m)
   \<and> su_total (summary_for m u) = by_state_total (summary_for m u)
   \<and> su_total (summary_for m u) = length (all_jobs_for m u)
   \<and> set (all_jobs_for m u) = {j. \<exists>c. (j, c) \<in> set (cm_contexts m) \<and> jc_user_id c = u}"
proof -
  have set_total [simp]: "by_state_total (s\<lparr>su_total := n\<rparr>) = by_state_total s" for s n
    by (simp add: by_state_total_def)
  have zero [simp]: "by_state_total summary_default = 0"
    by (simp add: by_state_total_def summary_default_def)
  have len: "length (filter (\<lambda>c. job_is_owned_by c u) (hm_values (cm_contexts m))) = length (all_jobs_for m u)"
    by (simp add: all_jobs_for_def jobs_where_def hm_values_def filter_map comp_def)
  have "set (all_jobs_for m u) = {j. \<exists>c. (j, c) \<in> set (cm_contexts m) \<and> jc_user_id c = u}"
    by (force simp: all_jobs_for_def jobs_where_def job_is_owned_by_def)
  then show ?thesis
    by (simp add: manager_summary_def summary_for_def Let_def fold_state_total len)
      (simp add: all_jobs_def hm_keys_def hm_values_def)
qed

lemma trim_spec:
  assumes "1 \<le> n" and "ms \<noteq> []"
  shows "length (trim_messages P n ms) \<le> n \<and> trim_messages P n ms \<noteq> []
     \<and> (2 \<le> n \<longrightarrow> last (trim_messages P n ms) = last ms)
     \<and> (P (hd ms) \<longrightarrow> hd (trim_messages P n ms) = hd ms)
     \<and> (length ms \<le> n \<longrightarrow> trim_messages P n ms = ms)"
  using assms
proof (induction P n ms rule: trim_messages.induct)
  case (1 P n ms)
  obtain m rest where ms: "ms = m # rest" using "1.prems"(2) by (cases ms) auto
  show ?case
  proof (cases "length ms > n")
    case False
    then show ?thesis using "1.prems" by (simp add: trim_messages.simps [of P n ms])
  next
    case True
    then obtain y rest' where rest: "rest = y # rest'" using "1.prems"(1) ms by (cases rest) auto
    show ?thesis
    proof (cases "P m")
      case True
      have step: "trim_messages P n ms = trim_messages P n (m # rest')"
        using True \<open>length ms > n\<close> unfolding ms rest by (subst trim_messages.simps) simp
      have IH: "length (trim_messages P n (m # rest')) \<le> n \<and> trim_messages P n (m # rest') \<noteq> []
         \<and> (2 \<le> n \<longrightarrow> last (trim_messages P n (m # rest')) = last (m # rest'))
         \<and> (P m \<longrightarrow> hd (trim_messages P n (m # rest')) = m)"
        using "1.IH"(1) [OF \<open>length ms > n\<close> ms True rest] "1.prems"(1) by simp
      have "2 \<le> n \<Longrightarrow> rest' \<noteq> []" using \<open>length ms > n\<close> ms rest by auto
      with IH step True \<open>length ms > n\<close> ms rest show ?thesis by auto
    next
      case False
      have step: "trim_messages P n ms = trim_messages P n rest"
        using False \<open>length ms > n\<close> unfolding ms by (subst trim_messages.simps) simp
      have "length (trim_messages P n rest) \<le> n \<and> trim_messages P n rest \<noteq> []
         \<and> (2 \<le> n \<longrightarrow> last (trim_messages P n rest) = last rest)"
        using "1.IH"(2) [OF \<open>length ms > n\<close> ms False] "1.prems"(1) rest by simp
      with step False \<open>length ms > n\<close> ms rest show ?thesis by auto
    qed
  qed
qed

text \<open>
  The conversation window: after a message is added there are at most \<open>max_messages\<close>
  messages, the new one is last, a leading system message is still first, and nothing is
  dropped while there is room.
\<close>

theorem conversation_window:
  assumes "2 \<le> cv_max_messages c" and "c' = conversation_add is_system c msg"
  shows "length (cv_messages c') \<le> cv_max_messages c \<and> last (cv_messages c') = msg
     \<and> (cv_messages c \<noteq> [] \<longrightarrow> is_system (hd (cv_messages c)) \<longrightarrow> hd (cv_messages c') = hd (cv_messages c))
     \<and> (length (cv_messages c) < cv_max_messages c \<longrightarrow> cv_messages c' = cv_messages c @ [msg])"
  using trim_spec [of "cv_max_messages c" "cv_messages c @ [msg]" is_system] assms
  by (auto simp: conversation_add_def)

lemma conversation_window_witness:
  "last (cv_messages (conversation_add (\<lambda>s. s = ''sys'') \<lparr>cv_messages = [''sys'', ''a'', ''b''], cv_max_messages = 3\<rparr> ''c'')) = ''c''"
  using conversation_window [of "\<lparr>cv_messages = [''sys'', ''a'', ''b''], cv_max_messages = 3\<rparr>" _ "\<lambda>s. s = ''sys''" "''c''"]
  by simp

end
