(* ===== verification/Undo.thy ===== *)
theory Undo
  imports Prelude
begin

text \<open>
  Undo and redo of conversation states (\<open>src/agent/undo.rs\<close>). Messages are an arbitrary type
  \<open>'m\<close>. The \<open>VecDeque\<close> and the \<open>Vec\<close> are lists whose last element is the top. The
  specification is a history with a cursor: undo and redo move it, and their composition
  restores what it showed.
\<close>

definition DEFAULT_MAX_CHECKPOINTS :: nat where "DEFAULT_MAX_CHECKPOINTS = 20"

record 'm checkpoint =
  cp_id :: uuid
  cp_turn_number :: nat
  cp_messages :: "'m list"
  cp_description :: string

definition checkpoint_new :: "uuid \<Rightarrow> nat \<Rightarrow> 'm list \<Rightarrow> string \<Rightarrow> 'm checkpoint" where
  "checkpoint_new i turn messages description =
     \<lparr>cp_id = i, cp_turn_number = turn, cp_messages = messages, cp_description = description\<rparr>"

record 'm undo_manager =
  undo_stack :: "'m checkpoint list"
  redo_stack :: "'m checkpoint list"
  max_checkpoints :: nat

definition undo_manager_new :: "'m undo_manager" where
  "undo_manager_new = \<lparr>undo_stack = [], redo_stack = [], max_checkpoints = DEFAULT_MAX_CHECKPOINTS\<rparr>"

text \<open>The loop that pops from the front while the stack is over the limit.\<close>

fun trim_front :: "nat \<Rightarrow> 'a list \<Rightarrow> 'a list" where
  "trim_front n [] = []"
| "trim_front n (x # xs) = (if length (x # xs) > n then trim_front n xs else x # xs)"

definition push_undo :: "'m undo_manager \<Rightarrow> 'm checkpoint \<Rightarrow> 'm undo_manager" where
  "push_undo u c = u\<lparr>undo_stack := trim_front (max_checkpoints u) (undo_stack u @ [c])\<rparr>"

definition take_checkpoint :: "uuid \<Rightarrow> 'm undo_manager \<Rightarrow> nat \<Rightarrow> 'm list \<Rightarrow> string \<Rightarrow> 'm undo_manager" where
  "take_checkpoint i u turn messages description =
     push_undo (u\<lparr>redo_stack := []\<rparr>) (checkpoint_new i turn messages description)"

definition turn_label :: "nat \<Rightarrow> string" where
  "turn_label n = ''Turn '' @ show_nat n"

definition undo :: "uuid \<Rightarrow> 'm undo_manager \<Rightarrow> nat \<Rightarrow> 'm list \<Rightarrow> 'm checkpoint option \<times> 'm undo_manager" where
  "undo i u current_turn current_messages =
     (if undo_stack u = [] then (None, u)
      else
        let u1 = u\<lparr>redo_stack := redo_stack u
                @ [checkpoint_new i current_turn current_messages (turn_label current_turn)]\<rparr>
        in (Some (last (undo_stack u1)), u1\<lparr>undo_stack := butlast (undo_stack u1)\<rparr>))"

definition redo :: "uuid \<Rightarrow> 'm undo_manager \<Rightarrow> nat \<Rightarrow> 'm list \<Rightarrow> 'm checkpoint option \<times> 'm undo_manager" where
  "redo i u current_turn current_messages =
     (if redo_stack u = [] then (None, u)
      else
        let u1 = push_undo u (checkpoint_new i current_turn current_messages (turn_label current_turn))
        in (Some (last (redo_stack u1)), u1\<lparr>redo_stack := butlast (redo_stack u1)\<rparr>))"

definition can_undo :: "'m undo_manager \<Rightarrow> bool" where "can_undo u = (undo_stack u \<noteq> [])"
definition can_redo :: "'m undo_manager \<Rightarrow> bool" where "can_redo u = (redo_stack u \<noteq> [])"
definition undo_count :: "'m undo_manager \<Rightarrow> nat" where "undo_count u = length (undo_stack u)"
definition redo_count :: "'m undo_manager \<Rightarrow> nat" where "redo_count u = length (redo_stack u)"

definition undo_clear :: "'m undo_manager \<Rightarrow> 'm undo_manager" where
  "undo_clear u = u\<lparr>undo_stack := [], redo_stack := []\<rparr>"

text \<open>\<open>iter().position(..)\<close>.\<close>

fun position :: "('a \<Rightarrow> bool) \<Rightarrow> 'a list \<Rightarrow> nat option" where
  "position P [] = None"
| "position P (x # xs) = (if P x then Some 0 else map_option Suc (position P xs))"

definition restore :: "'m undo_manager \<Rightarrow> uuid \<Rightarrow> 'm checkpoint option \<times> 'm undo_manager" where
  "restore u checkpoint_id =
     (case position (\<lambda>c. cp_id c = checkpoint_id) (undo_stack u) of
        None \<Rightarrow> (None, u)
      | Some pos \<Rightarrow>
          let kept = take (pos + 1) (undo_stack u)
          in (Some (last kept), u\<lparr>redo_stack := [], undo_stack := butlast kept\<rparr>))"

section \<open>Lemmas\<close>

lemma trim_front_drop: "trim_front n xs = drop (length xs - n) xs"
  by (induction n xs rule: trim_front.induct) (auto simp: Suc_diff_le)

lemma position_Some:
  "position P xs = Some i \<Longrightarrow> i < length xs \<and> P (xs ! i) \<and> (\<forall>j < i. \<not> P (xs ! j))"
proof (induction P xs arbitrary: i rule: position.induct)
  case (2 P x xs)
  then show ?case by (cases i) (auto split: if_splits simp: nth_Cons split: nat.splits)
qed simp

lemma position_None: "position P xs = None \<longleftrightarrow> (\<forall>x \<in> set xs. \<not> P x)"
  by (induction P xs rule: position.induct) auto

definition undo_inv :: "'m undo_manager \<Rightarrow> bool" where
  "undo_inv u \<longleftrightarrow> undo_count u + redo_count u \<le> max_checkpoints u"

inductive undo_step :: "'m undo_manager \<Rightarrow> 'm undo_manager \<Rightarrow> bool" where
  checkpoint: "undo_step u (take_checkpoint i u turn ms d)"
| undo: "undo_step u (snd (undo i u turn ms))"
| redo: "undo_step u (snd (redo i u turn ms))"
| clear: "undo_step u (undo_clear u)"
| restore: "undo_step u (snd (restore u i))"

lemma undo_inv_step: "undo_step u u' \<Longrightarrow> undo_inv u \<Longrightarrow> undo_inv u'"
proof (induction rule: undo_step.induct)
  case (redo u i turn ms)
  then show ?case
    by (auto simp: redo_def push_undo_def undo_inv_def undo_count_def redo_count_def trim_front_drop Let_def
        neq_Nil_conv)
next
  case (undo u i turn ms)
  then show ?case
    by (cases "undo_stack u" rule: rev_cases)
      (auto simp: undo_def undo_inv_def undo_count_def redo_count_def Let_def)
next
  case (restore u i)
  then show ?case
    by (auto simp: restore_def undo_inv_def undo_count_def redo_count_def Let_def split: option.splits)
qed (auto simp: take_checkpoint_def push_undo_def undo_def undo_clear_def undo_inv_def undo_count_def
    redo_count_def trim_front_drop Let_def)

section \<open>Properties\<close>

text \<open>
  Bounds of the two stacks: in every reachable state the undo and redo steps together
  number at most \<open>max_checkpoints\<close>; an undo or a redo that returns a checkpoint keeps that
  total (so a redo never drops a checkpoint), and one that returns nothing changes nothing.
\<close>

theorem undo_redo_total:
  assumes "undo_step\<^sup>*\<^sup>* (undo_manager_new :: 'm undo_manager) u"
  shows "undo_count u + redo_count u \<le> 20
     \<and> (\<forall>i turn ms u'. u' \<in> {snd (undo i u turn ms), snd (redo i u turn ms)} \<longrightarrow>
          undo_count u' + redo_count u' = undo_count u + redo_count u)
     \<and> (fst (undo i u turn ms) = None \<longleftrightarrow> \<not> can_undo u) \<and> (fst (redo i u turn ms) = None \<longleftrightarrow> \<not> can_redo u)"
proof -
  from assms have inv: "undo_inv u \<and> max_checkpoints u = 20"
  proof (induction rule: rtranclp_induct)
    case base
    show ?case by (simp add: undo_inv_def undo_manager_new_def undo_count_def redo_count_def DEFAULT_MAX_CHECKPOINTS_def)
  next
    case (step v w)
    have "max_checkpoints w = max_checkpoints v"
      using step(2) by (induction rule: undo_step.induct)
        (auto simp: take_checkpoint_def push_undo_def undo_def redo_def undo_clear_def restore_def Let_def split: option.splits)
    with step undo_inv_step show ?case by metis
  qed
  have "undo_count (snd (undo i u turn ms)) + redo_count (snd (undo i u turn ms)) = undo_count u + redo_count u"
    for i turn ms
    by (cases "undo_stack u" rule: rev_cases) (auto simp: undo_def undo_count_def redo_count_def Let_def)
  moreover have "undo_count (snd (redo i u turn ms)) + redo_count (snd (redo i u turn ms)) = undo_count u + redo_count u"
    for i turn ms
    using inv by (cases "redo_stack u" rule: rev_cases)
      (auto simp: redo_def push_undo_def undo_count_def redo_count_def undo_inv_def trim_front_drop Let_def)
  moreover have "fst (undo i u turn ms) = None \<longleftrightarrow> \<not> can_undo u" "fst (redo i u turn ms) = None \<longleftrightarrow> \<not> can_redo u"
    by (auto simp: undo_def redo_def can_undo_def can_redo_def Let_def)
  ultimately show ?thesis using inv by (auto simp: undo_inv_def)
qed

lemma undo_redo_total_witness:
  "undo_count (take_checkpoint 1 undo_manager_new 1 [True] ''a'')
     + redo_count (take_checkpoint 1 undo_manager_new 1 [True] ''a'') \<le> 20"
proof -
  have "undo_step\<^sup>*\<^sup>* undo_manager_new (take_checkpoint 1 undo_manager_new 1 [True] ''a'')"
    by (blast intro: undo_step.checkpoint)
  from undo_redo_total [OF this] show ?thesis by blast
qed

text \<open>
  C12. Undo then redo is a round trip: redoing from the state an undo returned gives back the
  turn and messages the undo was called with, and leaves the undo stack with the same
  turns and messages as before the undo, and the redo stack unchanged.
\<close>

theorem undo_redo_roundtrip:
  assumes "undo_inv u" and "undo i u turn ms = (Some c, u1)"
    and "redo j u1 (cp_turn_number c) (cp_messages c) = (r, u2)"
  shows "(\<exists>d. r = Some d \<and> cp_turn_number d = turn \<and> cp_messages d = ms)
     \<and> map (\<lambda>c. (cp_turn_number c, cp_messages c)) (undo_stack u2)
         = map (\<lambda>c. (cp_turn_number c, cp_messages c)) (undo_stack u)
     \<and> redo_stack u2 = redo_stack u"
proof -
  obtain xs where stack: "undo_stack u = xs @ [c]"
      "u1 = u\<lparr>redo_stack := redo_stack u @ [checkpoint_new i turn ms (turn_label turn)], undo_stack := xs\<rparr>"
    using assms(2) by (cases "undo_stack u" rule: rev_cases) (auto simp: undo_def Let_def)
  have "trim_front (max_checkpoints u) (xs @ [d]) = xs @ [d]" for d :: "'a checkpoint"
    using assms(1) stack(1) by (simp add: trim_front_drop undo_inv_def undo_count_def)
  with assms(3) stack show ?thesis
    by (auto simp: redo_def push_undo_def checkpoint_new_def Let_def)
qed

lemma undo_redo_roundtrip_witness:
  "\<exists>d. fst (redo 3 (snd (undo 2 (take_checkpoint 1 undo_manager_new 1 [True] ''a'') 5 [False])) 1 [True]) = Some d
     \<and> cp_turn_number d = 5 \<and> cp_messages d = [False]"
proof -
  let ?u = "take_checkpoint 1 undo_manager_new 1 [True] ''a''"
  have inv: "undo_inv ?u"
    by (rule undo_inv_step [OF undo_step.checkpoint])
      (simp add: undo_inv_def undo_manager_new_def undo_count_def redo_count_def)
  obtain u1 where u: "undo 2 ?u 5 [False] = (Some (checkpoint_new 1 1 [True] ''a''), u1)"
    by (simp add: undo_def take_checkpoint_def push_undo_def undo_manager_new_def trim_front_drop
        DEFAULT_MAX_CHECKPOINTS_def Let_def)
  obtain r u2 where r: "redo 3 u1 1 [True] = (r, u2)" by (cases "redo 3 u1 1 [True]")
  from undo_redo_roundtrip [OF inv u, of 3 r u2] r u show ?thesis by (simp add: checkpoint_new_def)
qed

end
