(* ===== verification/Llm_Error.thy ===== *)
theory Llm_Error
  imports Prelude
begin

text \<open>
  Errors of the LLM providers (\<open>src/llm/error.rs\<close>) and their two classifications: whether an
  error is worth retrying (\<open>src/llm/retry.rs\<close>) and whether it counts against the health of the
  backend (\<open>src/llm/circuit_breaker.rs\<close>). The errors of the HTTP, JSON and I/O libraries are
  carried as their text. A provider call is a function of a state that holds whatever the
  provider, the clock and the network depend on.
\<close>

datatype llm_error =
    RequestFailed string string
  | RateLimited string "time option"
  | InvalidResponse string string
  | EmptyResponse string
  | ContextLengthExceeded nat nat
  | ModelNotAvailable string string
  | AuthFailed string
  | SessionExpired string
  | SessionRenewalFailed string string
  | LlmHttp string
  | LlmJson string
  | LlmIo string

type_synonym ('s, 'r) provider = "'s \<Rightarrow> (llm_error + 'r) \<times> 's"

fun is_retryable :: "llm_error \<Rightarrow> bool" where
  "is_retryable (RequestFailed _ _) = True"
| "is_retryable (RateLimited _ _) = True"
| "is_retryable (InvalidResponse _ _) = True"
| "is_retryable (EmptyResponse _) = True"
| "is_retryable (SessionRenewalFailed _ _) = True"
| "is_retryable (LlmHttp _) = True"
| "is_retryable (LlmIo _) = True"
| "is_retryable _ = False"

fun is_transient :: "llm_error \<Rightarrow> bool" where
  "is_transient (RequestFailed _ _) = True"
| "is_transient (RateLimited _ _) = True"
| "is_transient (InvalidResponse _ _) = True"
| "is_transient (EmptyResponse _) = True"
| "is_transient (SessionExpired _) = True"
| "is_transient (SessionRenewalFailed _ _) = True"
| "is_transient (LlmHttp _) = True"
| "is_transient (LlmIo _) = True"
| "is_transient _ = False"

lemma transient_iff: "is_transient e \<longleftrightarrow> is_retryable e \<or> (\<exists>p. e = SessionExpired p)"
  by (cases e) auto

definition retry_err :: "llm_error + 'r \<Rightarrow> bool" where
  "retry_err out = (case out of Inl e \<Rightarrow> is_retryable e | Inr _ \<Rightarrow> False)"

text \<open>
  A bound on the calls one request makes: \<open>cnt\<close> reads a counter of the state, and a provider
  makes at most \<open>n\<close> calls when it never lowers the counter and raises it by at most \<open>n\<close>.
\<close>

definition calls_within :: "('s, 'r) provider \<Rightarrow> ('s \<Rightarrow> nat) \<Rightarrow> nat \<Rightarrow> bool" where
  "calls_within p cnt n \<longleftrightarrow> (\<forall>s. cnt s \<le> cnt (snd (p s)) \<and> cnt (snd (p s)) \<le> cnt s + n)"

lemma calls_withinD:
  "calls_within p cnt n \<Longrightarrow> p s = (r, s') \<Longrightarrow> cnt s \<le> cnt s' \<and> cnt s' \<le> cnt s + n"
  by (metis calls_within_def snd_conv)

lemma calls_within_mono: "calls_within p cnt n \<Longrightarrow> n \<le> m \<Longrightarrow> calls_within p cnt m"
  by (auto simp: calls_within_def intro: order_trans)

text \<open>A provider whose every answer is one that the provider underneath gave.\<close>

definition answers_from :: "('s, 'r) provider \<Rightarrow> ('r \<Rightarrow> bool) \<Rightarrow> bool" where
  "answers_from p A \<longleftrightarrow> (\<forall>s r s'. p s = (Ok r, s') \<longrightarrow> A r)"

lemma answers_fromD: "answers_from p A \<Longrightarrow> p s = (Ok r, s') \<Longrightarrow> A r"
  by (auto simp: answers_from_def)

end
