(* ===== verification/Retry.thy ===== *)
theory Retry
  imports Llm_Error
begin

text \<open>
  Retries of one provider (\<open>src/llm/retry.rs\<close>): the capped delays and the retry loop. The
  random offset of the back-off and the sleep are operations of the state (\<open>gen_range\<close>,
  \<open>sleep\<close>). The loop runs over the attempts \<open>0..=max_retries\<close>.
\<close>

definition MAX_RETRY_AFTER_SECS :: int where "MAX_RETRY_AFTER_SECS = 3600"
definition DEFAULT_RETRY_AFTER_SECS :: int where "DEFAULT_RETRY_AFTER_SECS = 60"

text \<open>A 64-bit value read as \<open>i64\<close> (\<open>as i64\<close> and wrapping addition).\<close>

definition as_i64 :: "int \<Rightarrow> int" where
  "as_i64 x = (x + 2 ^ 63) mod 2 ^ 64 - 2 ^ 63"

definition backoff_base_ms :: "nat \<Rightarrow> int" where
  "backoff_base_ms attempt = min (1000 * min (2 ^ attempt) (2 ^ 64 - 1)) (2 ^ 64 - 1)"

definition retry_backoff_delay :: "(int \<Rightarrow> 's \<Rightarrow> int \<times> 's) \<Rightarrow> nat \<Rightarrow> 's \<Rightarrow> time \<times> 's" where
  "retry_backoff_delay gen_range attempt s =
     (let base_ms = backoff_base_ms attempt;
          jitter_range = base_ms div 4;
          (jitter, s') =
            (if jitter_range > 0 then
               let (offset, s') = gen_range (jitter_range * 2) s
               in (as_i64 (as_i64 offset - as_i64 jitter_range), s')
             else (0, s));
          delay_ms = max (as_i64 (as_i64 base_ms + jitter)) 100
      in (delay_ms * 1000000, s'))"

definition cap_retry_after :: "time \<Rightarrow> time" where
  "cap_retry_after duration = min duration (secs MAX_RETRY_AFTER_SECS)"

text \<open>
  The header value after trimming: \<open>parse_u64\<close> and \<open>parse_date\<close> stand for the library parsers,
  and \<open>None\<close> for a header that is missing or not text.
\<close>

definition parse_retry_after ::
  "(string \<Rightarrow> u64 option) \<Rightarrow> (string \<Rightarrow> time option) \<Rightarrow> time \<Rightarrow> string option \<Rightarrow> time" where
  "parse_retry_after parse_u64 parse_date now header =
     (case header of
        None \<Rightarrow> secs DEFAULT_RETRY_AFTER_SECS
      | Some v \<Rightarrow>
          (case parse_u64 v of
             Some n \<Rightarrow> cap_retry_after (secs (uint n))
           | None \<Rightarrow>
               (case parse_date v of
                  Some dt \<Rightarrow> cap_retry_after (secs (max (num_seconds (dt - now)) 0))
                | None \<Rightarrow> secs DEFAULT_RETRY_AFTER_SECS)))"

record retry_config = rc_max_retries :: u32

definition retry_config_default :: retry_config where
  "retry_config_default = \<lparr>rc_max_retries = 3\<rparr>"

record 's retry_env =
  re_gen_range :: "int \<Rightarrow> 's \<Rightarrow> int \<times> 's"
  re_sleep :: "time \<Rightarrow> 's \<Rightarrow> 's"
  re_model_name :: string

definition retry_delay :: "'s retry_env \<Rightarrow> nat \<Rightarrow> llm_error \<Rightarrow> 's \<Rightarrow> time \<times> 's" where
  "retry_delay env attempt err s =
     (case err of
        RateLimited _ (Some duration) \<Rightarrow> (duration, s)
      | _ \<Rightarrow> retry_backoff_delay (re_gen_range env) attempt s)"

fun retry_attempts ::
  "'s retry_env \<Rightarrow> nat \<Rightarrow> ('s, 'r) provider \<Rightarrow> nat list \<Rightarrow> llm_error option \<Rightarrow> ('s, 'r) provider" where
  "retry_attempts env max_retries op [] last_error s =
     (Err (case last_error of Some e \<Rightarrow> e
           | None \<Rightarrow> RequestFailed (re_model_name env) ''retry loop exited unexpectedly''), s)"
| "retry_attempts env max_retries op (attempt # rest) last_error s =
     (case op s of
        (Inr resp, s1) \<Rightarrow> (Ok resp, s1)
      | (Inl err, s1) \<Rightarrow>
          if \<not> is_retryable err \<or> attempt = max_retries then (Err err, s1)
          else
            let (delay, s2) = retry_delay env attempt err s1
            in retry_attempts env max_retries op rest (Some err) (re_sleep env delay s2))"

definition retry_loop :: "'s retry_env \<Rightarrow> retry_config \<Rightarrow> ('s, 'r) provider \<Rightarrow> ('s, 'r) provider" where
  "retry_loop env cfg op =
     retry_attempts env (unat (rc_max_retries cfg)) op [0..<Suc (unat (rc_max_retries cfg))] None"

section \<open>Lemmas\<close>

lemma as_i64_id: "- (2 ^ 63) \<le> x \<Longrightarrow> x < 2 ^ 63 \<Longrightarrow> as_i64 x = x"
  by (simp add: as_i64_def)

lemma backoff_base_small:
  assumes "attempt \<le> 52"
  shows "backoff_base_ms attempt = 1000 * 2 ^ attempt" and "backoff_base_ms attempt \<le> 1000 * 2 ^ 52"
proof -
  have "(2::int) ^ attempt \<le> 2 ^ 52" using assms by (intro power_increasing) auto
  then show "backoff_base_ms attempt = 1000 * 2 ^ attempt" "backoff_base_ms attempt \<le> 1000 * 2 ^ 52"
    by (simp_all add: backoff_base_ms_def)
qed

lemma backoff_bounds:
  assumes "attempt \<le> 52" and range: "\<And>n s. 0 \<le> n \<Longrightarrow> fst (gen_range n s) \<in> {0..n}"
    and "retry_backoff_delay gen_range attempt s = (d, s')"
  shows "d \<in> {750 * 2 ^ attempt * 1000000..1250 * 2 ^ attempt * 1000000}"
proof -
  define base where "base = backoff_base_ms attempt"
  obtain offset s2 where off: "gen_range (base div 4 * 2) s = (offset, s2)" by fastforce
  have off_le: "0 \<le> offset" "offset \<le> base div 4 * 2"
    using range [of "base div 4 * 2" s] off backoff_base_small(1) [OF assms(1)] by (auto simp: base_def)
  have small: "base \<le> 1000 * 2 ^ 52" "base = 1000 * 2 ^ attempt"
    using backoff_base_small [OF assms(1)] by (simp_all add: base_def)
  have pos: "base \<ge> 1000" using small(2) by simp
  have quarter: "base div 4 = 250 * 2 ^ attempt" using small(2) by simp
  have pos4: "0 < base div 4" by (simp add: quarter)
  have "as_i64 (as_i64 offset - as_i64 (base div 4)) = offset - base div 4"
    using off_le small(1) pos by (simp add: as_i64_id)
  moreover have "as_i64 (as_i64 base + (offset - base div 4)) = base + (offset - base div 4)"
    using off_le small(1) pos by (simp add: as_i64_id)
  ultimately have "d = max (base + (offset - base div 4)) 100 * 1000000"
    using assms(3) off pos4 by (auto simp: retry_backoff_delay_def base_def [symmetric] Let_def)
  moreover have "base + (offset - base div 4) \<ge> 750 * 2 ^ attempt"
    "base + (offset - base div 4) \<le> 1250 * 2 ^ attempt"
    using off_le quarter small(2) by simp_all
  moreover have "(750::int) * 2 ^ attempt \<ge> 100" by (smt (verit) one_le_power)
  ultimately show ?thesis by simp
qed

section \<open>The observed run\<close>

text \<open>
  The same loop with the outcome of every call and the length of every sleep written to a
  log. Erasing the log gives the loop back.
\<close>

type_synonym ('s, 'r) logged_state = "'s \<times> (llm_error + 'r) list \<times> time list"

definition logged :: "('s, 'r) provider \<Rightarrow> (('s, 'r) logged_state, 'r) provider" where
  "logged op = (\<lambda>(s, outs, delays). case op s of (r, s') \<Rightarrow> (r, (s', outs @ [r], delays)))"

definition logged_env :: "'s retry_env \<Rightarrow> ('s, 'r) logged_state retry_env" where
  "logged_env env = \<lparr>
     re_gen_range = (\<lambda>n (s, outs, delays). case re_gen_range env n s of (k, s') \<Rightarrow> (k, (s', outs, delays))),
     re_sleep = (\<lambda>d (s, outs, delays). (re_sleep env d s, outs, delays @ [d])),
     re_model_name = re_model_name env\<rparr>"

lemma logged_backoff:
  "retry_backoff_delay (re_gen_range (logged_env env)) attempt (s, outs, delays) =
     (case retry_backoff_delay (re_gen_range env) attempt s of (d, s') \<Rightarrow> (d, (s', outs, delays)))"
  by (auto simp: retry_backoff_delay_def logged_env_def Let_def split: prod.splits)

lemma logged_delay:
  "retry_delay (logged_env env) attempt err (s, outs, delays) =
     (case retry_delay env attempt err s of (d, s') \<Rightarrow> (d, (s', outs, delays)))"
  by (auto simp: retry_delay_def logged_backoff split: llm_error.splits option.splits prod.splits)

lemma logged_sleep: "re_sleep (logged_env env) d (s, outs, delays) = (re_sleep env d s, outs, delays @ [d])"
  by (simp add: logged_env_def)

lemma logged_erase:
  "\<exists>outs' delays'. retry_attempts (logged_env env) m (logged op) as le (s, outs, delays)
     = (fst (retry_attempts env m op as le s), (snd (retry_attempts env m op as le s), outs', delays'))"
proof (induction as arbitrary: le s outs delays)
  case Nil
  show ?case by (simp add: logged_env_def split: option.split)
next
  case (Cons a as)
  obtain r s1 where op: "op s = (r, s1)" by fastforce
  then have lop: "logged op (s, outs, delays) = (r, (s1, outs @ [r], delays))" by (simp add: logged_def)
  show ?case
  proof (cases r)
    case (Inl e)
    obtain d s2 where "retry_delay env a e s1 = (d, s2)" by fastforce
    with Inl op lop Cons.IH [of "Some e" "re_sleep env d s2" "outs @ [r]" "delays @ [d]"] show ?thesis
      by (auto simp: logged_delay logged_sleep)
  qed (use op lop in auto)
qed

text \<open>What the delay after the \<open>i\<close>-th outcome may be.\<close>

definition delay_ok :: "nat \<Rightarrow> llm_error + 'r \<Rightarrow> time \<Rightarrow> bool" where
  "delay_ok i out d = (case out of
       Inl (RateLimited _ (Some duration)) \<Rightarrow> d = duration
     | Inl _ \<Rightarrow> 750 * 2 ^ i * 1000000 \<le> d \<and> d \<le> 1250 * 2 ^ i * 1000000
     | Inr _ \<Rightarrow> False)"

definition retry_log_ok :: "nat \<Rightarrow> llm_error + 'r \<Rightarrow> (llm_error + 'r) list \<Rightarrow> time list \<Rightarrow> bool" where
  "retry_log_ok m r outs delays \<longleftrightarrow>
     outs \<noteq> [] \<and> r = last outs \<and> length outs \<le> m + 1 \<and> list_all retry_err (butlast outs)
     \<and> (retry_err r \<longrightarrow> length outs = m + 1)
     \<and> length delays = length outs - 1
     \<and> (\<forall>i < length delays. delay_ok i (outs ! i) (delays ! i))"

lemma retry_delay_ok:
  assumes "\<And>n s. 0 \<le> n \<Longrightarrow> fst (re_gen_range env n s) \<in> {0..n}" and "i \<le> 52" and "retry_delay env i e s = (d, s')"
  shows "delay_ok i (Inl e) d"
  using assms(3) backoff_bounds [of i "re_gen_range env", OF assms(2,1)]
  by (fastforce simp: retry_delay_def delay_ok_def split: llm_error.splits option.splits)

lemma retry_attempts_log:
  assumes "\<And>n s. 0 \<le> n \<Longrightarrow> fst (re_gen_range env n s) \<in> {0..n}" and "m \<le> 52"
    and "retry_attempts (logged_env env) m (logged op) [length outs..<Suc m] le (s, outs, delays)
           = (r, (s', outs', delays'))"
    and "length outs \<le> m" and "list_all retry_err outs" and "length delays = length outs"
    and "\<forall>i < length delays. delay_ok i (outs ! i) (delays ! i)"
  shows "retry_log_ok m r outs' delays'"
  using assms(3-)
proof (induction "m - length outs" arbitrary: outs delays le s)
  case 0
  then have len: "length outs = m" by simp
  obtain o1 s1 where op: "op s = (o1, s1)" by fastforce
  then have lop: "logged op (s, outs, delays) = (o1, (s1, outs @ [o1], delays))" by (simp add: logged_def)
  from 0 len lop show ?case
    by (auto simp: retry_log_ok_def nth_append split: sum.splits)
next
  case (Suc k)
  then have lt: "length outs < m" by simp
  then have up: "[length outs..<Suc m] = length outs # [Suc (length outs)..<Suc m]"
    by (simp add: upt_conv_Cons)
  obtain o1 s1 where op: "op s = (o1, s1)" by fastforce
  then have lop: "logged op (s, outs, delays) = (o1, (s1, outs @ [o1], delays))" by (simp add: logged_def)
  show ?case
  proof (cases "retry_err o1")
    case False
    with Suc.prems lop lt show ?thesis
      by (auto simp: up retry_log_ok_def retry_err_def nth_append simp del: upt_Suc split: sum.splits)
  next
    case True
    then obtain e where e: "o1 = Inl e" "is_retryable e" by (auto simp: retry_err_def split: sum.splits)
    obtain d s2 where d: "retry_delay env (length outs) e s1 = (d, s2)" by fastforce
    have "delay_ok (length outs) o1 d"
      using retry_delay_ok [OF assms(1) _ d] lt assms(2) e(1) by simp
    then have dels: "\<forall>i < length (delays @ [d]). delay_ok i ((outs @ [o1]) ! i) ((delays @ [d]) ! i)"
      using Suc.prems(4,5) by (auto simp: nth_append less_Suc_eq)
    have "retry_attempts (logged_env env) m (logged op) [length (outs @ [o1])..<Suc m] (Some e)
        (re_sleep env d s2, outs @ [o1], delays @ [d]) = (r, (s', outs', delays'))"
      using Suc.prems(1) lop e d lt by (simp add: up logged_delay logged_sleep del: upt_Suc)
    then show ?thesis
      using Suc.hyps(1) [of "outs @ [o1]" "Some e" "re_sleep env d s2" "delays @ [d]"] Suc.hyps(2) Suc.prems(3,4)
        dels True lt by simp
  qed
qed

section \<open>Properties\<close>

text \<open>
  C13. The contract of the retry loop. The loop always answers, and its answer is that of its
  last call; it makes at most \<open>max_retries + 1\<close> calls, retries only errors that are retryable,
  stops before the last permitted call only on a response or a non-retryable error, and
  between two calls sleeps exactly the delay a rate-limited provider asked for or else a
  back-off within 25% of \<open>2^i\<close> seconds. (With more than 52 retries the 64-bit arithmetic of
  the back-off would wrap.)
\<close>

theorem retry_contract:
  assumes "\<And>n s. 0 \<le> n \<Longrightarrow> fst (re_gen_range env n s) \<in> {0..n}" and "rc_max_retries cfg \<le> 52"
  shows "\<exists>outs delays.
      retry_loop (logged_env env) cfg (logged op) (s, [], [])
        = (fst (retry_loop env cfg op s), (snd (retry_loop env cfg op s), outs, delays))
      \<and> retry_log_ok (unat (rc_max_retries cfg)) (fst (retry_loop env cfg op s)) outs delays"
proof -
  have m: "unat (rc_max_retries cfg) \<le> 52" using assms(2) by (simp add: word_le_nat_alt)
  obtain outs delays where run: "retry_loop (logged_env env) cfg (logged op) (s, [], [])
      = (fst (retry_loop env cfg op s), (snd (retry_loop env cfg op s), outs, delays))"
    unfolding retry_loop_def
    using logged_erase [of env "unat (rc_max_retries cfg)" op _ None s "[]" "[]"] by blast
  have "retry_log_ok (unat (rc_max_retries cfg)) (fst (retry_loop env cfg op s)) outs delays"
    by (rule retry_attempts_log [OF assms(1) m, of op "[]" None s "[]" _ "snd (retry_loop env cfg op s)"])
      (use run in \<open>simp_all add: retry_loop_def\<close>)
  with run show ?thesis by blast
qed

lemma retry_contract_witness:
  "\<exists>outs delays.
     retry_log_ok 3 (Err (AuthFailed ''p'') :: llm_error + nat) outs delays"
proof -
  let ?env = "\<lparr>re_gen_range = (\<lambda>n s. (0, s)), re_sleep = (\<lambda>d s. s), re_model_name = ''m''\<rparr> :: nat retry_env"
  let ?op = "\<lambda>n. (if n < 2 then Err (EmptyResponse ''p'') else Err (AuthFailed ''p''), Suc n) :: (llm_error + nat) \<times> nat"
  have "fst (retry_loop ?env retry_config_default ?op 0) = Err (AuthFailed ''p'')"
    by (simp add: retry_loop_def retry_config_default_def upt_rec retry_delay_def retry_backoff_delay_def Let_def
        split: prod.splits)
  moreover have "\<exists>outs delays. retry_log_ok (unat (rc_max_retries retry_config_default))
      (fst (retry_loop ?env retry_config_default ?op 0)) outs delays"
    using retry_contract [of ?env retry_config_default ?op 0]
    by (auto simp: retry_config_default_def backoff_base_ms_def)
  ultimately show ?thesis by (simp add: retry_config_default_def)
qed

end
