(* ===== verification/Failover.thy ===== *)
theory Failover
  imports Llm_Error Keyed_Store
begin

text \<open>
  Failover between providers (\<open>src/llm/failover.rs\<close>): the per-provider cooldown, the choice of
  candidates, the loop that tries them, and the binding of the serving provider to the task
  that made the request. \<open>clk\<close> reads the nanoseconds since the provider's epoch from the state
  of the calls. Each request is one step here; the atomics it updates are plain fields.
\<close>

record cooldown_config =
  cc_cooldown_duration :: nat
  cc_failure_threshold :: u32

definition cooldown_config_default :: cooldown_config where
  "cooldown_config_default = \<lparr>cc_cooldown_duration = 300000000000, cc_failure_threshold = 3\<rparr>"

record provider_cooldown =
  pc_failure_count :: u32
  pc_cooldown_activated_nanos :: u64

definition cooldown_new :: provider_cooldown where
  "cooldown_new = \<lparr>pc_failure_count = 0, pc_cooldown_activated_nanos = 0\<rparr>"

definition is_in_cooldown :: "provider_cooldown \<Rightarrow> u64 \<Rightarrow> u64 \<Rightarrow> bool" where
  "is_in_cooldown c now_nanos cooldown_nanos =
     (pc_cooldown_activated_nanos c \<noteq> 0
      \<and> sat_sub now_nanos (pc_cooldown_activated_nanos c) < cooldown_nanos)"

definition cooldown_record_failure :: "provider_cooldown \<Rightarrow> u32 \<Rightarrow> bool \<times> provider_cooldown" where
  "cooldown_record_failure c threshold =
     (pc_failure_count c + 1 \<ge> threshold, c\<lparr>pc_failure_count := pc_failure_count c + 1\<rparr>)"

definition activate_cooldown :: "provider_cooldown \<Rightarrow> u64 \<Rightarrow> provider_cooldown" where
  "activate_cooldown c now_nanos = c\<lparr>pc_cooldown_activated_nanos := max now_nanos 1\<rparr>"

definition cooldown_reset :: "provider_cooldown \<Rightarrow> provider_cooldown" where
  "cooldown_reset c = c\<lparr>pc_failure_count := 0, pc_cooldown_activated_nanos := 0\<rparr>"

record failover =
  fo_last_used :: nat
  fo_cooldowns :: "provider_cooldown list"
  fo_config :: cooldown_config
  fo_provider_for_task :: "(nat, nat) hmap"

definition failover_with_cooldown :: "('s, 'r) provider list \<Rightarrow> cooldown_config \<Rightarrow> llm_error + failover" where
  "failover_with_cooldown providers cfg =
     (if providers = [] then Err (RequestFailed ''failover'' ''FailoverProvider requires at least one provider'')
      else Ok \<lparr>fo_last_used = 0, fo_cooldowns = replicate (length providers) cooldown_new,
               fo_config = cfg, fo_provider_for_task = []\<rparr>)"

definition bind_provider_to_current_task :: "nat option \<Rightarrow> failover \<Rightarrow> nat \<Rightarrow> failover" where
  "bind_provider_to_current_task task fo idx =
     (case task of None \<Rightarrow> fo
      | Some t \<Rightarrow> fo\<lparr>fo_provider_for_task := hm_insert (fo_provider_for_task fo) t idx\<rparr>)"

definition take_bound_provider_for_current_task :: "nat option \<Rightarrow> failover \<Rightarrow> nat option \<times> failover" where
  "take_bound_provider_for_current_task task fo =
     (case task of None \<Rightarrow> (None, fo)
      | Some t \<Rightarrow> (hm_get (fo_provider_for_task fo) t,
                   fo\<lparr>fo_provider_for_task := hm_remove (fo_provider_for_task fo) t\<rparr>))"

text \<open>\<open>min_by_key\<close>: the first index with the least key.\<close>

fun min_index :: "(nat \<Rightarrow> 'k::linorder) \<Rightarrow> nat list \<Rightarrow> nat option" where
  "min_index key [] = None"
| "min_index key (i # is) =
     (case min_index key is of None \<Rightarrow> Some i | Some j \<Rightarrow> if key i \<le> key j then Some i else Some j)"

definition nanos :: "nat \<Rightarrow> u64" where
  "nanos n = word_of_nat n"

definition cooling :: "failover \<Rightarrow> u64 \<Rightarrow> nat \<Rightarrow> bool" where
  "cooling fo now i = is_in_cooldown (fo_cooldowns fo ! i) now (nanos (cc_cooldown_duration (fo_config fo)))"

text \<open>The providers to try, in order; \<open>None\<close> is the error of an empty provider list.\<close>

definition candidates :: "failover \<Rightarrow> nat \<Rightarrow> u64 \<Rightarrow> nat list option" where
  "candidates fo n now =
     (let available = filter (\<lambda>i. \<not> cooling fo now i) [0..<n]
      in if available \<noteq> [] then Some available
         else map_option (\<lambda>i. [i])
                (min_index (\<lambda>i. pc_cooldown_activated_nanos (fo_cooldowns fo ! i)) [0..<n]))"

definition upd_cooldown :: "failover \<Rightarrow> nat \<Rightarrow> provider_cooldown \<Rightarrow> failover" where
  "upd_cooldown fo i c = fo\<lparr>fo_cooldowns := (fo_cooldowns fo)[i := c]\<rparr>"

definition note_success :: "failover \<Rightarrow> nat \<Rightarrow> failover" where
  "note_success fo i = upd_cooldown (fo\<lparr>fo_last_used := i\<rparr>) i (cooldown_reset (fo_cooldowns fo ! i))"

definition note_failure :: "failover \<Rightarrow> nat \<Rightarrow> u64 \<Rightarrow> failover" where
  "note_failure fo i now =
     (let (reached, c) = cooldown_record_failure (fo_cooldowns fo ! i) (cc_failure_threshold (fo_config fo))
      in upd_cooldown fo i (if reached then activate_cooldown c now else c))"

fun try_from ::
  "('s \<Rightarrow> nat) \<Rightarrow> ('s, 'r) provider list \<Rightarrow> nat list \<Rightarrow> llm_error option \<Rightarrow> failover \<Rightarrow> 's \<Rightarrow>
   (llm_error + nat \<times> 'r) \<times> failover \<times> 's" where
  "try_from clk providers [] last_error fo s =
     (Err (case last_error of Some e \<Rightarrow> e
           | None \<Rightarrow> RequestFailed ''failover'' ''Invariant violated in FailoverProvider: providers were exhausted but no last_error was recorded (this branch should be unreachable; possible causes: no provider attempts were made or `available` was unexpectedly empty).''), fo, s)"
| "try_from clk providers (i # is) last_error fo s =
     (case (providers ! i) s of
        (Inr response, s1) \<Rightarrow> (Ok (i, response), note_success fo i, s1)
      | (Inl err, s1) \<Rightarrow>
          if \<not> is_retryable err then (Err err, fo, s1)
          else try_from clk providers is (Some err) (note_failure fo i (nanos (clk s1))) s1)"

definition try_providers ::
  "('s \<Rightarrow> nat) \<Rightarrow> ('s, 'r) provider list \<Rightarrow> failover \<Rightarrow> 's \<Rightarrow> (llm_error + nat \<times> 'r) \<times> failover \<times> 's" where
  "try_providers clk providers fo s =
     (case candidates fo (length providers) (nanos (clk s)) of
        None \<Rightarrow> (Err (RequestFailed ''failover'' ''FailoverProvider requires at least one provider''), fo, s)
      | Some is \<Rightarrow> try_from clk providers is None fo s)"

text \<open>\<open>complete\<close> and \<open>complete_with_tools\<close>, made by the task \<open>task\<close>.\<close>

definition failover_complete ::
  "('s \<Rightarrow> nat) \<Rightarrow> ('s, 'r) provider list \<Rightarrow> nat option \<Rightarrow> (failover \<times> 's, 'r) provider" where
  "failover_complete clk providers task = (\<lambda>(fo, s).
     case try_providers clk providers fo s of
       (Inl e, fo1, s1) \<Rightarrow> (Err e, (fo1, s1))
     | (Inr (i, response), fo1, s1) \<Rightarrow> (Ok response, (bind_provider_to_current_task task fo1 i, s1)))"

text \<open>The provider that \<open>effective_model_name\<close> asks for the name.\<close>

definition effective_provider :: "nat option \<Rightarrow> failover \<Rightarrow> nat \<times> failover" where
  "effective_provider task fo =
     (case take_bound_provider_for_current_task task fo of
        (Some i, fo1) \<Rightarrow> (i, fo1)
      | (None, fo1) \<Rightarrow> (fo_last_used fo1, fo1))"

section \<open>Lemmas\<close>

lemma min_index_None: "min_index key is = None \<longleftrightarrow> is = []"
  by (cases "is") (auto split: option.splits)

lemma min_index_Some: "min_index key is = Some i \<Longrightarrow> i \<in> set is \<and> (\<forall>j \<in> set is. key i \<le> key j)"
  by (induction "is" arbitrary: i) (auto split: option.splits if_splits simp: min_index_None)

definition fo_inv :: "nat \<Rightarrow> failover \<Rightarrow> bool" where
  "fo_inv n fo \<longleftrightarrow> length (fo_cooldowns fo) = n \<and> fo_last_used fo < n \<and> hm_wf (fo_provider_for_task fo)
     \<and> (\<forall>t i. hm_get (fo_provider_for_task fo) t = Some i \<longrightarrow> i < n)"

lemma fo_inv_new: "failover_with_cooldown ps cfg = Ok fo \<Longrightarrow> fo_inv (length ps) fo"
  by (auto simp: failover_with_cooldown_def fo_inv_def hm_get_def hm_wf_def split: if_splits)

lemma fo_inv_note:
  "fo_inv n fo \<Longrightarrow> i < n \<Longrightarrow> fo_inv n (note_success fo i)"
  "fo_inv n fo \<Longrightarrow> fo_inv n (note_failure fo i now)"
  by (auto simp: fo_inv_def note_success_def note_failure_def upd_cooldown_def cooldown_record_failure_def Let_def)

lemma note_success_last [simp]: "fo_last_used (note_success fo i) = i"
  by (simp add: note_success_def upd_cooldown_def)

lemma note_task [simp]:
  "fo_provider_for_task (note_success fo i) = fo_provider_for_task fo"
  "fo_provider_for_task (note_failure fo i now) = fo_provider_for_task fo"
  by (auto simp: note_success_def note_failure_def upd_cooldown_def cooldown_record_failure_def Let_def)

lemma candidates_spec:
  assumes "candidates fo n now = Some is"
  shows "is \<noteq> []" and "set is \<subseteq> {..<n}"
    and "(\<forall>i \<in> set is. \<not> cooling fo now i) \<or> ((\<forall>i < n. cooling fo now i) \<and> (\<exists>i. is = [i]
          \<and> (\<forall>j < n. pc_cooldown_activated_nanos (fo_cooldowns fo ! i) \<le> pc_cooldown_activated_nanos (fo_cooldowns fo ! j))))"
  using assms
  by (auto simp: candidates_def Let_def filter_empty_conv split: if_splits dest!: min_index_Some)

lemma candidates_exist:
  assumes "0 < n"
  shows "\<exists>is. candidates fo n now = Some is"
proof -
  have "min_index (\<lambda>i. pc_cooldown_activated_nanos (fo_cooldowns fo ! i)) [0..<n] \<noteq> None"
    using assms by (simp add: min_index_None)
  then show ?thesis by (auto simp: candidates_def Let_def)
qed

lemma try_from_inv:
  "try_from clk ps is le fo s = (r, fo', s') \<Longrightarrow> fo_inv n fo \<Longrightarrow> set is \<subseteq> {..<n} \<Longrightarrow>
   fo_inv n fo' \<and> fo_provider_for_task fo' = fo_provider_for_task fo
   \<and> (\<forall>i a. r = Ok (i, a) \<longrightarrow> i < n \<and> fo_last_used fo' = i)"
proof (induction clk ps "is" le fo s rule: try_from.induct)
  case (2 clk ps i "is" le fo s)
  obtain o1 s1 where "(ps ! i) s = (o1, s1)" by fastforce
  with 2 show ?case
    by (auto simp: fo_inv_note split: sum.splits if_splits)
qed auto

lemma try_providers_inv:
  assumes "try_providers clk ps fo s = (r, fo', s')" and "fo_inv (length ps) fo"
  shows "fo_inv (length ps) fo' \<and> fo_provider_for_task fo' = fo_provider_for_task fo
     \<and> (\<forall>i a. r = Ok (i, a) \<longrightarrow> i < length ps \<and> fo_last_used fo' = i)"
proof (cases "candidates fo (length ps) (nanos (clk s))")
  case (Some "is")
  then have "try_from clk ps is None fo s = (r, fo', s')" using assms(1) by (simp add: try_providers_def)
  then show ?thesis by (rule try_from_inv [OF _ assms(2) candidates_spec(2) [OF Some]])
qed (use assms in \<open>auto simp: try_providers_def\<close>)

section \<open>The observed run\<close>

text \<open>The same providers, each writing its index and its answer to a log.\<close>

definition indexed ::
  "('s, 'r) provider list \<Rightarrow> ('s \<times> (nat \<times> (llm_error + 'r)) list, 'r) provider list" where
  "indexed ps = map (\<lambda>i (s, calls). case (ps ! i) s of (r, s') \<Rightarrow> (r, (s', calls @ [(i, r)]))) [0..<length ps]"

lemma indexed_nth:
  "i < length ps \<Longrightarrow> (indexed ps ! i) (s, calls) = (case (ps ! i) s of (r, s') \<Rightarrow> (r, (s', calls @ [(i, r)])))"
  by (simp add: indexed_def)

definition fo_result :: "nat \<times> (llm_error + 'r) \<Rightarrow> llm_error + nat \<times> 'r" where
  "fo_result out = (case snd out of Inl e \<Rightarrow> Err e | Inr a \<Rightarrow> Ok (fst out, a))"

definition failover_log_ok ::
  "nat list \<Rightarrow> llm_error + nat \<times> 'r \<Rightarrow> (nat \<times> (llm_error + 'r)) list \<Rightarrow> bool" where
  "failover_log_ok is res calls \<longleftrightarrow> calls \<noteq> [] \<and> map fst calls = take (length calls) is
     \<and> list_all (\<lambda>out. retry_err (snd out)) (butlast calls) \<and> res = fo_result (last calls)
     \<and> (retry_err (snd (last calls)) \<longrightarrow> length calls = length is)"

lemma try_from_log:
  assumes "set is \<subseteq> {..<length ps}"
  shows "\<exists>calls. try_from (clk \<circ> fst) (indexed ps) is le fo (s, log0) =
       (fst (try_from clk ps is le fo s), fst (snd (try_from clk ps is le fo s)),
        (snd (snd (try_from clk ps is le fo s)), log0 @ calls))
     \<and> (is \<noteq> [] \<longrightarrow> failover_log_ok is (fst (try_from clk ps is le fo s)) calls)"
  using assms
proof (induction "is" arbitrary: le fo s log0)
  case (Cons i "is")
  obtain o1 s1 where op: "(ps ! i) s = (o1, s1)" by fastforce
  then have lop: "(indexed ps ! i) (s, log0) = (o1, (s1, log0 @ [(i, o1)]))"
    using Cons.prems by (simp add: indexed_nth)
  show ?case
  proof (cases "retry_err o1")
    case False
    then show ?thesis
      using op lop by (intro exI [of _ "[(i, o1)]"])
        (auto simp: failover_log_ok_def fo_result_def retry_err_def split: sum.splits)
  next
    case True
    then obtain e where e: "o1 = Inl e" "is_retryable e" by (auto simp: retry_err_def split: sum.splits)
    have tl: "set is \<subseteq> {..<length ps}" using Cons.prems by simp
    let ?fo = "note_failure fo i (nanos (clk s1))"
    obtain calls where calls: "try_from (clk \<circ> fst) (indexed ps) is (Some e) ?fo (s1, log0 @ [(i, o1)]) =
       (fst (try_from clk ps is (Some e) ?fo s1), fst (snd (try_from clk ps is (Some e) ?fo s1)),
        (snd (snd (try_from clk ps is (Some e) ?fo s1)), (log0 @ [(i, o1)]) @ calls))"
      "is \<noteq> [] \<Longrightarrow> failover_log_ok is (fst (try_from clk ps is (Some e) ?fo s1)) calls"
      using Cons.IH [OF tl, of "Some e" ?fo s1 "log0 @ [(i, o1)]"] by blast
    have "failover_log_ok (i # is) (fst (try_from clk ps (i # is) le fo s)) ((i, o1) # (if is = [] then [] else calls))"
      using calls(2) op e by (cases "is") (auto simp: failover_log_ok_def fo_result_def retry_err_def)
    moreover have "is = [] \<Longrightarrow> calls = []" using calls(1) by simp
    ultimately show ?thesis using calls(1) op lop e
      by (intro exI [of _ "(i, o1) # calls"]) (auto simp: comp_def split: if_splits)
  qed
qed simp

section \<open>Requests of other tasks\<close>

inductive other_op :: "('s \<Rightarrow> nat) \<Rightarrow> ('s, 'r) provider list \<Rightarrow> nat \<Rightarrow> failover \<Rightarrow> failover \<Rightarrow> bool"
  for clk ps t where
  request: "t' \<noteq> Some t \<Longrightarrow> failover_complete clk ps t' (fo, s) = (r, (fo', s')) \<Longrightarrow> other_op clk ps t fo fo'"
| name: "t' \<noteq> Some t \<Longrightarrow> effective_provider t' fo = (i, fo') \<Longrightarrow> other_op clk ps t fo fo'"

lemma bind_get:
  "fo_inv n fo \<Longrightarrow> hm_get (fo_provider_for_task (bind_provider_to_current_task t' fo i)) t
     = (if t' = Some t then Some i else hm_get (fo_provider_for_task fo) t)"
  by (auto simp: bind_provider_to_current_task_def fo_inv_def hm_simps split: option.splits)

lemma fo_inv_bind: "fo_inv n fo \<Longrightarrow> i < n \<Longrightarrow> fo_inv n (bind_provider_to_current_task t' fo i)"
  by (auto simp: bind_provider_to_current_task_def fo_inv_def hm_simps hm.wf_put split: option.splits if_splits)

lemma take_bound:
  "fo_inv n fo \<Longrightarrow> take_bound_provider_for_current_task (Some t) fo = (i, fo') \<Longrightarrow>
     i = hm_get (fo_provider_for_task fo) t \<and> fo_inv n fo'
     \<and> (\<forall>u. hm_get (fo_provider_for_task fo') u = (if u = t then None else hm_get (fo_provider_for_task fo) u))"
  by (auto simp: take_bound_provider_for_current_task_def fo_inv_def hm_simps hm.wf_del split: if_splits)

lemma complete_inv:
  assumes "failover_complete clk ps task (fo, s) = (r, (fo', s'))" and "fo_inv (length ps) fo"
  shows "fo_inv (length ps) fo'"
    and "r = Ok a \<Longrightarrow> \<exists>i fo0. try_providers clk ps fo s = (Ok (i, a), fo0, s') \<and> i < length ps
           \<and> fo' = bind_provider_to_current_task task fo0 i \<and> fo_inv (length ps) fo0"
    and "task \<noteq> Some t \<Longrightarrow> hm_get (fo_provider_for_task fo') t = hm_get (fo_provider_for_task fo) t"
proof -
  obtain res fo0 s0 where run: "try_providers clk ps fo s = (res, fo0, s0)" by (metis prod.exhaust)
  note inv = try_providers_inv [OF run assms(2)]
  show "fo_inv (length ps) fo'"
    and "r = Ok a \<Longrightarrow> \<exists>i fo0. try_providers clk ps fo s = (Ok (i, a), fo0, s') \<and> i < length ps
           \<and> fo' = bind_provider_to_current_task task fo0 i \<and> fo_inv (length ps) fo0"
    and "task \<noteq> Some t \<Longrightarrow> hm_get (fo_provider_for_task fo') t = hm_get (fo_provider_for_task fo) t"
    using assms(1) run inv
    by (auto simp: failover_complete_def fo_inv_bind bind_get split: sum.splits)
qed

lemma effective_inv:
  assumes "effective_provider task fo = (i, fo')" and "fo_inv n fo"
  shows "fo_inv n fo' \<and> i < n \<and> (task \<noteq> Some t \<longrightarrow> hm_get (fo_provider_for_task fo') t = hm_get (fo_provider_for_task fo) t)"
proof (cases task)
  case None
  with assms show ?thesis
    by (auto simp: effective_provider_def take_bound_provider_for_current_task_def fo_inv_def)
next
  case (Some u)
  obtain b fo1 where b: "take_bound_provider_for_current_task (Some u) fo = (b, fo1)" by fastforce
  with take_bound [OF assms(2) b] assms Some show ?thesis
    by (auto simp: effective_provider_def fo_inv_def split: option.splits)
qed

lemma other_ops:
  "(other_op clk ps t)\<^sup>*\<^sup>* fo fo' \<Longrightarrow> fo_inv (length ps) fo \<Longrightarrow>
   fo_inv (length ps) fo' \<and> hm_get (fo_provider_for_task fo') t = hm_get (fo_provider_for_task fo) t"
proof (induction rule: rtranclp_induct)
  case (step fo1 fo2)
  then have inv: "fo_inv (length ps) fo1" by simp
  from step(2) have "fo_inv (length ps) fo2 \<and> hm_get (fo_provider_for_task fo2) t = hm_get (fo_provider_for_task fo1) t"
  proof (cases rule: other_op.cases)
    case (request t' s r s')
    then show ?thesis using complete_inv(1,3) [OF request(2) inv] by simp
  next
    case (name t' i)
    then show ?thesis using effective_inv [OF name(2) inv] by simp
  qed
  with step show ?case by simp
qed simp

section \<open>Properties\<close>

text \<open>
  The contract of a failover request, for any provider list that is not empty. The
  candidates are never empty: the providers that are not cooling down, in their order, or, when
  all are cooling down, the one whose cooldown is oldest. The request calls the candidates in
  order, goes on to the next one exactly after a retryable error, and answers what the last
  one it called answered; on a response, that provider is recorded as last used.
\<close>

theorem failover_contract:
  assumes "ps \<noteq> []" and "fo_inv (length ps) fo"
  shows "\<exists>is calls. candidates fo (length ps) (nanos (clk s)) = Some is \<and> is \<noteq> [] \<and> set is \<subseteq> {..<length ps}
     \<and> ((\<forall>i \<in> set is. \<not> cooling fo (nanos (clk s)) i) \<or>
        (\<forall>i < length ps. cooling fo (nanos (clk s)) i) \<and> length is = 1)
     \<and> try_providers (clk \<circ> fst) (indexed ps) fo (s, []) =
         (case try_providers clk ps fo s of (res, fo', s') \<Rightarrow> (res, fo', (s', calls)))
     \<and> failover_log_ok is (fst (try_providers clk ps fo s)) calls
     \<and> (\<forall>i a. fst (try_providers clk ps fo s) = Ok (i, a) \<longrightarrow>
          fo_last_used (fst (snd (try_providers clk ps fo s))) = i)"
proof -
  obtain "is" where c: "candidates fo (length ps) (nanos (clk s)) = Some is"
    using candidates_exist [of "length ps"] assms(1) by auto
  note spec = candidates_spec [OF c]
  have run: "try_providers clk ps fo s = try_from clk ps is None fo s"
    and lrun: "try_providers (clk \<circ> fst) (indexed ps) fo (s, []) = try_from (clk \<circ> fst) (indexed ps) is None fo (s, [])"
    using c by (simp_all add: try_providers_def indexed_def)
  obtain calls where calls: "try_from (clk \<circ> fst) (indexed ps) is None fo (s, []) =
       (fst (try_from clk ps is None fo s), fst (snd (try_from clk ps is None fo s)),
        (snd (snd (try_from clk ps is None fo s)), calls))"
      "failover_log_ok is (fst (try_from clk ps is None fo s)) calls"
    using try_from_log [OF spec(2), of clk None fo s "[]"] spec(1) by auto
  have last: "\<forall>i a. fst (try_providers clk ps fo s) = Ok (i, a) \<longrightarrow>
      fo_last_used (fst (snd (try_providers clk ps fo s))) = i"
    using try_providers_inv [OF _ assms(2), of clk s] by (metis prod.collapse)
  have "try_providers (clk \<circ> fst) (indexed ps) fo (s, []) =
      (case try_providers clk ps fo s of (res, fo', s') \<Rightarrow> (res, fo', (s', calls)))"
    using calls(1) by (simp add: run lrun split: prod.splits)
  then show ?thesis using c spec calls(2) last run by (intro exI [of _ "is"] exI [of _ calls]) auto
qed

definition sample_providers :: "(nat, nat) provider list" where
  "sample_providers = [(\<lambda>n. (Err (EmptyResponse ''a''), n + 1)), (\<lambda>n. (Ok 42, n + 1))]"

definition sample_failover :: failover where
  "sample_failover = \<lparr>fo_last_used = 0, fo_cooldowns = [cooldown_new, cooldown_new],
     fo_config = cooldown_config_default, fo_provider_for_task = []\<rparr>"

lemma sample_failover_inv: "fo_inv (length sample_providers) sample_failover"
  by (simp add: sample_providers_def sample_failover_def fo_inv_def hm_get_def hm_wf_def)

lemma sample_try:
  "\<exists>fo'. try_providers (\<lambda>n. n) sample_providers sample_failover 0 = (Ok (1, 42), fo', 2)"
  by (simp add: try_providers_def candidates_def sample_providers_def sample_failover_def cooling_def
      is_in_cooldown_def cooldown_new_def eval_nat_numeral)

lemma failover_contract_witness:
  "\<exists>is calls. failover_log_ok is (Ok (1, 42) :: llm_error + nat \<times> nat) calls"
proof -
  have "sample_providers \<noteq> []" by (simp add: sample_providers_def)
  from failover_contract [OF this sample_failover_inv, of "\<lambda>n. n" 0]
  obtain "is" calls where "failover_log_ok is (fst (try_providers (\<lambda>n. n) sample_providers sample_failover 0)) calls"
    by blast
  then have "failover_log_ok is (Ok (1, 42)) calls" using sample_try by auto
  then show ?thesis by blast
qed

text \<open>
  The model a request is billed to is the one that served it: after a task's request is
  answered by a provider, requests and lookups of other tasks in between, which may move
  the shared last-used index, do not change that the task's own lookup names that provider;
  every index used along the way is in range, and the binding is consumed by the lookup.
\<close>

theorem effective_provider_serves:
  assumes "fo_inv (length ps) fo"
    and "failover_complete clk ps (Some t) (fo, s) = (Ok a, (fo1, s1))"
    and "(other_op clk ps t)\<^sup>*\<^sup>* fo1 fo2" and "effective_provider (Some t) fo2 = (j, fo3)"
  shows "(\<exists>fo'. try_providers clk ps fo s = (Ok (j, a), fo', s1)) \<and> j < length ps \<and> fo_inv (length ps) fo3
     \<and> hm_get (fo_provider_for_task fo3) t = None"
proof -
  obtain i fo0 where i: "try_providers clk ps fo s = (Ok (i, a), fo0, s1)" "i < length ps"
      "fo1 = bind_provider_to_current_task (Some t) fo0 i" "fo_inv (length ps) fo0"
    using complete_inv(2) [OF assms(2,1), of a] by blast
  have inv1: "fo_inv (length ps) fo1" by (rule complete_inv(1) [OF assms(2,1)])
  have "hm_get (fo_provider_for_task fo1) t = Some i" using bind_get [OF i(4)] i(3) by simp
  with other_ops [OF assms(3) inv1] have inv2: "fo_inv (length ps) fo2" "hm_get (fo_provider_for_task fo2) t = Some i"
    by auto
  obtain b fo4 where b: "take_bound_provider_for_current_task (Some t) fo2 = (b, fo4)" by fastforce
  have "b = Some i" and "fo3 = fo4" and "j = i" and "fo_inv (length ps) fo4" and "hm_get (fo_provider_for_task fo4) t = None"
    using take_bound [OF inv2(1) b] inv2(2) assms(4) b by (auto simp: effective_provider_def)
  with i show ?thesis by simp
qed

lemma effective_provider_serves_witness:
  "fst (effective_provider (Some 7) (fst (snd (failover_complete (\<lambda>n. n) sample_providers (Some 7) (sample_failover, 0))))) = 1"
proof -
  obtain fo' where t: "try_providers (\<lambda>n. n) sample_providers sample_failover 0 = (Ok (1, 42), fo', 2)"
    using sample_try by blast
  obtain fo1 where c: "failover_complete (\<lambda>n. n) sample_providers (Some 7) (sample_failover, 0) = (Ok 42, (fo1, 2))"
    using t by (simp add: failover_complete_def)
  obtain j fo3 where e: "effective_provider (Some 7) fo1 = (j, fo3)" by fastforce
  from effective_provider_serves [OF sample_failover_inv c _ e] t c e show ?thesis by simp
qed

end
