(* ===== verification/Circuit_Breaker.thy ===== *)
theory Circuit_Breaker
  imports Llm_Error
begin

text \<open>
  The circuit breaker around a provider (\<open>src/llm/circuit_breaker.rs\<close>). Each of its three
  operations holds the state's lock once, while the call itself runs between them without the
  lock, so the step relation keeps the number of calls in flight and interleaves them freely.
  \<open>fmt_secs\<close> renders the remaining seconds of the rejection message.
\<close>

record breaker_config =
  bc_failure_threshold :: u32
  bc_recovery_timeout :: time
  bc_half_open_successes_needed :: u32

definition breaker_config_default :: breaker_config where
  "breaker_config_default =
     \<lparr>bc_failure_threshold = 5, bc_recovery_timeout = secs 30, bc_half_open_successes_needed = 2\<rparr>"

datatype circuit_state = Closed | Open | HalfOpen

record breaker_state =
  bs_state :: circuit_state
  bs_consecutive_failures :: u32
  bs_opened_at :: "time option"
  bs_half_open_successes :: u32

definition breaker_new :: breaker_state where
  "breaker_new = \<lparr>bs_state = Closed, bs_consecutive_failures = 0, bs_opened_at = None,
     bs_half_open_successes = 0\<rparr>"

text \<open>\<open>Instant::elapsed\<close> saturates at zero.\<close>

definition since :: "time \<Rightarrow> time \<Rightarrow> time" where
  "since now t = max 0 (now - t)"

definition breaker_check_allowed ::
  "(time \<Rightarrow> string) \<Rightarrow> string \<Rightarrow> breaker_config \<Rightarrow> time \<Rightarrow> breaker_state \<Rightarrow> (llm_error + unit) \<times> breaker_state" where
  "breaker_check_allowed fmt_secs model cfg now b =
     (case bs_state b of
        Closed \<Rightarrow> (Ok (), b)
      | HalfOpen \<Rightarrow> (Ok (), b)
      | Open \<Rightarrow>
          (case bs_opened_at b of
             Some opened_at \<Rightarrow>
               if since now opened_at \<ge> bc_recovery_timeout cfg
               then (Ok (), b\<lparr>bs_state := HalfOpen, bs_half_open_successes := 0\<rparr>)
               else
                 let remaining = max 0 (bc_recovery_timeout cfg - since now opened_at)
                 in (Err (RequestFailed model
                       (''Circuit breaker open ('' @ show_nat (unat (bs_consecutive_failures b))
                        @ '' consecutive failures, recovery in '' @ fmt_secs remaining @ ''s)'')), b)
           | None \<Rightarrow> (Ok (), b\<lparr>bs_state := Closed\<rparr>)))"

definition breaker_record_success :: "breaker_config \<Rightarrow> breaker_state \<Rightarrow> breaker_state" where
  "breaker_record_success cfg b =
     (case bs_state b of
        Closed \<Rightarrow> b\<lparr>bs_consecutive_failures := 0\<rparr>
      | HalfOpen \<Rightarrow>
          let b1 = b\<lparr>bs_half_open_successes := bs_half_open_successes b + 1\<rparr>
          in if bs_half_open_successes b1 \<ge> bc_half_open_successes_needed cfg
             then b1\<lparr>bs_state := Closed, bs_consecutive_failures := 0, bs_opened_at := None\<rparr>
             else b1
      | Open \<Rightarrow> b\<lparr>bs_state := Closed, bs_consecutive_failures := 0, bs_opened_at := None\<rparr>)"

definition breaker_record_failure :: "breaker_config \<Rightarrow> time \<Rightarrow> llm_error \<Rightarrow> breaker_state \<Rightarrow> breaker_state" where
  "breaker_record_failure cfg now err b =
     (if \<not> is_transient err then b
      else (case bs_state b of
          Closed \<Rightarrow>
            let b1 = b\<lparr>bs_consecutive_failures := bs_consecutive_failures b + 1\<rparr>
            in if bs_consecutive_failures b1 \<ge> bc_failure_threshold cfg
               then b1\<lparr>bs_state := Open, bs_opened_at := Some now\<rparr>
               else b1
        | HalfOpen \<Rightarrow> b\<lparr>bs_state := Open, bs_opened_at := Some now, bs_half_open_successes := 0\<rparr>
        | Open \<Rightarrow> b))"

text \<open>
  \<open>complete\<close> and \<open>complete_with_tools\<close>, which differ only in the call they make. \<open>clk\<close> reads the
  clock from the state of the inner provider.
\<close>

definition breaker_complete ::
  "(time \<Rightarrow> string) \<Rightarrow> string \<Rightarrow> breaker_config \<Rightarrow> ('s \<Rightarrow> time) \<Rightarrow> ('s, 'r) provider \<Rightarrow>
   (breaker_state \<times> 's, 'r) provider" where
  "breaker_complete fmt_secs model cfg clk inner = (\<lambda>(b, s).
     case breaker_check_allowed fmt_secs model cfg (clk s) b of
       (Inl e, b1) \<Rightarrow> (Err e, (b1, s))
     | (Inr _, b1) \<Rightarrow>
         (case inner s of
            (Inr resp, s1) \<Rightarrow> (Ok resp, (breaker_record_success cfg b1, s1))
          | (Inl err, s1) \<Rightarrow> (Err err, (breaker_record_failure cfg (clk s1) err b1, s1))))"

section \<open>Interleaved calls\<close>

text \<open>A state of the system: the breaker, the calls in flight, the clock.\<close>

inductive breaker_step ::
  "breaker_config \<Rightarrow> breaker_state \<times> nat \<times> time \<Rightarrow> breaker_state \<times> nat \<times> time \<Rightarrow> bool"
  for cfg where
  tick: "now \<le> now' \<Longrightarrow> breaker_step cfg (b, n, now) (b, n, now')"
| start: "breaker_check_allowed f m cfg now b = (Ok (), b') \<Longrightarrow> breaker_step cfg (b, n, now) (b', Suc n, now)"
| rejected: "breaker_check_allowed f m cfg now b = (Err e, b') \<Longrightarrow> breaker_step cfg (b, n, now) (b', n, now)"
| success: "breaker_step cfg (b, Suc n, now) (breaker_record_success cfg b, n, now)"
| failure: "breaker_step cfg (b, Suc n, now) (breaker_record_failure cfg now err b, n, now)"

inductive_cases breaker_stepE: "breaker_step cfg (b, n, now) (b', n', now')"

lemmas breaker_defs = breaker_check_allowed_def breaker_record_success_def breaker_record_failure_def

definition breaker_inv :: "breaker_config \<Rightarrow> breaker_state \<Rightarrow> time \<Rightarrow> bool" where
  "breaker_inv cfg b now = (case bs_state b of
       Closed \<Rightarrow> bs_opened_at b = None \<and> bs_consecutive_failures b < bc_failure_threshold cfg
     | Open \<Rightarrow> (\<exists>t. bs_opened_at b = Some t \<and> t \<le> now) \<and> bs_consecutive_failures b = bc_failure_threshold cfg
     | HalfOpen \<Rightarrow> bs_half_open_successes b < bc_half_open_successes_needed cfg
         \<and> bs_consecutive_failures b = bc_failure_threshold cfg)"

lemma breaker_inv_step:
  assumes "breaker_step cfg s s'" and "0 < bc_failure_threshold cfg" and "0 < bc_half_open_successes_needed cfg"
    and "breaker_inv cfg (fst s) (snd (snd s))"
  shows "breaker_inv cfg (fst s') (snd (snd s'))"
  using assms
proof (induction rule: breaker_step.induct)
  case (failure b n now err)
  have "bs_consecutive_failures b + 1 \<le> bc_failure_threshold cfg"
    if "bs_consecutive_failures b < bc_failure_threshold cfg" using that by (rule word_inc_le)
  with failure show ?case
    by (auto simp: breaker_inv_def breaker_record_failure_def Let_def split: circuit_state.splits)
qed (auto simp: breaker_inv_def breaker_check_allowed_def breaker_record_success_def Let_def
    split: circuit_state.splits option.splits if_splits)

section \<open>Sequential calls\<close>

definition failing :: "('s, 'r) provider \<Rightarrow> bool" where
  "failing inner \<longleftrightarrow> (\<forall>s. \<exists>e. fst (inner s) = Err e \<and> is_transient e)"

lemma failing_call: "failing inner \<Longrightarrow> \<exists>e. inner s = (Err e, snd (inner s)) \<and> is_transient e"
  unfolding failing_def by (metis prod.collapse)

definition closed_with :: "u32 \<Rightarrow> breaker_state" where
  "closed_with k = breaker_new\<lparr>bs_consecutive_failures := k\<rparr>"

definition tripped :: "breaker_config \<Rightarrow> time \<Rightarrow> breaker_state" where
  "tripped cfg t = \<lparr>bs_state = Open, bs_consecutive_failures = bc_failure_threshold cfg,
     bs_opened_at = Some t, bs_half_open_successes = 0\<rparr>"

lemma failing_step:
  assumes "failing inner" and "k < bc_failure_threshold cfg"
  shows "snd (breaker_complete f m cfg clk inner (closed_with k, s)) =
    (if k + 1 = bc_failure_threshold cfg then tripped cfg (clk (snd (inner s))) else closed_with (k + 1),
     snd (inner s))"
proof -
  obtain e s1 where e: "inner s = (Err e, s1)" "is_transient e" using failing_call [OF assms(1)] by blast
  have "k + 1 \<le> bc_failure_threshold cfg" using assms(2) by (rule word_inc_le)
  then have "bc_failure_threshold cfg \<le> k + 1 \<longleftrightarrow> k + 1 = bc_failure_threshold cfg" by (metis order_antisym order_refl)
  then show ?thesis
    by (subst breaker_complete_def) (simp add: e closed_with_def breaker_new_def tripped_def breaker_check_allowed_def
        breaker_record_failure_def Let_def)
qed

lemma tripped_step:
  assumes "0 < bc_recovery_timeout cfg" and "clk s - t < bc_recovery_timeout cfg"
  shows "snd (breaker_complete f m cfg clk inner (tripped cfg t, s)) = (tripped cfg t, s)"
  using assms by (simp add: breaker_complete_def breaker_check_allowed_def tripped_def since_def max_def Let_def)

lemma probe_step:
  assumes "failing inner" and "\<not> clk s - t < bc_recovery_timeout cfg"
  shows "snd (breaker_complete f m cfg clk inner (tripped cfg t, s))
    = (tripped cfg (clk (snd (inner s))), snd (inner s))"
proof -
  obtain e s1 where "inner s = (Err e, s1)" "is_transient e" using failing_call [OF assms(1)] by blast
  moreover have "bc_recovery_timeout cfg \<le> since (clk s) t" using assms(2) by (simp add: since_def)
  ultimately show ?thesis
    by (subst breaker_complete_def) (simp add: tripped_def breaker_check_allowed_def breaker_record_failure_def)
qed

lemma failing_run:
  assumes "failing inner" and "n < unat (bc_failure_threshold cfg)"
  shows "((snd \<circ> breaker_complete f m cfg clk inner) ^^ n) (breaker_new, s)
     = (closed_with (of_nat n), ((snd \<circ> inner) ^^ n) s)"
  using assms(2)
proof (induction n)
  case 0
  show ?case by (simp add: closed_with_def breaker_new_def)
next
  case (Suc n)
  then have n: "unat (of_nat n :: u32) = n"
    by (intro unat_of_nat_below [of _ "bc_failure_threshold cfg"]) simp
  then have lt: "of_nat n < bc_failure_threshold cfg" using Suc.prems by (simp add: word_less_nat_alt)
  have "unat (of_nat n + 1 :: u32) = Suc n" using unat_inc [OF lt] n by simp
  then have "of_nat n + 1 \<noteq> bc_failure_threshold cfg" using Suc.prems by auto
  with Suc failing_step [OF assms(1) lt] show ?case by (simp add: add.commute)
qed

section \<open>Properties\<close>

text \<open>
  C14. The breaker under any interleaving of calls. Whenever it is open it knows since when,
  so the branch that recovers from a missing time is never taken; the failure counter stays
  below the threshold while it is closed and equals it otherwise, and the probe counter stays
  below the successes needed, so neither 32-bit counter wraps; and while it is open no call is
  let through until the recovery timeout has passed since it opened.
\<close>

theorem breaker_invariant:
  assumes "0 < bc_failure_threshold cfg" and "0 < bc_half_open_successes_needed cfg"
    and "(breaker_step cfg)\<^sup>*\<^sup>* (breaker_new, 0, t0) (b, n, now)"
  shows "breaker_inv cfg b now
    \<and> (bs_state b = Open \<longrightarrow>
        (\<exists>t. bs_opened_at b = Some t \<and> t \<le> now \<and>
           (is_ok (fst (breaker_check_allowed f m cfg now b)) \<longleftrightarrow> bc_recovery_timeout cfg \<le> now - t)))"
proof -
  have "breaker_inv cfg (fst (b, n, now)) (snd (snd (b, n, now)))"
    using assms(3)
  proof (induction rule: rtranclp_induct)
    case base
    show ?case using assms(1) by (simp add: breaker_inv_def breaker_new_def)
  qed (use assms(1,2) breaker_inv_step in blast)
  then show ?thesis
    by (auto simp: breaker_inv_def breaker_check_allowed_def since_def Let_def split: circuit_state.splits)
qed

lemma breaker_invariant_witness:
  "breaker_inv (breaker_config_default\<lparr>bc_failure_threshold := 1\<rparr>)
     (tripped (breaker_config_default\<lparr>bc_failure_threshold := 1\<rparr>) 7) 7"
proof -
  let ?cfg = "breaker_config_default\<lparr>bc_failure_threshold := 1\<rparr>"
  have "breaker_step ?cfg (breaker_new, 0, 7) (breaker_new, 1, 7)"
    using breaker_step.start [of undefined undefined ?cfg 7 breaker_new breaker_new 0]
    by (simp add: breaker_check_allowed_def breaker_new_def)
  moreover have "breaker_step ?cfg (breaker_new, 1, 7) (tripped ?cfg 7, 0, 7)"
    using breaker_step.failure [of ?cfg breaker_new 0 7 "EmptyResponse ''p''"]
    by (simp add: breaker_record_failure_def breaker_new_def tripped_def)
  ultimately have "(breaker_step ?cfg)\<^sup>*\<^sup>* (breaker_new, 0, 7) (tripped ?cfg 7, 0, 7)"
    by (meson converse_rtranclp_into_rtranclp rtranclp.rtrancl_refl)
  from breaker_invariant [OF _ _ this] show ?thesis by (simp add: breaker_config_default_def)
qed

text \<open>
  One call at a time against a backend that keeps failing: the first
  \<open>failure_threshold\<close> calls reach it and the last of them trips the breaker at the time it
  failed. From then on a call is rejected without reaching the backend and changes nothing
  until the recovery timeout has passed; after that it reaches the backend as a probe, and a
  failing probe reopens the breaker from the time of that failure.
\<close>

theorem breaker_trips:
  assumes "failing inner" and "0 < bc_failure_threshold cfg" and "0 < bc_recovery_timeout cfg"
    and "sN = ((snd \<circ> inner) ^^ unat (bc_failure_threshold cfg)) s"
  shows "(n < unat (bc_failure_threshold cfg) \<longrightarrow>
      ((snd \<circ> breaker_complete f m cfg clk inner) ^^ n) (breaker_new, s)
        = (closed_with (of_nat n), ((snd \<circ> inner) ^^ n) s))
    \<and> ((snd \<circ> breaker_complete f m cfg clk inner) ^^ unat (bc_failure_threshold cfg)) (breaker_new, s)
        = (tripped cfg (clk sN), sN)
    \<and> snd (breaker_complete f m cfg clk inner (tripped cfg (clk sN), s'))
        = (if clk s' - clk sN < bc_recovery_timeout cfg then (tripped cfg (clk sN), s')
           else (tripped cfg (clk (snd (inner s'))), snd (inner s')))"
proof -
  obtain j where j: "unat (bc_failure_threshold cfg) = Suc j"
    using assms(2) by (metis not0_implies_Suc unat_eq_zero word_neq_0_conv)
  then have uj: "unat (of_nat j :: u32) = j"
    by (intro unat_of_nat_below [of _ "bc_failure_threshold cfg"]) simp
  then have lt: "of_nat j < bc_failure_threshold cfg" using j by (simp add: word_less_nat_alt)
  have last: "of_nat j + 1 = bc_failure_threshold cfg"
    using unat_inc [OF lt] uj j by (metis Suc_eq_plus1 word_unat_eq_iff)
  have "((snd \<circ> breaker_complete f m cfg clk inner) ^^ Suc j) (breaker_new, s) = (tripped cfg (clk sN), sN)"
    using failing_run [OF assms(1), of j cfg f m clk s] failing_step [OF assms(1) lt] last assms(4) j by simp
  with j failing_run [OF assms(1)] tripped_step [OF assms(3), of clk s' "clk sN" f m inner]
    probe_step [OF assms(1), of clk s' "clk sN" cfg f m] show ?thesis by simp
qed

lemma breaker_trips_witness:
  "((snd \<circ> breaker_complete (\<lambda>t. []) ''m'' breaker_config_default (\<lambda>n. 9)
       (\<lambda>n. (Err (EmptyResponse ''p'') :: llm_error + nat, n + 1))) ^^ 5) (breaker_new, 0)
     = (tripped breaker_config_default 9, 5 :: nat)"
proof -
  have "failing (\<lambda>n. (Err (EmptyResponse ''p'') :: llm_error + nat, n + 1 :: nat))" by (simp add: failing_def)
  from breaker_trips [OF this, of breaker_config_default 5 0 0 "\<lambda>t. []" "''m''" "\<lambda>n. 9"]
  have "5 = ((snd \<circ> (\<lambda>n. (Err (EmptyResponse ''p'') :: llm_error + nat, n + 1 :: nat))) ^^ 5) 0 \<Longrightarrow> ?thesis"
    by (simp add: breaker_config_default_def secs_def)
  then show ?thesis by (simp add: eval_nat_numeral)
qed

text \<open>
  An open breaker can be closed by a call that started before it opened: with the default
  configuration, six calls start, five of them fail and open the breaker, and the sixth then
  succeeds, which takes the branch that \<open>record_success\<close> marks as a bug and closes the breaker
  at the very moment it opened, long before the recovery timeout.
\<close>

theorem breaker_success_while_open:
  "\<exists>b. (breaker_step breaker_config_default)\<^sup>*\<^sup>* (breaker_new, 0, 0) (b, 1, 0) \<and> bs_state b = Open
     \<and> breaker_step breaker_config_default (b, 1, 0) (breaker_new, 0, 0)"
proof -
  let ?cfg = breaker_config_default
  let ?e = "EmptyResponse ''p''"
  have start: "breaker_step ?cfg (closed_with k, n, 0) (closed_with k, Suc n, 0)" for k n
    by (rule breaker_step.start [of undefined undefined])
      (simp add: breaker_check_allowed_def closed_with_def breaker_new_def)
  have six: "(breaker_step ?cfg)\<^sup>*\<^sup>* (closed_with 0, 0, 0) (closed_with 0, n, 0)" for n
    by (induction n) (auto intro: rtranclp.rtrancl_into_rtrancl start)
  have fail: "breaker_step ?cfg (closed_with k, Suc n, 0) (closed_with (k + 1), n, 0)" if "k + 1 < 5" for k n
    using breaker_step.failure [of ?cfg "closed_with k" n 0 ?e] that [unfolded not_le [symmetric]]
    by (simp add: breaker_record_failure_def closed_with_def breaker_new_def breaker_config_default_def)
  have five: "breaker_step ?cfg (closed_with 4, Suc n, 0) (tripped ?cfg 0, n, 0)" for n
    using breaker_step.failure [of ?cfg "closed_with 4" n 0 ?e]
    by (simp add: breaker_record_failure_def closed_with_def breaker_new_def breaker_config_default_def tripped_def)
  have "(breaker_step ?cfg)\<^sup>*\<^sup>* (closed_with 0, 6, 0) (closed_with 4, 2, 0)"
  proof -
    have "breaker_step ?cfg (closed_with 0, 6, 0) (closed_with 1, 5, 0)" using fail [of 0 5] by simp
    moreover have "breaker_step ?cfg (closed_with 1, 5, 0) (closed_with 2, 4, 0)" using fail [of 1 4] by simp
    moreover have "breaker_step ?cfg (closed_with 2, 4, 0) (closed_with 3, 3, 0)" using fail [of 2 3] by simp
    moreover have "breaker_step ?cfg (closed_with 3, 3, 0) (closed_with 4, 2, 0)" using fail [of 3 2] by simp
    ultimately show ?thesis by (meson rtranclp.rtrancl_refl converse_rtranclp_into_rtranclp)
  qed
  with six [of 6] five [of 1] have "(breaker_step ?cfg)\<^sup>*\<^sup>* (closed_with 0, 0, 0) (tripped ?cfg 0, 1, 0)"
    by (metis Suc_1 rtranclp.rtrancl_into_rtrancl rtranclp_trans)
  moreover have "breaker_step ?cfg (tripped ?cfg 0, 1, 0) (breaker_new, 0, 0)"
    using breaker_step.success [of ?cfg "tripped ?cfg 0" 0 0]
    by (simp add: breaker_record_success_def tripped_def breaker_new_def)
  ultimately show ?thesis by (auto simp: closed_with_def breaker_new_def tripped_def)
qed

end
