(* ===== verification/Llm_Chain.thy ===== *)
theory Llm_Chain
  imports Retry Failover Circuit_Breaker
begin

text \<open>
  The chain of provider decorators as \<open>build_provider_chain_components\<close> (\<open>src/llm/mod.rs\<close>) stacks
  them: retries around each provider when \<open>max_retries\<close> is positive, failover when a fallback
  model is configured, and the circuit breaker when a threshold is. The state of the chain is
  the breaker, the failover state and the state of the providers. The raw providers are
  parameters. The smart router and the response cache are not part of this chain: it is the
  chain of a configuration with neither.
\<close>

record chain_config =
  ch_max_retries :: u32
  ch_cooldown :: cooldown_config
  ch_circuit_breaker_threshold :: "u32 option"
  ch_circuit_breaker_recovery :: time

type_synonym 's chain_state = "breaker_state \<times> failover \<times> 's"

definition with_retry :: "'s retry_env \<Rightarrow> u32 \<Rightarrow> ('s, 'r) provider \<Rightarrow> ('s, 'r) provider" where
  "with_retry env max_retries p =
     (if max_retries > 0 then retry_loop env \<lparr>rc_max_retries = max_retries\<rparr> p else p)"

definition with_failover ::
  "('s \<Rightarrow> nat) \<Rightarrow> nat option \<Rightarrow> ('s, 'r) provider \<Rightarrow> ('s, 'r) provider option \<Rightarrow> (failover \<times> 's, 'r) provider" where
  "with_failover clk task primary fallback =
     (case fallback of
        Some q \<Rightarrow> failover_complete clk [primary, q] task
      | None \<Rightarrow> (\<lambda>(fo, s). case primary s of (r, s') \<Rightarrow> (r, (fo, s'))))"

definition with_breaker ::
  "(time \<Rightarrow> string) \<Rightarrow> string \<Rightarrow> u32 option \<Rightarrow> time \<Rightarrow> ('s \<Rightarrow> time) \<Rightarrow> ('s, 'r) provider \<Rightarrow> (breaker_state \<times> 's, 'r) provider" where
  "with_breaker fmt_secs model threshold recovery clk p =
     (case threshold of
        Some n \<Rightarrow> breaker_complete fmt_secs model
          (breaker_config_default\<lparr>bc_failure_threshold := n, bc_recovery_timeout := recovery\<rparr>) clk p
      | None \<Rightarrow> (\<lambda>(b, s). case p s of (r, s') \<Rightarrow> (r, (b, s'))))"

definition build_provider_chain ::
  "(time \<Rightarrow> string) \<Rightarrow> string \<Rightarrow> chain_config \<Rightarrow> 's retry_env \<Rightarrow> ('s \<Rightarrow> nat) \<Rightarrow> nat option \<Rightarrow>
   ('s, 'r) provider \<Rightarrow> ('s, 'r) provider option \<Rightarrow> ('s chain_state, 'r) provider" where
  "build_provider_chain fmt_secs model cfg env clk task primary fallback =
     with_breaker fmt_secs model (ch_circuit_breaker_threshold cfg) (ch_circuit_breaker_recovery cfg)
       (\<lambda>(fo, s). int (clk s))
       (with_failover clk task (with_retry env (ch_max_retries cfg) primary)
          (map_option (with_retry env (ch_max_retries cfg)) fallback))"

section \<open>Bounds and answers, layer by layer\<close>

definition quiet_env :: "'s retry_env \<Rightarrow> ('s \<Rightarrow> nat) \<Rightarrow> bool" where
  "quiet_env env cnt \<longleftrightarrow> (\<forall>d s. cnt (re_sleep env d s) = cnt s) \<and> (\<forall>n s. cnt (snd (re_gen_range env n s)) = cnt s)"

lemma quiet_delay: "quiet_env env cnt \<Longrightarrow> retry_delay env a e s = (d, s') \<Longrightarrow> cnt s' = cnt s"
  by (auto simp: quiet_env_def retry_delay_def retry_backoff_delay_def Let_def
      split: llm_error.splits option.splits prod.splits if_splits) (metis snd_conv)+

lemma retry_attempts_calls:
  assumes "calls_within op cnt n" and "quiet_env env cnt"
  shows "cnt s \<le> cnt (snd (retry_attempts env m op as le s))
     \<and> cnt (snd (retry_attempts env m op as le s)) \<le> cnt s + n * length as"
proof (induction "as" arbitrary: le s)
  case (Cons a as)
  obtain r s1 where op: "op s = (r, s1)" by fastforce
  have le1: "cnt s \<le> cnt s1" "cnt s1 \<le> cnt s + n" using calls_withinD [OF assms(1) op] by auto
  show ?case
  proof (cases r)
    case (Inl e)
    obtain d s2 where d: "retry_delay env a e s1 = (d, s2)" by fastforce
    have "cnt (re_sleep env d s2) = cnt s1"
      using assms(2) quiet_delay [OF assms(2) d] by (simp add: quiet_env_def)
    with Cons.IH [of "re_sleep env d s2" "Some e"] op le1 Inl d show ?thesis by auto
  qed (use op le1 in auto)
qed simp

lemma retry_calls:
  assumes "calls_within op cnt n" and "quiet_env env cnt"
  shows "calls_within (with_retry env k op) cnt (n * (unat k + 1))"
proof (cases "k > 0")
  case True
  then show ?thesis
    using retry_attempts_calls [OF assms, of _ "unat k" "[0..<Suc (unat k)]" None]
    by (auto simp: with_retry_def retry_loop_def calls_within_def simp del: upt_Suc)
next
  case False
  then have "k = 0" using word_neq_0_conv by blast
  with assms(1) show ?thesis by (simp add: with_retry_def)
qed

lemma try_from_calls:
  assumes "\<forall>p \<in> set ps. calls_within p cnt n" and "set is \<subseteq> {..<length ps}"
  shows "cnt s \<le> cnt (snd (snd (try_from clk ps is le fo s)))
     \<and> cnt (snd (snd (try_from clk ps is le fo s))) \<le> cnt s + n * length is"
  using assms(2)
proof (induction "is" arbitrary: le fo s)
  case (Cons i "is")
  obtain r s1 where op: "(ps ! i) s = (r, s1)" by fastforce
  have "calls_within (ps ! i) cnt n" using assms(1) Cons.prems by simp
  from calls_withinD [OF this op] have le1: "cnt s \<le> cnt s1" "cnt s1 \<le> cnt s + n" by auto
  show ?case
  proof (cases r)
    case (Inl e)
    with Cons.IH [of s1 "Some e" "note_failure fo i (nanos (clk s1))"] Cons.prems op le1 show ?thesis by auto
  qed (use op le1 in auto)
qed simp

lemma candidates_length: "candidates fo n now = Some is \<Longrightarrow> length is \<le> n"
proof -
  assume c: "candidates fo n now = Some is"
  have "length (filter P [0..<n]) \<le> n" for P by (metis length_filter_le length_upt minus_nat.diff_0)
  with c candidates_spec(1,2) [OF c] show ?thesis
    by (auto simp: candidates_def Let_def split: if_splits)
qed

lemma failover_calls:
  assumes "\<forall>p \<in> set ps. calls_within p cnt n"
  shows "calls_within (failover_complete clk ps task) (\<lambda>(fo, s). cnt s) (n * length ps)"
proof -
  have "cnt s \<le> cnt (snd (snd (try_providers clk ps fo s)))
      \<and> cnt (snd (snd (try_providers clk ps fo s))) \<le> cnt s + n * length ps" for fo s
  proof (cases "candidates fo (length ps) (nanos (clk s))")
    case (Some "is")
    have "n * length is \<le> n * length ps" using candidates_length [OF Some] by simp
    with try_from_calls [OF assms candidates_spec(2) [OF Some], of s clk None fo] show ?thesis
      unfolding try_providers_def by (auto simp: Some intro: order_trans)
  qed (simp add: try_providers_def)
  note within_n = this
  show ?thesis
    unfolding calls_within_def
  proof (intro allI)
    fix st :: "failover \<times> 'a"
    obtain fo s where st: "st = (fo, s)" by fastforce
    obtain r fo1 s1 where run: "try_providers clk ps fo s = (r, fo1, s1)" by (metis prod.exhaust)
    from within_n [of s fo] show "(case st of (fo, s) \<Rightarrow> cnt s) \<le> (case snd (failover_complete clk ps task st) of (fo, s) \<Rightarrow> cnt s)
        \<and> (case snd (failover_complete clk ps task st) of (fo, s) \<Rightarrow> cnt s) \<le> (case st of (fo, s) \<Rightarrow> cnt s) + n * length ps"
      by (auto simp: st run failover_complete_def split: sum.splits)
  qed
qed

lemma breaker_calls:
  "calls_within p cnt n \<Longrightarrow> calls_within (breaker_complete f m cfg clk p) (\<lambda>(b, s). cnt s) n"
  unfolding calls_within_def
  by (auto simp: breaker_complete_def split: prod.splits sum.splits) (metis snd_conv)+

lemma retry_answers: "answers_from op A \<Longrightarrow> answers_from (with_retry env k op) A"
proof -
  assume op: "answers_from op A"
  have "retry_attempts env m op as le s = (Ok r, s') \<Longrightarrow> A r" for m "as" le s r s'
  proof (induction "as" arbitrary: le s)
    case (Cons a as)
    with op show ?case by (auto dest: answers_fromD split: prod.splits sum.splits if_splits)
  qed simp
  with op show ?thesis by (auto simp: answers_from_def with_retry_def retry_loop_def simp del: upt_Suc)
qed

lemma failover_answers:
  assumes "\<forall>p \<in> set ps. answers_from p A"
  shows "answers_from (failover_complete clk ps task) A"
proof -
  have run: "A r" if "try_from clk ps is le fo s = (Ok (i, r), st)" "set is \<subseteq> {..<length ps}" for "is" le fo s i r st
    using that
  proof (induction "is" arbitrary: le fo s)
    case (Cons j "is")
    have "answers_from (ps ! j) A" using assms Cons.prems(2) by simp
    with Cons show ?case by (auto dest: answers_fromD split: prod.splits sum.splits if_splits)
  qed simp
  have "A r" if "try_providers clk ps fo s = (Ok (i, r), st)" for fo s i r st
  proof (cases "candidates fo (length ps) (nanos (clk s))")
    case (Some "is")
    with that have "try_from clk ps is None fo s = (Ok (i, r), st)" by (simp add: try_providers_def)
    then show ?thesis by (rule run [OF _ candidates_spec(2) [OF Some]])
  qed (use that in \<open>simp add: try_providers_def\<close>)
  then show ?thesis
    by (auto simp: answers_from_def failover_complete_def split: prod.splits sum.splits)
qed

lemma breaker_answers: "answers_from p A \<Longrightarrow> answers_from (breaker_complete f m cfg clk p) A"
  by (auto simp: answers_from_def breaker_complete_def split: prod.splits sum.splits)

lemma with_failover_calls:
  assumes "calls_within p cnt n" and "\<And>q. fallback = Some q \<Longrightarrow> calls_within q cnt n"
  shows "calls_within (with_failover clk task p fallback) (\<lambda>(fo, s). cnt s) (n * (if fallback = None then 1 else 2))"
proof (cases fallback)
  case None
  with assms(1) show ?thesis
    by (auto simp: with_failover_def calls_within_def split: prod.splits) (metis snd_conv)+
next
  case (Some q)
  with assms failover_calls [of "[p, q]" cnt n clk task] show ?thesis by (simp add: with_failover_def numeral_2_eq_2)
qed

lemma with_failover_answers:
  assumes "answers_from p A" and "\<And>q. fallback = Some q \<Longrightarrow> answers_from q A"
  shows "answers_from (with_failover clk task p fallback) A"
  using assms by (auto simp: with_failover_def answers_from_def [of "\<lambda>(fo, s). _ fo s"] intro!: failover_answers
      dest: answers_fromD split: option.splits prod.splits)

lemma with_breaker_calls:
  "calls_within p cnt n \<Longrightarrow> calls_within (with_breaker f m threshold recovery clk p) (\<lambda>(b, s). cnt s) n"
  by (cases threshold) (auto simp: with_breaker_def breaker_calls calls_within_def [of "\<lambda>(b, s). _ b s"]
      dest: calls_withinD split: prod.splits)

lemma with_breaker_answers:
  "answers_from p A \<Longrightarrow> answers_from (with_breaker f m threshold recovery clk p) A"
  by (cases threshold) (auto simp: with_breaker_def breaker_answers answers_from_def [of "\<lambda>(b, s). _ b s"]
      dest: answers_fromD split: prod.splits)

section \<open>Properties\<close>

text \<open>
  The whole chain. One request makes at most \<open>max_retries + 1\<close> calls to the primary provider
  and as many to the fallback, if there is one; every response is one that a raw provider
  gave; and while the breaker is open and its recovery time has not passed, a request makes
  no call at all and changes nothing.
\<close>

theorem chain_contract:
  assumes "calls_within primary cnt 1" and "\<And>q. fallback = Some q \<Longrightarrow> calls_within q cnt 1" and "quiet_env env cnt"
    and "chain = build_provider_chain f m cfg env clk task primary fallback"
  shows "calls_within chain (\<lambda>(b, fo, s). cnt s)
           ((unat (ch_max_retries cfg) + 1) * (if fallback = None then 1 else 2))
     \<and> answers_from chain (\<lambda>r. \<exists>s. fst (primary s) = Ok r \<or> (\<exists>q. fallback = Some q \<and> fst (q s) = Ok r))
     \<and> (ch_circuit_breaker_threshold cfg \<noteq> None \<and> bs_state b = Open \<and> bs_opened_at b = Some t \<and> t \<le> int (clk s)
          \<and> int (clk s) - t < ch_circuit_breaker_recovery cfg \<longrightarrow>
        (\<exists>e. chain (b, fo, s) = (Err e, (b, fo, s))))"
proof (intro conjI impI)
  let ?k = "ch_max_retries cfg" and ?A = "\<lambda>r. \<exists>s. fst (primary s) = Ok r \<or> (\<exists>q. fallback = Some q \<and> fst (q s) = Ok r)"
  have "calls_within (with_failover clk task (with_retry env ?k primary) (map_option (with_retry env ?k) fallback))
      (\<lambda>(fo, s). cnt s) (1 * (unat ?k + 1) * (if map_option (with_retry env ?k) fallback = None then 1 else 2))"
    by (intro with_failover_calls retry_calls assms(1,3)) (auto intro!: retry_calls [OF _ assms(3), where n = 1, simplified] dest: assms(2))
  then have "calls_within (with_failover clk task (with_retry env ?k primary) (map_option (with_retry env ?k) fallback))
      (\<lambda>(fo, s). cnt s) ((unat ?k + 1) * (if fallback = None then 1 else 2))" by simp
  from with_breaker_calls [OF this]
  show "calls_within chain (\<lambda>(b, fo, s). cnt s) ((unat ?k + 1) * (if fallback = None then 1 else 2))"
    unfolding assms(4) build_provider_chain_def .
  have "answers_from primary ?A" "\<And>q. fallback = Some q \<Longrightarrow> answers_from q ?A"
    by (auto simp: answers_from_def) (metis fst_conv)+
  then show "answers_from chain ?A"
    unfolding assms(4) build_provider_chain_def
    by (intro with_breaker_answers with_failover_answers retry_answers) (auto intro: retry_answers)
  assume "ch_circuit_breaker_threshold cfg \<noteq> None \<and> bs_state b = Open \<and> bs_opened_at b = Some t \<and> t \<le> int (clk s)
      \<and> int (clk s) - t < ch_circuit_breaker_recovery cfg"
  then show "\<exists>e. chain (b, fo, s) = (Err e, (b, fo, s))"
    by (auto simp: assms(4) build_provider_chain_def with_breaker_def breaker_complete_def breaker_check_allowed_def
        since_def Let_def)
qed

lemma chain_contract_witness:
  "calls_within (build_provider_chain (\<lambda>t. []) ''m''
       \<lparr>ch_max_retries = 3, ch_cooldown = cooldown_config_default,
        ch_circuit_breaker_threshold = Some 5, ch_circuit_breaker_recovery = secs 30\<rparr>
       \<lparr>re_gen_range = (\<lambda>n s. (0, s)), re_sleep = (\<lambda>d s. s), re_model_name = ''m''\<rparr> (\<lambda>n. n) None
       (\<lambda>n. (Err (EmptyResponse ''a'') :: llm_error + nat, n + 1)) (Some (\<lambda>n. (Ok 42, n + 1))))
     (\<lambda>(b, fo, s). s) 8"
proof -
  let ?cfg = "\<lparr>ch_max_retries = 3, ch_cooldown = cooldown_config_default,
        ch_circuit_breaker_threshold = Some 5, ch_circuit_breaker_recovery = secs 30\<rparr>"
  have p: "calls_within (\<lambda>n. (Err (EmptyResponse ''a'') :: llm_error + nat, n + 1)) (\<lambda>n. n) 1"
    by (simp add: calls_within_def)
  have q: "Some (\<lambda>n. (Ok 42 :: llm_error + nat, n + 1)) = Some q \<Longrightarrow> calls_within q (\<lambda>n. n) 1" for q :: "(nat, nat) provider"
    by (auto simp: calls_within_def)
  have e: "quiet_env \<lparr>re_gen_range = (\<lambda>n s. (0, s)), re_sleep = (\<lambda>d s. s), re_model_name = ''m''\<rparr> (\<lambda>n. n)"
    by (simp add: quiet_env_def)
  from chain_contract [where cfg = ?cfg and fallback = "Some (\<lambda>n. (Ok 42, n + 1))" and f = "\<lambda>t. []"
      and m = "''m''" and clk = "\<lambda>n. n" and task = None, OF p q e refl]
  show ?thesis by simp
qed

end
