(* ===== verification/Cost_Guard.thy ===== *)
theory Cost_Guard
  imports Engine_Types Keyed_Store
begin

text \<open>
  Spending guardrails (\<open>src/agent/cost_guard.rs\<close>) and the price table (\<open>src/llm/costs.rs\<close>).
  A \<open>Decimal\<close> is its rational value. An operation that reads the calendar takes \<open>today\<close>, the
  number of the UTC day; one that reads the monotonic clock takes \<open>now\<close>. Each operation is one
  step. Prices are written in units of \<open>10^-8\<close> dollars per token.
\<close>

section \<open>Prices\<close>

definition rsplit_slash :: "string \<Rightarrow> string" where
  "rsplit_slash s = rev (takeWhile (\<lambda>c. c \<noteq> CHR ''/'') (rev s))"

definition price :: "int \<Rightarrow> int \<Rightarrow> rat \<times> rat" where
  "price input output = (of_int input / 100000000, of_int output / 100000000)"

definition PRICES :: "(string list \<times> rat \<times> rat) list" where
  "PRICES = [
     ([''gpt-5.3-codex'', ''gpt-5.3-codex-spark''], price 200 800),
     ([''gpt-5.2-codex'', ''gpt-5.2-pro'', ''gpt-5.2''], price 200 800),
     ([''gpt-5.1-codex'', ''gpt-5.1-codex-max'', ''gpt-5.1''], price 200 800),
     ([''gpt-5.1-codex-mini''], price 30 120),
     ([''gpt-5-codex'', ''gpt-5-pro'', ''gpt-5''], price 200 800),
     ([''gpt-5-mini'', ''gpt-5-nano''], price 30 120),
     ([''gpt-4.1''], price 200 800),
     ([''gpt-4.1-mini''], price 40 160),
     ([''gpt-4.1-nano''], price 10 40),
     ([''gpt-4o'', ''gpt-4o-2024-11-20'', ''gpt-4o-2024-08-06''], price 250 1000),
     ([''gpt-4o-mini'', ''gpt-4o-mini-2024-07-18''], price 15 60),
     ([''gpt-4-turbo'', ''gpt-4-turbo-2024-04-09''], price 1000 3000),
     ([''gpt-4'', ''gpt-4-0613''], price 3000 6000),
     ([''gpt-3.5-turbo'', ''gpt-3.5-turbo-0125''], price 50 150),
     ([''o3''], price 200 800),
     ([''o3-mini'', ''o3-mini-2025-01-31''], price 110 440),
     ([''o4-mini''], price 110 440),
     ([''o1'', ''o1-2024-12-17''], price 1500 6000),
     ([''o1-mini'', ''o1-mini-2024-09-12''], price 300 1200),
     ([''claude-opus-4-6'', ''claude-opus-4-5'', ''claude-opus-4-5-20251101'', ''claude-opus-4-1'',
       ''claude-opus-4-1-20250805'', ''claude-opus-4-0'', ''claude-opus-4-20250514'',
       ''claude-3-opus-20240229'', ''claude-3-opus-latest''], price 1500 7500),
     ([''claude-sonnet-4-6'', ''claude-sonnet-4-5'', ''claude-sonnet-4-5-20250929'', ''claude-sonnet-4-0'',
       ''claude-sonnet-4-20250514'', ''claude-3-7-sonnet-20250219'', ''claude-3-7-sonnet-latest'',
       ''claude-3-5-sonnet-20241022'', ''claude-3-5-sonnet-latest''], price 300 1500),
     ([''claude-haiku-4-5'', ''claude-haiku-4-5-20251001'', ''claude-3-5-haiku-20241022'',
       ''claude-3-5-haiku-latest''], price 80 400),
     ([''claude-3-haiku-20240307''], price 25 125)]"

definition is_local_model :: "string \<Rightarrow> bool" where
  "is_local_model model_id =
     (let lower = map ascii_lower model_id
      in list_ex (starts_with lower)
           [''llama'', ''mistral'', ''mixtral'', ''phi'', ''gemma'', ''qwen'', ''codellama'',
            ''deepseek'', ''starcoder'', ''vicuna'', ''yi'']
         \<or> contains_str lower '':latest'' \<or> contains_str lower '':instruct'')"

definition model_cost :: "string \<Rightarrow> (rat \<times> rat) option" where
  "model_cost model_id =
     (if ends_with model_id '':free'' \<or> model_id = ''openrouter/free'' \<or> model_id = ''free''
      then Some (0, 0)
      else
        let i = rsplit_slash model_id
        in (case List.find (\<lambda>(names, p). i \<in> set names) PRICES of
              Some (_, p) \<Rightarrow> Some p
            | None \<Rightarrow> if is_local_model i then Some (0, 0) else None))"

definition default_cost :: "rat \<times> rat" where
  "default_cost = price 250 1000"

section \<open>The guard\<close>

record cost_guard_config =
  cg_max_cost_per_day_cents :: "u64 option"
  cg_max_actions_per_hour :: "u64 option"
  cg_max_cost_per_user_per_day_cents :: "u64 option"

datatype cost_limit_exceeded =
    DailyBudget u64 u64
  | HourlyRate u64 u64
  | UserDailyBudget string u64 u64

record model_tokens =
  mt_input_tokens :: u64
  mt_output_tokens :: u64
  mt_cost :: rat

record daily_cost =
  dc_total :: rat
  dc_reset_date :: int

record cost_guard =
  cg_config :: cost_guard_config
  cg_daily :: daily_cost
  cg_window :: "time list"
  cg_budget_exceeded :: bool
  cg_model_tokens :: "(string, model_tokens) hmap"
  cg_per_user :: "(string, daily_cost) hmap"

definition cost_guard_new :: "int \<Rightarrow> cost_guard_config \<Rightarrow> cost_guard" where
  "cost_guard_new today cfg = \<lparr>cg_config = cfg, cg_daily = \<lparr>dc_total = 0, dc_reset_date = today\<rparr>,
     cg_window = [], cg_budget_exceeded = False, cg_model_tokens = [], cg_per_user = []\<rparr>"

text \<open>Whole cents; an amount whose text is not a \<open>u64\<close> (negative or too large) reads as zero.\<close>

definition trunc_rat :: "rat \<Rightarrow> int" where
  "trunc_rat q = (if q \<ge> 0 then floor q else - floor (- q))"

definition to_cents :: "rat \<Rightarrow> u64" where
  "to_cents usd =
     (let c = trunc_rat (usd * 100) in if 0 \<le> usd \<and> c < 2 ^ 64 then word_of_int c else 0)"

definition HOUR_WINDOW :: time where "HOUR_WINDOW = secs 3600"

text \<open>
  The drain of the window. The monotonic clock starts at zero, and \<open>checked_sub\<close> gives nothing
  in its first hour.
\<close>

definition drain_window :: "time \<Rightarrow> time list \<Rightarrow> time list" where
  "drain_window now w = (if now < HOUR_WINDOW then w else dropWhile (\<lambda>t. t < now - HOUR_WINDOW) w)"

definition check_budget :: "cost_guard \<Rightarrow> (cost_limit_exceeded + unit) \<times> cost_guard" where
  "check_budget g =
     (let spent_cents = to_cents (dc_total (cg_daily g))
      in if cg_budget_exceeded g then
           (Err (DailyBudget spent_cents
              (case cg_max_cost_per_day_cents (cg_config g) of Some l \<Rightarrow> l | None \<Rightarrow> 0)), g)
         else (case cg_max_cost_per_day_cents (cg_config g) of
             None \<Rightarrow> (Ok (), g)
           | Some limit_cents \<Rightarrow>
               if spent_cents \<ge> limit_cents
               then (Err (DailyBudget spent_cents limit_cents), g\<lparr>cg_budget_exceeded := True\<rparr>)
               else (Ok (), g)))"

definition check_rate :: "time \<Rightarrow> cost_guard \<Rightarrow> (cost_limit_exceeded + unit) \<times> cost_guard" where
  "check_rate now g =
     (case cg_max_actions_per_hour (cg_config g) of
        None \<Rightarrow> (Ok (), g)
      | Some limit \<Rightarrow>
          let w = drain_window now (cg_window g); count = word_of_nat (length w); g1 = g\<lparr>cg_window := w\<rparr>
          in if count \<ge> limit then (Err (HourlyRate count limit), g1) else (Ok (), g1))"

definition cost_check_allowed :: "time \<Rightarrow> cost_guard \<Rightarrow> (cost_limit_exceeded + unit) \<times> cost_guard" where
  "cost_check_allowed now g =
     (case check_budget g of (Inl e, g1) \<Rightarrow> (Err e, g1) | (Inr _, g1) \<Rightarrow> check_rate now g1)"

record llm_usage =
  lu_input_tokens :: u32
  lu_output_tokens :: u32
  lu_cache_read_input_tokens :: u32
  lu_cache_creation_input_tokens :: u32
  lu_cache_read_discount :: rat
  lu_cache_write_multiplier :: rat
  lu_cost_per_token :: "(rat \<times> rat) option"

definition rat_of_u32 :: "u32 \<Rightarrow> rat" where "rat_of_u32 w = of_int (uint w)"

definition call_cost :: "string \<Rightarrow> llm_usage \<Rightarrow> rat" where
  "call_cost model u =
     (let (input_rate, output_rate) =
            (case lu_cost_per_token u of Some r \<Rightarrow> r
             | None \<Rightarrow> (case model_cost model of Some r \<Rightarrow> r | None \<Rightarrow> default_cost));
          cached_total = sat_add (lu_cache_read_input_tokens u) (lu_cache_creation_input_tokens u);
          uncached_input = sat_sub (lu_input_tokens u) cached_total;
          effective_discount = (if lu_cache_read_discount u = 0 then 1 else lu_cache_read_discount u);
          cache_read_cost = input_rate * rat_of_u32 (lu_cache_read_input_tokens u) / effective_discount;
          cache_write_cost =
            input_rate * rat_of_u32 (lu_cache_creation_input_tokens u) * lu_cache_write_multiplier u
      in input_rate * rat_of_u32 uncached_input + cache_read_cost + cache_write_cost
         + output_rate * rat_of_u32 (lu_output_tokens u))"

definition roll_day :: "int \<Rightarrow> cost_guard \<Rightarrow> cost_guard" where
  "roll_day today g =
     (if today \<noteq> dc_reset_date (cg_daily g)
      then g\<lparr>cg_daily := \<lparr>dc_total = 0, dc_reset_date = today\<rparr>, cg_budget_exceeded := False,
             cg_per_user := hm_retain (cg_per_user g) (\<lambda>_ e. dc_reset_date e = today)\<rparr>
      else g)"

definition add_daily :: "rat \<Rightarrow> cost_guard \<Rightarrow> cost_guard" where
  "add_daily cost g =
     (let g1 = g\<lparr>cg_daily := (cg_daily g)\<lparr>dc_total := dc_total (cg_daily g) + cost\<rparr>\<rparr>
      in (case cg_max_cost_per_day_cents (cg_config g) of
            None \<Rightarrow> g1
          | Some limit_cents \<Rightarrow>
              if to_cents (dc_total (cg_daily g1)) \<ge> limit_cents then g1\<lparr>cg_budget_exceeded := True\<rparr> else g1))"

definition add_model_tokens :: "string \<Rightarrow> llm_usage \<Rightarrow> rat \<Rightarrow> cost_guard \<Rightarrow> cost_guard" where
  "add_model_tokens model u cost g =
     (let e = (case hm_get (cg_model_tokens g) model of Some e \<Rightarrow> e
               | None \<Rightarrow> \<lparr>mt_input_tokens = 0, mt_output_tokens = 0, mt_cost = 0\<rparr>)
      in g\<lparr>cg_model_tokens := hm_insert (cg_model_tokens g) model
            (e\<lparr>mt_input_tokens := mt_input_tokens e + ucast (lu_input_tokens u),
               mt_output_tokens := mt_output_tokens e + ucast (lu_output_tokens u),
               mt_cost := mt_cost e + cost\<rparr>)\<rparr>)"

definition record_llm_call :: "int \<Rightarrow> time \<Rightarrow> string \<Rightarrow> llm_usage \<Rightarrow> cost_guard \<Rightarrow> rat \<times> cost_guard" where
  "record_llm_call today now model u g =
     (let cost = call_cost model u;
          g1 = add_daily cost (roll_day today g);
          g2 = g1\<lparr>cg_window := cg_window g1 @ [now]\<rparr>
      in (cost, add_model_tokens model u cost g2))"

definition add_user_cost :: "int \<Rightarrow> string \<Rightarrow> rat \<Rightarrow> cost_guard \<Rightarrow> cost_guard" where
  "add_user_cost today user_id cost g =
     (let e = (case hm_get (cg_per_user g) user_id of Some e \<Rightarrow> e | None \<Rightarrow> \<lparr>dc_total = 0, dc_reset_date = today\<rparr>);
          e1 = (if today \<noteq> dc_reset_date e then \<lparr>dc_total = 0, dc_reset_date = today\<rparr> else e)
      in g\<lparr>cg_per_user := hm_insert (cg_per_user g) user_id (e1\<lparr>dc_total := dc_total e1 + cost\<rparr>)\<rparr>)"

definition record_llm_call_for_user ::
  "int \<Rightarrow> time \<Rightarrow> string \<Rightarrow> string \<Rightarrow> llm_usage \<Rightarrow> cost_guard \<Rightarrow> rat \<times> cost_guard" where
  "record_llm_call_for_user today now user_id model u g =
     (case record_llm_call today now model u g of (cost, g1) \<Rightarrow> (cost, add_user_cost today user_id cost g1))"

definition check_allowed_for_user ::
  "int \<Rightarrow> time \<Rightarrow> string \<Rightarrow> cost_guard \<Rightarrow> (cost_limit_exceeded + unit) \<times> cost_guard" where
  "check_allowed_for_user today now user_id g =
     (case cost_check_allowed now g of
        (Inl e, g1) \<Rightarrow> (Err e, g1)
      | (Inr _, g1) \<Rightarrow>
          (case cg_max_cost_per_user_per_day_cents (cg_config g1) of
             None \<Rightarrow> (Ok (), g1)
           | Some limit_cents \<Rightarrow>
               (case hm_get (cg_per_user g1) user_id of
                  None \<Rightarrow> (Ok (), g1)
                | Some entry \<Rightarrow>
                    if dc_reset_date entry = today \<and> to_cents (dc_total entry) \<ge> limit_cents
                    then (Err (UserDailyBudget user_id (to_cents (dc_total entry)) limit_cents), g1)
                    else (Ok (), g1))))"

definition daily_spend :: "int \<Rightarrow> cost_guard \<Rightarrow> rat" where
  "daily_spend today g = (if today \<noteq> dc_reset_date (cg_daily g) then 0 else dc_total (cg_daily g))"

definition daily_spend_for_user :: "int \<Rightarrow> string \<Rightarrow> cost_guard \<Rightarrow> rat" where
  "daily_spend_for_user today user_id g =
     (case hm_get (cg_per_user g) user_id of
        Some entry \<Rightarrow> if dc_reset_date entry = today then dc_total entry else 0
      | None \<Rightarrow> 0)"

definition actions_this_hour :: "time \<Rightarrow> cost_guard \<Rightarrow> u64 \<times> cost_guard" where
  "actions_this_hour now g =
     (let w = drain_window now (cg_window g) in (word_of_nat (length w), g\<lparr>cg_window := w\<rparr>))"

definition model_usage :: "cost_guard \<Rightarrow> (string, model_tokens) hmap" where
  "model_usage g = cg_model_tokens g"

section \<open>Guarded calls\<close>

text \<open>
  How the dispatcher uses the guard: it checks before a call and records after it, and a
  refused call is not made. The history collects the times of the recorded calls.
\<close>

type_synonym guard_run = "cost_guard \<times> time list \<times> time"

inductive guarded_step :: "(int \<Rightarrow> bool) \<Rightarrow> rat \<Rightarrow> guard_run \<Rightarrow> guard_run \<Rightarrow> bool" for days C where
  tick: "t \<le> t' \<Longrightarrow> guarded_step days C (g, h, t) (g, h, t')"
| refused: "check_allowed_for_user today t user g = (Err e, g') \<Longrightarrow> days today \<Longrightarrow>
    guarded_step days C (g, h, t) (g', h, t)"
| call: "check_allowed_for_user today t user g = (Ok (), g1) \<Longrightarrow> days today \<Longrightarrow> t \<le> t' \<Longrightarrow>
    record_llm_call_for_user today t' user model u g1 = (c, g') \<Longrightarrow> 0 \<le> c \<Longrightarrow> c \<le> C \<Longrightarrow>
    guarded_step days C (g, h, t) (g', h @ [t'], t')"

section \<open>Lemmas\<close>

text \<open>A limit in cents as dollars.\<close>

definition cents :: "u64 \<Rightarrow> rat" where "cents L = of_int (uint L) / 100"

lemma cents_nonneg [simp]: "0 \<le> cents L"
proof -
  have "(0 :: rat) \<le> of_int (uint L)" by (simp only: of_int_0_le_iff uint_nonnegative)
  then show ?thesis unfolding cents_def by (intro divide_nonneg_nonneg) simp_all
qed

lemma to_cents_below:
  assumes "0 \<le> x" and "x * 100 < 2 ^ 64" and "to_cents x < L"
  shows "x < cents L"
proof -
  have "floor (x * 100) < 2 ^ 64" using assms(2) by (simp add: floor_less_iff)
  moreover have "0 \<le> floor (x * 100)" using assms(1) by simp
  ultimately have "uint (word_of_int (floor (x * 100)) :: u64) = floor (x * 100)"
    by (simp add: uint_word_of_int)
  with assms have "floor (x * 100) < uint L"
    by (simp add: to_cents_def trunc_rat_def Let_def word_less_def \<open>floor (x * 100) < 2 ^ 64\<close>)
  then show ?thesis by (simp add: floor_less_iff cents_def field_simps)
qed

lemma add_daily_frame [simp]:
  "cg_config (add_daily c g) = cg_config g" "cg_window (add_daily c g) = cg_window g"
  "cg_per_user (add_daily c g) = cg_per_user g"
  "cg_daily (add_daily c g) = (cg_daily g)\<lparr>dc_total := dc_total (cg_daily g) + c\<rparr>"
  by (simp_all add: add_daily_def Let_def split: option.split)

lemma add_model_frame [simp]:
  "cg_config (add_model_tokens m u c g) = cg_config g" "cg_window (add_model_tokens m u c g) = cg_window g"
  "cg_per_user (add_model_tokens m u c g) = cg_per_user g" "cg_daily (add_model_tokens m u c g) = cg_daily g"
  by (simp_all add: add_model_tokens_def Let_def)

lemma roll_frame [simp]:
  "cg_config (roll_day today g) = cg_config g" "cg_window (roll_day today g) = cg_window g"
  by (simp_all add: roll_day_def)

lemma add_user_frame [simp]:
  "cg_config (add_user_cost today user c g) = cg_config g" "cg_window (add_user_cost today user c g) = cg_window g"
  "cg_daily (add_user_cost today user c g) = cg_daily g"
  by (simp_all add: add_user_cost_def Let_def)

lemma add_user_cong:
  "cg_per_user x = cg_per_user y \<Longrightarrow>
   cg_per_user (add_user_cost today user c x) = cg_per_user (add_user_cost today user c y)"
  by (simp add: add_user_cost_def Let_def)

lemma record_frame:
  assumes "record_llm_call_for_user today now user model u g = (c, g')"
  shows "c = call_cost model u \<and> cg_config g' = cg_config g \<and> cg_window g' = cg_window g @ [now]
     \<and> cg_daily g' = (cg_daily (roll_day today g))\<lparr>dc_total := dc_total (cg_daily (roll_day today g)) + c\<rparr>
     \<and> cg_per_user g' = cg_per_user (add_user_cost today user c (roll_day today g))"
proof -
  have eq: "c = call_cost model u" "g' = add_user_cost today user c (snd (record_llm_call today now model u g))"
    using assms by (auto simp: record_llm_call_for_user_def record_llm_call_def Let_def)
  moreover have "cg_per_user (add_user_cost today user c (snd (record_llm_call today now model u g)))
      = cg_per_user (add_user_cost today user c (roll_day today g))"
    by (rule add_user_cong) (simp add: record_llm_call_def Let_def)
  ultimately show ?thesis by (simp add: record_llm_call_def Let_def)
qed

lemma check_frame:
  "check_allowed_for_user today now user g = (r, g') \<Longrightarrow>
     cg_config g' = cg_config g \<and> cg_daily g' = cg_daily g \<and> cg_per_user g' = cg_per_user g
     \<and> (cg_window g' = cg_window g \<or> cg_window g' = drain_window now (cg_window g))
     \<and> (cg_budget_exceeded g \<longrightarrow> cg_budget_exceeded g' \<and> \<not> is_ok r)"
  by (auto simp: check_allowed_for_user_def cost_check_allowed_def check_budget_def check_rate_def Let_def
      split: option.splits prod.splits sum.splits if_splits)

lemma check_ok:
  assumes "check_allowed_for_user today now user g = (Ok (), g')"
  shows "cg_max_cost_per_day_cents (cg_config g) = Some L \<Longrightarrow> to_cents (dc_total (cg_daily g)) < L"
    and "cg_max_cost_per_user_per_day_cents (cg_config g) = Some U \<Longrightarrow> hm_get (cg_per_user g) user = Some e \<Longrightarrow>
          dc_reset_date e = today \<Longrightarrow> to_cents (dc_total e) < U"
    and "cg_max_actions_per_hour (cg_config g) = Some n \<Longrightarrow>
          cg_window g' = drain_window now (cg_window g) \<and> word_of_nat (length (cg_window g')) < n"
  using assms
  by (auto simp: check_allowed_for_user_def cost_check_allowed_def check_budget_def check_rate_def Let_def not_le
      split: option.splits prod.splits sum.splits if_splits)

section \<open>Properties\<close>

definition spend_inv :: "int \<Rightarrow> rat \<Rightarrow> cost_guard_config \<Rightarrow> cost_guard \<Rightarrow> bool" where
  "spend_inv today C cfg g \<longleftrightarrow> cg_config g = cfg \<and> hm_wf (cg_per_user g) \<and> dc_reset_date (cg_daily g) = today
     \<and> 0 \<le> dc_total (cg_daily g)
     \<and> (\<forall>L. cg_max_cost_per_day_cents cfg = Some L \<longrightarrow> dc_total (cg_daily g) < cents L + C \<or> dc_total (cg_daily g) = 0)
     \<and> (\<forall>user e. hm_get (cg_per_user g) user = Some e \<longrightarrow> dc_reset_date e = today \<and> 0 \<le> dc_total e
          \<and> (\<forall>U. cg_max_cost_per_user_per_day_cents cfg = Some U \<longrightarrow>
               dc_total e < cents U + C \<or> (U = 0 \<and> dc_total e \<le> C)))"

definition limits_fit :: "rat \<Rightarrow> cost_guard_config \<Rightarrow> bool" where
  "limits_fit C cfg \<longleftrightarrow> 0 \<le> C
     \<and> (\<forall>L. cg_max_cost_per_day_cents cfg = Some L \<longrightarrow> 100 * (cents L + C) < 2 ^ 64)
     \<and> (\<forall>U. cg_max_cost_per_user_per_day_cents cfg = Some U \<longrightarrow> 100 * (cents U + C) < 2 ^ 64)"

lemma limit_after_call:
  assumes "0 \<le> x" and "x \<le> cents L + C" and "100 * (cents L + C) < 2 ^ 64"
    and "to_cents x < L" and "c \<le> C"
  shows "x + c < cents L + C"
  using to_cents_below [OF assms(1) _ assms(4)] assms by simp

lemma cents_0 [simp]: "cents 0 = 0"
  by (simp add: cents_def)

lemma cents_pos: "0 < cents U" if "U \<noteq> 0"
proof -
  have "0 < uint U" using that by (simp add: word_neq_0_conv word_less_def)
  then have "(0 :: rat) < of_int (uint U)" by (simp only: of_int_0_less_iff)
  then show ?thesis unfolding cents_def by (rule divide_pos_pos) simp
qed

lemma spend_inv_step:
  assumes "guarded_step (\<lambda>d. d = today) C (g, h, t) (g', h', t')" and "limits_fit C cfg" and "spend_inv today C cfg g"
  shows "spend_inv today C cfg g'"
  using assms(1)
proof (cases rule: guarded_step.cases)
  case (refused day user e)
  then show ?thesis using check_frame [OF refused(3)] assms(3) by (simp add: spend_inv_def)
next
  case (call day user g1 model u c)
  note chk = check_frame [OF call(2)] and ok = check_ok [OF call(2)] and rec = record_frame [OF call(5)]
  have inv1: "spend_inv today C cfg g1" using chk assms(3) by (simp add: spend_inv_def)
  then have roll: "roll_day day g1 = g1" using call(3) by (simp add: spend_inv_def roll_day_def)
  have daily: "dc_total (cg_daily g1) + c < cents L + C" if "cg_max_cost_per_day_cents cfg = Some L" for L
  proof (rule limit_after_call [OF _ _ _ _ call(7)])
    show "to_cents (dc_total (cg_daily g1)) < L" using ok(1) [of L] that chk assms(3) by (simp add: spend_inv_def)
    show "dc_total (cg_daily g1) \<le> cents L + C" "100 * (cents L + C) < 2 ^ 64" "0 \<le> dc_total (cg_daily g1)"
      using that inv1 assms(2) by (auto simp: spend_inv_def limits_fit_def)
  qed
  have user: "dc_total e + c < cents U + C"
    if "cg_max_cost_per_user_per_day_cents cfg = Some U" "hm_get (cg_per_user g1) user = Some e" for U e
  proof (rule limit_after_call [OF _ _ _ _ call(7)])
    have e: "dc_reset_date e = today" "0 \<le> dc_total e" "dc_total e < cents U + C \<or> (U = 0 \<and> dc_total e \<le> C)"
      using that inv1 by (auto simp: spend_inv_def)
    show "to_cents (dc_total e) < U" using ok(2) [of U e] that chk assms(3) e(1) call(3) by (simp add: spend_inv_def)
    show "100 * (cents U + C) < 2 ^ 64" using that assms(2) by (auto simp: limits_fit_def)
    show "dc_total e \<le> cents U + C" using e(3) cents_nonneg [of U] by auto
    show "0 \<le> dc_total e" by (rule e(2))
  qed
  have first: "c < cents U + C \<or> (U = 0 \<and> c \<le> C)" for U :: u64
    using call(7) cents_pos [of U] by (cases "U = 0") auto
  show ?thesis
    using inv1 rec roll daily user first call(3,6)
    by (auto simp: spend_inv_def add_user_cost_def Let_def hm_simps hm.wf_put split: option.splits if_splits)
qed (use assms(3) in simp)

text \<open>
  C15. Overspending is less than one call: when calls are made one after another through the
  guard on one day, and none costs more than \<open>C\<close>, the day's spending is less than the daily
  limit plus \<open>C\<close> (or nothing was spent), and so is each user's under the user limit, but
  for a user limit of zero, which lets a first call pass.
\<close>

theorem spending_bounded:
  assumes "limits_fit C cfg" and "(guarded_step (\<lambda>d. d = today) C)\<^sup>*\<^sup>* (cost_guard_new today cfg, [], t0) (g, h, t)"
  shows "(\<forall>L. cg_max_cost_per_day_cents cfg = Some L \<longrightarrow>
          daily_spend today g < cents L + C \<or> daily_spend today g = 0)
     \<and> (\<forall>U user. cg_max_cost_per_user_per_day_cents cfg = Some U \<longrightarrow>
          daily_spend_for_user today user g < cents U + C \<or> (U = 0 \<and> daily_spend_for_user today user g \<le> C))"
proof -
  have "spend_inv today C cfg (fst (g, h, t))"
    using assms(2)
  proof (induction rule: rtranclp_induct)
    case base
    show ?case using assms(1)
      by (auto simp: spend_inv_def limits_fit_def cost_guard_new_def hm_wf_def hm_get_def)
  next
    case (step s s')
    then show ?case using spend_inv_step [OF _ assms(1)] by (metis prod.collapse)
  qed
  moreover have "0 < cents U + C \<or> (U = 0 \<and> 0 \<le> C)" for U :: u64
    using assms(1) cents_pos [of U] by (cases "U = 0") (auto simp: limits_fit_def add_pos_nonneg)
  ultimately show ?thesis
    by (auto simp: spend_inv_def daily_spend_def daily_spend_for_user_def split: option.splits)
qed

text \<open>
  Two calls of sixty cents on a budget of a dollar: the second is let through at sixty cents
  and takes the spending over the limit, and the third is refused.
\<close>

definition sixty_cents :: llm_usage where
  "sixty_cents = \<lparr>lu_input_tokens = 60, lu_output_tokens = 0, lu_cache_read_input_tokens = 0,
     lu_cache_creation_input_tokens = 0, lu_cache_read_discount = 1, lu_cache_write_multiplier = 1,
     lu_cost_per_token = Some (1 / 100, 0)\<rparr>"

definition dollar_config :: cost_guard_config where
  "dollar_config = \<lparr>cg_max_cost_per_day_cents = Some 100, cg_max_actions_per_hour = None,
     cg_max_cost_per_user_per_day_cents = Some 100\<rparr>"

lemma spending_bounded_witness:
  "\<exists>g t. (guarded_step (\<lambda>d. d = 3) (3 / 5))\<^sup>*\<^sup>* (cost_guard_new 3 dollar_config, [], 0) (g, [1, 2], t)
     \<and> daily_spend 3 g = 6 / 5 \<and> daily_spend 3 g < cents 100 + 3 / 5
     \<and> \<not> is_ok (fst (check_allowed_for_user 3 t ''u'' g))"
proof -
  let ?g0 = "cost_guard_new 3 dollar_config"
  let ?g1 = "snd (record_llm_call_for_user 3 1 ''u'' ''m'' sixty_cents ?g0)"
  let ?g2 = "snd (record_llm_call_for_user 3 2 ''u'' ''m'' sixty_cents ?g1)"
  have cost: "call_cost ''m'' sixty_cents = 3 / 5"
    by (simp add: call_cost_def sixty_cents_def rat_of_u32_def sat_add_def sat_sub_def)
  note eval = record_llm_call_for_user_def record_llm_call_def cost roll_day_def add_daily_def add_model_tokens_def
    add_user_cost_def dollar_config_def cost_guard_new_def to_cents_def trunc_rat_def Let_def hm_get_def
  have ok0: "check_allowed_for_user 3 0 ''u'' ?g0 = (Ok (), ?g0)"
    by (simp add: check_allowed_for_user_def cost_check_allowed_def check_budget_def check_rate_def eval)
  have "guarded_step (\<lambda>d. d = 3) (3 / 5) (?g0, [], 0) (?g1, [] @ [1], 1)"
    by (rule guarded_step.call [OF ok0 refl, where t' = 1 and model = "''m''" and u = sixty_cents and c = "3 / 5"])
      (simp_all add: record_llm_call_for_user_def record_llm_call_def Let_def cost)
  moreover have ok1: "check_allowed_for_user 3 1 ''u'' ?g1 = (Ok (), ?g1)"
    by (simp add: check_allowed_for_user_def cost_check_allowed_def check_budget_def check_rate_def eval)
  have "guarded_step (\<lambda>d. d = 3) (3 / 5) (?g1, [1], 1) (?g2, [1] @ [2], 2)"
    by (rule guarded_step.call [OF ok1 refl, where t' = 2 and model = "''m''" and u = sixty_cents and c = "3 / 5"])
      (simp_all add: record_llm_call_for_user_def record_llm_call_def Let_def cost)
  ultimately have run: "(guarded_step (\<lambda>d. d = 3) (3 / 5))\<^sup>*\<^sup>* (?g0, [], 0) (?g2, [1, 2], 2)" by simp
  have spent: "daily_spend 3 ?g2 = 6 / 5" by (simp add: daily_spend_def eval)
  have over: "\<not> is_ok (fst (check_allowed_for_user 3 2 ''u'' ?g2))"
    by (simp add: check_allowed_for_user_def cost_check_allowed_def check_budget_def eval)
  have "limits_fit (3 / 5) dollar_config" by (simp add: limits_fit_def dollar_config_def cents_def)
  moreover have "cg_max_cost_per_day_cents dollar_config = Some 100" by (simp add: dollar_config_def)
  ultimately have "daily_spend 3 ?g2 < cents 100 + 3 / 5 \<or> daily_spend 3 ?g2 = 0"
    using spending_bounded [OF _ run] by blast
  then have "daily_spend 3 ?g2 < cents 100 + 3 / 5" by (simp add: spent)
  then show ?thesis using run spent over by blast
qed

definition rate_inv :: "nat \<Rightarrow> guard_run \<Rightarrow> bool" where
  "rate_inv n = (\<lambda>(g, h, t). \<exists>old. h = old @ cg_window g \<and> (\<forall>x \<in> set old. x < t - HOUR_WINDOW)
     \<and> length (cg_window g) \<le> n
     \<and> (\<forall>a. length (filter (\<lambda>x. a \<le> x \<and> x \<le> a + HOUR_WINDOW) h) \<le> n))"

lemma drain_split:
  obtains pre where "w = pre @ drain_window now w" and "\<forall>x \<in> set pre. x < now - HOUR_WINDOW"
proof (cases "now < HOUR_WINDOW")
  case True
  then show ?thesis using that [of "[]"] by (simp add: drain_window_def)
next
  case False
  then show ?thesis using that [of "takeWhile (\<lambda>t. t < now - HOUR_WINDOW) w"]
    by (auto simp: drain_window_def dest: set_takeWhileD)
qed

lemma rate_inv_drain:
  assumes "rate_inv n (g, h, t)" and "cg_window g' = cg_window g \<or> cg_window g' = drain_window t (cg_window g)"
  shows "rate_inv n (g', h, t)"
proof -
  obtain old where old: "h = old @ cg_window g" "\<forall>x \<in> set old. x < t - HOUR_WINDOW" "length (cg_window g) \<le> n"
    using assms(1) by (auto simp: rate_inv_def)
  obtain pre where pre: "cg_window g = pre @ drain_window t (cg_window g)" "\<forall>x \<in> set pre. x < t - HOUR_WINDOW"
    by (rule drain_split)
  have len: "length (drain_window t (cg_window g)) \<le> n" using old(3) pre(1) by (metis le_trans length_append le_add2)
  from assms(2) show ?thesis
  proof
    assume "cg_window g' = drain_window t (cg_window g)"
    then show ?thesis using assms(1) old(1,2) pre len
      by (auto simp: rate_inv_def intro!: exI [of _ "old @ pre"])
  qed (use assms(1) in \<open>simp add: rate_inv_def\<close>)
qed

lemma rate_inv_push:
  assumes "rate_inv n (g, h, t)" and "length (cg_window g) < n" and "t \<le> t'" and "cg_window g' = cg_window g @ [t']"
  shows "rate_inv n (g', h @ [t'], t')"
proof -
  obtain old where old: "h = old @ cg_window g" "\<forall>x \<in> set old. x < t - HOUR_WINDOW"
      "\<And>a. length (filter (\<lambda>x. a \<le> x \<and> x \<le> a + HOUR_WINDOW) h) \<le> n"
    using assms(1) by (auto simp: rate_inv_def)
  have "length (filter (\<lambda>x. a \<le> x \<and> x \<le> a + HOUR_WINDOW) (h @ [t'])) \<le> n" for a
  proof (cases "a \<le> t' \<and> t' \<le> a + HOUR_WINDOW")
    case True
    then have "filter (\<lambda>x. a \<le> x \<and> x \<le> a + HOUR_WINDOW) old = []"
      using old(2) assms(3) by (fastforce simp: filter_empty_conv)
    moreover have "length (filter (\<lambda>x. a \<le> x \<and> x \<le> a + HOUR_WINDOW) (cg_window g)) < n"
      by (rule le_less_trans [OF length_filter_le assms(2)])
    ultimately show ?thesis using assms(2) True old(1) by simp
  next
    case False
    then show ?thesis using old(3) [of a] by auto
  qed
  moreover have "\<forall>x \<in> set old. x < t' - HOUR_WINDOW" using old(2) assms(3) by fastforce
  ultimately show ?thesis using old(1) assms(2,4) by (auto simp: rate_inv_def intro!: exI [of _ old])
qed

lemma rate_inv_step:
  assumes "guarded_step days C (g, h, t) (g', h', t')" and "rate_inv (unat n) (g, h, t)" and
    "cg_max_actions_per_hour (cg_config g) = Some n"
  shows "rate_inv (unat n) (g', h', t') \<and> cg_config g' = cg_config g"
  using assms(1)
proof (cases rule: guarded_step.cases)
  case tick
  then show ?thesis using assms(2) by (fastforce simp: rate_inv_def)
next
  case (refused day user e)
  then show ?thesis using check_frame [OF refused(3)] rate_inv_drain [OF assms(2)] by auto
next
  case (call day user g1 model u c)
  note chk = check_frame [OF call(2)] and rec = record_frame [OF call(5)]
  have inv1: "rate_inv (unat n) (g1, h, t)" using chk rate_inv_drain [OF assms(2)] by auto
  have lt: "word_of_nat (length (cg_window g1)) < n" using check_ok(3) [OF call(2) assms(3)] by (rule conjunct2)
  have "length (cg_window g1) \<le> unat n" using inv1 by (auto simp: rate_inv_def)
  then have "unat (word_of_nat (length (cg_window g1)) :: u64) = length (cg_window g1)"
    using unat_of_nat_below [of "length (cg_window g1)" n] by (cases "length (cg_window g1) = unat n") auto
  then have "length (cg_window g1) < unat n" using lt by (simp add: word_less_nat_alt)
  from rate_inv_push [OF inv1 this call(4)] rec chk call(1) show ?thesis by simp
qed

text \<open>
  The hourly limit is a sliding one: when calls are made one after another through the
  guard, no period of an hour, wherever it starts, holds more recorded calls than the limit.
\<close>

theorem hourly_rate_bounded:
  assumes "cg_max_actions_per_hour cfg = Some n"
    and "(guarded_step days C)\<^sup>*\<^sup>* (cost_guard_new today cfg, [], t0) (g, h, t)"
  shows "length (filter (\<lambda>x. a \<le> x \<and> x \<le> a + HOUR_WINDOW) h) \<le> unat n"
proof -
  have "rate_inv (unat n) (g, h, t) \<and> cg_config (fst (g, h, t)) = cfg"
    using assms(2)
  proof (induction rule: rtranclp_induct)
    case base
    show ?case by (simp add: rate_inv_def cost_guard_new_def)
  next
    case (step s s')
    obtain g1 h1 t1 g2 h2 t2 where ss: "s = (g1, h1, t1)" "s' = (g2, h2, t2)" by (metis prod.exhaust)
    with step assms(1) rate_inv_step [of days C g1 h1 t1 g2 h2 t2 n] show ?case by simp
  qed
  then show ?thesis by (auto simp: rate_inv_def)
qed

definition sample_guard_config :: cost_guard_config where
  "sample_guard_config = \<lparr>cg_max_cost_per_day_cents = Some 100, cg_max_actions_per_hour = Some 5,
     cg_max_cost_per_user_per_day_cents = None\<rparr>"

lemma hourly_rate_bounded_witness:
  "length (filter (\<lambda>x. (0 :: time) \<le> x \<and> x \<le> 0 + HOUR_WINDOW) []) \<le> unat (5 :: u64)"
  by (rule hourly_rate_bounded [where cfg = sample_guard_config and n = 5 and today = 3 and t0 = 0
        and days = "\<lambda>_. True" and C = 0, OF _ rtranclp.rtrancl_refl])
    (simp add: sample_guard_config_def)

text \<open>
  C16. Once the daily budget has been exceeded the guard never lets another call through: the
  flag is only cleared by recording a call, and a guarded call is only recorded after a check
  that the flag fails, so the lock-out survives every change of day although the new day's
  spending is zero.
\<close>

theorem budget_lockout:
  assumes "cg_budget_exceeded g" and "(guarded_step days C)\<^sup>*\<^sup>* (g, h, t) (g', h', t')"
  shows "h' = h \<and> cg_daily g' = cg_daily g \<and> (\<forall>today user. \<not> is_ok (fst (check_allowed_for_user today t' user g')))
     \<and> (dc_reset_date (cg_daily g) < today' \<longrightarrow> daily_spend today' g' = 0)"
proof -
  have "h' = h \<and> cg_daily g' = cg_daily g \<and> cg_budget_exceeded g'"
    using assms(2)
  proof (induction "(g', h', t')" arbitrary: g' h' t' rule: rtranclp_induct)
    case base
    show ?case using assms(1) by simp
  next
    case (step s)
    obtain g1 h1 t1 where s: "s = (g1, h1, t1)" by (metis prod.exhaust)
    with step(3) have 1: "h1 = h" "cg_daily g1 = cg_daily g" "cg_budget_exceeded g1" by auto
    from step(2) show ?case unfolding s
    proof (cases rule: guarded_step.cases)
      case (refused day user e)
      then show ?thesis using check_frame [OF refused(3)] 1 by simp
    next
      case (call day user g2 model u c)
      then show ?thesis using check_frame [OF call(2)] 1 by simp
    qed (use 1 in simp)
  qed
  moreover have "\<not> is_ok (fst (check_allowed_for_user today t' user g'))" if "cg_budget_exceeded g'" for today user
    using check_frame [of today t' user g'] that by (metis prod.collapse)
  ultimately show ?thesis by (auto simp: daily_spend_def)
qed

lemma budget_lockout_witness:
  "\<not> is_ok (fst (check_allowed_for_user 1000 (secs 7) ''u''
      (snd (record_llm_call 3 0 ''gpt-4'' \<lparr>lu_input_tokens = 100000, lu_output_tokens = 0,
         lu_cache_read_input_tokens = 0, lu_cache_creation_input_tokens = 0, lu_cache_read_discount = 1,
         lu_cache_write_multiplier = 1, lu_cost_per_token = Some (1 / 10, 0)\<rparr>
         (cost_guard_new 3 sample_guard_config)))))"
proof -
  let ?u = "\<lparr>lu_input_tokens = 100000, lu_output_tokens = 0, lu_cache_read_input_tokens = 0,
    lu_cache_creation_input_tokens = 0, lu_cache_read_discount = 1, lu_cache_write_multiplier = 1,
    lu_cost_per_token = Some (1 / 10, 0)\<rparr> :: llm_usage"
  let ?g = "snd (record_llm_call 3 0 ''gpt-4'' ?u (cost_guard_new 3 sample_guard_config))"
  have cost: "call_cost ''gpt-4'' ?u = 10000"
    by (simp add: call_cost_def rat_of_u32_def sat_add_def sat_sub_def)
  have "cg_budget_exceeded ?g"
    by (simp add: record_llm_call_def cost roll_day_def add_daily_def add_model_tokens_def cost_guard_new_def
        sample_guard_config_def to_cents_def trunc_rat_def Let_def)
  moreover have "(guarded_step (\<lambda>_. True) 0)\<^sup>*\<^sup>* (?g, [], 0) (?g, [], secs 7)"
    by (rule r_into_rtranclp) (rule guarded_step.tick, simp add: secs_def)
  ultimately show ?thesis using budget_lockout [of ?g "\<lambda>_. True" 0 "[]" 0 ?g "[]" "secs 7"] by blast
qed

end
