(* ===== verification/Llm_Message.thy ===== *)
theory Llm_Message
  imports Engine_Types "HOL-Library.List_Lexorder" "HOL-Library.Char_ord"
begin

text \<open>
  Chat messages and tool calls as the language-model layer sees them (\<open>src/llm/provider.rs\<close>), and
  the shared helpers of \<open>src/util.rs\<close> that work on them: message constructors, generated tool-call
  identifiers, the repair of orphaned tool results, removal of unsupported parameters and the
  canonical form of JSON values.
\<close>

section \<open>Messages\<close>

datatype role = SystemRole | UserRole | AssistantRole | ToolRole

record image_url =
  iu_url :: string
  iu_detail :: "string option"

datatype content_part = TextPart string | ImageUrlPart image_url

record tool_call =
  tc_id :: string
  tc_name :: string
  tc_arguments :: json
  tc_reasoning :: "string option"

record chat_message =
  cm_role :: role
  cm_content :: string
  cm_content_parts :: "content_part list"
  cm_tool_call_id :: "string option"
  cm_name :: "string option"
  cm_tool_calls :: "tool_call list option"

record tool_definition =
  td_name :: string
  td_description :: string
  td_parameters :: json

datatype finish_reason = FinishStop | FinishLength | FinishToolUse | FinishContentFilter | FinishUnknown

definition chat_system :: "string \<Rightarrow> chat_message" where
  "chat_system content = \<lparr>cm_role = SystemRole, cm_content = content, cm_content_parts = [],
     cm_tool_call_id = None, cm_name = None, cm_tool_calls = None\<rparr>"

definition chat_user :: "string \<Rightarrow> chat_message" where
  "chat_user content = \<lparr>cm_role = UserRole, cm_content = content, cm_content_parts = [],
     cm_tool_call_id = None, cm_name = None, cm_tool_calls = None\<rparr>"

definition user_with_parts :: "string \<Rightarrow> content_part list \<Rightarrow> chat_message" where
  "user_with_parts content parts = (chat_user content)\<lparr>cm_content_parts := parts\<rparr>"

definition chat_assistant :: "string \<Rightarrow> chat_message" where
  "chat_assistant content = \<lparr>cm_role = AssistantRole, cm_content = content, cm_content_parts = [],
     cm_tool_call_id = None, cm_name = None, cm_tool_calls = None\<rparr>"

definition assistant_with_tool_calls :: "string option \<Rightarrow> tool_call list \<Rightarrow> chat_message" where
  "assistant_with_tool_calls content calls =
     (chat_assistant (case content of Some c \<Rightarrow> c | None \<Rightarrow> []))
       \<lparr>cm_tool_calls := (if calls = [] then None else Some calls)\<rparr>"

definition tool_result :: "string \<Rightarrow> string \<Rightarrow> string \<Rightarrow> chat_message" where
  "tool_result call_id name content = \<lparr>cm_role = ToolRole, cm_content = content, cm_content_parts = [],
     cm_tool_call_id = Some call_id, cm_name = Some name, cm_tool_calls = None\<rparr>"

definition ensure_ends_with_user_message :: "chat_message list \<Rightarrow> chat_message list" where
  "ensure_ends_with_user_message messages =
     (if messages \<noteq> [] \<and> cm_role (last messages) = UserRole then messages
      else messages @ [chat_user ''Continue.''])"

lemma ensure_ends_with_user_message_spec:
  "cm_role (last (ensure_ends_with_user_message ms)) = UserRole
   \<and> ensure_ends_with_user_message ms \<noteq> []
   \<and> ensure_ends_with_user_message (ensure_ends_with_user_message ms) = ensure_ends_with_user_message ms"
  by (simp add: ensure_ends_with_user_message_def chat_user_def)

section \<open>Small normalisations\<close>

definition normalize_openai_image_detail :: "string option \<Rightarrow> string" where
  "normalize_openai_image_detail detail =
     (case detail of
        None \<Rightarrow> ''auto''
      | Some d \<Rightarrow>
          let t = map ascii_lower (trim d)
          in if t \<in> {''auto'', ''low'', ''high''} then t else ''auto'')"

definition normalized_model_override :: "string option \<Rightarrow> string option" where
  "normalized_model_override model =
     (case map_option trim model of
        None \<Rightarrow> None
      | Some m \<Rightarrow> if m \<noteq> [] \<and> map ascii_lower m \<noteq> ''default'' then Some m else None)"

definition effective_model_name :: "string \<Rightarrow> string option \<Rightarrow> string" where
  "effective_model_name active requested =
     (case normalized_model_override requested of Some m \<Rightarrow> m | None \<Rightarrow> active)"

section \<open>Requests\<close>

text \<open>A temperature is the 32 bits of its \<open>f32\<close>.\<close>

record completion_request =
  cr_messages :: "chat_message list"
  cr_model :: "string option"
  cr_max_tokens :: "u32 option"
  cr_temperature :: "u32 option"
  cr_stop_sequences :: "string list option"
  cr_metadata :: "(string, string) hmap"

record tool_completion_request =
  tr_messages :: "chat_message list"
  tr_tools :: "tool_definition list"
  tr_model :: "string option"
  tr_max_tokens :: "u32 option"
  tr_temperature :: "u32 option"
  tr_stop_sequences :: "string list option"
  tr_tool_choice :: "string option"
  tr_metadata :: "(string, string) hmap"

definition completion_request_new :: "chat_message list \<Rightarrow> completion_request" where
  "completion_request_new messages = \<lparr>cr_messages = messages, cr_model = None, cr_max_tokens = None,
     cr_temperature = None, cr_stop_sequences = None, cr_metadata = []\<rparr>"

definition tool_completion_request_new :: "chat_message list \<Rightarrow> tool_definition list \<Rightarrow> tool_completion_request" where
  "tool_completion_request_new messages tools = \<lparr>tr_messages = messages, tr_tools = tools, tr_model = None,
     tr_max_tokens = None, tr_temperature = None, tr_stop_sequences = None, tr_tool_choice = None,
     tr_metadata = []\<rparr>"

definition take_model_override :: "completion_request \<Rightarrow> string option \<times> completion_request" where
  "take_model_override r = (normalized_model_override (cr_model r), r\<lparr>cr_model := None\<rparr>)"

definition take_tool_model_override :: "tool_completion_request \<Rightarrow> string option \<times> tool_completion_request" where
  "take_tool_model_override r = (normalized_model_override (tr_model r), r\<lparr>tr_model := None\<rparr>)"

datatype unsupported_param = Temperature | MaxTokens | StopSequences

fun param_name :: "unsupported_param \<Rightarrow> string" where
  "param_name Temperature = ''temperature''"
| "param_name MaxTokens = ''max_tokens''"
| "param_name StopSequences = ''stop_sequences''"

definition strip_unsupported_completion_params :: "string list \<Rightarrow> completion_request \<Rightarrow> completion_request" where
  "strip_unsupported_completion_params unsupported r =
     (if unsupported = [] then r else
        let r1 = (if param_name Temperature \<in> set unsupported then r\<lparr>cr_temperature := None\<rparr> else r);
            r2 = (if param_name MaxTokens \<in> set unsupported then r1\<lparr>cr_max_tokens := None\<rparr> else r1)
        in if param_name StopSequences \<in> set unsupported then r2\<lparr>cr_stop_sequences := None\<rparr> else r2)"

definition strip_unsupported_tool_params :: "string list \<Rightarrow> tool_completion_request \<Rightarrow> tool_completion_request" where
  "strip_unsupported_tool_params unsupported r =
     (if unsupported = [] then r else
        let r1 = (if param_name Temperature \<in> set unsupported then r\<lparr>tr_temperature := None\<rparr> else r);
            r2 = (if param_name MaxTokens \<in> set unsupported then r1\<lparr>tr_max_tokens := None\<rparr> else r1)
        in if param_name StopSequences \<in> set unsupported then r2\<lparr>tr_stop_sequences := None\<rparr> else r2)"

section \<open>Generated tool-call identifiers\<close>

definition base62_digit :: "nat \<Rightarrow> char" where
  "base62_digit d =
     (if d \<le> 9 then char_of (48 + d) else if d \<le> 35 then char_of (97 + (d - 10)) else char_of (65 + (d - 36)))"

fun base62 :: "nat \<Rightarrow> u64 \<Rightarrow> string" where
  "base62 0 val = []"
| "base62 (Suc n) val = base62 n (val div 62) @ [base62_digit (unat (val mod 62))]"

definition combine_seeds :: "u64 \<Rightarrow> u64 \<Rightarrow> u64" where
  "combine_seeds a b = a * 6364136223846793005 + b"

definition generate_tool_call_id :: "u64 \<Rightarrow> u64 \<Rightarrow> string" where
  "generate_tool_call_id seed_a seed_b = base62 9 (combine_seeds seed_a seed_b)"

definition RECOVERED_TOOL_CALL_SEED :: u64 where "RECOVERED_TOOL_CALL_SEED = 99"

lemma of_char_base62_digit:
  "d < 62 \<Longrightarrow> (of_char (base62_digit d) :: nat) =
     (if d \<le> 9 then 48 + d else if d \<le> 35 then 87 + d else 29 + d)"
  by (simp add: base62_digit_def)

lemma base62_digit_alnum: "d < 62 \<Longrightarrow> is_ascii_alnum (base62_digit d)"
  by (simp add: is_ascii_alnum_def of_char_base62_digit)

lemma base62_digit_inj: "d < 62 \<Longrightarrow> e < 62 \<Longrightarrow> base62_digit d = base62_digit e \<longleftrightarrow> d = e"
proof -
  assume d: "d < 62" and e: "e < 62"
  have "d = e" if "base62_digit d = base62_digit e"
  proof -
    from that have "(of_char (base62_digit d) :: nat) = of_char (base62_digit e)" by simp
    then show ?thesis unfolding of_char_base62_digit [OF d] of_char_base62_digit [OF e]
      using d e by presburger
  qed
  then show ?thesis by auto
qed

lemma base62_length [simp]: "length (base62 n v) = n"
  by (induction n arbitrary: v) simp_all

lemma base62_alnum: "c \<in> set (base62 n v) \<Longrightarrow> is_ascii_alnum c"
  by (induction n arbitrary: v) (auto simp: base62_digit_alnum unat_mod)

lemma mod_digit_split: "(a::nat) mod (62 * m) = b mod (62 * m) \<longleftrightarrow> a mod 62 = b mod 62 \<and> a div 62 mod m = b div 62 mod m"
proof
  assume eq: "a mod (62 * m) = b mod (62 * m)"
  then have "a mod (62 * m) mod 62 = b mod (62 * m) mod 62" "a mod (62 * m) div 62 = b mod (62 * m) div 62" by simp_all
  then show "a mod 62 = b mod 62 \<and> a div 62 mod m = b div 62 mod m"
    by (simp add: mod_mult2_eq mod_mod_cancel)
qed (simp add: mod_mult2_eq)

lemma base62_eq_iff: "base62 n v = base62 n w \<longleftrightarrow> unat v mod 62 ^ n = unat w mod 62 ^ n"
proof (induction n arbitrary: v w)
  case (Suc n)
  have "base62_digit (unat (v mod 62)) = base62_digit (unat (w mod 62)) \<longleftrightarrow> unat v mod 62 = unat w mod 62"
    by (simp add: unat_mod base62_digit_inj)
  then show ?case using mod_digit_split [of "unat v" "62 ^ n" "unat w"] by (auto simp: Suc unat_div)
qed simp

text \<open>
  A generated identifier is nine ASCII letters and digits, the form the strictest provider
  demands; two identifiers agree exactly when the combined seeds agree modulo \<open>62^9\<close>; and at one
  position the identifier of a call recovered from text differs from that of a provider's call.
\<close>

theorem tool_call_id_spec:
  "length (generate_tool_call_id a b) = 9
   \<and> list_all is_ascii_alnum (generate_tool_call_id a b)
   \<and> (generate_tool_call_id a b = generate_tool_call_id c d
        \<longleftrightarrow> unat (combine_seeds a b) mod 62 ^ 9 = unat (combine_seeds c d) mod 62 ^ 9)
   \<and> generate_tool_call_id a RECOVERED_TOOL_CALL_SEED \<noteq> generate_tool_call_id a 0"
proof -
  let ?x = "unat (combine_seeds a 0)"
  have lt: "?x < 2 ^ 64" using unsigned_less [of "combine_seeds a 0"] by simp
  have sum: "unat (combine_seeds a RECOVERED_TOOL_CALL_SEED) = (?x + 99) mod 2 ^ 64"
    by (simp add: combine_seeds_def RECOVERED_TOOL_CALL_SEED_def unat_word_ariths)
  have "(?x + 99) mod 2 ^ 64 mod 62 ^ 9 \<noteq> ?x mod 62 ^ 9"
  proof (cases "?x + 99 < 2 ^ 64")
    case True
    then show ?thesis using mod_eq_dvd_iff_nat [of ?x "?x + 99" "62 ^ 9"] by simp
  next
    case False
    with lt have "(?x + 99) mod 2 ^ 64 = ?x + 99 - 2 ^ 64" by (simp add: mod_if)
    moreover have "?x - (?x + 99 - 2 ^ 64) = 2 ^ 64 - 99" using False lt by simp
    moreover have "\<not> (62 ^ 9 :: nat) dvd 2 ^ 64 - 99" by simp
    ultimately show ?thesis using mod_eq_dvd_iff_nat [of "?x + 99 - 2 ^ 64" ?x "62 ^ 9"] by simp
  qed
  then show ?thesis
    by (auto simp: generate_tool_call_id_def base62_eq_iff sum list_all_iff dest: base62_alnum)
qed

section \<open>Repair of orphaned tool results\<close>

text \<open>
  The identifiers of all calls assistant messages make, and the rewriting of every tool result
  that names none of them.
\<close>

definition known_ids :: "chat_message list \<Rightarrow> string list" where
  "known_ids messages =
     concat (map (\<lambda>m. case cm_tool_calls m of
                        Some calls \<Rightarrow> if cm_role m = AssistantRole then map tc_id calls else []
                      | None \<Rightarrow> []) messages)"

definition is_orphaned :: "string list \<Rightarrow> chat_message \<Rightarrow> bool" where
  "is_orphaned known m = (case cm_tool_call_id m of Some i \<Rightarrow> i \<notin> set known | None \<Rightarrow> True)"

definition rewrite_orphan :: "chat_message \<Rightarrow> chat_message" where
  "rewrite_orphan m =
     (let tool_name = (case cm_name m of Some n \<Rightarrow> n | None \<Rightarrow> ''unknown'')
      in m\<lparr>cm_role := UserRole,
           cm_content := ''[Tool `'' @ tool_name @ ''` returned: '' @ cm_content m @ '']'',
           cm_tool_call_id := None, cm_name := None\<rparr>)"

definition sanitize_tool_messages :: "chat_message list \<Rightarrow> chat_message list" where
  "sanitize_tool_messages messages =
     (let known = known_ids messages
      in map (\<lambda>m. if cm_role m \<noteq> ToolRole then m
                   else if is_orphaned known m then rewrite_orphan m else m) messages)"

lemma known_ids_sanitize [simp]: "known_ids (sanitize_tool_messages ms) = known_ids ms"
proof -
  have "known_ids (map (\<lambda>m. if cm_role m \<noteq> ToolRole then m
          else if is_orphaned known m then rewrite_orphan m else m) ns) = known_ids ns" for known ns
    by (induction ns) (auto simp: known_ids_def rewrite_orphan_def Let_def split: option.splits)
  then show ?thesis by (simp add: sanitize_tool_messages_def Let_def)
qed

lemma map_eq_self: "map f xs = xs \<longleftrightarrow> (\<forall>x \<in> set xs. f x = x)"
  by (induction xs) auto

lemma known_ids_mem:
  "j \<in> set (known_ids ms) \<longleftrightarrow>
     (\<exists>m \<in> set ms. cm_role m = AssistantRole
        \<and> (\<exists>calls tc. cm_tool_calls m = Some calls \<and> tc \<in> set calls \<and> j = tc_id tc))"
proof (induction ms)
  case Nil
  show ?case by (simp add: known_ids_def)
next
  case (Cons m ms)
  have "set (known_ids (m # ms)) = set (known_ids [m]) \<union> set (known_ids ms)" by (simp add: known_ids_def)
  moreover have "j \<in> set (known_ids [m]) \<longleftrightarrow> cm_role m = AssistantRole
        \<and> (\<exists>calls tc. cm_tool_calls m = Some calls \<and> tc \<in> set calls \<and> j = tc_id tc)"
    by (cases "cm_tool_calls m") (auto simp: known_ids_def)
  ultimately show ?case using Cons by (simp only: Un_iff) (simp only: list.set bex_simps)
qed

text \<open>
  Sanitizing keeps every message in its place, leaves all but tool results as they are, and
  afterwards every tool result names a call that an assistant message of the conversation makes.
  The text of a rewritten result is kept inside the new message, a conversation with no orphan is
  unchanged, and sanitizing twice is sanitizing once.
\<close>

theorem sanitize_spec:
  "let out = sanitize_tool_messages ms in
     length out = length ms
     \<and> (\<forall>i < length ms.
          (cm_role (ms ! i) \<noteq> ToolRole \<longrightarrow> out ! i = ms ! i)
          \<and> (cm_role (out ! i) = ToolRole \<longrightarrow>
               out ! i = ms ! i \<and> (\<exists>m \<in> set out. cm_role m = AssistantRole
                 \<and> (\<exists>calls tc. cm_tool_calls m = Some calls \<and> tc \<in> set calls \<and> cm_tool_call_id (out ! i) = Some (tc_id tc))))
          \<and> contains_str (cm_content (out ! i)) (cm_content (ms ! i)))
     \<and> (out = ms \<longleftrightarrow> (\<forall>m \<in> set ms. cm_role m = ToolRole \<longrightarrow> \<not> is_orphaned (known_ids ms) m))
     \<and> sanitize_tool_messages out = out"
proof -
  let ?out = "sanitize_tool_messages ms" and ?known = "known_ids ms"
  let ?f = "\<lambda>m. if cm_role m \<noteq> ToolRole then m else if is_orphaned ?known m then rewrite_orphan m else m"
  have out: "?out = map ?f ms" by (simp add: sanitize_tool_messages_def Let_def)
  have known: "\<exists>m \<in> set ?out. cm_role m = AssistantRole
      \<and> (\<exists>calls tc. cm_tool_calls m = Some calls \<and> tc \<in> set calls \<and> j = tc_id tc)" if "j \<in> set ?known" for j
  proof -
    from that have "j \<in> set (known_ids ?out)" by simp
    then show ?thesis by (simp only: known_ids_mem)
  qed
  have kept: "contains_str (cm_content (?f m)) (cm_content m)" for m
  proof -
    have "\<exists>a b. cm_content (?f m) = a @ cm_content m @ b"
    proof (cases "cm_role m = ToolRole \<and> is_orphaned ?known m")
      case True
      let ?n = "case cm_name m of Some n \<Rightarrow> n | None \<Rightarrow> ''unknown''"
      have "cm_content (?f m) = (''[Tool `'' @ ?n @ ''` returned: '') @ cm_content m @ '']''"
        using True by (simp add: rewrite_orphan_def Let_def)
      then show ?thesis by blast
    next
      case False
      then have "cm_content (?f m) = [] @ cm_content m @ []" by auto
      then show ?thesis by blast
    qed
    then show ?thesis by (simp add: contains_str_iff)
  qed
  have role: "cm_role (rewrite_orphan m) = UserRole" for m by (simp add: rewrite_orphan_def Let_def)
  have fixed: "?f m = m \<longleftrightarrow> \<not> (cm_role m = ToolRole \<and> is_orphaned ?known m)" for m
    using role [of m] by auto
  have same: "?out = ms \<longleftrightarrow> (\<forall>m \<in> set ms. cm_role m = ToolRole \<longrightarrow> \<not> is_orphaned ?known m)"
    unfolding out map_eq_self fixed by blast
  have "sanitize_tool_messages ?out = map ?f ?out"
    by (simp only: sanitize_tool_messages_def [of ?out] known_ids_sanitize Let_def)
  also have "\<dots> = ?out"
    unfolding out map_map by (rule map_cong) (auto simp: role)
  finally have idem: "sanitize_tool_messages ?out = ?out" .
  have each: "(cm_role (ms ! i) \<noteq> ToolRole \<longrightarrow> ?out ! i = ms ! i)
      \<and> (cm_role (?out ! i) = ToolRole \<longrightarrow> ?out ! i = ms ! i \<and> (\<exists>m \<in> set ?out. cm_role m = AssistantRole
          \<and> (\<exists>calls tc. cm_tool_calls m = Some calls \<and> tc \<in> set calls \<and> cm_tool_call_id (?out ! i) = Some (tc_id tc))))
      \<and> contains_str (cm_content (?out ! i)) (cm_content (ms ! i))" if "i < length ms" for i
  proof -
    have nth: "?out ! i = ?f (ms ! i)" using that by (simp add: out)
    have tool: "?out ! i = ms ! i \<and> (\<exists>m \<in> set ?out. cm_role m = AssistantRole
        \<and> (\<exists>calls tc. cm_tool_calls m = Some calls \<and> tc \<in> set calls \<and> cm_tool_call_id (?out ! i) = Some (tc_id tc)))"
      if "cm_role (?out ! i) = ToolRole"
    proof -
      from that have fx: "?out ! i = ms ! i" "\<not> is_orphaned ?known (ms ! i)"
        unfolding nth using role by (simp_all split: if_splits)
      from fx(2) obtain j where j: "cm_tool_call_id (ms ! i) = Some j" "j \<in> set ?known"
        by (auto simp: is_orphaned_def split: option.splits)
      from known [OF j(2)] show ?thesis unfolding fx(1) j(1) by simp
    qed
    have "contains_str (cm_content (?out ! i)) (cm_content (ms ! i))" unfolding nth by (rule kept)
    moreover have "?out ! i = ms ! i" if "cm_role (ms ! i) \<noteq> ToolRole" using that by (simp add: nth)
    ultimately show ?thesis using tool by blast
  qed
  show ?thesis unfolding Let_def using each same idem by (simp add: out)
qed

lemma sanitize_spec_witness:
  "sanitize_tool_messages [chat_user ''hi'', tool_result ''7'' ''shell'' ''ok''] ! 1
     = chat_user ''[Tool `shell` returned: ok]''
   \<and> contains_str (cm_content (sanitize_tool_messages [chat_user ''hi'', tool_result ''7'' ''shell'' ''ok''] ! 1)) ''ok''"
proof -
  let ?ms = "[chat_user ''hi'', tool_result ''7'' ''shell'' ''ok'']"
  have "contains_str (cm_content (sanitize_tool_messages ?ms ! 1)) (cm_content (?ms ! 1))"
    using sanitize_spec [of ?ms, unfolded Let_def, THEN conjunct2, THEN conjunct1, rule_format, of 1] by simp
  moreover have "sanitize_tool_messages ?ms ! 1 = chat_user ''[Tool `shell` returned: ok]''" by code_simp
  ultimately show ?thesis by (simp add: tool_result_def)
qed

section \<open>Canonical JSON\<close>

text \<open>
  Objects with their members sorted by key, recursively. \<open>serde_json\<close> objects have distinct keys,
  so sorting the keys and looking each up is sorting the members.
\<close>

fun canonicalize_json_value :: "json \<Rightarrow> json" where
  "canonicalize_json_value (JArray items) = JArray (map canonicalize_json_value items)"
| "canonicalize_json_value (JObject obj) =
     JObject (sort_key fst (map (\<lambda>(k, v). (k, canonicalize_json_value v)) obj))"
| "canonicalize_json_value v = v"

text \<open>
  The value a JSON text denotes: an object is the finite map of its members, whatever their
  order. Numbers of different representations (\<open>1\<close> and \<open>1.0\<close>) are different values, as they
  are for \<open>serde_json\<close>.
\<close>

datatype json_value = VNull | VBool bool | VNumber json_number | VString string
  | VArray "json_value list" | VObject "string \<Rightarrow> json_value option"

fun meaning :: "json \<Rightarrow> json_value" where
  "meaning JNull = VNull"
| "meaning (JBool b) = VBool b"
| "meaning (JNumber q) = VNumber q"
| "meaning (JString s) = VString s"
| "meaning (JArray items) = VArray (map meaning items)"
| "meaning (JObject obj) = VObject (map_of (map (\<lambda>(k, v). (k, meaning v)) obj))"

fun json_wf :: "json \<Rightarrow> bool" where
  "json_wf (JArray items) = (\<forall>v \<in> set items. json_wf v)"
| "json_wf (JObject obj) = (distinct (map fst obj) \<and> (\<forall>kv \<in> set obj. json_wf (snd kv)))"
| "json_wf v = True"

lemma fst_comp_members [simp]: "fst \<circ> (\<lambda>(k, v). (k, f v)) = fst"
  by auto

lemma map_fst_snd_fun: "map fst (map (\<lambda>(k, v). (k, f v)) obj) = map fst obj"
  by simp

lemma sort_members_distinct: "distinct (map fst obj) \<Longrightarrow> distinct (map fst (sort_key fst obj))"
  by (metis distinct_map distinct_sort inj_on_def set_sort)

lemma sort_members_unique:
  assumes "distinct (map fst xs)" and "distinct (map fst ys)" and "set xs = set ys"
  shows "sort_key fst xs = sort_key fst ys"
proof (rule map_sorted_distinct_set_unique [of fst])
  show "inj_on fst (set (sort_key fst xs) \<union> set (sort_key fst ys))" using assms by (simp add: distinct_map)
qed (use assms in \<open>simp_all add: sort_members_distinct\<close>)

lemma meaning_canonicalize: "json_wf v \<Longrightarrow> meaning (canonicalize_json_value v) = meaning v"
proof (induction v rule: canonicalize_json_value.induct)
  case (2 obj)
  let ?c = "map (\<lambda>(k, v). (k, canonicalize_json_value v)) obj"
  let ?m = "\<lambda>(k :: string, v). (k, meaning v)"
  have d: "distinct (map fst ?c)" using 2(2) by simp
  have "map ?m ?c = map ?m obj" using 2 by (auto simp: map_idI)
  moreover have "map_of (map ?m (sort_key fst ?c)) = map_of (map ?m ?c)"
    using sort_members_distinct [OF d] d by (intro map_of_inject_set [THEN iffD2]) (simp_all only: map_fst_snd_fun set_map set_sort)
  ultimately show ?case by (simp only: canonicalize_json_value.simps meaning.simps)
qed auto

lemma canonicalize_wf: "json_wf v \<Longrightarrow> json_wf (canonicalize_json_value v)"
  by (induction v rule: canonicalize_json_value.induct) (auto intro!: sort_members_distinct)

lemma meaning_scalarD:
  "VNull = meaning w \<Longrightarrow> w = JNull"
  "VBool b = meaning w \<Longrightarrow> w = JBool b"
  "VNumber q = meaning w \<Longrightarrow> w = JNumber q"
  "VString s = meaning w \<Longrightarrow> w = JString s"
  by (cases w; simp)+

lemma canonicalize_of_meaning:
  "json_wf v \<Longrightarrow> json_wf w \<Longrightarrow> meaning v = meaning w \<Longrightarrow> canonicalize_json_value v = canonicalize_json_value w"
proof (induction v arbitrary: w rule: canonicalize_json_value.induct)
  case (1 items)
  then obtain ws where w: "w = JArray ws" by (cases w) auto
  with 1(4) have "list_all2 (\<lambda>a b. meaning a = meaning b) items ws"
    by (simp add: list_all2_conv_all_nth list_eq_iff_nth_eq)
  then have "list_all2 (\<lambda>a b. canonicalize_json_value a = canonicalize_json_value b) items ws"
    by (rule list.rel_mono_strong) (use 1 w in auto)
  then show ?case by (simp add: w list_all2_conv_all_nth list_eq_iff_nth_eq)
next
  case (2 obj)
  then obtain ws where w: "w = JObject ws" by (cases w) auto
  let ?m = "\<lambda>(k :: string, v). (k, meaning v)" and ?c = "\<lambda>(k :: string, v). (k, canonicalize_json_value v)"
  have d: "distinct (map fst obj)" "distinct (map fst ws)" using 2 w by auto
  have "map_of (map ?m obj) = map_of (map ?m ws)" using 2(4) w by simp
  then have ms: "?m ` set obj = ?m ` set ws" using d map_of_inject_set [of "map ?m obj" "map ?m ws"] by simp
  have eq: "canonicalize_json_value v = canonicalize_json_value v'"
    if "(k, v) \<in> set obj" "(k, v') \<in> set ws" "meaning v = meaning v'" for k v v'
  proof (rule 2(1) [of "(k, v)" k v])
    show "json_wf v" "json_wf v'" using 2(2,3) w that(1,2) by force+
  qed (use that in simp_all)
  have "?c kv \<in> ?c ` set ws" if "kv \<in> set obj" for kv
  proof -
    obtain k v where kv: "kv = (k, v)" by (cases kv)
    with that have "(k, meaning v) \<in> ?m ` set ws" unfolding ms [symmetric] by force
    then obtain v' where v': "(k, v') \<in> set ws" "meaning v = meaning v'" by auto
    from eq [OF that [unfolded kv] v'] v'(1) kv show ?thesis by force
  qed
  moreover have "?c kv \<in> ?c ` set obj" if "kv \<in> set ws" for kv
  proof -
    obtain k v' where kv: "kv = (k, v')" by (cases kv)
    with that have "(k, meaning v') \<in> ?m ` set obj" unfolding ms by force
    then obtain v where v: "(k, v) \<in> set obj" "meaning v = meaning v'" by auto
    from eq [OF v(1) that [unfolded kv] v(2)] v(1) kv show ?thesis by force
  qed
  ultimately have "?c ` set obj = ?c ` set ws" by blast
  then show ?case using d by (simp add: w) (rule sort_members_unique, simp_all)
qed (auto dest: meaning_scalarD)

text \<open>
  C23. The canonical form denotes the same value and depends on nothing but the value: two JSON
  values have the same canonical form exactly when they denote the same value, however their
  members are ordered; numbers written as an integer and as a float stay apart. Canonicalizing
  twice is canonicalizing once.
\<close>

theorem canonical_iff_same_value:
  assumes "json_wf v" and "json_wf w"
  shows "(canonicalize_json_value v = canonicalize_json_value w \<longleftrightarrow> meaning v = meaning w)
     \<and> meaning (canonicalize_json_value v) = meaning v
     \<and> canonicalize_json_value (canonicalize_json_value v) = canonicalize_json_value v"
  using canonicalize_of_meaning [OF assms] meaning_canonicalize [OF assms(1)] meaning_canonicalize [OF assms(2)]
    canonicalize_of_meaning [OF canonicalize_wf [OF assms(1)] assms(1)] by metis

lemma canonical_iff_same_value_witness:
  "canonicalize_json_value (JObject [(''b'', JNull), (''a'', JBool True)])
   = canonicalize_json_value (JObject [(''a'', JBool True), (''b'', JNull)])"
proof -
  have "meaning (JObject [(''b'', JNull), (''a'', JBool True)]) = meaning (JObject [(''a'', JBool True), (''b'', JNull)])"
    by auto
  then show ?thesis
    using canonical_iff_same_value [of "JObject [(''b'', JNull), (''a'', JBool True)]"
        "JObject [(''a'', JBool True), (''b'', JNull)]"] by simp
qed

end
