(* ===== verification/Response_Cache.thy ===== *)
theory Response_Cache
  imports Llm_Error Keyed_Store Llm_Message
begin

text \<open>
  The response cache around a provider (\<open>src/llm/response_cache.rs\<close>). A request is a lookup
  under the lock, then, on a miss, the call without the lock and a store under the lock, with
  the clock reading of the lookup. The step relation interleaves lookups and stores of
  several requests freely; its log records what the provider answered. The digest of a
  request and the serialization of its messages are parameters; \<open>'r\<close> is the type of responses.
\<close>

record response_cache_config =
  rc_ttl :: time
  rc_max_entries :: nat

definition response_cache_config_default :: response_cache_config where
  "response_cache_config_default = \<lparr>rc_ttl = secs 3600, rc_max_entries = 1000\<rparr>"

record 'r cache_entry =
  ce_response :: 'r
  ce_created_at :: time
  ce_last_accessed :: time
  ce_hit_count :: u64

record 'r response_cache =
  rc_cache :: "(string, 'r cache_entry) hmap"
  rc_request_count :: u64
  rc_total_hit_count :: u64

definition response_cache_new :: "'r response_cache" where
  "response_cache_new = \<lparr>rc_cache = [], rc_request_count = 0, rc_total_hit_count = 0\<rparr>"

definition rc_clear :: "'r response_cache \<Rightarrow> 'r response_cache" where
  "rc_clear c = c\<lparr>rc_cache := []\<rparr>"

text \<open>
  The bytes that are hashed: the model, the serialized messages (nothing, when serializing
  fails) and the parameters that affect the response, separated by bars.
\<close>

definition le_bytes :: "u32 \<Rightarrow> string" where
  "le_bytes w = map (\<lambda>i. char_of (unat w div 256 ^ i)) [0..<4]"

definition cache_key ::
  "(string \<Rightarrow> string) \<Rightarrow> (chat_message list \<Rightarrow> string option) \<Rightarrow> string \<Rightarrow> completion_request \<Rightarrow> string" where
  "cache_key sha256 to_json model r =
     sha256 (model @ ''|'' @ (case to_json (cr_messages r) of Some js \<Rightarrow> js | None \<Rightarrow> []) @ ''|''
       @ (case cr_max_tokens r of Some n \<Rightarrow> le_bytes n | None \<Rightarrow> []) @ ''|''
       @ (case cr_temperature r of Some n \<Rightarrow> le_bytes n | None \<Rightarrow> []) @ ''|''
       @ (case cr_stop_sequences r of Some stops \<Rightarrow> concat (map (\<lambda>s. s @ [CHR 0x00]) stops) | None \<Rightarrow> []))"

definition request_key ::
  "(string \<Rightarrow> string) \<Rightarrow> (chat_message list \<Rightarrow> string option) \<Rightarrow> string \<Rightarrow> completion_request \<Rightarrow> string" where
  "request_key sha256 to_json active r =
     cache_key sha256 to_json (effective_model_name active (cr_model r)) r"

text \<open>\<open>Instant::duration_since\<close> saturates at zero.\<close>

definition fresh :: "response_cache_config \<Rightarrow> time \<Rightarrow> 'r cache_entry \<Rightarrow> bool" where
  "fresh cfg now e = (max 0 (now - ce_created_at e) < rc_ttl cfg)"

definition rc_lookup ::
  "response_cache_config \<Rightarrow> time \<Rightarrow> string \<Rightarrow> 'r response_cache \<Rightarrow> 'r option \<times> 'r response_cache" where
  "rc_lookup cfg now key c =
     (let c1 = c\<lparr>rc_request_count := rc_request_count c + 1\<rparr>
      in (case hm_get (rc_cache c1) key of
            None \<Rightarrow> (None, c1)
          | Some entry \<Rightarrow>
              if fresh cfg now entry
              then (Some (ce_response entry),
                    c1\<lparr>rc_cache := hm_insert (rc_cache c1) key
                          (entry\<lparr>ce_last_accessed := now, ce_hit_count := ce_hit_count entry + 1\<rparr>),
                       rc_total_hit_count := rc_total_hit_count c1 + 1\<rparr>)
              else (None, c1\<lparr>rc_cache := hm_remove (rc_cache c1) key\<rparr>)))"

text \<open>\<open>min_by_key\<close> over the entries: the first with the least access time.\<close>

fun oldest_key :: "(string, 'r cache_entry) hmap \<Rightarrow> (string \<times> time) option" where
  "oldest_key [] = None"
| "oldest_key ((k, e) # m) =
     (case oldest_key m of
        None \<Rightarrow> Some (k, ce_last_accessed e)
      | Some (k', t) \<Rightarrow> if ce_last_accessed e \<le> t then Some (k, ce_last_accessed e) else Some (k', t))"

lemma oldest_key_mem:
  "oldest_key m = Some (k, t) \<Longrightarrow> \<exists>e. (k, e) \<in> set m \<and> ce_last_accessed e = t
     \<and> (\<forall>(k', e') \<in> set m. t \<le> ce_last_accessed e')"
proof (induction m arbitrary: k t rule: oldest_key.induct)
  case (2 k0 e0 m)
  show ?case
  proof (cases "oldest_key m")
    case None
    then have "m = []" by (cases m rule: oldest_key.cases) (auto split: option.splits if_splits)
    with 2 show ?thesis by simp
  next
    case (Some kt)
    obtain k' t' where kt: "kt = (k', t')" by fastforce
    from 2(1) [of k' t'] Some kt obtain e where
      "(k', e) \<in> set m" "ce_last_accessed e = t'" "\<forall>(k', e') \<in> set m. t' \<le> ce_last_accessed e'" by auto
    with 2(2) Some kt show ?thesis by (cases "ce_last_accessed e0 \<le> t'") fastforce+
  qed
qed simp

lemma oldest_key_None: "oldest_key m = None \<longleftrightarrow> m = []"
  by (cases m rule: oldest_key.cases) (auto split: option.splits if_splits)

lemma remove_shorter: "(k, e) \<in> set m \<Longrightarrow> length (hm_remove m k) < length m"
  unfolding hm_remove_def by (rule length_filter_less) auto

function evict_lru :: "nat \<Rightarrow> (string, 'r cache_entry) hmap \<Rightarrow> (string, 'r cache_entry) hmap" where
  "evict_lru max_entries m =
     (if length m < max_entries then m
      else (case oldest_key m of None \<Rightarrow> m | Some (k, _) \<Rightarrow> evict_lru max_entries (hm_remove m k)))"
  by pat_completeness auto
termination
  by (relation "measure (\<lambda>(n, m). length m)") (auto dest: oldest_key_mem intro: remove_shorter)

declare evict_lru.simps [simp del]

definition rc_store ::
  "response_cache_config \<Rightarrow> time \<Rightarrow> string \<Rightarrow> 'r \<Rightarrow> 'r response_cache \<Rightarrow> 'r response_cache" where
  "rc_store cfg now key response c =
     (let m = evict_lru (rc_max_entries cfg) (hm_retain (rc_cache c) (\<lambda>_ e. fresh cfg now e))
      in c\<lparr>rc_cache := hm_insert m key
             \<lparr>ce_response = response, ce_created_at = now, ce_last_accessed = now, ce_hit_count = 0\<rparr>\<rparr>)"

text \<open>One request run without interruption.\<close>

definition cached_complete ::
  "response_cache_config \<Rightarrow> ('s \<Rightarrow> time) \<Rightarrow> string \<Rightarrow> ('s, 'r) provider \<Rightarrow> ('r response_cache \<times> 's, 'r) provider" where
  "cached_complete cfg clk key inner = (\<lambda>(c, s).
     case rc_lookup cfg (clk s) key c of
       (Some r, c1) \<Rightarrow> (Ok r, (c1, s))
     | (None, c1) \<Rightarrow>
         (case inner s of
            (Inl e, s1) \<Rightarrow> (Err e, (c1, s1))
          | (Inr r, s1) \<Rightarrow> (Ok r, (rc_store cfg (clk s) key r c1, s1))))"

section \<open>Interleaved requests\<close>

type_synonym 'r answers = "(string \<times> 'r \<times> time) list"

inductive cache_step :: "response_cache_config \<Rightarrow> 'r response_cache \<times> 'r answers \<Rightarrow> 'r response_cache \<times> 'r answers \<Rightarrow> bool"
  for cfg where
  lookup: "cache_step cfg (c, as) (snd (rc_lookup cfg now key c), as)"
| store: "cache_step cfg (c, as) (rc_store cfg now key r c, (key, r, now) # as)"
| clear: "cache_step cfg (c, as) (rc_clear c, as)"

section \<open>Lemmas\<close>

lemma oldest_key_get:
  assumes "oldest_key m = Some (k, t)" and "hm_wf m"
  shows "\<exists>e. hm_get m k = Some e \<and> (\<forall>k' e'. hm_get m k' = Some e' \<longrightarrow> ce_last_accessed e \<le> ce_last_accessed e')"
  using oldest_key_mem [OF assms(1)] assms(2) by (fastforce simp: hm_entry_get)

lemma hm_length_remove: "hm_wf m \<Longrightarrow> hm_get m k \<noteq> None \<Longrightarrow> Suc (length (hm_remove m k)) = length m"
proof (induction m)
  case (Cons kv m)
  obtain k' v where kv: "kv = (k', v)" by fastforce
  show ?case
  proof (cases "k' = k")
    case True
    then have "k \<notin> fst ` set m" using Cons.prems kv by (simp add: hm_wf_def)
    then have "hm_remove m k = m" by (auto simp: hm_remove_def filter_id_conv image_iff)
    then show ?thesis using kv True by (simp add: hm_remove_def)
  next
    case False
    then show ?thesis using Cons kv by (auto simp: hm_remove_def hm_get_def hm_wf_def)
  qed
qed (simp add: hm_get_def)

text \<open>
  What eviction leaves: the most recently used entries, exactly one fewer than the capacity
  when it had to evict.
\<close>

definition lru_result :: "nat \<Rightarrow> (string, 'r cache_entry) hmap \<Rightarrow> (string, 'r cache_entry) hmap \<Rightarrow> bool" where
  "lru_result n m m' \<longleftrightarrow> hm_wf m' \<and> length m' = (if length m < n then length m else n - 1)
     \<and> (\<forall>k e. hm_get m' k = Some e \<longrightarrow> hm_get m k = Some e)
     \<and> (\<forall>k e k' e'. hm_get m k = Some e \<longrightarrow> hm_get m' k = None \<longrightarrow> hm_get m' k' = Some e'
          \<longrightarrow> ce_last_accessed e \<le> ce_last_accessed e')"

lemma lru_remove:
  assumes "hm_wf m" and "oldest_key m = Some (k, t)" and "\<not> length m < n" and "lru_result n (hm_remove m k) m'"
  shows "lru_result n m m'"
proof -
  obtain e where e: "hm_get m k = Some e" "\<And>k' e'. hm_get m k' = Some e' \<Longrightarrow> ce_last_accessed e \<le> ce_last_accessed e'"
    using oldest_key_get [OF assms(2,1)] by blast
  have len: "Suc (length (hm_remove m k)) = length m" using hm_length_remove [OF assms(1)] e(1) by simp
  have kept: "hm_get m k' = Some e'" if "hm_get m' k' = Some e'" for k' e'
  proof -
    have "hm_get (hm_remove m k) k' = Some e'" using assms(4) that by (simp add: lru_result_def)
    then show ?thesis by (simp add: hm_simps split: if_splits)
  qed
  have "ce_last_accessed e1 \<le> ce_last_accessed e'"
    if a: "hm_get m k1 = Some e1" "hm_get m' k1 = None" "hm_get m' k' = Some e'" for k1 e1 k' e'
  proof (cases "k1 = k")
    case True
    then show ?thesis using a(1) e kept [OF a(3)] by auto
  next
    case False
    then have "hm_get (hm_remove m k) k1 = Some e1" using a(1) by (simp add: hm_simps)
    with assms(4) a(2,3) show ?thesis unfolding lru_result_def by blast
  qed
  with assms(3,4) kept len show ?thesis by (auto simp: lru_result_def)
qed

lemma evict_lru_spec: "hm_wf m \<Longrightarrow> lru_result n m (evict_lru n m)"
proof (induction n m rule: evict_lru.induct)
  case (1 n m)
  show ?case
  proof (cases "length m < n \<or> m = []")
    case True
    then have "evict_lru n m = m" by (auto simp: evict_lru.simps [of n m] oldest_key_None)
    then show ?thesis using True 1(2) by (auto simp: lru_result_def hm_get_def)
  next
    case False
    then obtain k t where k: "oldest_key m = Some (k, t)" using oldest_key_None by (metis not_None_eq old.prod.exhaust)
    have "lru_result n (hm_remove m k) (evict_lru n (hm_remove m k))"
      using 1(1) [OF _ k refl] False hm.wf_del [OF 1(2)] by blast
    then show ?thesis
      using lru_remove [OF 1(2) k] False k by (simp add: evict_lru.simps [of n m])
  qed
qed

lemma lru_sub: "lru_result n m m' \<Longrightarrow> hm_get m' k = Some e \<Longrightarrow> hm_get m k = Some e"
  by (simp add: lru_result_def)

lemma lru_order:
  "lru_result n m m' \<Longrightarrow> hm_get m k = Some e \<Longrightarrow> hm_get m' k = None \<Longrightarrow> hm_get m' k' = Some e' \<Longrightarrow>
   ce_last_accessed e \<le> ce_last_accessed e'"
  unfolding lru_result_def by blast

lemma evict_lru_fits: "length m < n \<Longrightarrow> evict_lru n m = m"
  by (simp add: evict_lru.simps)

lemma rc_store_get:
  assumes "hm_wf (rc_cache c)" and "hm_get (rc_cache (rc_store cfg now key r c)) k = Some e"
  shows "(k = key \<and> ce_response e = r \<and> ce_created_at e = now) \<or> (k \<noteq> key \<and> hm_get (rc_cache c) k = Some e)"
proof -
  have "lru_result (rc_max_entries cfg) (hm_retain (rc_cache c) (\<lambda>_ e. fresh cfg now e))
      (evict_lru (rc_max_entries cfg) (hm_retain (rc_cache c) (\<lambda>_ e. fresh cfg now e)))"
    by (rule evict_lru_spec) (rule hm.wf_keep [OF assms(1)])
  from lru_sub [OF this, of k e] show ?thesis
    using assms by (auto simp: rc_store_def Let_def hm_simps hm_get_retain_Some split: if_splits)
qed

definition cache_inv :: "response_cache_config \<Rightarrow> 'r response_cache \<times> 'r answers \<Rightarrow> bool" where
  "cache_inv cfg = (\<lambda>(c, as). hm_wf (rc_cache c) \<and> length (rc_cache c) \<le> max 1 (rc_max_entries cfg)
     \<and> (\<forall>k e. hm_get (rc_cache c) k = Some e \<longrightarrow> (k, ce_response e, ce_created_at e) \<in> set as))"

lemma cache_inv_store:
  assumes "cache_inv cfg (c, as)"
  shows "cache_inv cfg (rc_store cfg now key r c, (key, r, now) # as)"
proof -
  have wf: "hm_wf (rc_cache c)" using assms by (simp add: cache_inv_def)
  let ?m = "hm_retain (rc_cache c) (\<lambda>_ e. fresh cfg now e)"
  have res: "lru_result (rc_max_entries cfg) ?m (evict_lru (rc_max_entries cfg) ?m)"
    by (rule evict_lru_spec) (rule hm.wf_keep [OF wf])
  have "length (rc_cache (rc_store cfg now key r c)) \<le> Suc (length (evict_lru (rc_max_entries cfg) ?m))"
    by (simp add: rc_store_def Let_def hm.size_put)
  moreover have "length (evict_lru (rc_max_entries cfg) ?m) \<le> rc_max_entries cfg - 1"
    using res by (auto simp: lru_result_def split: if_splits)
  moreover have "hm_wf (rc_cache (rc_store cfg now key r c))"
    using res by (simp add: rc_store_def Let_def hm.wf_put lru_result_def)
  ultimately show ?thesis
    using assms rc_store_get [OF wf] by (fastforce simp: cache_inv_def)
qed

lemma cache_inv_lookup:
  assumes "cache_inv cfg (c, as)"
  shows "cache_inv cfg (snd (rc_lookup cfg now key c), as)"
proof -
  have "length (hm_remove (rc_cache c) key) \<le> length (rc_cache c)" by (simp add: hm_remove_def)
  then show ?thesis using assms
    by (auto simp: cache_inv_def rc_lookup_def Let_def hm_simps hm.wf_put hm.wf_del hm.size_put
        split: option.splits if_splits)
qed

lemma cache_inv_step: "cache_step cfg s s' \<Longrightarrow> cache_inv cfg s \<Longrightarrow> cache_inv cfg s'"
proof (induction rule: cache_step.induct)
  case (clear c as)
  then show ?case by (simp add: cache_inv_def rc_clear_def hm_get_def hm_wf_def)
qed (rule cache_inv_lookup cache_inv_store, assumption)+

section \<open>Properties\<close>

text \<open>
  C17. What the cache serves under any interleaving of requests: a hit is a response the
  provider itself gave to a request with the same key, started less than the time to live
  ago; it does not reach the provider; and the cache never holds more than \<open>max_entries\<close>
  entries (one, when \<open>max_entries\<close> is zero).
\<close>

theorem cache_hits_fresh:
  assumes "(cache_step cfg)\<^sup>*\<^sup>* (response_cache_new, []) (c, as)"
  shows "length (rc_cache c) \<le> max 1 (rc_max_entries cfg)
     \<and> (\<forall>r c'. rc_lookup cfg now key c = (Some r, c') \<longrightarrow> (\<exists>t. (key, r, t) \<in> set as \<and> max 0 (now - t) < rc_ttl cfg)
          \<and> cached_complete cfg (\<lambda>_. now) key inner (c, s) = (Ok r, (c', s)))"
proof -
  have inv: "cache_inv cfg (c, as)"
    using assms
  proof (induction rule: rtranclp_induct)
    case base
    show ?case by (simp add: cache_inv_def response_cache_new_def hm_get_def hm_wf_def)
  qed (rule cache_inv_step)
  have "\<exists>t. (key, r, t) \<in> set as \<and> max 0 (now - t) < rc_ttl cfg" if "rc_lookup cfg now key c = (Some r, c')" for r c'
    using that inv by (auto simp: rc_lookup_def Let_def cache_inv_def fresh_def split: option.splits if_splits)
  then show ?thesis using inv by (auto simp: cache_inv_def cached_complete_def)
qed

text \<open>
  Eviction is least recently used: when a store evicts, every entry it drops that had not
  expired was last used no later than every entry it keeps, it keeps
  \<open>max_entries - 1\<close> of the fresh entries, and it changes none of them.
\<close>

theorem cache_evicts_lru:
  assumes "hm_wf (rc_cache c)" and "m' = evict_lru (rc_max_entries cfg) (hm_retain (rc_cache c) (\<lambda>_ e. fresh cfg now e))"
  shows "rc_cache (rc_store cfg now key r c) = hm_insert m' key
       \<lparr>ce_response = r, ce_created_at = now, ce_last_accessed = now, ce_hit_count = 0\<rparr>
     \<and> (\<forall>k e. hm_get m' k = Some e \<longrightarrow> hm_get (rc_cache c) k = Some e \<and> fresh cfg now e)
     \<and> (\<forall>k e k' e'. hm_get (rc_cache c) k = Some e \<and> fresh cfg now e \<and> hm_get m' k = None \<and> hm_get m' k' = Some e'
          \<longrightarrow> ce_last_accessed e \<le> ce_last_accessed e')
     \<and> (length m' < rc_max_entries cfg - 1 \<longrightarrow> (\<forall>k e. hm_get (rc_cache c) k = Some e \<and> fresh cfg now e \<longrightarrow> hm_get m' k = Some e))"
proof -
  let ?m = "hm_retain (rc_cache c) (\<lambda>_ e. fresh cfg now e)"
  have res: "lru_result (rc_max_entries cfg) ?m m'"
    unfolding assms(2) by (rule evict_lru_spec) (rule hm.wf_keep [OF assms(1)])
  have get: "hm_get ?m k = Some e \<longleftrightarrow> hm_get (rc_cache c) k = Some e \<and> fresh cfg now e" for k e
    by (rule hm_get_retain_Some [OF assms(1)])
  have "length m' = (if length ?m < rc_max_entries cfg then length ?m else rc_max_entries cfg - 1)"
    using res by (simp add: lru_result_def)
  then have all: "m' = ?m" if "length m' < rc_max_entries cfg - 1"
    using that assms(2) evict_lru_fits [of ?m "rc_max_entries cfg"] by (simp split: if_splits)
  show ?thesis
  proof (intro conjI allI impI)
    show "rc_cache (rc_store cfg now key r c) = hm_insert m' key
        \<lparr>ce_response = r, ce_created_at = now, ce_last_accessed = now, ce_hit_count = 0\<rparr>"
      by (simp add: rc_store_def Let_def assms(2))
    fix k e assume "hm_get m' k = Some e"
    from lru_sub [OF res this] show "hm_get (rc_cache c) k = Some e" "fresh cfg now e" by (auto simp: get)
  next
    fix k e k' e'
    assume a: "hm_get (rc_cache c) k = Some e \<and> fresh cfg now e \<and> hm_get m' k = None \<and> hm_get m' k' = Some e'"
    then show "ce_last_accessed e \<le> ce_last_accessed e'" using lru_order [OF res, of k e k' e'] get by simp
  next
    fix k e assume "length m' < rc_max_entries cfg - 1" and "hm_get (rc_cache c) k = Some e \<and> fresh cfg now e"
    then show "hm_get m' k = Some e" using all get by simp
  qed
qed

definition sample_cache :: "nat response_cache" where
  "sample_cache = rc_store response_cache_config_default 5 ''k'' 42 response_cache_new"

lemma sample_cache_reached: "(cache_step response_cache_config_default)\<^sup>*\<^sup>* (response_cache_new, []) (sample_cache, [(''k'', 42, 5)])"
  unfolding sample_cache_def by (rule r_into_rtranclp) (rule cache_step.store)

lemma cache_hits_fresh_witness:
  "\<exists>t. (''k'', 42, t) \<in> set [(''k'', 42 :: nat, 5 :: time)] \<and> max 0 (9 - t) < secs 3600"
proof -
  obtain c' where "rc_lookup response_cache_config_default 9 ''k'' sample_cache = (Some 42, c')"
    by (simp add: sample_cache_def rc_lookup_def rc_store_def Let_def hm_simps fresh_def response_cache_config_default_def secs_def)
  with cache_hits_fresh [OF sample_cache_reached, of 9 "''k''" "\<lambda>u. (Err (LlmIo []), u)" "()"]
  have "\<exists>t. (''k'', 42, t) \<in> set [(''k'', 42 :: nat, 5 :: time)] \<and> max 0 (9 - t) < rc_ttl response_cache_config_default"
    by blast
  then show ?thesis by (simp add: response_cache_config_default_def)
qed

lemma cache_evicts_lru_witness:
  "rc_cache (rc_store response_cache_config_default 9 ''j'' 7 sample_cache)
     = hm_insert (evict_lru (rc_max_entries response_cache_config_default) (hm_retain (rc_cache sample_cache) (\<lambda>_ e. fresh response_cache_config_default 9 e))) ''j''
         \<lparr>ce_response = 7, ce_created_at = 9, ce_last_accessed = 9, ce_hit_count = 0\<rparr>"
proof -
  have "cache_inv response_cache_config_default (response_cache_new :: nat response_cache, [])"
    by (simp add: cache_inv_def response_cache_new_def hm_get_def hm_wf_def)
  from cache_inv_store [OF this, of 5 "''k''" 42] have "hm_wf (rc_cache sample_cache)"
    by (simp add: cache_inv_def sample_cache_def)
  from cache_evicts_lru [OF this refl, of response_cache_config_default 9 "''j''" 7] show ?thesis
    by (rule conjunct1)
qed

end
