(* ===== verification/Network_Policy.thy ===== *)
theory Network_Policy
  imports Text
begin

text \<open>
  The two allowlists for outgoing requests: domains of the sandbox proxy
  (\<open>src/sandbox/proxy/allowlist.rs\<close>) and endpoints of WASM tools
  (\<open>src/tools/wasm/allowlist.rs\<close>, \<open>EndpointPattern\<close> of \<open>src/tools/wasm/capabilities.rs\<close>). The URL
  parser and the percent decoder are libraries: a parsed URL is a record, and
  \<open>parse\<close> and \<open>decode\<close> are parameters. Paths and hosts are ASCII, as the parser returns them.
\<close>

section \<open>Domains of the sandbox proxy\<close>

record domain_pattern =
  dp_pattern :: string
  dp_is_wildcard :: bool
  dp_base_domain :: string

definition domain_pattern_new :: "string \<Rightarrow> domain_pattern" where
  "domain_pattern_new pattern =
     (let is_wildcard = starts_with pattern ''*.''
      in \<lparr>dp_pattern = pattern, dp_is_wildcard = is_wildcard,
          dp_base_domain = map ascii_lower (if is_wildcard then drop 2 pattern else pattern)\<rparr>)"

definition domain_matches :: "domain_pattern \<Rightarrow> string \<Rightarrow> bool" where
  "domain_matches p host =
     (let host_lower = map ascii_lower host
      in if dp_is_wildcard p
         then host_lower = dp_base_domain p \<or> ends_with host_lower (''.'' @ dp_base_domain p)
         else host_lower = dp_base_domain p)"

datatype domain_validation_result = DomainAllowed | DomainDenied string

definition domain_is_allowed :: "domain_pattern list \<Rightarrow> string \<Rightarrow> domain_validation_result" where
  "domain_is_allowed patterns host =
     (if patterns = [] then DomainDenied ''empty allowlist''
      else if list_ex (\<lambda>p. domain_matches p host) patterns then DomainAllowed
      else DomainDenied (''host '' @ [CHR 39] @ host @ [CHR 39] @ '' not in allowlist: [''
             @ join '', '' (map dp_pattern patterns) @ '']''))"

definition domain_allowlist_new :: "string list \<Rightarrow> domain_pattern list" where
  "domain_allowlist_new domains = map domain_pattern_new domains"

definition domain_add :: "domain_pattern list \<Rightarrow> string \<Rightarrow> domain_pattern list" where
  "domain_add patterns pattern = patterns @ [domain_pattern_new pattern]"

definition default_allowlist :: "string list" where
  "default_allowlist =
     [''crates.io'', ''static.crates.io'', ''index.crates.io'', ''registry.npmjs.org'', ''proxy.golang.org'',
      ''pypi.org'', ''files.pythonhosted.org'', ''docs.rs'', ''doc.rust-lang.org'', ''nodejs.org'', ''go.dev'',
      ''docs.python.org'', ''github.com'', ''raw.githubusercontent.com'', ''api.github.com'',
      ''codeload.github.com'', ''api.openai.com'', ''api.anthropic.com'', ''api.near.ai'']"

section \<open>Parsed URLs\<close>

record url =
  url_scheme :: string
  url_username :: string
  url_password :: "string option"
  url_host_str :: "string option"
  url_path :: string

definition strip_brackets :: "string \<Rightarrow> string" where
  "strip_brackets h =
     (case strip_prefix ''['' h of
        Some v \<Rightarrow> if ends_with v '']'' then butlast v else h
      | None \<Rightarrow> h)"

definition extract_host :: "(string \<Rightarrow> url option) \<Rightarrow> string \<Rightarrow> string option" where
  "extract_host parse s =
     (case parse s of
        None \<Rightarrow> None
      | Some u \<Rightarrow>
          if url_scheme u \<noteq> ''http'' \<and> url_scheme u \<noteq> ''https'' then None
          else map_option (\<lambda>h. map ascii_lower (strip_brackets h)) (url_host_str u))"

section \<open>Endpoints of WASM tools\<close>

record endpoint_pattern =
  ep_host :: string
  ep_path_prefix :: "string option"
  ep_methods :: "string list"

definition endpoint_host :: "string \<Rightarrow> endpoint_pattern" where
  "endpoint_host host = \<lparr>ep_host = host, ep_path_prefix = None, ep_methods = []\<rparr>"

definition with_path_prefix :: "endpoint_pattern \<Rightarrow> string \<Rightarrow> endpoint_pattern" where
  "with_path_prefix p prefix = p\<lparr>ep_path_prefix := Some prefix\<rparr>"

definition with_methods :: "endpoint_pattern \<Rightarrow> string list \<Rightarrow> endpoint_pattern" where
  "with_methods p methods = p\<lparr>ep_methods := methods\<rparr>"

definition ep_host_matches :: "endpoint_pattern \<Rightarrow> string \<Rightarrow> bool" where
  "ep_host_matches p url_host = (if ep_host p = url_host then True else wildcard_matches (ep_host p) url_host)"

definition ep_matches :: "endpoint_pattern \<Rightarrow> string \<Rightarrow> string \<Rightarrow> string \<Rightarrow> bool" where
  "ep_matches p req_host req_path method =
     (if \<not> ep_host_matches p req_host then False
      else if (case ep_path_prefix p of Some prefix \<Rightarrow> \<not> starts_with req_path prefix | None \<Rightarrow> False) then False
      else if ep_methods p \<noteq> [] \<and> \<not> list_ex (\<lambda>m. map ascii_upper m = map ascii_upper method) (ep_methods p)
      then False
      else True)"

datatype deny_reason =
    InvalidUrl string
  | HostNotAllowed string
  | PathNotAllowed string string
  | MethodNotAllowed string string
  | EmptyAllowlist
  | InsecureScheme string

datatype allowlist_result = EndpointAllowed | EndpointDenied deny_reason

definition is_hexdigit :: "char \<Rightarrow> bool" where
  "is_hexdigit c = (let n = (of_char c :: nat) in
     (48 \<le> n \<and> n \<le> 57) \<or> (65 \<le> n \<and> n \<le> 70) \<or> (97 \<le> n \<and> n \<le> 102))"

fun has_valid_percent_encoding :: "string \<Rightarrow> bool" where
  "has_valid_percent_encoding [] = True"
| "has_valid_percent_encoding (c # s) =
     (if c = CHR ''%''
      then (case s of a # b # s' \<Rightarrow> is_hexdigit a \<and> is_hexdigit b \<and> has_valid_percent_encoding s' | _ \<Rightarrow> False)
      else has_valid_percent_encoding s)"

text \<open>The loop over the raw segments; the result is the stack of kept segments.\<close>

fun normalize_segments :: "(string \<Rightarrow> string option) \<Rightarrow> string list \<Rightarrow> string list \<Rightarrow> string + string list" where
  "normalize_segments decode segments [] = Ok segments"
| "normalize_segments decode segments (raw # rest) =
     (if \<not> has_valid_percent_encoding raw
      then Err (''Invalid percent-encoding in path segment: '' @ raw)
      else (case decode raw of
          None \<Rightarrow> Err (''Invalid percent-encoding in path segment: '' @ raw)
        | Some segment \<Rightarrow>
            if CHR ''/'' \<in> set segment \<or> CHR 92 \<in> set segment
            then Err ''Path segment contains encoded path separator''
            else normalize_segments decode
                   (if segment = [] \<or> segment = ''.'' then segments
                    else if segment = ''..'' then butlast segments
                    else segments @ [segment]) rest))"

definition normalize_path :: "(string \<Rightarrow> string option) \<Rightarrow> string \<Rightarrow> string + string" where
  "normalize_path decode path =
     (case normalize_segments decode [] (split_char (CHR ''/'') path) of
        Inl e \<Rightarrow> Err e
      | Inr segments \<Rightarrow>
          let result = ''/'' @ join ''/'' segments
          in Ok (if length path > 1 \<and> ends_with path ''/'' \<and> \<not> ends_with result ''/'' then result @ ''/'' else result))"

record parsed_url =
  pu_scheme :: string
  pu_host :: string
  pu_path :: string

definition parse_url :: "(string \<Rightarrow> string + url) \<Rightarrow> (string \<Rightarrow> string option) \<Rightarrow> string \<Rightarrow> string + parsed_url" where
  "parse_url parse decode s =
     (case parse s of
        Inl e \<Rightarrow> Err (''URL parse failed: '' @ e)
      | Inr u \<Rightarrow>
          let scheme = map ascii_lower (url_scheme u)
          in if scheme \<noteq> ''http'' \<and> scheme \<noteq> ''https'' then Err (''Unsupported scheme: '' @ scheme)
             else if url_username u \<noteq> [] \<or> url_password u \<noteq> None
             then Err ''URL contains userinfo (@) which is not allowed''
             else (case url_host_str u of
                 None \<Rightarrow> Err ''Empty host''
               | Some host \<Rightarrow>
                   (case normalize_path decode (url_path u) of
                      Inl e \<Rightarrow> Err e
                    | Inr path \<Rightarrow> Ok \<lparr>pu_scheme = scheme, pu_host = map ascii_lower (strip_brackets host), pu_path = path\<rparr>)))"

record allowlist_validator =
  av_patterns :: "endpoint_pattern list"
  av_require_https :: bool

definition allowlist_new :: "endpoint_pattern list \<Rightarrow> allowlist_validator" where
  "allowlist_new patterns = \<lparr>av_patterns = patterns, av_require_https = True\<rparr>"

definition allow_http :: "allowlist_validator \<Rightarrow> allowlist_validator" where
  "allow_http v = v\<lparr>av_require_https := False\<rparr>"

definition validate ::
  "(string \<Rightarrow> string + url) \<Rightarrow> (string \<Rightarrow> string option) \<Rightarrow> allowlist_validator \<Rightarrow> string \<Rightarrow> string \<Rightarrow> allowlist_result" where
  "validate parse decode v s method =
     (if av_patterns v = [] then EndpointDenied EmptyAllowlist
      else (case parse_url parse decode s of
          Inl e \<Rightarrow> EndpointDenied (InvalidUrl e)
        | Inr parsed \<Rightarrow>
            if av_require_https v \<and> pu_scheme parsed \<noteq> ''https'' then EndpointDenied (InsecureScheme (pu_scheme parsed))
            else if list_ex (\<lambda>p. ep_matches p (pu_host parsed) (pu_path parsed) method) (av_patterns v) then EndpointAllowed
            else
              let host_matches = filter (\<lambda>p. ep_host_matches p (pu_host parsed)) (av_patterns v);
                  path_matches = filter (\<lambda>p. ep_path_prefix p = None \<or> starts_with (pu_path parsed)
                                     (case ep_path_prefix p of Some x \<Rightarrow> x | None \<Rightarrow> [])) host_matches
              in if host_matches = [] then EndpointDenied (HostNotAllowed (pu_host parsed))
                 else if path_matches = [] then EndpointDenied (PathNotAllowed (pu_host parsed) (pu_path parsed))
                 else EndpointDenied (MethodNotAllowed method (pu_host parsed))))"

definition host_allowed :: "allowlist_validator \<Rightarrow> string \<Rightarrow> bool" where
  "host_allowed v host = list_ex (\<lambda>p. ep_host_matches p host) (av_patterns v)"

section \<open>Canonical paths\<close>

definition clean_segment :: "string \<Rightarrow> bool" where
  "clean_segment s \<longleftrightarrow> s \<noteq> [] \<and> s \<noteq> ''.'' \<and> s \<noteq> ''..'' \<and> CHR ''/'' \<notin> set s \<and> CHR 92 \<notin> set s"

definition canonical_path :: "string \<Rightarrow> bool" where
  "canonical_path p \<longleftrightarrow> (\<exists>segs t. list_all clean_segment segs \<and> (t = [] \<or> t = ''/'' \<and> segs \<noteq> [])
     \<and> p = ''/'' @ join ''/'' segs @ t)"

lemma normalize_segments_clean:
  "normalize_segments decode segs raws = Ok out \<Longrightarrow> list_all clean_segment segs \<Longrightarrow> list_all clean_segment out"
proof (induction decode segs raws rule: normalize_segments.induct)
  case (2 decode segs raw rest)
  have "list_all clean_segment (butlast segs)" using "2.prems"(2) by (auto simp: list_all_iff dest: in_set_butlastD)
  moreover have "clean_segment s" if "s \<noteq> []" "s \<noteq> ''.''" "s \<noteq> ''..''" "CHR ''/'' \<notin> set s" "CHR 92 \<notin> set s" for s
    using that by (simp add: clean_segment_def)
  ultimately show ?case using 2 by (auto split: if_splits option.splits)
qed simp

lemma join_clean_end: "segs \<noteq> [] \<Longrightarrow> list_all clean_segment segs \<Longrightarrow> \<not> ends_with (join ''/'' segs) ''/''"
proof (induction segs rule: rev_induct)
  case (snoc s segs)
  have "s \<noteq> []" "CHR ''/'' \<notin> set s" using snoc.prems by (auto simp: clean_segment_def)
  then have "last s \<noteq> CHR ''/''" "s \<noteq> []" by (auto dest: last_in_set)
  moreover have "\<exists>pre. join ''/'' (segs @ [s]) = pre @ s" by (cases "segs = []") (auto simp: join_snoc)
  ultimately show ?case by (auto simp: ends_with_iff) (metis last_appendR last_snoc)
qed simp

lemma normalize_canonical:
  assumes "normalize_path decode path = Ok p"
  shows "canonical_path p"
proof -
  obtain segs where segs: "normalize_segments decode [] (split_char (CHR ''/'') path) = Ok segs"
    using assms by (auto simp: normalize_path_def split: sum.splits)
  have clean: "list_all clean_segment segs" by (rule normalize_segments_clean [OF segs]) simp
  have "ends_with (''/'' @ join ''/'' []) ''/''" by (simp add: ends_with_def)
  then have "p = ''/'' @ join ''/'' segs \<or> p = ''/'' @ join ''/'' segs @ ''/'' \<and> segs \<noteq> []"
    using assms segs by (auto simp: normalize_path_def Let_def split: if_splits)
  then show ?thesis using clean unfolding canonical_path_def by (metis append_Nil2)
qed

text \<open>Splitting a canonical path gives its segments, with empty ones at the ends.\<close>

lemma clean_no_slash: "list_all clean_segment segs \<Longrightarrow> w \<in> set segs \<Longrightarrow> CHR ''/'' \<notin> set w"
  by (auto simp: list_all_iff clean_segment_def)

lemma split_canonical:
  assumes "list_all clean_segment segs" and "t = [] \<or> t = ''/'' \<and> segs \<noteq> []"
  shows "split_char (CHR ''/'') (''/'' @ join ''/'' segs @ t) =
    [] # (if segs = [] then [[]] else segs @ (if t = [] then [] else [[]]))"
proof (cases "segs = []")
  case True
  then show ?thesis using assms(2) by auto
next
  case False
  have "split_char (CHR ''/'') (join ''/'' segs) = segs"
    using split_join [OF False] clean_no_slash [OF assms(1)] by blast
  moreover have "split_char (CHR ''/'') (join ''/'' (segs @ [[]])) = segs @ [[]]"
    by (rule split_join) (auto dest: clean_no_slash [OF assms(1)])
  ultimately show ?thesis using False assms(2) by (auto simp: join_snoc)
qed

lemma percent_free_valid: "CHR ''%'' \<notin> set s \<Longrightarrow> has_valid_percent_encoding s"
  by (induction s) auto

lemma normalize_segments_id:
  assumes "\<And>s. CHR ''%'' \<notin> set s \<Longrightarrow> decode s = Some s"
    and "list_all (\<lambda>s. clean_segment s \<or> s = []) raws" and "\<forall>s \<in> set raws. CHR ''%'' \<notin> set s"
  shows "normalize_segments decode segs raws = Ok (segs @ filter (\<lambda>s. s \<noteq> []) raws)"
  using assms(2,3)
  by (induction raws arbitrary: segs) (auto simp: percent_free_valid assms(1) clean_segment_def)

section \<open>Properties\<close>

text \<open>
  Path normalization removes every traversal: whatever the percent decoder does, a path it
  accepts is rewritten to a canonical one (absolute, without empty, \<open>.\<close> or \<open>..\<close> segments and
  without backslashes or encoded separators); and a canonical path without percent signs is
  returned as it is, provided the decoder leaves text without percent signs alone.
\<close>

theorem normalize_path_canonical:
  "(normalize_path decode path = Ok p \<longrightarrow> canonical_path p)
   \<and> ((\<forall>s. CHR ''%'' \<notin> set s \<longrightarrow> decode s = Some s) \<and> canonical_path path \<and> CHR ''%'' \<notin> set path \<longrightarrow>
        normalize_path decode path = Ok path)"
proof (intro conjI impI)
  assume "normalize_path decode path = Ok p"
  then show "canonical_path p" by (rule normalize_canonical)
next
  assume a: "(\<forall>s. CHR ''%'' \<notin> set s \<longrightarrow> decode s = Some s) \<and> canonical_path path \<and> CHR ''%'' \<notin> set path"
  then obtain segs t where c: "list_all clean_segment segs" "t = [] \<or> t = ''/'' \<and> segs \<noteq> []"
      "path = ''/'' @ join ''/'' segs @ t" by (auto simp: canonical_path_def)
  let ?raws = "split_char (CHR ''/'') path"
  have raws: "?raws = [] # (if segs = [] then [[]] else segs @ (if t = [] then [] else [[]]))"
    unfolding c(3) by (rule split_canonical [OF c(1,2)])
  have free: "\<forall>s \<in> set ?raws. CHR ''%'' \<notin> set s"
    using a split_char_sub [of _ "CHR ''/''" path] by blast
  have "list_all (\<lambda>s. clean_segment s \<or> s = []) ?raws" using c(1) unfolding raws by (auto simp: list_all_iff)
  from normalize_segments_id [OF _ this free, of decode "[]"] a
  have run: "normalize_segments decode [] ?raws = Ok (filter (\<lambda>s. s \<noteq> []) ?raws)" by simp
  have "filter (\<lambda>s. s \<noteq> []) segs = segs" using c(1) by (auto simp: filter_id_conv list_all_iff clean_segment_def)
  then have kept: "filter (\<lambda>s. s \<noteq> []) ?raws = segs" unfolding raws by auto
  have eq: "normalize_path decode path = Ok (if length path > 1 \<and> ends_with path ''/''
      \<and> \<not> ends_with (''/'' @ join ''/'' segs) ''/'' then (''/'' @ join ''/'' segs) @ ''/'' else ''/'' @ join ''/'' segs)"
    unfolding normalize_path_def run kept by (simp add: Let_def)
  show "normalize_path decode path = Ok path"
  proof (cases "segs = []")
    case True
    then have "path = ''/''" using c(2,3) by auto
    then show ?thesis unfolding eq using True by simp
  next
    case False
    have ne: "join ''/'' segs \<noteq> []"
      using False c(1) by (intro join_ne) (cases segs, auto simp: clean_segment_def)
    then have noend: "\<not> ends_with (''/'' @ join ''/'' segs) ''/''"
      using join_clean_end [OF False c(1)] by (cases "join ''/'' segs" rule: rev_cases) (auto simp: ends_with_iff)
    show ?thesis
    proof (cases "t = []")
      case True
      then have "\<not> ends_with path ''/''" using c(3) noend by simp
      then show ?thesis unfolding eq using True c(3) by simp
    next
      case F: False
      then have "t = ''/''" using c(2) by simp
      then have "ends_with path ''/''" "length path > 1" using c(3) ne by (auto simp: ends_with_iff)
      then show ?thesis unfolding eq using noend \<open>t = ''/''\<close> c(3) by simp
    qed
  qed
qed

lemma normalize_path_canonical_witness: "canonical_path ''/v1/b''"
proof -
  have "normalize_path Some ''/v1/a/../b'' = Ok ''/v1/b''"
    by (simp add: normalize_path_def Let_def ends_with_def)
  then show ?thesis using normalize_path_canonical [of Some "''/v1/a/../b''" "''/v1/b''"] by blast
qed

text \<open>
  C18. What an allowed endpoint request is, exactly: the allowlist is not empty, the URL parses
  with an http scheme (https unless the validator was told otherwise) and without user
  information, and some pattern has the request's host (or is a wildcard over a parent domain
  of it), a prefix of its normalized path, and its method when it restricts methods.
\<close>

theorem endpoint_allowed_iff:
  "validate parse decode v s method = EndpointAllowed \<longleftrightarrow>
     (\<exists>u host path. parse s = Ok u \<and> map ascii_lower (url_scheme u) \<in> {''http'', ''https''}
        \<and> (av_require_https v \<longrightarrow> map ascii_lower (url_scheme u) = ''https'')
        \<and> url_username u = [] \<and> url_password u = None \<and> url_host_str u = Some host
        \<and> normalize_path decode (url_path u) = Ok path
        \<and> (\<exists>p \<in> set (av_patterns v).
             (ep_host p = map ascii_lower (strip_brackets host)
              \<or> (\<exists>domain sub. ep_host p = ''*.'' @ domain \<and> map ascii_lower (strip_brackets host) = sub @ ''.'' @ domain))
             \<and> (\<forall>prefix. ep_path_prefix p = Some prefix \<longrightarrow> (\<exists>rest. path = prefix @ rest))
             \<and> (ep_methods p = [] \<or> (\<exists>m \<in> set (ep_methods p). map ascii_upper m = map ascii_upper method))))"
proof -
  have ep: "ep_matches p h path method \<longleftrightarrow>
      (ep_host p = h \<or> (\<exists>domain sub. ep_host p = ''*.'' @ domain \<and> h = sub @ ''.'' @ domain))
      \<and> (\<forall>prefix. ep_path_prefix p = Some prefix \<longrightarrow> (\<exists>rest. path = prefix @ rest))
      \<and> (ep_methods p = [] \<or> (\<exists>m \<in> set (ep_methods p). map ascii_upper m = map ascii_upper method))" for p h path
    by (auto simp: ep_matches_def ep_host_matches_def wildcard_iff starts_with_iff list_ex_iff split: option.splits if_splits)
  have "validate parse decode v s method = EndpointAllowed \<longleftrightarrow>
      (\<exists>pu. parse_url parse decode s = Ok pu \<and> (av_require_https v \<longrightarrow> pu_scheme pu = ''https'')
        \<and> (\<exists>p \<in> set (av_patterns v). ep_matches p (pu_host pu) (pu_path pu) method))"
    by (auto simp: validate_def Let_def list_ex_iff split: sum.splits if_splits)
  also have "\<dots> \<longleftrightarrow> (\<exists>u host path. parse s = Ok u \<and> map ascii_lower (url_scheme u) \<in> {''http'', ''https''}
        \<and> (av_require_https v \<longrightarrow> map ascii_lower (url_scheme u) = ''https'')
        \<and> url_username u = [] \<and> url_password u = None \<and> url_host_str u = Some host
        \<and> normalize_path decode (url_path u) = Ok path
        \<and> (\<exists>p \<in> set (av_patterns v). ep_matches p (map ascii_lower (strip_brackets host)) path method))"
    by (auto simp: parse_url_def Let_def split: sum.splits option.splits if_splits)
  finally show ?thesis unfolding ep .
qed

lemma endpoint_allowed_iff_witness:
  "validate (\<lambda>s. Ok \<lparr>url_scheme = ''https'', url_username = [], url_password = None,
       url_host_str = Some ''api.x.io'', url_path = ''/v1/a''\<rparr>) Some
     (allowlist_new [endpoint_host ''*.x.io'']) ''https://api.x.io/v1/a'' ''GET'' = EndpointAllowed"
proof -
  have n: "normalize_path Some ''/v1/a'' = Ok ''/v1/a''" by (simp add: normalize_path_def ends_with_def)
  have h: "map ascii_lower (strip_brackets ''api.x.io'') = ''api'' @ ''.'' @ ''x.io''"
    by (simp add: strip_brackets_def strip_prefix_def ascii_lower_def)
  show ?thesis
    unfolding endpoint_allowed_iff
    using h by (simp add: n allowlist_new_def endpoint_host_def ascii_lower_def)
qed

text \<open>
  The proxy's domain patterns ignore case, and a wildcard there also covers the base domain.
\<close>

lemma domain_matches_iff:
  "domain_matches (domain_pattern_new pattern) host \<longleftrightarrow>
     (\<exists>domain. pattern = ''*.'' @ domain \<and> (map ascii_lower host = map ascii_lower domain
         \<or> (\<exists>sub. map ascii_lower host = sub @ ''.'' @ map ascii_lower domain)))
     \<or> ((\<nexists>domain. pattern = ''*.'' @ domain) \<and> map ascii_lower host = map ascii_lower pattern)"
  by (auto simp: domain_matches_def domain_pattern_new_def Let_def starts_with_iff ends_with_iff)

end
