(* ===== verification/Tool_Intent.thy ===== *)
theory Tool_Intent
  imports Llm_Message
begin

text \<open>
  Recognition of intent in prose (\<open>src/llm/reasoning.rs\<close>, \<open>src/util.rs\<close>): code and quoted text are
  stripped first, then fixed phrases are looked for. Lower-casing is ASCII lower-casing; the em
  dash of the two fixed notices is written as its three UTF-8 bytes.
\<close>

definition EM_DASH :: string where "EM_DASH = [CHR 0xE2, CHR 0x80, CHR 0x94]"

definition TOOL_INTENT_NUDGE :: string where
  "TOOL_INTENT_NUDGE = ''You said you would perform an action, but you did not include any tool calls.'' @ [NL]
     @ ''Do NOT describe what you intend to do '' @ EM_DASH @ '' actually call the tool now.'' @ [NL]
     @ ''Use the tool_calls mechanism to invoke the appropriate tool.''"

definition TRUNCATED_TOOL_CALL_NOTICE :: string where
  "TRUNCATED_TOOL_CALL_NOTICE = ''Your previous response was truncated while generating tool call parameters. ''
     @ ''The tool calls were discarded. Please try a different approach '' @ EM_DASH @ '' ''
     @ ''summarize or transform the data instead of echoing it verbatim in a tool call.''"

section \<open>Prose\<close>

text \<open>\<open>str::lines\<close>: a final newline ends the last line, and a carriage return before a newline is dropped.\<close>

definition strip_cr :: "string \<Rightarrow> string" where
  "strip_cr l = (if l \<noteq> [] \<and> last l = CHR 0x0D then butlast l else l)"

definition text_lines :: "string \<Rightarrow> string list" where
  "text_lines s =
     (let ls = split_char NL s
      in map strip_cr (butlast ls) @ (if last ls = [] then [] else [last ls]))"

fun strip_quoted_loop :: "bool \<Rightarrow> char \<Rightarrow> string \<Rightarrow> string" where
  "strip_quoted_loop in_quote prev [] = []"
| "strip_quoted_loop in_quote prev (ch # cs) =
     (if ch = CHR 0x22 \<and> prev \<noteq> CHR 0x5C then strip_quoted_loop (\<not> in_quote) prev cs
      else if \<not> in_quote then ch # strip_quoted_loop in_quote ch cs
      else strip_quoted_loop in_quote ch cs)"

definition strip_quoted_strings :: "string \<Rightarrow> string" where
  "strip_quoted_strings line = strip_quoted_loop False (CHR 0x00) line"

fun strip_code_loop :: "bool \<Rightarrow> string list \<Rightarrow> string" where
  "strip_code_loop in_fence [] = []"
| "strip_code_loop in_fence (line # ls) =
     (if starts_with (trim_start line) ''```'' then strip_code_loop (\<not> in_fence) ls
      else if in_fence then strip_code_loop in_fence ls
      else if starts_with line ''    '' \<or> starts_with line [CHR 0x09] then strip_code_loop in_fence ls
      else strip_quoted_strings line @ [NL] @ strip_code_loop in_fence ls)"

definition strip_code_blocks :: "string \<Rightarrow> string" where
  "strip_code_blocks s = strip_code_loop False (text_lines s)"

section \<open>Intent\<close>

definition INTENT_EXCLUSIONS :: "string list" where
  "INTENT_EXCLUSIONS = [''let me explain'', ''let me know'', ''let me think'', ''let me summarize'',
     ''let me clarify'', ''let me describe'', ''let me help'', ''let me understand'', ''let me break'',
     ''let me outline'', ''let me walk you'', ''let me provide'', ''let me suggest'', ''let me elaborate'',
     ''let me start by'']"

definition INTENT_PREFIXES :: "string list" where
  "INTENT_PREFIXES = [''let me '', ''i'' @ [CHR 0x27] @ ''ll '', ''i will '', ''i'' @ [CHR 0x27] @ ''m going to '']"

definition ACTION_VERBS :: "string list" where
  "ACTION_VERBS = [''search'', ''look up'', ''check'', ''fetch'', ''find'', ''read the'', ''write the'',
     ''create'', ''run the'', ''execute'', ''query'', ''retrieve'', ''add it'', ''add the'', ''add this'',
     ''add that'', ''update the'', ''delete'', ''remove the'', ''look into'']"

text \<open>What follows each match of \<open>str::match_indices\<close>; matches do not overlap.\<close>

fun match_tails :: "string \<Rightarrow> string \<Rightarrow> string list" where
  "match_tails p [] = []"
| "match_tails p (c # s) =
     (if starts_with (c # s) p then drop (length p) (c # s) # match_tails p (drop (length p - 1) s)
      else match_tails p s)"

definition announces_action :: "string \<Rightarrow> bool" where
  "announces_action after = list_ex (\<lambda>verb. starts_with after verb \<or> contains_str after ('' '' @ verb)) ACTION_VERBS"

definition llm_signals_tool_intent :: "string \<Rightarrow> bool" where
  "llm_signals_tool_intent response =
     (let lower = map ascii_lower (strip_code_blocks response)
      in if list_ex (contains_str lower) INTENT_EXCLUSIONS then False
         else list_ex (\<lambda>p. list_ex announces_action (match_tails p lower)) INTENT_PREFIXES)"

definition EXEC_PHRASES :: "string list" where
  "EXEC_PHRASES = [''run it'', ''run that'', ''run them'', ''run this'', ''run the '', ''execute it'',
     ''execute that'', ''execute them'', ''execute this'', ''execute the '', ''ship it'', ''deploy it'',
     ''deploy that'', ''deploy this'', ''deploy the '', ''send it'', ''send that'', ''send the '', ''fetch it'',
     ''fetch that'', ''fetch the '', ''please run '', ''please execute '', ''please fetch '', ''please send '',
     ''please deploy '']"

definition user_signals_execution_intent :: "string \<Rightarrow> bool" where
  "user_signals_execution_intent s =
     list_ex (contains_str (map ascii_lower (strip_code_blocks s))) EXEC_PHRASES"

definition COMPLETION_PHRASES :: "string list" where
  "COMPLETION_PHRASES = [''job is complete'', ''job is done'', ''job is finished'', ''task is complete'',
     ''task is done'', ''task is finished'', ''work is complete'', ''work is done'', ''work is finished'',
     ''successfully completed'', ''have completed the job'', ''have completed the task'',
     ''have finished the job'', ''have finished the task'', ''all steps are complete'', ''all steps are done'',
     ''i have completed'', ''i'' @ [CHR 0x27] @ ''ve completed'', ''all done'', ''all tasks complete'']"

definition INCOMPLETE_PHRASES :: "string list" where
  "INCOMPLETE_PHRASES = [''not complete'', ''not done'', ''not finished'', ''incomplete'', ''unfinished'',
     ''isn'' @ [CHR 0x27] @ ''t done'', ''isn'' @ [CHR 0x27] @ ''t complete'', ''isn'' @ [CHR 0x27] @ ''t finished'',
     ''not yet done'', ''not yet complete'', ''not yet finished'']"

definition llm_signals_completion :: "string \<Rightarrow> bool" where
  "llm_signals_completion response =
     (let lower = map ascii_lower response
      in if list_ex (contains_str lower) INCOMPLETE_PHRASES then False
         else list_ex (contains_str lower) COMPLETION_PHRASES)"

definition SILENT_REPLY_TOKEN :: string where "SILENT_REPLY_TOKEN = ''NO_REPLY''"

definition is_ascii_punctuation :: "char \<Rightarrow> bool" where
  "is_ascii_punctuation c = (let n = (of_char c :: nat) in
     (33 \<le> n \<and> n \<le> 47) \<or> (58 \<le> n \<and> n \<le> 64) \<or> (91 \<le> n \<and> n \<le> 96) \<or> (123 \<le> n \<and> n \<le> 126))"

definition is_silent_reply :: "string \<Rightarrow> bool" where
  "is_silent_reply s =
     (let trimmed = trim s
      in trimmed = SILENT_REPLY_TOKEN
         \<or> starts_with trimmed SILENT_REPLY_TOKEN
           \<and> length trimmed \<le> length SILENT_REPLY_TOKEN + 4
           \<and> list_all (\<lambda>c. is_space c \<or> is_ascii_punctuation c) (drop (length SILENT_REPLY_TOKEN) trimmed))"

section \<open>What the detector recognises\<close>

text \<open>No prefix of a phrase is also its suffix, so its matches never overlap and none is missed.\<close>

definition borderless :: "string \<Rightarrow> bool" where
  "borderless p = (p \<noteq> [] \<and> list_all (\<lambda>k. take k p \<noteq> drop (length p - k) p) [1..<length p])"

lemma borderless_prefixes: "list_all borderless INTENT_PREFIXES"
  by code_simp

lemma borderless_jump:
  assumes b: "borderless p" and s: "starts_with (c # s) p" and occ: "c # s = u @ p @ t" and u: "u \<noteq> []"
  shows "length p \<le> length u"
proof (rule ccontr)
  assume less: "\<not> length p \<le> length u"
  let ?k = "length p - length u"
  from s obtain r where r: "c # s = p @ r" by (auto simp: starts_with_iff)
  with occ have eq: "p @ r = u @ p @ t" by simp
  then have "u = take (length u) p" using less by (metis append_eq_append_conv_if nat_le_linear take_all)
  then have p: "p = u @ drop (length u) p" by (metis append_take_drop_id)
  with eq have "drop (length u) p @ r = p @ t" by (metis append.assoc same_append_eq)
  then have "drop (length u) p = take ?k p" using less
    by (metis append_eq_conv_conj diff_le_self length_drop take_append take_all_iff append_Nil2 diff_is_0_eq' take_0)
  moreover have "length p - ?k = length u" using less by simp
  moreover have "1 \<le> ?k" "?k < length p" using less u by (cases u; simp)+
  moreover have "take k p \<noteq> drop (length p - k) p" if "1 \<le> k" "k < length p" for k
    using b that by (simp add: borderless_def list_all_iff)
  ultimately show False by metis
qed

lemma match_tails_iff: "borderless p \<Longrightarrow> t \<in> set (match_tails p s) \<longleftrightarrow> (\<exists>u. s = u @ p @ t)"
proof (induction p s rule: match_tails.induct)
  case (1 p)
  then show ?case by (auto simp: borderless_def)
next
  case (2 p c s)
  have ne: "p \<noteq> []" using 2(3) by (simp add: borderless_def)
  show ?case
  proof (cases "starts_with (c # s) p")
    case True
    then obtain r where r: "c # s = p @ r" by (auto simp: starts_with_iff)
    then have d: "drop (length p) (c # s) = r" "drop (length p - 1) s = r"
      using ne by (metis append_eq_conv_conj, metis append_eq_conv_conj drop_Cons' length_0_conv)
    have "(\<exists>u. c # s = u @ p @ t) \<longleftrightarrow> t = r \<or> (\<exists>u. r = u @ p @ t)"
    proof
      assume "\<exists>u. c # s = u @ p @ t"
      then obtain u where u: "c # s = u @ p @ t" ..
      show "t = r \<or> (\<exists>u. r = u @ p @ t)"
      proof (cases "u = []")
        case False
        have "length p \<le> length u" by (rule borderless_jump [OF 2(3) True u False])
        moreover have "p @ r = u @ p @ t" using u r by simp
        ultimately have "r = drop (length p) u @ p @ t" by (metis append_eq_append_conv_if)
        then show ?thesis by blast
      qed (use u r in simp)
    next
      assume "t = r \<or> (\<exists>u. r = u @ p @ t)"
      then consider "t = r" | u where "r = u @ p @ t" by blast
      then show "\<exists>u. c # s = u @ p @ t"
      proof cases
        case 1
        then show ?thesis using r by (intro exI [of _ "[]"]) simp
      next
        case (2 u)
        then show ?thesis using r by (intro exI [of _ "p @ u"]) simp
      qed
    qed
    then show ?thesis using 2(1) [OF True 2(3)] True by (simp only: match_tails.simps if_True list.set insert_iff d)
  next
    case False
    have "(\<exists>u. c # s = u @ p @ t) \<longleftrightarrow> (\<exists>u. s = u @ p @ t)"
      using False by (metis append_Cons append_Nil hd_Cons_tl list.sel(3) neq_Nil_conv starts_with_iff)
    then show ?thesis using 2(2) [OF False 2(3)] False by simp
  qed
qed

text \<open>
  The detector is the phrase search it documents, on the prose of the response in lower case: no
  excluded phrase occurs, and somewhere one of the announcing phrases is followed, at once or
  after a blank later in the text, by one of the verbs.
\<close>

theorem tool_intent_iff:
  "llm_signals_tool_intent response \<longleftrightarrow>
     (let prose = map ascii_lower (strip_code_blocks response) in
        (\<forall>e \<in> set INTENT_EXCLUSIONS. \<not> contains_str prose e)
        \<and> (\<exists>u p after verb. prose = u @ p @ after \<and> p \<in> set INTENT_PREFIXES \<and> verb \<in> set ACTION_VERBS
             \<and> (starts_with after verb \<or> contains_str after ('' '' @ verb))))"
proof -
  let ?l = "map ascii_lower (strip_code_blocks response)"
  have "list_ex announces_action (match_tails p ?l) \<longleftrightarrow> (\<exists>u after. ?l = u @ p @ after \<and> announces_action after)"
    if "p \<in> set INTENT_PREFIXES" for p
  proof -
    have "borderless p" using that borderless_prefixes by (simp add: list_all_iff)
    from match_tails_iff [OF this] show ?thesis unfolding list_ex_iff Bex_def by blast
  qed
  then have "list_ex (\<lambda>p. list_ex announces_action (match_tails p ?l)) INTENT_PREFIXES \<longleftrightarrow>
      (\<exists>p \<in> set INTENT_PREFIXES. \<exists>u after. ?l = u @ p @ after \<and> announces_action after)"
    by (simp add: list_ex_iff)
  then show ?thesis unfolding llm_signals_tool_intent_def announces_action_def Let_def list_ex_iff by auto
qed

end
