(* ===== verification/Agentic_Loop.thy ===== *)
theory Agentic_Loop
  imports Tool_Intent "HOL-Library.Sublist"
begin

text \<open>
  The agentic loop (\<open>src/agent/agentic_loop.rs\<close>) with the data of \<open>src/llm/reasoning.rs\<close> it works
  on. The three consumers customise the loop through \<open>LoopDelegate\<close>: a delegate is a record of
  functions over its own state \<open>'d\<close> (which holds whatever it and the outside world depend on) that
  may also change the reasoning context. The hash of the fingerprint and the rendering of a JSON
  value belong to the standard library and \<open>serde_json\<close> and are parameters. \<open>'p\<close> is the type of
  pending approvals, \<open>'e\<close> that of errors.
\<close>

section \<open>Data\<close>

record reasoning_context =
  rx_messages :: "chat_message list"
  rx_available_tools :: "tool_definition list"
  rx_job_description :: "string option"
  rx_current_state :: "string option"
  rx_metadata :: "(string, string) hmap"
  rx_force_text :: bool
  rx_system_prompt :: "string option"
  rx_model_override :: "string option"
  rx_temperature :: "u32 option"
  rx_last_tool_batch_all_failed :: bool

definition reasoning_context_new :: reasoning_context where
  "reasoning_context_new = \<lparr>rx_messages = [], rx_available_tools = [], rx_job_description = None,
     rx_current_state = None, rx_metadata = [], rx_force_text = False, rx_system_prompt = None,
     rx_model_override = None, rx_temperature = None, rx_last_tool_batch_all_failed = False\<rparr>"

datatype respond_result = RespondText string | RespondToolCalls "tool_call list" "string option"

datatype response_anomaly = EmptyToolCompletion | EmptyTextResponse

record response_usage =
  ru_input_tokens :: u32
  ru_output_tokens :: u32
  ru_cache_read_input_tokens :: u32
  ru_cache_creation_input_tokens :: u32

record respond_output =
  ro_result :: respond_result
  ro_usage :: response_usage
  ro_finish_reason :: finish_reason
  ro_anomaly :: "response_anomaly option"

datatype loop_signal = SignalContinue | SignalStop | InjectMessage string

datatype 'p loop_outcome = LoopResponse string | LoopStopped | LoopMaxIterations | LoopFailure string
  | LoopNeedApproval 'p | LoopAuthPending string

datatype 'p text_action = TextReturn "'p loop_outcome" | TextContinue

record agentic_loop_config =
  al_max_iterations :: nat
  al_enable_tool_intent_nudge :: bool
  al_max_tool_intent_nudges :: u32

definition agentic_loop_config_default :: agentic_loop_config where
  "agentic_loop_config_default =
     \<lparr>al_max_iterations = 50, al_enable_tool_intent_nudge = True, al_max_tool_intent_nudges = 2\<rparr>"

record ('d, 'e, 'p) loop_delegate =
  ld_check_signals :: "'d \<Rightarrow> loop_signal \<times> 'd"
  ld_before_llm_call :: "nat \<Rightarrow> 'd \<times> reasoning_context \<Rightarrow> 'p loop_outcome option \<times> 'd \<times> reasoning_context"
  ld_call_llm :: "nat \<Rightarrow> 'd \<times> reasoning_context \<Rightarrow> ('e + respond_output) \<times> 'd \<times> reasoning_context"
  ld_handle_text_response ::
    "string \<Rightarrow> response_anomaly option \<Rightarrow> 'd \<times> reasoning_context \<Rightarrow> 'p text_action \<times> 'd \<times> reasoning_context"
  ld_execute_tool_calls ::
    "tool_call list \<Rightarrow> string option \<Rightarrow> 'd \<times> reasoning_context \<Rightarrow> ('e + 'p loop_outcome option) \<times> 'd \<times> reasoning_context"
  ld_on_tool_intent_nudge :: "string \<Rightarrow> 'd \<times> reasoning_context \<Rightarrow> 'd \<times> reasoning_context"
  ld_after_iteration :: "nat \<Rightarrow> 'd \<Rightarrow> 'd"

section \<open>Repeated failing tool calls\<close>

definition DUPLICATE_TOOL_CALL_WARNING :: string where
  "DUPLICATE_TOOL_CALL_WARNING = ''You have repeated the exact same failing tool call multiple times. ''
     @ ''The tool is returning the same error each time. ''
     @ ''Please try a DIFFERENT approach '' @ EM_DASH @ '' use different parameters, a different tool, ''
     @ ''or explain to the user what went wrong and what alternatives exist.''"

definition DUPLICATE_WARNING_THRESHOLD :: u32 where "DUPLICATE_WARNING_THRESHOLD = 3"
definition DUPLICATE_FORCE_TEXT_THRESHOLD :: u32 where "DUPLICATE_FORCE_TEXT_THRESHOLD = 5"

record dup_tracker =
  dt_last_fingerprint :: "u64 option"
  dt_consecutive_count :: u32

definition tracker_new :: dup_tracker where
  "tracker_new = \<lparr>dt_last_fingerprint = None, dt_consecutive_count = 0\<rparr>"

definition fingerprint :: "((string \<times> string) list \<Rightarrow> u64) \<Rightarrow> (json \<Rightarrow> string) \<Rightarrow> tool_call list \<Rightarrow> u64" where
  "fingerprint hash render calls =
     hash (map (\<lambda>tc. (tc_name tc, render (canonicalize_json_value (tc_arguments tc)))) calls)"

definition tracker_reset :: "dup_tracker \<Rightarrow> dup_tracker" where
  "tracker_reset t = t\<lparr>dt_last_fingerprint := None, dt_consecutive_count := 0\<rparr>"

definition record_with_fingerprint :: "u64 \<Rightarrow> bool \<Rightarrow> dup_tracker \<Rightarrow> u32 \<times> dup_tracker" where
  "record_with_fingerprint fp all_failed t =
     (let t1 = (if all_failed \<and> dt_last_fingerprint t = Some fp
                then t\<lparr>dt_consecutive_count := dt_consecutive_count t + 1\<rparr>
                else if all_failed then t\<lparr>dt_last_fingerprint := Some fp, dt_consecutive_count := 1\<rparr>
                else (tracker_reset t)\<lparr>dt_last_fingerprint := Some fp\<rparr>)
      in (dt_consecutive_count t1, t1))"

section \<open>The loop\<close>

record loop_vars =
  lv_nudges :: u32
  lv_truncation_count :: u32
  lv_dup_tracker :: dup_tracker

definition loop_vars_init :: loop_vars where
  "loop_vars_init = \<lparr>lv_nudges = 0, lv_truncation_count = 0, lv_dup_tracker = tracker_new\<rparr>"

type_synonym 'd loop_state = "('d \<times> reasoning_context) \<times> loop_vars"

text \<open>An iteration ends the loop with a result or goes on to the next one.\<close>

datatype ('r, 's) progress = Finished 'r 's | Next 's

definition push_messages :: "chat_message list \<Rightarrow> reasoning_context \<Rightarrow> reasoning_context" where
  "push_messages ms ctx = ctx\<lparr>rx_messages := rx_messages ctx @ ms\<rparr>"

definition after_iteration ::
  "('d, 'e, 'p) loop_delegate \<Rightarrow> nat \<Rightarrow> 'd \<times> reasoning_context \<Rightarrow> 'd \<times> reasoning_context" where
  "after_iteration D i = (\<lambda>(d, ctx). (ld_after_iteration D i d, ctx))"

definition should_nudge :: "agentic_loop_config \<Rightarrow> string \<Rightarrow> reasoning_context \<Rightarrow> loop_vars \<Rightarrow> bool" where
  "should_nudge cfg txt ctx v =
     (al_enable_tool_intent_nudge cfg \<and> rx_available_tools ctx \<noteq> [] \<and> \<not> rx_force_text ctx
      \<and> lv_nudges v < al_max_tool_intent_nudges cfg \<and> llm_signals_tool_intent txt)"

definition on_text ::
  "('d, 'e, 'p) loop_delegate \<Rightarrow> agentic_loop_config \<Rightarrow> nat \<Rightarrow> string \<Rightarrow> response_anomaly option
   \<Rightarrow> 'd loop_state \<Rightarrow> ('e + 'p loop_outcome, 'd loop_state) progress" where
  "on_text D cfg i txt anomaly = (\<lambda>((d, ctx), v).
     if should_nudge cfg txt ctx v then
       let (d1, ctx1) = ld_on_tool_intent_nudge D txt (d, ctx);
           ctx2 = push_messages [chat_assistant txt, chat_user TOOL_INTENT_NUDGE] ctx1
       in Next (after_iteration D i (d1, ctx2), v\<lparr>lv_nudges := lv_nudges v + 1\<rparr>)
     else
       let v1 = (if llm_signals_tool_intent txt then v else v\<lparr>lv_nudges := 0\<rparr>);
           v2 = v1\<lparr>lv_dup_tracker := tracker_reset (lv_dup_tracker v1)\<rparr>
       in (case ld_handle_text_response D txt anomaly (d, ctx) of
             (TextReturn outcome, s1) \<Rightarrow> Finished (Ok outcome) (s1, v2)
           | (TextContinue, s1) \<Rightarrow> Next (after_iteration D i s1, v2)))"

definition on_truncated ::
  "('d, 'e, 'p) loop_delegate \<Rightarrow> nat \<Rightarrow> string option
   \<Rightarrow> 'd loop_state \<Rightarrow> ('e + 'p loop_outcome, 'd loop_state) progress" where
  "on_truncated D i content = (\<lambda>((d, ctx), v).
     let count = lv_truncation_count v + 1;
         ctx1 = (case content of Some t \<Rightarrow> push_messages [chat_assistant t] ctx | None \<Rightarrow> ctx);
         ctx2 = push_messages [chat_user TRUNCATED_TOOL_CALL_NOTICE] ctx1;
         ctx3 = (if count \<ge> 3 then ctx2\<lparr>rx_force_text := True\<rparr> else ctx2)
     in Next (after_iteration D i (d, ctx3), v\<lparr>lv_truncation_count := count\<rparr>))"

definition escalate :: "u32 \<Rightarrow> reasoning_context \<Rightarrow> reasoning_context" where
  "escalate dup_count ctx =
     (if dup_count \<ge> DUPLICATE_FORCE_TEXT_THRESHOLD
      then push_messages [chat_user DUPLICATE_TOOL_CALL_WARNING] (ctx\<lparr>rx_force_text := True\<rparr>)
      else if dup_count \<ge> DUPLICATE_WARNING_THRESHOLD
      then push_messages [chat_user DUPLICATE_TOOL_CALL_WARNING] ctx
      else ctx)"

definition on_tool_calls ::
  "(tool_call list \<Rightarrow> u64) \<Rightarrow> ('d, 'e, 'p) loop_delegate \<Rightarrow> nat \<Rightarrow> tool_call list \<Rightarrow> string option
   \<Rightarrow> 'd loop_state \<Rightarrow> ('e + 'p loop_outcome, 'd loop_state) progress" where
  "on_tool_calls fp D i calls content = (\<lambda>((d, ctx), v).
     let v1 = v\<lparr>lv_nudges := 0, lv_truncation_count := 0\<rparr>;
         ctx1 = ctx\<lparr>rx_last_tool_batch_all_failed := False\<rparr>
     in (case ld_execute_tool_calls D calls content (d, ctx1) of
           (Inl e, s1) \<Rightarrow> Finished (Err e) (s1, v1)
         | (Inr (Some outcome), s1) \<Rightarrow> Finished (Ok outcome) (s1, v1)
         | (Inr None, (d2, ctx2)) \<Rightarrow>
             let (dup_count, t) =
                   record_with_fingerprint (fp calls) (rx_last_tool_batch_all_failed ctx2) (lv_dup_tracker v1)
             in Next (after_iteration D i (d2, escalate dup_count ctx2), v1\<lparr>lv_dup_tracker := t\<rparr>)))"

definition on_response ::
  "(tool_call list \<Rightarrow> u64) \<Rightarrow> ('d, 'e, 'p) loop_delegate \<Rightarrow> agentic_loop_config \<Rightarrow> nat \<Rightarrow> respond_output
   \<Rightarrow> 'd loop_state \<Rightarrow> ('e + 'p loop_outcome, 'd loop_state) progress" where
  "on_response fp D cfg i output s =
     (case ro_result output of
        RespondText txt \<Rightarrow> on_text D cfg i txt (ro_anomaly output) s
      | RespondToolCalls calls content \<Rightarrow>
          if ro_finish_reason output = FinishLength then on_truncated D i content s
          else on_tool_calls fp D i calls content s)"

definition apply_signal :: "loop_signal \<Rightarrow> reasoning_context \<Rightarrow> reasoning_context" where
  "apply_signal sg ctx = (case sg of InjectMessage m \<Rightarrow> push_messages [chat_user m] ctx | _ \<Rightarrow> ctx)"

definition loop_iteration ::
  "(tool_call list \<Rightarrow> u64) \<Rightarrow> ('d, 'e, 'p) loop_delegate \<Rightarrow> agentic_loop_config \<Rightarrow> nat
   \<Rightarrow> 'd loop_state \<Rightarrow> ('e + 'p loop_outcome, 'd loop_state) progress" where
  "loop_iteration fp D cfg i = (\<lambda>((d, ctx), v).
     case ld_check_signals D d of (sg, d1) \<Rightarrow>
       if sg = SignalStop then Finished (Ok LoopStopped) ((d1, ctx), v)
       else
         (case ld_before_llm_call D i (d1, apply_signal sg ctx) of
            (Some outcome, s1) \<Rightarrow> Finished (Ok outcome) (s1, v)
          | (None, s1) \<Rightarrow>
              (case ld_call_llm D i s1 of
                 (Inl e, s2) \<Rightarrow> Finished (Err e) (s2, v)
               | (Inr output, s2) \<Rightarrow> on_response fp D cfg i output (s2, v))))"

fun loop_iterations ::
  "(tool_call list \<Rightarrow> u64) \<Rightarrow> ('d, 'e, 'p) loop_delegate \<Rightarrow> agentic_loop_config \<Rightarrow> nat list
   \<Rightarrow> 'd loop_state \<Rightarrow> ('e + 'p loop_outcome) \<times> 'd loop_state" where
  "loop_iterations fp D cfg [] s = (Ok LoopMaxIterations, s)"
| "loop_iterations fp D cfg (i # rest) s =
     (case loop_iteration fp D cfg i s of
        Finished r s1 \<Rightarrow> (r, s1)
      | Next s1 \<Rightarrow> loop_iterations fp D cfg rest s1)"

definition run_agentic_loop ::
  "(tool_call list \<Rightarrow> u64) \<Rightarrow> ('d, 'e, 'p) loop_delegate \<Rightarrow> agentic_loop_config
   \<Rightarrow> 'd \<times> reasoning_context \<Rightarrow> ('e + 'p loop_outcome) \<times> 'd loop_state" where
  "run_agentic_loop fp D cfg s = loop_iterations fp D cfg [1..<Suc (al_max_iterations cfg)] (s, loop_vars_init)"

section \<open>What the delegate sees\<close>

text \<open>
  The calls the loop makes on its delegate, in order, with what each answered. \<open>EvLlm\<close> carries the
  \<open>force_text\<close> flag of the call, \<open>EvExec\<close> the flag that every tool of the batch failed.
  \<open>logged D\<close> is the delegate \<open>D\<close> that also keeps this log.
\<close>

datatype ('e, 'p) loop_event =
    EvSignal loop_signal
  | EvBefore nat "'p loop_outcome option"
  | EvLlm nat bool "'e + respond_output"
  | EvText string "'p text_action"
  | EvNudge string
  | EvExec "tool_call list" "'e + 'p loop_outcome option" bool
  | EvAfter nat

definition logged :: "('d, 'e, 'p) loop_delegate \<Rightarrow> ('d \<times> ('e, 'p) loop_event list, 'e, 'p) loop_delegate" where
  "logged D = \<lparr>
     ld_check_signals = (\<lambda>(d, l). case ld_check_signals D d of (sg, d1) \<Rightarrow> (sg, (d1, l @ [EvSignal sg]))),
     ld_before_llm_call = (\<lambda>i ((d, l), ctx). case ld_before_llm_call D i (d, ctx) of
       (r, d1, ctx1) \<Rightarrow> (r, (d1, l @ [EvBefore i r]), ctx1)),
     ld_call_llm = (\<lambda>i ((d, l), ctx). case ld_call_llm D i (d, ctx) of
       (r, d1, ctx1) \<Rightarrow> (r, (d1, l @ [EvLlm i (rx_force_text ctx) r]), ctx1)),
     ld_handle_text_response = (\<lambda>txt a ((d, l), ctx). case ld_handle_text_response D txt a (d, ctx) of
       (r, d1, ctx1) \<Rightarrow> (r, (d1, l @ [EvText txt r]), ctx1)),
     ld_execute_tool_calls = (\<lambda>calls c ((d, l), ctx). case ld_execute_tool_calls D calls c (d, ctx) of
       (r, d1, ctx1) \<Rightarrow> (r, (d1, l @ [EvExec calls r (rx_last_tool_batch_all_failed ctx1)]), ctx1)),
     ld_on_tool_intent_nudge = (\<lambda>txt ((d, l), ctx). case ld_on_tool_intent_nudge D txt (d, ctx) of
       (d1, ctx1) \<Rightarrow> ((d1, l @ [EvNudge txt]), ctx1)),
     ld_after_iteration = (\<lambda>i (d, l). (ld_after_iteration D i d, l @ [EvAfter i]))\<rparr>"

text \<open>The events one iteration may produce, and how it ends.\<close>

inductive iteration_trace :: "nat \<Rightarrow> ('e, 'p) loop_event list \<Rightarrow> ('e + 'p loop_outcome) option \<Rightarrow> bool" for i where
  stop: "iteration_trace i [EvSignal SignalStop] (Some (Ok LoopStopped))"
| early: "sg \<noteq> SignalStop \<Longrightarrow> iteration_trace i [EvSignal sg, EvBefore i (Some outcome)] (Some (Ok outcome))"
| llm_error: "sg \<noteq> SignalStop \<Longrightarrow> iteration_trace i [EvSignal sg, EvBefore i None, EvLlm i f (Err e)] (Some (Err e))"
| nudge: "sg \<noteq> SignalStop \<Longrightarrow> ro_result out = RespondText txt \<Longrightarrow> llm_signals_tool_intent txt \<Longrightarrow>
    iteration_trace i [EvSignal sg, EvBefore i None, EvLlm i f (Ok out), EvNudge txt, EvAfter i] None"
| text_return: "sg \<noteq> SignalStop \<Longrightarrow> ro_result out = RespondText txt \<Longrightarrow>
    iteration_trace i [EvSignal sg, EvBefore i None, EvLlm i f (Ok out), EvText txt (TextReturn outcome)] (Some (Ok outcome))"
| text_continue: "sg \<noteq> SignalStop \<Longrightarrow> ro_result out = RespondText txt \<Longrightarrow>
    iteration_trace i [EvSignal sg, EvBefore i None, EvLlm i f (Ok out), EvText txt TextContinue, EvAfter i] None"
| truncated: "sg \<noteq> SignalStop \<Longrightarrow> ro_result out = RespondToolCalls calls c \<Longrightarrow> ro_finish_reason out = FinishLength \<Longrightarrow>
    iteration_trace i [EvSignal sg, EvBefore i None, EvLlm i f (Ok out), EvAfter i] None"
| exec_error: "sg \<noteq> SignalStop \<Longrightarrow> ro_result out = RespondToolCalls calls c \<Longrightarrow> ro_finish_reason out \<noteq> FinishLength \<Longrightarrow>
    iteration_trace i [EvSignal sg, EvBefore i None, EvLlm i f (Ok out), EvExec calls (Err e) b] (Some (Err e))"
| exec_outcome: "sg \<noteq> SignalStop \<Longrightarrow> ro_result out = RespondToolCalls calls c \<Longrightarrow> ro_finish_reason out \<noteq> FinishLength \<Longrightarrow>
    iteration_trace i [EvSignal sg, EvBefore i None, EvLlm i f (Ok out), EvExec calls (Ok (Some outcome)) b] (Some (Ok outcome))"
| exec_next: "sg \<noteq> SignalStop \<Longrightarrow> ro_result out = RespondToolCalls calls c \<Longrightarrow> ro_finish_reason out \<noteq> FinishLength \<Longrightarrow>
    iteration_trace i [EvSignal sg, EvBefore i None, EvLlm i f (Ok out), EvExec calls (Ok None) b, EvAfter i] None"

inductive loop_trace :: "nat \<Rightarrow> nat \<Rightarrow> ('e, 'p) loop_event list \<Rightarrow> 'e + 'p loop_outcome \<Rightarrow> bool" for n where
  exhausted: "n < i \<Longrightarrow> loop_trace n i [] (Ok LoopMaxIterations)"
| last: "i \<le> n \<Longrightarrow> iteration_trace i tr (Some r) \<Longrightarrow> loop_trace n i tr r"
| more: "i \<le> n \<Longrightarrow> iteration_trace i tr None \<Longrightarrow> loop_trace n (Suc i) tr' r \<Longrightarrow> loop_trace n i (tr @ tr') r"

section \<open>The protocol\<close>

text \<open>What one iteration of the logged loop adds to the log.\<close>

definition iteration_log :: "nat \<Rightarrow> ('e, 'p) loop_event list \<Rightarrow> ('e + 'p loop_outcome, ('d \<times> ('e, 'p) loop_event list) loop_state) progress \<Rightarrow> bool" where
  "iteration_log i l p = (case p of
       Finished r (((d, l'), ctx), v) \<Rightarrow> \<exists>tr. l' = l @ tr \<and> iteration_trace i tr (Some r)
     | Next (((d, l'), ctx), v) \<Rightarrow> \<exists>tr. l' = l @ tr \<and> iteration_trace i tr None)"

lemma response_logged:
  assumes "sg \<noteq> SignalStop" and l: "l = l0 @ [EvSignal sg, EvBefore i None, EvLlm i f (Ok out)]"
  shows "iteration_log i l0 (on_response fp (logged D) cfg i out (((d, l), ctx), v))"
proof (cases "ro_result out")
  case (RespondText words)
  note simps = on_response_def RespondText on_text_def after_iteration_def Let_def logged_def iteration_log_def
  show ?thesis
  proof (cases "should_nudge cfg words ctx v")
    case True
    then have "llm_signals_tool_intent words" by (simp add: should_nudge_def)
    moreover obtain d1 ctx1 where "ld_on_tool_intent_nudge D words (d, ctx) = (d1, ctx1)" by fastforce
    ultimately show ?thesis using True l iteration_trace.nudge [OF assms(1) RespondText] by (simp add: simps)
  next
    case False
    obtain a d1 ctx1 where a: "ld_handle_text_response D words (ro_anomaly out) (d, ctx) = (a, d1, ctx1)"
      by (metis prod.exhaust)
    show ?thesis
    proof (cases a)
      case (TextReturn outcome)
      then show ?thesis using False a l iteration_trace.text_return [OF assms(1) RespondText] by (simp add: simps)
    next
      case TextContinue
      then show ?thesis using False a l iteration_trace.text_continue [OF assms(1) RespondText] by (simp add: simps)
    qed
  qed
next
  case (RespondToolCalls calls c)
  note simps = on_response_def RespondToolCalls on_truncated_def on_tool_calls_def after_iteration_def Let_def
    logged_def iteration_log_def
  show ?thesis
  proof (cases "ro_finish_reason out = FinishLength")
    case True
    then show ?thesis using l iteration_trace.truncated [OF assms(1) RespondToolCalls] by (simp add: simps)
  next
    case False
    let ?ctx = "ctx\<lparr>rx_last_tool_batch_all_failed := False\<rparr>"
    obtain x d1 ctx1 where x: "ld_execute_tool_calls D calls c (d, ?ctx) = (x, d1, ctx1)" by (metis prod.exhaust)
    consider e where "x = Err e" | outcome where "x = Ok (Some outcome)" | "x = Ok None"
      by (metis option.exhaust sum.exhaust)
    then show ?thesis
    proof cases
      case 1
      then show ?thesis using False x l iteration_trace.exec_error [OF assms(1) RespondToolCalls False] by (simp add: simps)
    next
      case 2
      then show ?thesis using False x l iteration_trace.exec_outcome [OF assms(1) RespondToolCalls False] by (simp add: simps)
    next
      case 3
      then show ?thesis using False x l iteration_trace.exec_next [OF assms(1) RespondToolCalls False]
        by (simp add: simps record_with_fingerprint_def)
    qed
  qed
qed

lemma iteration_logged: "iteration_log i l (loop_iteration fp (logged D) cfg i (((d, l), ctx), v))"
proof -
  obtain sg d1 where sg: "ld_check_signals D d = (sg, d1)" by fastforce
  show ?thesis
  proof (cases "sg = SignalStop")
    case True
    then show ?thesis using sg
      by (simp add: loop_iteration_def logged_def iteration_log_def iteration_trace.stop)
  next
    case go: False
    obtain b d2 ctx2 where b: "ld_before_llm_call D i (d1, apply_signal sg ctx) = (b, d2, ctx2)" by (metis prod.exhaust)
    obtain o' d3 ctx3 where o': "ld_call_llm D i (d2, ctx2) = (o', d3, ctx3)" by (metis prod.exhaust)
    show ?thesis
    proof (cases b)
      case (Some outcome)
      then show ?thesis using sg b go
        by (simp add: loop_iteration_def logged_def iteration_log_def iteration_trace.early)
    next
      case None
      show ?thesis
      proof (cases o')
        case (Inl e)
        then show ?thesis using sg b o' go None
          by (simp add: loop_iteration_def logged_def iteration_log_def iteration_trace.llm_error)
      next
        case (Inr out)
        then show ?thesis using sg b o' go None
            response_logged [of sg "l @ [EvSignal sg, EvBefore i None, EvLlm i (rx_force_text ctx2) (Ok out)]" l i "rx_force_text ctx2" out fp D cfg d3 ctx3 v]
          by (simp add: loop_iteration_def logged_def)
      qed
    qed
  qed
qed

lemma iterations_logged:
  assumes "loop_iterations fp (logged D) cfg [i..<Suc n] (((d, l), ctx), v) = (r, ((d', l'), ctx'), v')"
  shows "\<exists>tr. l' = l @ tr \<and> loop_trace n i tr r"
  using assms
proof (induction "Suc n - i" arbitrary: i d l ctx v)
  case 0
  then have "[i..<Suc n] = []" "n < i" by simp_all
  with 0(2) show ?case by (auto simp del: upt_Suc intro: loop_trace.exhausted)
next
  case (Suc m)
  then have i: "i \<le> n" and upt: "[i..<Suc n] = i # [Suc i..<Suc n]" by (simp_all add: upt_conv_Cons del: upt_Suc)
  let ?p = "loop_iteration fp (logged D) cfg i (((d, l), ctx), v)"
  note log = iteration_logged [of i l fp D cfg d ctx v]
  show ?case
  proof (cases ?p)
    case (Finished r1 s1)
    with Suc(3) upt have "r1 = r" "s1 = (((d', l'), ctx'), v')" by (simp_all del: upt_Suc)
    with log Finished i show ?thesis by (auto simp: iteration_log_def intro: loop_trace.last)
  next
    case (Next s1)
    obtain d1 l1 ctx1 v1 where s1: "s1 = (((d1, l1), ctx1), v1)" by (metis prod.exhaust)
    with Next log obtain tr where tr: "l1 = l @ tr" "iteration_trace i tr None" by (auto simp: iteration_log_def)
    have "loop_iterations fp (logged D) cfg [Suc i..<Suc n] (((d1, l1), ctx1), v1) = (r, ((d', l'), ctx'), v')"
      using Suc(3) upt Next s1 by (simp del: upt_Suc)
    from Suc(1) [OF _ this] Suc(2) i obtain tr' where "l' = l1 @ tr'" "loop_trace n (Suc i) tr' r" by (auto simp: Suc_diff_le)
    with tr i show ?thesis by (auto intro: loop_trace.more)
  qed
qed

lemma event_split:
  "xs @ ys = a @ e # c \<Longrightarrow> (\<exists>c1. xs = a @ e # c1) \<or> (\<exists>a2. a = xs @ a2 \<and> ys = a2 @ e # c)"
  by (auto simp: append_eq_append_conv2 append_eq_Cons_conv)

fun is_llm_call :: "('e, 'p) loop_event \<Rightarrow> bool" where
  "is_llm_call (EvLlm _ _ _) = True"
| "is_llm_call _ = False"

lemma iteration_llm_calls: "iteration_trace i tr r \<Longrightarrow> length (filter is_llm_call tr) \<le> 1"
  by (induction rule: iteration_trace.induct) simp_all

lemma loop_llm_calls: "loop_trace n i tr r \<Longrightarrow> length (filter is_llm_call tr) \<le> Suc n - i"
proof (induction rule: loop_trace.induct)
  case (last i tr r)
  then show ?case using iteration_llm_calls [OF last(2)] by simp
next
  case (more i tr tr' r)
  then show ?case using iteration_llm_calls [OF more(2)] by simp
qed simp

lemma iteration_llm_guarded:
  "iteration_trace i tr r \<Longrightarrow> tr = a @ EvLlm j f x # c \<Longrightarrow>
     j = i \<and> (\<exists>sg. sg \<noteq> SignalStop \<and> a = [EvSignal sg, EvBefore i None])"
  by (induction rule: iteration_trace.induct) (auto simp: Cons_eq_append_conv)

lemma iteration_exec_guarded:
  "iteration_trace i tr r \<Longrightarrow> tr = a @ EvExec calls x b # c \<Longrightarrow>
     \<exists>sg f out content. a = [EvSignal sg, EvBefore i None, EvLlm i f (Ok out)]
        \<and> ro_result out = RespondToolCalls calls content \<and> ro_finish_reason out \<noteq> FinishLength"
  by (induction rule: iteration_trace.induct) (auto simp: Cons_eq_append_conv)

lemma loop_llm_guarded:
  "loop_trace n i tr r \<Longrightarrow> tr = a @ EvLlm j f x # c \<Longrightarrow>
     j \<le> n \<and> (\<exists>a0 sg. sg \<noteq> SignalStop \<and> a = a0 @ [EvSignal sg, EvBefore j None])"
proof (induction arbitrary: a rule: loop_trace.induct)
  case (last i tr r)
  then show ?case using iteration_llm_guarded [OF last(2,3)] by auto
next
  case (more i tr tr' r)
  from event_split [OF more(5)] consider c1 where "tr = a @ EvLlm j f x # c1"
    | a2 where "a = tr @ a2" "tr' = a2 @ EvLlm j f x # c" by blast
  then show ?case
  proof cases
    case 1
    then show ?thesis using iteration_llm_guarded [OF more(2) 1] more(1) by auto
  next
    case 2
    then show ?thesis using more(4) [OF 2(2)] by fastforce
  qed
qed simp

lemma loop_exec_guarded:
  "loop_trace n i tr r \<Longrightarrow> tr = a @ EvExec calls x b # c \<Longrightarrow>
     \<exists>a0 j f out content. a = a0 @ [EvLlm j f (Ok out)]
        \<and> ro_result out = RespondToolCalls calls content \<and> ro_finish_reason out \<noteq> FinishLength"
proof (induction arbitrary: a rule: loop_trace.induct)
  case (last i tr r)
  then show ?case using iteration_exec_guarded [OF last(2,3)] by fastforce
next
  case (more i tr tr' r)
  from event_split [OF more(5)] consider c1 where "tr = a @ EvExec calls x b # c1"
    | a2 where "a = tr @ a2" "tr' = a2 @ EvExec calls x b # c" by blast
  then show ?case
  proof cases
    case 1
    then show ?thesis using iteration_exec_guarded [OF more(2) 1] by fastforce
  next
    case 2
    then show ?thesis using more(4) [OF 2(2)] by fastforce
  qed
qed simp

text \<open>
  C19. The loop follows its protocol whatever the delegate does. The calls it makes are a
  sequence of complete iterations, each in the fixed order signal check, pre-call hook, model
  call, handling, and the last one explains the result. In particular it makes at most
  \<open>max_iterations\<close> model calls, each right after a signal check that did not say stop and a
  pre-call hook (cost guard) that did not object, and it executes tool calls only as the complete,
  untruncated batch of the response just received.
\<close>

theorem loop_protocol:
  "case run_agentic_loop fp (logged D) cfg ((d, []), ctx) of (r, ((d', tr), ctx'), v') \<Rightarrow>
     loop_trace (al_max_iterations cfg) 1 tr r
     \<and> length (filter is_llm_call tr) \<le> al_max_iterations cfg
     \<and> (\<forall>a j f x c. tr = a @ EvLlm j f x # c \<longrightarrow>
          (\<exists>a0 sg. sg \<noteq> SignalStop \<and> a = a0 @ [EvSignal sg, EvBefore j None]))
     \<and> (\<forall>a calls x b c. tr = a @ EvExec calls x b # c \<longrightarrow>
          (\<exists>a0 j f out content. a = a0 @ [EvLlm j f (Ok out)]
             \<and> ro_result out = RespondToolCalls calls content \<and> ro_finish_reason out \<noteq> FinishLength))"
proof -
  obtain r d' tr ctx' v' where run: "run_agentic_loop fp (logged D) cfg ((d, []), ctx) = (r, ((d', tr), ctx'), v')"
    by (metis prod.exhaust)
  from iterations_logged [OF this [unfolded run_agentic_loop_def]]
  have "loop_trace (al_max_iterations cfg) 1 tr r" by simp
  then show ?thesis unfolding run
    using loop_llm_calls loop_llm_guarded loop_exec_guarded by fastforce
qed

text \<open>A delegate whose model always asks for the same tool, which always fails.\<close>

definition stuck_output :: respond_output where
  "stuck_output = \<lparr>ro_result = RespondToolCalls [\<lparr>tc_id = ''1'', tc_name = ''shell'', tc_arguments = JNull, tc_reasoning = None\<rparr>] None,
     ro_usage = \<lparr>ru_input_tokens = 1, ru_output_tokens = 1, ru_cache_read_input_tokens = 0, ru_cache_creation_input_tokens = 0\<rparr>,
     ro_finish_reason = FinishToolUse, ro_anomaly = None\<rparr>"

definition stuck_delegate :: "(unit, string, unit) loop_delegate" where
  "stuck_delegate = \<lparr>ld_check_signals = (\<lambda>d. (SignalContinue, d)), ld_before_llm_call = (\<lambda>i s. (None, s)),
     ld_call_llm = (\<lambda>i s. (Ok stuck_output, s)), ld_handle_text_response = (\<lambda>t a s. (TextReturn (LoopResponse t), s)),
     ld_execute_tool_calls = (\<lambda>calls c (d, ctx). (Ok None, d, ctx\<lparr>rx_last_tool_batch_all_failed := True\<rparr>)),
     ld_on_tool_intent_nudge = (\<lambda>t s. s), ld_after_iteration = (\<lambda>i d. d)\<rparr>"

lemma loop_protocol_witness:
  "length (filter is_llm_call (snd (fst (fst (snd (run_agentic_loop (\<lambda>_. 0) (logged stuck_delegate)
      (agentic_loop_config_default\<lparr>al_max_iterations := 2\<rparr>) (((), []), reasoning_context_new))))))) \<le> 2"
  using loop_protocol [where fp = "\<lambda>_. 0" and D = stuck_delegate and cfg = "agentic_loop_config_default\<lparr>al_max_iterations := 2\<rparr>"
    and d = "()" and ctx = reasoning_context_new]
  by (auto split: prod.splits)

section \<open>Escalation\<close>

text \<open>
  Read off the log: how many truncated tool-call responses have come since a batch was last
  executed, and for how many batches in a row the same calls have all failed, with no text
  response in between.
\<close>

fun is_truncation :: "('e, 'p) loop_event \<Rightarrow> bool" where
  "is_truncation (EvLlm _ _ (Inr out)) =
     (ro_finish_reason out = FinishLength \<and> (case ro_result out of RespondToolCalls _ _ \<Rightarrow> True | _ \<Rightarrow> False))"
| "is_truncation _ = False"

fun is_exec :: "('e, 'p) loop_event \<Rightarrow> bool" where
  "is_exec (EvExec _ _ _) = True"
| "is_exec _ = False"

definition truncations_since_exec :: "('e, 'p) loop_event list \<Rightarrow> nat" where
  "truncations_since_exec tr = length (filter is_truncation (takeWhile (\<lambda>e. \<not> is_exec e) (rev tr)))"

datatype dup_mark = Batch u64 bool | TextReset

fun dup_mark_of :: "(tool_call list \<Rightarrow> u64) \<Rightarrow> ('e, 'p) loop_event \<Rightarrow> dup_mark list" where
  "dup_mark_of fp (EvExec calls (Inr None) failed) = [Batch (fp calls) failed]"
| "dup_mark_of fp (EvText _ _) = [TextReset]"
| "dup_mark_of fp _ = []"

fun streak :: "dup_mark list \<Rightarrow> nat" where
  "streak (Batch f True # ms) = Suc (length (takeWhile (\<lambda>m. m = Batch f True) ms))"
| "streak _ = 0"

definition dup_marks :: "(tool_call list \<Rightarrow> u64) \<Rightarrow> ('e, 'p) loop_event list \<Rightarrow> dup_mark list" where
  "dup_marks fp tr = concat (map (dup_mark_of fp) (rev tr))"

definition escalated :: "(tool_call list \<Rightarrow> u64) \<Rightarrow> ('e, 'p) loop_event list \<Rightarrow> bool" where
  "escalated fp tr = (\<exists>p. prefix p tr \<and> (3 \<le> truncations_since_exec p \<or> 5 \<le> streak (dup_marks fp p)))"

definition forced_after :: "(tool_call list \<Rightarrow> u64) \<Rightarrow> ('e, 'p) loop_event list \<Rightarrow> bool" where
  "forced_after fp tr = (\<forall>a j f x c. tr = a @ EvLlm j f x # c \<longrightarrow> escalated fp a \<longrightarrow> f)"

lemma truncations_snoc:
  "truncations_since_exec (l @ [e]) =
     (if is_exec e then 0 else truncations_since_exec l + (if is_truncation e then 1 else 0))"
  by (simp add: truncations_since_exec_def)

lemma dup_marks_snoc: "dup_marks fp (l @ [e]) = dup_mark_of fp e @ dup_marks fp l"
  by (simp add: dup_marks_def)

lemma escalated_snoc:
  "escalated fp (l @ [e]) \<longleftrightarrow>
     escalated fp l \<or> 3 \<le> truncations_since_exec (l @ [e]) \<or> 5 \<le> streak (dup_marks fp (l @ [e]))"
  by (auto simp: escalated_def)

lemma forced_snoc:
  "forced_after fp (l @ [e]) \<longleftrightarrow> forced_after fp l \<and> (\<forall>j f x. e = EvLlm j f x \<longrightarrow> escalated fp l \<longrightarrow> f)"
proof
  assume all: "forced_after fp (l @ [e])"
  show "forced_after fp l \<and> (\<forall>j f x. e = EvLlm j f x \<longrightarrow> escalated fp l \<longrightarrow> f)"
    unfolding forced_after_def
  proof (intro conjI allI impI)
    fix a j f x c assume "l = a @ EvLlm j f x # c" and "escalated fp a"
    then show f using all [unfolded forced_after_def, rule_format, of a j f x "c @ [e]"] by simp
  next
    fix j f x assume "e = EvLlm j f x" and "escalated fp l"
    then show f using all [unfolded forced_after_def, rule_format, of l j f x "[]"] by simp
  qed
next
  assume r: "forced_after fp l \<and> (\<forall>j f x. e = EvLlm j f x \<longrightarrow> escalated fp l \<longrightarrow> f)"
  show "forced_after fp (l @ [e])" unfolding forced_after_def
  proof (intro allI impI)
    fix a j f x c assume eq: "l @ [e] = a @ EvLlm j f x # c" and esc: "escalated fp a"
    show f
    proof (cases c rule: rev_cases)
      case Nil
      then show ?thesis using eq esc r by simp
    next
      case (snoc c1 z)
      then have "l = a @ EvLlm j f x # c1" using eq by simp
      with r esc show ?thesis unfolding forced_after_def by blast
    qed
  qed
qed

lemma escalated_now: "3 \<le> truncations_since_exec l \<or> 5 \<le> streak (dup_marks fp l) \<Longrightarrow> escalated fp l"
  by (auto simp: escalated_def)

text \<open>The same, one event at a time.\<close>

definition esc_step :: "(tool_call list \<Rightarrow> u64) \<Rightarrow> bool \<times> nat \<times> dup_mark list \<times> bool \<Rightarrow> ('e, 'p) loop_event \<Rightarrow> bool \<times> nat \<times> dup_mark list \<times> bool" where
  "esc_step fp = (\<lambda>(esc, t, ms, ok) e.
     let t' = (if is_exec e then 0 else t + (if is_truncation e then 1 else 0));
         ms' = dup_mark_of fp e @ ms
     in (esc \<or> 3 \<le> t' \<or> 5 \<le> streak ms', t', ms', ok \<and> (case e of EvLlm j f x \<Rightarrow> esc \<longrightarrow> f | _ \<Rightarrow> True)))"

definition esc_summary :: "(tool_call list \<Rightarrow> u64) \<Rightarrow> ('e, 'p) loop_event list \<Rightarrow> bool \<times> nat \<times> dup_mark list \<times> bool" where
  "esc_summary fp l = (escalated fp l, truncations_since_exec l, dup_marks fp l, forced_after fp l)"

lemma esc_summary_snoc: "esc_summary fp (l @ [e]) = esc_step fp (esc_summary fp l) e"
  by (simp add: esc_summary_def esc_step_def escalated_snoc truncations_snoc dup_marks_snoc forced_snoc Let_def
      split: loop_event.split)

lemma esc_summary_append: "esc_summary fp (l @ es) = foldl (esc_step fp) (esc_summary fp l) es"
proof (induction es rule: rev_induct)
  case (snoc e es)
  then show ?case using esc_summary_snoc [of fp "l @ es" e] by simp
qed simp

fun last_mark :: "dup_mark list \<Rightarrow> u64 option" where
  "last_mark (Batch f b # ms) = Some f"
| "last_mark _ = None"

definition tracks :: "dup_tracker \<Rightarrow> dup_mark list \<Rightarrow> bool" where
  "tracks t ms = (unat (dt_consecutive_count t) = streak ms \<and> dt_last_fingerprint t = last_mark ms)"

lemma tracks_reset: "tracks (tracker_reset t) (TextReset # ms)"
  by (simp add: tracks_def tracker_reset_def)

lemma streak_batch:
  "streak (Batch f True # ms) = (if last_mark ms = Some f then streak ms + 1 else 1)"
proof (cases ms)
  case (Cons m ms')
  show ?thesis
  proof (cases m)
    case (Batch g b)
    then show ?thesis using Cons by (cases b) auto
  next
    case TextReset
    then show ?thesis using Cons by simp
  qed
qed simp

lemma tracks_record:
  assumes "tracks t ms" and "streak ms + 1 < 2 ^ 32" and "record_with_fingerprint f b t = (c, t')"
  shows "tracks t' (Batch f b # ms)" and "unat c = streak (Batch f b # ms)"
proof -
  have "unat (dt_consecutive_count t + 1) = unat (dt_consecutive_count t) + 1"
    using assms(1,2) by (simp add: tracks_def unat_word_ariths)
  then have "tracks t' (Batch f b # ms) \<and> unat c = streak (Batch f b # ms)"
    using assms(1,3) by (cases b) (auto simp: tracks_def record_with_fingerprint_def tracker_reset_def Let_def
      streak_batch simp del: streak.simps(1) split: if_splits)
  then show "tracks t' (Batch f b # ms)" and "unat c = streak (Batch f b # ms)" by simp_all
qed

text \<open>A delegate that never clears \<open>force_text\<close>; the chat delegate restores it explicitly.\<close>

definition keeps_force_text :: "('d, 'e, 'p) loop_delegate \<Rightarrow> bool" where
  "keeps_force_text D =
     (\<forall>d ctx. rx_force_text ctx \<longrightarrow>
        (\<forall>i. rx_force_text (snd (snd (ld_before_llm_call D i (d, ctx)))))
        \<and> (\<forall>i. rx_force_text (snd (snd (ld_call_llm D i (d, ctx)))))
        \<and> (\<forall>t a. rx_force_text (snd (snd (ld_handle_text_response D t a (d, ctx)))))
        \<and> (\<forall>cs c. rx_force_text (snd (snd (ld_execute_tool_calls D cs c (d, ctx)))))
        \<and> (\<forall>t. rx_force_text (snd (ld_on_tool_intent_nudge D t (d, ctx)))))"

lemma keeps_force_textD:
  assumes "keeps_force_text D" and "rx_force_text ctx"
  shows "ld_before_llm_call D i (d, ctx) = (r1, d1, ctx1) \<Longrightarrow> rx_force_text ctx1"
    and "ld_call_llm D i (d, ctx) = (r2, d2, ctx2) \<Longrightarrow> rx_force_text ctx2"
    and "ld_handle_text_response D t a (d, ctx) = (r3, d3, ctx3) \<Longrightarrow> rx_force_text ctx3"
    and "ld_execute_tool_calls D cs c (d, ctx) = (r4, d4, ctx4) \<Longrightarrow> rx_force_text ctx4"
    and "ld_on_tool_intent_nudge D t (d, ctx) = (d5, ctx5) \<Longrightarrow> rx_force_text ctx5"
  using assms unfolding keeps_force_text_def by (metis snd_conv)+

definition esc_inv :: "(tool_call list \<Rightarrow> u64) \<Rightarrow> nat \<Rightarrow> ('e, 'p) loop_event list \<Rightarrow> reasoning_context \<Rightarrow> loop_vars \<Rightarrow> bool" where
  "esc_inv fp i l ctx v = (case esc_summary fp l of (esc, t, ms, ok) \<Rightarrow>
     ok \<and> (3 \<le> t \<or> 5 \<le> streak ms \<longrightarrow> esc) \<and> (esc \<longrightarrow> rx_force_text ctx)
     \<and> unat (lv_truncation_count v) = t \<and> t < i \<and> tracks (lv_dup_tracker v) ms \<and> streak ms < i)"

definition esc_next :: "(tool_call list \<Rightarrow> u64) \<Rightarrow> nat \<Rightarrow> ('r, ('d \<times> ('e, 'p) loop_event list) loop_state) progress \<Rightarrow> bool" where
  "esc_next fp i p = (case p of
       Finished r (((d, l), ctx), v) \<Rightarrow> forced_after fp l
     | Next (((d, l), ctx), v) \<Rightarrow> esc_inv fp i l ctx v)"

lemma push_messages_force [simp]:
  "rx_force_text (push_messages ms ctx) = rx_force_text ctx"
  by (simp add: push_messages_def)

lemma escalate_force:
  "rx_force_text (escalate c ctx) \<longleftrightarrow> rx_force_text ctx \<or> 5 \<le> unat c"
  by (simp add: escalate_def DUPLICATE_FORCE_TEXT_THRESHOLD_def word_le_nat_alt)

lemma forced_of_summary: "esc_summary fp l = (esc, t, ms, ok) \<Longrightarrow> forced_after fp l = ok"
  by (simp add: esc_summary_def)

lemma response_escalates:
  assumes inv: "esc_inv fp i l0 ctx0 v" and D: "keeps_force_text D" and i: "i < 2 ^ 32"
    and l: "l = l0 @ [EvSignal sg, EvBefore i None, EvLlm i f (Ok out)]"
    and f: "escalated fp l0 \<longrightarrow> f \<and> rx_force_text ctx"
  shows "esc_next fp (Suc i) (on_response fp (logged D) cfg i out (((d, l), ctx), v))"
proof -
  obtain esc t ms ok where sm: "esc_summary fp l0 = (esc, t, ms, ok)" by (cases "esc_summary fp l0") auto
  then have esc: "escalated fp l0 = esc" by (simp add: esc_summary_def)
  note inv1 = inv [unfolded esc_inv_def sm prod.case]
  show ?thesis
  proof (cases "ro_result out")
    case (RespondText words)
    note simps = on_response_def RespondText on_text_def after_iteration_def Let_def logged_def esc_next_def esc_inv_def
      l esc_summary_append sm esc_step_def
    show ?thesis
    proof (cases "should_nudge cfg words ctx v")
      case True
      obtain d1 ctx1 where n: "ld_on_tool_intent_nudge D words (d, ctx) = (d1, ctx1)" by fastforce
      have "esc \<longrightarrow> rx_force_text ctx1" using f esc keeps_force_textD(5) [OF D _ n] by blast
      with True n show ?thesis using inv1 f esc by (auto simp: simps)
    next
      case False
      obtain a d1 ctx1 where a: "ld_handle_text_response D words (ro_anomaly out) (d, ctx) = (a, d1, ctx1)"
        by (metis prod.exhaust)
      have k: "esc \<longrightarrow> rx_force_text ctx1" using f esc keeps_force_textD(3) [OF D _ a] by blast
      show ?thesis
      proof (cases a)
        case (TextReturn outcome)
        have "esc_summary fp (l @ [EvText words a]) = (esc, t, TextReset # ms, True)"
          using inv1 f esc RespondText by (auto simp: l esc_summary_append sm esc_step_def)
        then show ?thesis using False a TextReturn
          by (simp add: on_response_def RespondText on_text_def Let_def logged_def esc_next_def forced_of_summary)
      next
        case TextContinue
        with False a k show ?thesis using inv1 f esc by (auto simp: simps tracks_reset)
      qed
    qed
  next
    case (RespondToolCalls calls c)
    note simps = on_response_def RespondToolCalls on_truncated_def on_tool_calls_def after_iteration_def Let_def
      logged_def esc_next_def esc_inv_def l esc_summary_append sm esc_step_def
    show ?thesis
    proof (cases "ro_finish_reason out = FinishLength")
      case True
      have "unat (lv_truncation_count v + 1) = t + 1" using inv1 i by (simp add: unat_word_ariths)
      with True show ?thesis using inv1 f esc
        by (auto simp: simps word_le_nat_alt split: option.splits)
    next
      case False
      let ?ctx = "ctx\<lparr>rx_last_tool_batch_all_failed := False\<rparr>"
      obtain x d1 ctx1 where x: "ld_execute_tool_calls D calls c (d, ?ctx) = (x, d1, ctx1)" by (metis prod.exhaust)
      let ?b = "rx_last_tool_batch_all_failed ctx1"
      have k: "esc \<longrightarrow> rx_force_text ctx1" using f esc keeps_force_textD(4) [OF D _ x] by simp
      have fin: "forced_after fp (l @ [EvExec calls x b])" for b
      proof -
        have "snd (snd (snd (esc_summary fp l)))" using inv1 f esc by (auto simp: l esc_summary_append sm esc_step_def Let_def)
        then show ?thesis by (simp add: forced_snoc) (simp add: esc_summary_def)
      qed
      consider "\<exists>r. x = Err r" | "\<exists>r. x = Ok (Some r)" | "x = Ok None" by (metis option.exhaust sum.exhaust)
      then show ?thesis
      proof cases
        case 3
        obtain cnt t' where r: "record_with_fingerprint (fp calls) ?b (lv_dup_tracker v) = (cnt, t')" by fastforce
        have "streak ms + 1 < 2 ^ 32" using inv1 i by simp
        note rec = tracks_record [OF _ this r]
        have le: "streak (Batch (fp calls) ?b # ms) \<le> streak ms + 1"
          by (cases ?b) (simp_all add: streak_batch del: streak.simps(1))
        from 3 False x r k rec le show ?thesis using inv1 f esc
          by (auto simp: simps escalate_force simp del: streak.simps)
      qed (use False x fin in \<open>auto simp: on_response_def RespondToolCalls on_tool_calls_def Let_def logged_def esc_next_def\<close>)
    qed
  qed
qed

lemma iteration_escalates:
  assumes inv: "esc_inv fp i l ctx v" and D: "keeps_force_text D" and i: "i < 2 ^ 32"
  shows "esc_next fp (Suc i) (loop_iteration fp (logged D) cfg i (((d, l), ctx), v))"
proof -
  obtain sg d1 where sg: "ld_check_signals D d = (sg, d1)" by fastforce
  obtain b d2 ctx2 where b: "ld_before_llm_call D i (d1, apply_signal sg ctx) = (b, d2, ctx2)" by (metis prod.exhaust)
  obtain r d3 ctx3 where r: "ld_call_llm D i (d2, ctx2) = (r, d3, ctx3)" by (metis prod.exhaust)
  have esc: "forced_after fp l" "escalated fp l \<longrightarrow> rx_force_text ctx"
    using inv by (simp_all add: esc_inv_def esc_summary_def)
  have same: "escalated fp (l @ [EvSignal sg, EvBefore i None]) = escalated fp l"
    using inv esc_summary_append [of fp l "[EvSignal sg, EvBefore i None]"]
    by (auto simp: esc_inv_def esc_summary_def esc_step_def)
  have "rx_force_text (apply_signal sg ctx) = rx_force_text ctx" by (cases sg) (simp_all add: apply_signal_def)
  then have f2: "escalated fp l \<longrightarrow> rx_force_text ctx2" using esc(2) keeps_force_textD(1) [OF D _ b] by simp
  then have f3: "escalated fp l \<longrightarrow> rx_force_text ctx3" using keeps_force_textD(2) [OF D _ r] by simp
  let ?l = "l @ [EvSignal sg, EvBefore i None, EvLlm i (rx_force_text ctx2) r]"
  have called: "forced_after fp ?l"
    using f2 esc(1) same forced_snoc [of fp "l @ [EvSignal sg, EvBefore i None]"] forced_snoc [of fp "l @ [EvSignal sg]" "EvBefore i None"]
    by (simp add: forced_snoc)
  have early: "forced_after fp (l @ [EvSignal sg])" "forced_after fp (l @ [EvSignal sg, EvBefore i b])"
    using esc(1) forced_snoc [of fp "l @ [EvSignal sg]" "EvBefore i b"] by (simp_all add: forced_snoc)
  have resp: "esc_next fp (Suc i) (on_response fp (logged D) cfg i out (((d3, ?l), ctx3), v))" if "r = Ok out" for out
    using that f2 f3 by (intro response_escalates [OF inv D i]) simp_all
  show ?thesis using sg b r called early resp
    by (auto simp: loop_iteration_def logged_def esc_next_def split: option.splits sum.splits)
qed

lemma iterations_escalate:
  assumes "loop_iterations fp (logged D) cfg [i..<Suc n] (((d, l), ctx), v) = (r, ((d', l'), ctx'), v')"
    and "esc_inv fp i l ctx v" and D: "keeps_force_text D" and n: "n < 2 ^ 32"
  shows "forced_after fp l'"
  using assms(1,2)
proof (induction "Suc n - i" arbitrary: i d l ctx v)
  case 0
  then have "[i..<Suc n] = []" by simp
  with 0 show ?case by (auto simp: esc_inv_def esc_summary_def simp del: upt_Suc)
next
  case (Suc m)
  then have i: "i \<le> n" and upt: "[i..<Suc n] = i # [Suc i..<Suc n]" by (simp_all add: upt_conv_Cons del: upt_Suc)
  let ?p = "loop_iteration fp (logged D) cfg i (((d, l), ctx), v)"
  have nx: "esc_next fp (Suc i) ?p" using i n by (intro iteration_escalates [OF Suc(4) D]) simp
  show ?case
  proof (cases ?p)
    case (Finished r1 s1)
    with Suc(3) upt have "s1 = (((d', l'), ctx'), v')" by (simp_all del: upt_Suc)
    with nx Finished show ?thesis by (simp add: esc_next_def)
  next
    case (Next s1)
    obtain d1 l1 ctx1 v1 where s1: "s1 = (((d1, l1), ctx1), v1)" by (metis prod.exhaust)
    have "loop_iterations fp (logged D) cfg [Suc i..<Suc n] (((d1, l1), ctx1), v1) = (r, ((d', l'), ctx'), v')"
      using Suc(3) upt Next s1 by (simp del: upt_Suc)
    moreover have "esc_inv fp (Suc i) l1 ctx1 v1" using nx Next s1 by (simp add: esc_next_def)
    moreover have "m = Suc n - Suc i" using Suc(2) i by simp
    ultimately show ?thesis using Suc(1) by blast
  qed
qed

text \<open>
  Escalation: with a delegate that does not clear \<open>force_text\<close>, once three truncated tool-call
  responses have come since a batch was last executed, or the same batch has failed five times in
  a row without a text response in between, every later model call of the run is made in
  text-only mode. (An executed batch resets the count of truncations, also one between two
  truncated responses.)
\<close>

theorem loop_escalates:
  assumes "keeps_force_text D" and "al_max_iterations cfg < 2 ^ 32"
    and "run_agentic_loop fp (logged D) cfg ((d, []), ctx) = (r, ((d', a @ EvLlm j f x # c), ctx'), v')"
    and "prefix p a" and "3 \<le> truncations_since_exec p \<or> 5 \<le> streak (dup_marks fp p)"
  shows f
proof -
  have "esc_inv fp 1 [] ctx loop_vars_init"
    by (simp add: esc_inv_def esc_summary_def loop_vars_init_def tracks_def tracker_new_def forced_after_def
        escalated_def truncations_since_exec_def dup_marks_def)
  from iterations_escalate [OF assms(3) [unfolded run_agentic_loop_def] this assms(1,2)]
  have "forced_after fp (a @ EvLlm j f x # c)" .
  moreover have "escalated fp a" using assms(4,5) by (auto simp: escalated_def)
  ultimately show ?thesis unfolding forced_after_def by blast
qed

definition stuck_log :: "(string, unit) loop_event list" where
  "stuck_log = snd (fst (fst (snd (run_agentic_loop (\<lambda>_. 0) (logged stuck_delegate)
     (agentic_loop_config_default\<lparr>al_max_iterations := 6\<rparr>) (((), []), reasoning_context_new)))))"

lemma stuck_log_streak: "streak (dup_marks (\<lambda>_. 0) (take 25 stuck_log)) = 5 \<and> length stuck_log = 30
   \<and> (case stuck_log ! 27 of EvLlm j f x \<Rightarrow> True | _ \<Rightarrow> False)"
  by code_simp

lemma loop_escalates_witness: "\<exists>j x. stuck_log ! 27 = EvLlm j True x"
proof -
  obtain r d' ctx' v' where run: "run_agentic_loop (\<lambda>_. 0) (logged stuck_delegate)
     (agentic_loop_config_default\<lparr>al_max_iterations := 6\<rparr>) (((), []), reasoning_context_new) = (r, ((d', stuck_log), ctx'), v')"
    unfolding stuck_log_def by (metis prod.collapse)
  from stuck_log_streak obtain j f x where e: "stuck_log ! 27 = EvLlm j f x" by (auto split: loop_event.splits)
  have split: "stuck_log = take 27 stuck_log @ EvLlm j f x # drop 28 stuck_log"
    using id_take_nth_drop [of 27 stuck_log] stuck_log_streak e by simp
  have "keeps_force_text stuck_delegate" by (simp add: keeps_force_text_def stuck_delegate_def)
  moreover have "prefix (take 25 stuck_log) (take 27 stuck_log)"
    using take_is_prefix [of 25 "take 27 stuck_log"] by (simp add: min_def)
  ultimately have f
    using loop_escalates [of stuck_delegate "agentic_loop_config_default\<lparr>al_max_iterations := 6\<rparr>" "\<lambda>_. 0" "()" reasoning_context_new
        r d' "take 27 stuck_log" j f x "drop 28 stuck_log" ctx' v' "take 25 stuck_log"] run split stuck_log_streak by simp
  with e show ?thesis by simp
qed

end
