(* ===== verification/Posix_Fs.thy ===== *)
theory Posix_Fs
  imports Keyed_Store "HOL-Library.Sublist"
begin

text \<open>
  The part of a POSIX file system that the program's file operations go through, as the
  standard library documents it: absolute paths as lists of components, directories, files
  and symbolic links, path resolution that follows at most forty links, and the calls
  \<open>canonicalize\<close>, \<open>exists\<close>, \<open>read\<close>, \<open>write\<close>, \<open>create_dir_all\<close>. Permissions are not modelled.
\<close>

type_synonym path = "string list"

datatype node = FileNode string | DirNode | LinkNode bool path

type_synonym fs = "(path, node) hmap"

datatype io_error = IoNotFound | IoNotADirectory | IoIsADirectory | IoAlreadyExists | IoLoop

definition dir_at :: "fs \<Rightarrow> path \<Rightarrow> bool" where
  "dir_at f p = (p = [] \<or> hm_get f p = Some DirNode)"

definition is_link :: "fs \<Rightarrow> path \<Rightarrow> bool" where
  "is_link f p = (case hm_get f p of Some (LinkNode _ _) \<Rightarrow> True | _ \<Rightarrow> False)"

text \<open>
  Resolution from the directory \<open>cur\<close>, with \<open>k\<close> links left to follow. With \<open>create\<close> a missing
  last component is where a file would be created.
\<close>

function walk :: "bool \<Rightarrow> nat \<Rightarrow> fs \<Rightarrow> path \<Rightarrow> path \<Rightarrow> io_error + path" where
  "walk create k f cur [] = Ok cur"
| "walk create k f cur (c # cs) =
     (if \<not> dir_at f cur then Err IoNotADirectory
      else if c = ''.'' then walk create k f cur cs
      else if c = ''..'' then walk create k f (butlast cur) cs
      else (case hm_get f (cur @ [c]) of
          None \<Rightarrow> if create \<and> cs = [] then Ok (cur @ [c]) else Err IoNotFound
        | Some (LinkNode absolute target) \<Rightarrow>
            (if k = 0 then Err IoLoop
             else walk create (k - 1) f (if absolute then [] else cur) (target @ cs))
        | Some _ \<Rightarrow> walk create k f (cur @ [c]) cs))"
  by pat_completeness auto
termination by (relation "measures [\<lambda>(_, k, _, _, _). k, \<lambda>(_, _, _, _, cs). length cs]") auto

definition MAX_LINKS :: nat where "MAX_LINKS = 40"

definition canonicalize :: "fs \<Rightarrow> path \<Rightarrow> io_error + path" where
  "canonicalize f p = walk False MAX_LINKS f [] p"

definition path_exists :: "fs \<Rightarrow> path \<Rightarrow> bool" where
  "path_exists f p = is_ok (canonicalize f p)"

definition path_is_dir :: "fs \<Rightarrow> path \<Rightarrow> bool" where
  "path_is_dir f p = (case canonicalize f p of Inr q \<Rightarrow> dir_at f q | Inl _ \<Rightarrow> False)"

definition read_file :: "fs \<Rightarrow> path \<Rightarrow> io_error + string" where
  "read_file f p =
     (case canonicalize f p of
        Inl e \<Rightarrow> Err e
      | Inr q \<Rightarrow> (case hm_get f q of Some (FileNode content) \<Rightarrow> Ok content | _ \<Rightarrow> Err IoIsADirectory))"

definition write_file :: "fs \<Rightarrow> path \<Rightarrow> string \<Rightarrow> (io_error + unit) \<times> fs" where
  "write_file f p content =
     (case walk True MAX_LINKS f [] p of
        Inl e \<Rightarrow> (Err e, f)
      | Inr q \<Rightarrow> if dir_at f q then (Err IoIsADirectory, f) else (Ok (), hm_insert f q (FileNode content)))"

definition mkdir :: "fs \<Rightarrow> path \<Rightarrow> (io_error + unit) \<times> fs" where
  "mkdir f p =
     (if p = [] then (Err IoAlreadyExists, f) else
      case canonicalize f (butlast p) of
        Inl e \<Rightarrow> (Err e, f)
      | Inr d \<Rightarrow>
          if \<not> dir_at f d then (Err IoNotADirectory, f)
          else if last p \<in> {''.'', ''..''} \<or> hm_get f (d @ [last p]) \<noteq> None then (Err IoAlreadyExists, f)
          else (Ok (), hm_insert f (d @ [last p]) DirNode))"

function create_dir_all :: "fs \<Rightarrow> path \<Rightarrow> (io_error + unit) \<times> fs" where
  "create_dir_all f p =
     (if p = [] then (Ok (), f)
      else case mkdir f p of
        (Inr _, f1) \<Rightarrow> (Ok (), f1)
      | (Inl e, _) \<Rightarrow>
          if e \<noteq> IoNotFound then (if path_is_dir f p then (Ok (), f) else (Err e, f))
          else (case create_dir_all f (butlast p) of
              (Inl e1, f1) \<Rightarrow> (Err e1, f1)
            | (Inr _, f1) \<Rightarrow>
                (case mkdir f1 p of
                   (Inr _, f2) \<Rightarrow> (Ok (), f2)
                 | (Inl e2, _) \<Rightarrow> if path_is_dir f1 p then (Ok (), f1) else (Err e2, f1))))"
  by pat_completeness auto
termination by (relation "measure (\<lambda>(_, p). length p)") auto

declare create_dir_all.simps [simp del]

section \<open>Canonical paths\<close>

definition canonical :: "fs \<Rightarrow> path \<Rightarrow> bool" where
  "canonical f p = (\<forall>a c b. p = a @ c # b \<longrightarrow>
     dir_at f a \<and> c \<notin> {''.'', ''..''} \<and> hm_get f (a @ [c]) \<noteq> None \<and> \<not> is_link f (a @ [c]))"

lemma canonical_Nil [simp]: "canonical f []"
  by (simp add: canonical_def)

lemma canonical_prefix: "canonical f (p @ r) \<Longrightarrow> canonical f p"
  unfolding canonical_def by (metis append.assoc append_Cons)

lemma canonical_butlast: "canonical f p \<Longrightarrow> canonical f (butlast p)"
  by (cases p rule: rev_cases) (auto intro: canonical_prefix)

lemma canonical_snoc:
  assumes "canonical f p" and "dir_at f p" and "c \<notin> {''.'', ''..''}"
    and "hm_get f (p @ [c]) \<noteq> None" and "\<not> is_link f (p @ [c])"
  shows "canonical f (p @ [c])"
  unfolding canonical_def
proof (intro allI impI)
  fix a x b assume eq: "p @ [c] = a @ x # b"
  show "dir_at f a \<and> x \<notin> {''.'', ''..''} \<and> hm_get f (a @ [x]) \<noteq> None \<and> \<not> is_link f (a @ [x])"
  proof (cases b rule: rev_cases)
    case Nil
    then show ?thesis using eq assms by simp
  next
    case (snoc b1 y)
    then have "p = a @ x # b1" using eq by simp
    then show ?thesis using assms(1) unfolding canonical_def by blast
  qed
qed

lemma walk_canonical: "walk False k f cur cs = Ok r \<Longrightarrow> canonical f cur \<Longrightarrow> canonical f r"
proof (induction "False" k f cur cs rule: walk.induct)
  case (2 k f cur c cs)
  show ?case
  proof (cases "dir_at f cur \<and> c \<noteq> ''.'' \<and> c \<noteq> ''..''")
    case True
    then obtain n where n: "hm_get f (cur @ [c]) = Some n" using 2 by (auto split: option.splits)
    show ?thesis
    proof (cases n)
      case (LinkNode absolute target)
      then show ?thesis using 2 True n by (auto split: if_splits)
    next
      case (FileNode content)
      have "canonical f (cur @ [c])" using 2 True n FileNode by (intro canonical_snoc) (auto simp: is_link_def)
      then show ?thesis using 2 True n FileNode by simp
    next
      case DirNode
      have "canonical f (cur @ [c])" using 2 True n DirNode by (intro canonical_snoc) (auto simp: is_link_def)
      then show ?thesis using 2 True n DirNode by simp
    qed
  qed (use 2 in \<open>auto split: if_splits intro: canonical_butlast\<close>)
qed simp

lemma walk_through: "canonical f (cur @ xs) \<Longrightarrow> walk create k f cur (xs @ ys) = walk create k f (cur @ xs) ys"
proof (induction xs arbitrary: cur)
  case (Cons c xs)
  have c: "dir_at f cur" "c \<noteq> ''.''" "c \<noteq> ''..''" "hm_get f (cur @ [c]) \<noteq> None" "\<not> is_link f (cur @ [c])"
    using Cons.prems unfolding canonical_def by blast+
  then obtain n where n: "hm_get f (cur @ [c]) = Some n" by blast
  have "walk create k f cur (c # xs @ ys) = walk create k f (cur @ [c]) (xs @ ys)"
    using c n by (cases n) (simp_all add: is_link_def)
  then show ?case using Cons.IH [of "cur @ [c]"] Cons.prems by simp
qed simp

lemma canonicalize_canonical: "canonicalize f p = Ok r \<Longrightarrow> canonical f r"
  unfolding canonicalize_def using walk_canonical canonical_Nil by blast

lemma canonicalize_id: "canonical f p \<Longrightarrow> canonicalize f p = Ok p"
  using walk_through [of f "[]" p False MAX_LINKS "[]"] by (simp add: canonicalize_def)

lemma walk_prefix: "walk False k f cur (xs @ ys) = Ok r \<Longrightarrow> \<exists>d. walk False k f cur xs = Ok d"
proof (induction "False" k f cur xs arbitrary: rule: walk.induct)
  case (2 k f cur c cs)
  then show ?case by (auto split: if_splits option.splits node.splits)
qed simp

lemma exists_prefix: "path_exists f (p @ r) \<Longrightarrow> path_exists f p"
  unfolding path_exists_def canonicalize_def is_ok_iff using walk_prefix by blast

text \<open>A path with no link and no dot component on the way resolves to itself or not at all.\<close>

definition plain :: "fs \<Rightarrow> path \<Rightarrow> bool" where
  "plain f p = (''.'' \<notin> set p \<and> ''..'' \<notin> set p \<and> (\<forall>q. prefix q p \<longrightarrow> q \<noteq> [] \<longrightarrow> \<not> is_link f q))"

lemma canonical_nodots: "canonical f p \<Longrightarrow> ''.'' \<notin> set p \<and> ''..'' \<notin> set p"
  unfolding canonical_def by (meson insertCI split_list)

lemma canonical_nolink:
  assumes "canonical f p" and "prefix q p" and "q \<noteq> []"
  shows "\<not> is_link f q \<and> hm_get f q \<noteq> None"
proof -
  from assms(2,3) obtain a x b where "q = a @ [x]" "p = a @ x # b"
    by (metis append.assoc append_Cons append_Nil prefixE rev_exhaust)
  then show ?thesis using assms(1) unfolding canonical_def by blast
qed

lemma walk_plain:
  assumes "walk create k f cur cs = Ok r" and "''.'' \<notin> set cs" and "''..'' \<notin> set cs"
    and "\<And>a b. cs = a @ b \<Longrightarrow> a \<noteq> [] \<Longrightarrow> \<not> is_link f (cur @ a)"
  shows "r = cur @ cs"
  using assms
proof (induction cs arbitrary: cur)
  case (Cons c cs)
  have nl: "\<not> is_link f (cur @ [c])" using Cons.prems(4) [of "[c]" cs] by simp
  have "dir_at f cur" using Cons.prems(1) by (auto split: if_splits)
  show ?case
  proof (cases "hm_get f (cur @ [c])")
    case None
    then show ?thesis using Cons.prems \<open>dir_at f cur\<close> by (auto split: if_splits)
  next
    case (Some n)
    then have "walk create k f (cur @ [c]) cs = Ok r"
      using Cons.prems(1-3) nl \<open>dir_at f cur\<close> by (cases n) (auto simp: is_link_def)
    then have "r = (cur @ [c]) @ cs"
    proof (rule Cons.IH)
      show "\<not> is_link f ((cur @ [c]) @ a)" if "cs = a @ b" "a \<noteq> []" for a b
        using Cons.prems(4) [of "c # a" b] that by simp
    qed (use Cons.prems in auto)
    then show ?thesis by simp
  qed
qed simp

lemma plain_butlast: "plain f p \<Longrightarrow> plain f (butlast p)"
  unfolding plain_def by (meson in_set_butlastD prefix_order.trans prefixeq_butlast)

lemma walk_plain_Nil: "plain f p \<Longrightarrow> walk create k f [] p = Ok r \<Longrightarrow> r = p"
  using walk_plain [of create k f "[]" p r] by (auto simp: plain_def prefix_def)

lemma canonical_is_plain: "canonical f p \<Longrightarrow> plain f p"
  using canonical_nodots canonical_nolink unfolding plain_def by blast

text \<open>Creating directories along a plain path only adds directories on that path.\<close>

definition dirs_added :: "path \<Rightarrow> fs \<Rightarrow> fs \<Rightarrow> bool" where
  "dirs_added p f f' = (\<forall>x. hm_get f' x \<noteq> hm_get f x \<longrightarrow>
     x \<noteq> [] \<and> prefix x p \<and> hm_get f x = None \<and> hm_get f' x = Some DirNode)"

lemma dirs_added_refl [simp]: "dirs_added p f f"
  by (simp add: dirs_added_def)

lemma dirs_added_plain: "dirs_added p f f' \<Longrightarrow> plain f q \<Longrightarrow> plain f' q"
proof -
  assume "dirs_added p f f'" and "plain f q"
  then have "is_link f x" if "is_link f' x" for x
    using that by (cases "hm_get f' x = hm_get f x") (auto simp: dirs_added_def is_link_def)
  then show "plain f' q" using \<open>plain f q\<close> unfolding plain_def by blast
qed

lemma dirs_added_trans:
  assumes "dirs_added p f g" and "dirs_added q g h" and "prefix p r" and "prefix q r"
  shows "dirs_added r f h"
  using assms unfolding dirs_added_def by (metis prefix_order.trans)

lemma mkdir_plain:
  assumes "plain f p" and "mkdir f p = (r, f')"
  shows "dirs_added p f f'"
proof (cases "f' = f")
  case False
  then obtain d where d: "p \<noteq> []" "canonicalize f (butlast p) = Ok d" "hm_get f (d @ [last p]) = None"
      "f' = hm_insert f (d @ [last p]) DirNode"
    using assms(2) by (auto simp: mkdir_def split: if_splits sum.splits)
  have "d = butlast p" using walk_plain_Nil [OF plain_butlast [OF assms(1)]] d(2) by (simp add: canonicalize_def)
  then show ?thesis using d by (simp add: dirs_added_def hm_simps)
qed simp

lemma create_dir_all_plain: "plain f p \<Longrightarrow> create_dir_all f p = (r, f') \<Longrightarrow> dirs_added p f f'"
proof (induction f p arbitrary: r f' rule: create_dir_all.induct)
  case (1 f p)
  obtain r1 f1 where m: "mkdir f p = (r1, f1)" by fastforce
  show ?case
  proof (cases "p \<noteq> [] \<and> r1 = Err IoNotFound")
    case True
    obtain r2 f2 where c: "create_dir_all f (butlast p) = (r2, f2)" by fastforce
    obtain r3 f3 where m2: "mkdir f2 p = (r3, f3)" by fastforce
    from True m have a: "dirs_added (butlast p) f f2" using "1.IH" [OF _ m [symmetric] _ _ _ c] plain_butlast [OF "1.prems"(1)] by auto
    then have b: "dirs_added p f2 f3" by (intro mkdir_plain [OF _ m2] dirs_added_plain [OF a "1.prems"(1)])
    have "f' = f2 \<or> f' = f3"
      using "1.prems"(2) True m c m2 by (subst (asm) create_dir_all.simps) (auto split: if_splits sum.splits)
    then show ?thesis using a b dirs_added_trans [OF a b prefixeq_butlast]
      dirs_added_trans [OF a dirs_added_refl [of p f2] prefixeq_butlast] by auto
  next
    case False
    then have "f' = f \<or> f' = f1"
      using "1.prems"(2) m by (subst (asm) create_dir_all.simps) (auto split: if_splits sum.splits)
    then show ?thesis using mkdir_plain [OF "1.prems"(1) m] by auto
  qed
qed

end
