(* ===== verification/Workspace_Mounts.thy ===== *)
theory Workspace_Mounts
  imports Posix_Fs Engine_Types "HOL-Library.Multiset"
begin

text \<open>
  The workspace seen by a project (\<open>crates/t3claw_engine/src/workspace\<close>): the mount table with its
  longest-prefix resolution, the lazily built registry of tables, and the file-system backend
  with its two layers of path checks. The file system does not change during one call.
\<close>

section \<open>Errors and entries\<close>

datatype mount_error =
    MountNotFound string
  | MountInvalidPath string string
  | MountPermissionDenied string
  | MountIo string string
  | MountTool string
  | MountBackendError string
  | MountUnsupported string

datatype entry_kind = EntryFile | EntryDirectory | EntrySymlink

record dir_entry =
  de_path :: path
  de_kind :: entry_kind
  de_size :: "nat option"

definition show_path :: "path \<Rightarrow> string" where
  "show_path p = concat (map (\<lambda>c. ''/'' @ c) p)"

fun io_reason :: "io_error \<Rightarrow> string" where
  "io_reason IoNotFound = ''No such file or directory (os error 2)''"
| "io_reason IoNotADirectory = ''Not a directory (os error 20)''"
| "io_reason IoIsADirectory = ''Is a directory (os error 21)''"
| "io_reason IoAlreadyExists = ''File exists (os error 17)''"
| "io_reason IoLoop = ''Too many levels of symbolic links (os error 40)''"

definition mount_io :: "path \<Rightarrow> io_error \<Rightarrow> mount_error" where
  "mount_io p e = (if e = IoNotFound then MountNotFound (show_path p) else MountIo (show_path p) (io_reason e))"

section \<open>The mount table\<close>

type_synonym 'b project_mounts = "(string \<times> 'b) list"

definition mounts_new :: "'b project_mounts" where "mounts_new = []"

definition normalize_prefix :: "string \<Rightarrow> string" where
  "normalize_prefix pre =
     (let p = (if starts_with pre ''/'' then pre else ''/'' @ pre)
      in if ends_with p ''/'' then p else p @ ''/'')"

definition mounts_add :: "string \<Rightarrow> 'b \<Rightarrow> 'b project_mounts \<Rightarrow> 'b project_mounts" where
  "mounts_add pre backend mounts =
     (let p = normalize_prefix pre
      in sort_key (\<lambda>entry. - int (length (fst entry))) (filter (\<lambda>entry. fst entry \<noteq> p) mounts @ [(p, backend)]))"

fun resolve_in :: "string \<Rightarrow> 'b project_mounts \<Rightarrow> ('b \<times> string) option" where
  "resolve_in normalized [] = None"
| "resolve_in normalized ((pre, backend) # mounts) =
     (case strip_prefix pre normalized of
        Some rest \<Rightarrow> Some (backend, rest)
      | None \<Rightarrow> if ends_with pre ''/'' \<and> normalized = butlast pre then Some (backend, [])
                else resolve_in normalized mounts)"

definition mounts_resolve :: "string \<Rightarrow> 'b project_mounts \<Rightarrow> ('b \<times> string) option" where
  "mounts_resolve p mounts = resolve_in (if starts_with p ''/'' then p else ''/'' @ p) mounts"

text \<open>The registry; the factory may fail, and its state \<open>'s\<close> may change.\<close>

type_synonym 'b workspace_mounts = "(project_id, 'b project_mounts) hmap"

definition workspace_new :: "'b workspace_mounts" where "workspace_new = []"

definition workspace_resolve ::
  "(project_id \<Rightarrow> 's \<Rightarrow> (mount_error + 'b project_mounts) \<times> 's) \<Rightarrow> project_id \<Rightarrow> string
   \<Rightarrow> 'b workspace_mounts \<times> 's \<Rightarrow> (mount_error + ('b \<times> string) option) \<times> 'b workspace_mounts \<times> 's" where
  "workspace_resolve build pid p = (\<lambda>(cache, s).
     case hm_get cache pid of
       Some mounts \<Rightarrow> (Ok (mounts_resolve p mounts), cache, s)
     | None \<Rightarrow>
         (case build pid s of
            (Inl e, s1) \<Rightarrow> (Err e, cache, s1)
          | (Inr mounts, s1) \<Rightarrow> (Ok (mounts_resolve p mounts), hm_insert cache pid mounts, s1)))"

definition workspace_invalidate :: "project_id \<Rightarrow> 'b workspace_mounts \<Rightarrow> 'b workspace_mounts" where
  "workspace_invalidate pid cache = hm_remove cache pid"

section \<open>The file-system backend\<close>

definition path_components :: "string \<Rightarrow> path" where
  "path_components rel = filter (\<lambda>c. c \<noteq> [] \<and> c \<noteq> ''.'') (split_char (CHR ''/'') rel)"

definition safe_join :: "path \<Rightarrow> string \<Rightarrow> mount_error + path" where
  "safe_join base rel =
     (if starts_with rel ''/'' then
        Err (MountInvalidPath rel ''absolute paths are not allowed; pass a path relative to the mount'')
      else if ''..'' \<in> set (path_components rel) then
        Err (MountInvalidPath rel ''`..` components are not allowed'')
      else Ok (base @ path_components rel))"

function find_existing :: "fs \<Rightarrow> path \<Rightarrow> path \<Rightarrow> path \<times> path" where
  "find_existing f p tail =
     (if path_exists f p then (p, tail)
      else if p = [] \<or> last p = ''..'' then (p, tail)
      else find_existing f (butlast p) (tail @ [last p]))"
  by pat_completeness auto
termination by (relation "measure (\<lambda>(_, p, _). length p)") auto

declare find_existing.simps [simp del]

definition canonicalize_under_root :: "fs \<Rightarrow> path \<Rightarrow> path \<Rightarrow> mount_error + path" where
  "canonicalize_under_root f base joined =
     (case canonicalize f base of
        Inl _ \<Rightarrow> Ok joined
      | Inr canonical_root \<Rightarrow>
          let (existing_prefix, tail) = find_existing f joined [];
              canonical_prefix = (case canonicalize f existing_prefix of Inr p \<Rightarrow> p | Inl _ \<Rightarrow> existing_prefix)
          in if \<not> prefix canonical_root canonical_prefix then
               Err (MountInvalidPath (show_path joined) ''resolved path escapes the mount root via symlink'')
             else
               let result = canonical_prefix @ rev tail
               in (case canonicalize f result of
                     Inr final_canonical \<Rightarrow>
                       if \<not> prefix canonical_root final_canonical then
                         Err (MountInvalidPath (show_path joined)
                           ''resolved path escapes the mount root via symlink (post-assembly check)'')
                       else Ok final_canonical
                   | Inl _ \<Rightarrow> Ok result))"

definition backend_resolve :: "fs \<Rightarrow> path \<Rightarrow> string \<Rightarrow> mount_error + path" where
  "backend_resolve f base rel =
     (case safe_join base rel of Inl e \<Rightarrow> Err e | Inr joined \<Rightarrow> canonicalize_under_root f base joined)"

definition backend_read :: "fs \<Rightarrow> path \<Rightarrow> string \<Rightarrow> mount_error + string" where
  "backend_read f base rel =
     (case backend_resolve f base rel of
        Inl e \<Rightarrow> Err e
      | Inr full \<Rightarrow> (case read_file f full of Inl e \<Rightarrow> Err (mount_io full e) | Inr content \<Rightarrow> Ok content))"

definition backend_write :: "fs \<Rightarrow> path \<Rightarrow> string \<Rightarrow> string \<Rightarrow> (mount_error + unit) \<times> fs" where
  "backend_write f base rel content =
     (case backend_resolve f base rel of
        Inl e \<Rightarrow> (Err e, f)
      | Inr full \<Rightarrow>
          (case (if full = [] then (Ok (), f) else create_dir_all f (butlast full)) of
             (Inl e, f1) \<Rightarrow> (Err (mount_io (butlast full) e), f1)
           | (Inr _, f1) \<Rightarrow>
               (case write_file f1 full content of
                  (Inl e, f2) \<Rightarrow> (Err (mount_io full e), f2)
                | (Inr _, f2) \<Rightarrow> (Ok (), f2))))"

definition backend_patch :: "string \<Rightarrow> string \<Rightarrow> string \<Rightarrow> bool \<Rightarrow> mount_error + unit" where
  "backend_patch rel old_string new_string replace_all =
     Err (MountUnsupported ''FilesystemBackend::patch (deferred to a later phase; bridge falls through to host tool)'')"

definition backend_shell :: "string \<Rightarrow> (string, string) hmap \<Rightarrow> string option \<Rightarrow> mount_error + string" where
  "backend_shell command env cwd =
     Err (MountUnsupported ''FilesystemBackend::shell (deferred to a later phase; bridge falls through to host tool)'')"

text \<open>
  Listing: a stack of directories with their depths (top first). Entries come in the order of the
  association list, which stands for the order of \<open>read_dir\<close>.
\<close>

definition children :: "fs \<Rightarrow> path \<Rightarrow> path list" where
  "children f d = filter (\<lambda>p. p \<noteq> [] \<and> butlast p = d) (map fst f)"

definition kind_at :: "fs \<Rightarrow> path \<Rightarrow> entry_kind" where
  "kind_at f p = (case hm_get f p of Some (LinkNode _ _) \<Rightarrow> EntrySymlink | Some DirNode \<Rightarrow> EntryDirectory | _ \<Rightarrow> EntryFile)"

definition entry_at :: "fs \<Rightarrow> path \<Rightarrow> path \<Rightarrow> dir_entry" where
  "entry_at f base p = \<lparr>de_path = (if prefix base p then drop (length base) p else p), de_kind = kind_at f p,
     de_size = (case hm_get f p of Some (FileNode c) \<Rightarrow> Some (length c) | _ \<Rightarrow> None)\<rparr>"

definition descend :: "fs \<Rightarrow> path \<Rightarrow> path \<Rightarrow> bool" where
  "descend f base p = (kind_at f p = EntryDirectory
     \<and> (case canonicalize f p of Inr q \<Rightarrow> prefix base q | Inl _ \<Rightarrow> False))"

lemma push_smaller: "(\<And>b. b \<in># M \<Longrightarrow> b < a) \<Longrightarrow> (M + I, add_mset (a :: nat) I) \<in> mult less_than"
  using one_step_implies_mult [of "{#a#}" M less_than I] by (simp add: add.commute)

function list_loop :: "fs \<Rightarrow> path \<Rightarrow> nat \<Rightarrow> (path \<times> nat) list \<Rightarrow> dir_entry list \<Rightarrow> mount_error + dir_entry list" where
  "list_loop f base depth [] out = Ok out"
| "list_loop f base depth ((current, d) # stack) out =
     (if path_is_dir f current then
        let cs = children f current;
            pushed = (if d < depth then map (\<lambda>p. (p, Suc d)) (filter (descend f base) cs) else [])
        in list_loop f base depth (rev pushed @ stack) (out @ map (entry_at f base) cs)
      else Err (mount_io current (if path_exists f current then IoNotADirectory else IoNotFound)))"
  by pat_completeness auto
termination
proof (relation "inv_image (mult less_than) (\<lambda>(f, base, depth, stack, out). mset (map (\<lambda>(p, d). Suc depth - d) stack))")
  show "wf (inv_image (mult less_than) (\<lambda>(f :: fs, base :: path, depth, stack :: (path \<times> nat) list, out :: dir_entry list).
      mset (map (\<lambda>(p, d). Suc depth - d) stack)))" by (simp add: wf_mult)
next
  fix f :: fs and base :: path and depth d :: nat and current :: path and stack :: "(path \<times> nat) list" and out cs pushed
  assume "cs = children f current"
    and p: "pushed = (if d < depth then map (\<lambda>p. (p, Suc d)) (filter (descend f base) cs) else [])"
  have "(mset (map (\<lambda>(p, d). Suc depth - d) (rev pushed)) + mset (map (\<lambda>(p, d). Suc depth - d) stack),
      add_mset (Suc depth - d) (mset (map (\<lambda>(p, d). Suc depth - d) stack))) \<in> mult less_than"
    by (rule push_smaller) (auto simp: p split: if_splits)
  then show "((f, base, depth, rev pushed @ stack, out @ map (entry_at f base) cs), f, base, depth, (current, d) # stack, out)
      \<in> inv_image (mult less_than) (\<lambda>(f, base, depth, stack, out). mset (map (\<lambda>(p, d). Suc depth - d) stack))"
    by simp
qed

definition backend_list :: "fs \<Rightarrow> path \<Rightarrow> string \<Rightarrow> nat \<Rightarrow> mount_error + dir_entry list" where
  "backend_list f base rel depth =
     (case backend_resolve f base rel of Inl e \<Rightarrow> Err e | Inr full \<Rightarrow> list_loop f full depth [(full, 0)] [])"

section \<open>Containment\<close>

lemma find_existing_tail:
  assumes "path_exists f base" and "''..'' \<notin> set rel"
  shows "\<exists>k. find_existing f (base @ rel) tail = (base @ take k rel, tail @ rev (drop k rel))
     \<and> path_exists f (base @ take k rel)"
  using assms(2)
proof (induction rel arbitrary: tail rule: rev_induct)
  case Nil
  then show ?case using assms(1) by (subst find_existing.simps) simp
next
  case (snoc c rel)
  show ?case
  proof (cases "path_exists f (base @ rel @ [c])")
    case True
    then show ?thesis by (subst find_existing.simps) (auto intro!: exI [of _ "Suc (length rel)"])
  next
    case False
    obtain k where k: "find_existing f (base @ rel) (tail @ [c]) = (base @ take k rel, (tail @ [c]) @ rev (drop k rel))"
      "path_exists f (base @ take k rel)" using snoc.IH [of "tail @ [c]"] snoc.prems by auto
    have "find_existing f (base @ rel @ [c]) tail = find_existing f (base @ rel) (tail @ [c])"
      using False snoc.prems by (subst find_existing.simps) (auto simp: butlast_append)
    moreover have "take (min k (length rel)) (rel @ [c]) = take k rel" "rev (drop (min k (length rel)) (rel @ [c])) = c # rev (drop k rel)"
      by (simp_all add: min_def)
    ultimately show ?thesis using k by (intro exI [of _ "min k (length rel)"]) simp
  qed
qed

text \<open>What a resolved path is, when the mount's root exists.\<close>

lemma resolve_cases:
  assumes "canonicalize f base = Ok cr" and "backend_resolve f base rel = Ok q"
  shows "(canonical f q \<and> prefix cr q)
    \<or> (\<not> path_exists f q \<and> (\<exists>cp tail. q = cp @ tail \<and> canonical f cp \<and> prefix cr cp \<and> set tail \<subseteq> set (path_components rel))
        \<and> ''..'' \<notin> set (path_components rel))"
proof -
  let ?rel = "path_components rel"
  have nd: "''..'' \<notin> set ?rel" and cur: "canonicalize_under_root f base (base @ ?rel) = Ok q"
    using assms(2) by (auto simp: backend_resolve_def safe_join_def split: if_splits)
  have "path_exists f base" using assms(1) by (simp add: path_exists_def)
  from find_existing_tail [OF this nd, of "[]"] obtain k
    where k: "find_existing f (base @ ?rel) [] = (base @ take k ?rel, rev (drop k ?rel))" "path_exists f (base @ take k ?rel)"
    by auto
  then obtain cp where cp: "canonicalize f (base @ take k ?rel) = Ok cp" by (auto simp: path_exists_def is_ok_iff)
  have pre: "prefix cr cp" using cur assms(1) k cp by (auto simp: canonicalize_under_root_def Let_def split: if_splits)
  show ?thesis
  proof (cases "canonicalize f (cp @ drop k ?rel)")
    case (Inr fc)
    then have "q = fc" "prefix cr fc"
      using cur assms(1) k cp pre by (auto simp: canonicalize_under_root_def Let_def split: if_splits)
    then show ?thesis using canonicalize_canonical [OF Inr] by simp
  next
    case (Inl e)
    then have "q = cp @ drop k ?rel"
      using cur assms(1) k cp pre by (auto simp: canonicalize_under_root_def Let_def)
    moreover have "set (drop k ?rel) \<subseteq> set ?rel" by (rule set_drop_subset)
    ultimately show ?thesis using Inl canonicalize_canonical [OF cp] pre nd by (auto simp: path_exists_def)
  qed
qed

text \<open>
  C21. Reading through the backend never leaves the mount: whatever links the file system holds and
  whatever path is asked for, content that is returned is that of a file below the canonical root
  of the mount; when the root does not exist, nothing is returned.
\<close>

theorem reads_contained:
  assumes "backend_read f base rel = Ok content"
  shows "\<exists>cr p. canonicalize f base = Ok cr \<and> prefix cr p \<and> hm_get f p = Some (FileNode content)"
proof -
  obtain q p where q: "backend_resolve f base rel = Ok q" and p: "canonicalize f q = Ok p" "hm_get f p = Some (FileNode content)"
    using assms by (auto simp: backend_read_def read_file_def split: sum.splits option.splits node.splits)
  have "\<exists>cr. canonicalize f base = Ok cr"
  proof (rule ccontr)
    assume none: "\<nexists>cr. canonicalize f base = Ok cr"
    then obtain e where "canonicalize f base = Err e" by (metis sum.exhaust)
    then have "q = base @ path_components rel"
      using q by (auto simp: backend_resolve_def safe_join_def canonicalize_under_root_def split: if_splits)
    then have "path_exists f base" using exists_prefix [of f base "path_components rel"] p(1) by (simp add: path_exists_def)
    with none show False by (simp add: path_exists_def is_ok_iff)
  qed
  then obtain cr where cr: "canonicalize f base = Ok cr" ..
  from resolve_cases [OF cr q] p(1) have "canonical f q \<and> prefix cr q" by (auto simp: path_exists_def)
  with p cr show ?thesis by (auto simp: canonicalize_id)
qed

lemma components_nodot: "''.'' \<notin> set (path_components rel)"
  by (simp add: path_components_def)

text \<open>
  C22. Writing through the backend stays inside the mount, provided no component of the resolved
  path is a symbolic link: every entry that changes lies below the canonical root, and is the
  resolved path itself or a directory that was missing on the way to it. When the write
  succeeds, the file at the resolved path holds the content.
\<close>

theorem writes_contained:
  assumes cr: "canonicalize f base = Ok cr" and q: "backend_resolve f base rel = Ok q"
    and links: "\<And>x. prefix x q \<Longrightarrow> x \<noteq> [] \<Longrightarrow> \<not> is_link f x"
    and w: "backend_write f base rel content = (r, f')"
  shows "(\<forall>x. hm_get f' x \<noteq> hm_get f x \<longrightarrow> prefix cr x
          \<and> (x = q \<or> (strict_prefix x q \<and> hm_get f x = None \<and> hm_get f' x = Some DirNode)))
     \<and> (r = Ok () \<longrightarrow> hm_get f' q = Some (FileNode content))"
proof (intro conjI allI impI)
  have plain: "plain f q" and pq: "prefix cr q"
    using resolve_cases [OF cr q] canonical_is_plain [of f q] links components_nodot [of rel]
    by (auto simp: plain_def dest: canonical_nodots)
  obtain r1 f1 where c: "(if q = [] then (Ok (), f) else create_dir_all f (butlast q)) = (r1, f1)" by fastforce
  have added: "dirs_added (butlast q) f f1"
    using c create_dir_all_plain [OF plain_butlast [OF plain]] by (auto split: if_splits)
  obtain r2 f2 where wf: "write_file f1 q content = (r2, f2)" by fastforce
  have f': "f' = f1 \<or> f' = f2"
    using w q c wf by (auto simp: backend_write_def split: sum.splits if_splits)
  have plain1: "plain f1 q" by (rule dirs_added_plain [OF added plain])
  have f2: "hm_get f2 y = hm_get f1 y" if "y \<noteq> q" for y
    using wf walk_plain_Nil [OF plain1] that by (auto simp: write_file_def hm_simps split: sum.splits if_splits)
  show "hm_get f' q = Some (FileNode content)" if "r = Ok ()"
    using w q c wf that
    by (auto simp: backend_write_def write_file_def hm_simps split: sum.splits if_splits
        dest: walk_plain_Nil [OF plain1])
  show at: "x = q \<or> (strict_prefix x q \<and> hm_get f x = None \<and> hm_get f' x = Some DirNode)"
    if x: "hm_get f' x \<noteq> hm_get f x" for x
  proof (cases "x = q")
    case False
    then have f1: "hm_get f' x = hm_get f1 x" using f' f2 by auto
    then have "x \<noteq> []" "prefix x (butlast q)" "hm_get f x = None" "hm_get f1 x = Some DirNode"
      using x added unfolding dirs_added_def by simp_all
    then show ?thesis using f1 False prefixeq_butlast [of q] by (auto simp: strict_prefix_def dest: prefix_order.trans)
  qed simp
  show "prefix cr x" if x: "hm_get f' x \<noteq> hm_get f x" for x
  proof (cases "x = q")
    case False
    then have new: "prefix x q" "hm_get f x = None" "hm_get f' x = Some DirNode"
      using at [OF x] by (auto simp: strict_prefix_def)
    show ?thesis
    proof (cases "prefix x cr \<and> x \<noteq> []")
      case True
      then show ?thesis using canonical_nolink [OF canonicalize_canonical [OF cr]] new(2) by blast
    next
      case no: False
      have "x \<noteq> []"
      proof -
        have "hm_get f1 x \<noteq> hm_get f x" using x f' f2 [OF False] by auto
        then show ?thesis using added unfolding dirs_added_def by blast
      qed
      then show ?thesis using no prefix_same_cases [OF pq new(1)] by blast
    qed
  qed (use pq in simp)
qed

definition dangling_fs :: fs where
  "dangling_fs = [([''r''], DirNode), ([''r'', ''link''], LinkNode True [''outside'', ''new'']), ([''outside''], DirNode)]"

text \<open>
  The link check misses dangling links. A link below the root whose target does not exist yet
  does not count as existing, so it is taken for a missing file; the write then follows it and
  creates the file outside the mount.
\<close>

theorem dangling_link_escape:
  "backend_resolve dangling_fs [''r''] ''link'' = Ok [''r'', ''link'']
   \<and> fst (backend_write dangling_fs [''r''] ''link'' ''data'') = Ok ()
   \<and> hm_get dangling_fs [''outside'', ''new''] = None
   \<and> hm_get (snd (backend_write dangling_fs [''r''] ''link'' ''data'')) [''outside'', ''new''] = Some (FileNode ''data'')
   \<and> \<not> is_ok (backend_read (snd (backend_write dangling_fs [''r''] ''link'' ''data'')) [''r''] ''link'')"
  by code_simp

definition sample_fs :: fs where
  "sample_fs = [([''r''], DirNode), ([''r'', ''a''], FileNode ''old''), ([''r'', ''out''], LinkNode True [''etc'']), ([''etc''], DirNode)]"

lemma reads_contained_witness:
  "\<exists>cr p. canonicalize sample_fs [''r''] = Ok cr \<and> prefix cr p \<and> hm_get sample_fs p = Some (FileNode ''old'')"
proof (rule reads_contained)
  show "backend_read sample_fs [''r''] ''./a'' = Ok ''old''" by code_simp
qed

lemma writes_contained_witness:
  "prefix [''r''] [''r'', ''d'']
   \<and> hm_get (snd (backend_write sample_fs [''r''] ''d/e'' ''v'')) [''r'', ''d'', ''e''] = Some (FileNode ''v'')"
proof -
  let ?f = "snd (backend_write sample_fs [''r''] ''d/e'' ''v'')"
  have "canonicalize sample_fs [''r''] = Ok [''r'']" "backend_resolve sample_fs [''r''] ''d/e'' = Ok [''r'', ''d'', ''e'']"
    by code_simp+
  moreover have "\<not> is_link sample_fs x" if "prefix x [''r'', ''d'', ''e'']" "x \<noteq> []" for x
    using that by (auto simp: is_link_def sample_fs_def hm_get_def prefix_Cons)
  moreover have "backend_write sample_fs [''r''] ''d/e'' ''v'' = (Ok (), ?f)" by code_simp
  moreover have "hm_get ?f [''r'', ''d''] \<noteq> hm_get sample_fs [''r'', ''d'']" by code_simp
  ultimately show ?thesis using writes_contained [of sample_fs "[''r'']" "[''r'']" "''d/e''" "[''r'', ''d'', ''e'']" "''v''" "Ok ()" ?f]
    by blast
qed

section \<open>Longest prefix\<close>

definition owns :: "string \<Rightarrow> string \<Rightarrow> string \<Rightarrow> bool" where
  "owns pre p rest = (p = pre @ rest \<or> (p @ ''/'' = pre \<and> rest = []))"

lemma normalize_prefix_ends: "ends_with (normalize_prefix pre) ''/''"
  by (auto simp: normalize_prefix_def Let_def ends_with_iff)

definition table_ok :: "'b project_mounts \<Rightarrow> bool" where
  "table_ok ms = (distinct (map fst ms) \<and> sorted (map (\<lambda>e. - int (length (fst e))) ms)
     \<and> (\<forall>e \<in> set ms. ends_with (fst e) ''/''))"

lemma resolve_in_None:
  assumes "\<forall>e \<in> set ms. ends_with (fst e) ''/''"
  shows "resolve_in p ms = None \<longleftrightarrow> (\<forall>e \<in> set ms. \<forall>rest. \<not> owns (fst e) p rest)"
  using assms
proof (induction p ms rule: resolve_in.induct)
  case (2 p pre backend ms)
  have "ends_with pre ''/''" using 2(2) by simp
  then have "p = butlast pre \<longleftrightarrow> p @ ''/'' = pre" by (auto simp: ends_with_iff)
  moreover have "strip_prefix pre p = None \<longleftrightarrow> (\<forall>rest. p \<noteq> pre @ rest)"
    by (metis not_None_eq strip_prefix_Some)
  ultimately show ?case using 2 by (auto simp: owns_def split: option.splits)
qed simp

lemma resolve_in_Some:
  assumes "resolve_in p ms = Some (b, rest)" and "table_ok ms"
  shows "\<exists>pre. (pre, b) \<in> set ms \<and> owns pre p rest \<and> (\<forall>e \<in> set ms. \<forall>r. owns (fst e) p r \<longrightarrow> length (fst e) \<le> length pre)"
  using assms
proof (induction p ms rule: resolve_in.induct)
  case (2 p pre backend ms)
  have ok: "table_ok ms" and longest: "\<forall>e \<in> set ms. length (fst e) \<le> length pre"
    using 2(3) by (auto simp: table_ok_def)
  have here: ?case if "backend = b" "owns pre p rest" using that longest by auto
  show ?case
  proof (cases "strip_prefix pre p")
    case (Some r)
    then have "backend = b" "r = rest" using 2(2) by simp_all
    then show ?thesis using Some by (intro here) (simp_all add: owns_def strip_prefix_Some)
  next
    case None
    show ?thesis
    proof (cases "ends_with pre ''/'' \<and> p = butlast pre")
      case True
      then show ?thesis using 2(2) None by (intro here) (auto simp: owns_def ends_with_iff)
    next
      case False
      have no: "\<not> owns pre p r" for r
        using False None strip_prefix_Some [of pre p] 2(3) by (auto simp: owns_def table_ok_def ends_with_iff)
      from False None 2(2) have "resolve_in p ms = Some (b, rest)" by auto
      from 2(1) [OF None False this ok] obtain pre' where "(pre', b) \<in> set ms" "owns pre' p rest"
        "\<forall>e \<in> set ms. \<forall>r. owns (fst e) p r \<longrightarrow> length (fst e) \<le> length pre'" by blast
      then show ?thesis using no by (intro exI [of _ pre']) auto
    qed
  qed
qed simp

lemma sort_key_map_of:
  assumes "distinct (map fst xs)"
  shows "map_of (sort_key g xs) = map_of xs"
proof -
  have "mset (map fst (sort_key g xs)) = mset (map fst xs)" by (simp only: mset_map mset_sort)
  then have "distinct (map fst (sort_key g xs))" using assms by (metis mset_eq_imp_distinct_iff)
  then show ?thesis using assms by (intro map_of_inject_set [THEN iffD2]) simp_all
qed

lemma mounts_add_ok:
  assumes "table_ok ms"
  shows "table_ok (mounts_add pre b ms) \<and> map_of (mounts_add pre b ms) = (map_of ms)(normalize_prefix pre \<mapsto> b)"
proof -
  let ?p = "normalize_prefix pre"
  let ?xs = "filter (\<lambda>e. fst e \<noteq> ?p) ms @ [(?p, b)]"
  have d: "distinct (map fst ?xs)" using assms by (auto simp: table_ok_def distinct_map_filter)
  have "mset (map fst (mounts_add pre b ms)) = mset (map fst ?xs)"
    by (simp only: mounts_add_def Let_def mset_map mset_sort)
  then have "distinct (map fst (mounts_add pre b ms))" using d by (metis mset_eq_imp_distinct_iff)
  then have 1: "table_ok (mounts_add pre b ms)"
    using assms normalize_prefix_ends [of pre] by (auto simp: table_ok_def mounts_add_def Let_def)
  have "map_of (filter (\<lambda>e. fst e \<noteq> ?p) ms) x = (if x = ?p then None else map_of ms x)" for x
    by (induction ms) auto
  then have "map_of ?xs = (map_of ms)(?p \<mapsto> b)"
    by (auto simp: map_add_def fun_eq_iff split: option.splits)
  then have 2: "map_of (mounts_add pre b ms) = (map_of ms)(?p \<mapsto> b)"
    using sort_key_map_of [OF d] by (simp add: mounts_add_def Let_def)
  from 1 2 show ?thesis ..
qed

definition build_table :: "(string \<times> 'b) list \<Rightarrow> 'b project_mounts" where
  "build_table adds = foldl (\<lambda>ms (pre, b). mounts_add pre b ms) mounts_new adds"

lemma build_table_ok:
  "table_ok (build_table adds) \<and> map_of (build_table adds) = map_of (rev (map (\<lambda>(pre, b). (normalize_prefix pre, b)) adds))"
proof (induction adds rule: rev_induct)
  case Nil
  show ?case by (simp add: build_table_def mounts_new_def table_ok_def)
next
  case (snoc a adds)
  obtain pre b where a: "a = (pre, b)" by fastforce
  have "build_table (adds @ [a]) = mounts_add pre b (build_table adds)" by (simp add: build_table_def a)
  then show ?case using mounts_add_ok [of "build_table adds" pre b] snoc by (simp add: a)
qed

text \<open>
  Resolution against a mount table built by any sequence of registrations: the answer is the
  backend last registered under the longest prefix that owns the path, with the rest of the path;
  there is no answer exactly when no registered prefix owns it.
\<close>

theorem resolve_longest_prefix:
  "let reg = map_of (rev (map (\<lambda>(pre, b). (normalize_prefix pre, b)) adds));
       rooted = (if starts_with p ''/'' then p else ''/'' @ p) in
     case mounts_resolve p (build_table adds) of
       None \<Rightarrow> \<forall>pre \<in> dom reg. \<forall>rest. \<not> owns pre rooted rest
     | Some (b, rest) \<Rightarrow> \<exists>pre. reg pre = Some b \<and> owns pre rooted rest
         \<and> (\<forall>pre' \<in> dom reg. \<forall>r. owns pre' rooted r \<longrightarrow> length pre' \<le> length pre)"
proof -
  let ?ms = "build_table adds"
  define reg where "reg = map_of (rev (map (\<lambda>(pre, b). (normalize_prefix pre, b)) adds))"
  define rooted where "rooted = (if starts_with p ''/'' then p else ''/'' @ p)"
  have ok: "table_ok ?ms" and reg: "map_of ?ms = reg" using build_table_ok [of adds] by (simp_all add: reg_def)
  have dom: "dom reg = fst ` set ?ms" by (simp add: reg [symmetric] dom_map_of_conv_image_fst)
  have res: "mounts_resolve p ?ms = resolve_in rooted ?ms" by (simp add: mounts_resolve_def rooted_def)
  have "case mounts_resolve p ?ms of
       None \<Rightarrow> \<forall>pre \<in> dom reg. \<forall>rest. \<not> owns pre rooted rest
     | Some (b, rest) \<Rightarrow> \<exists>pre. reg pre = Some b \<and> owns pre rooted rest
         \<and> (\<forall>pre' \<in> dom reg. \<forall>r. owns pre' rooted r \<longrightarrow> length pre' \<le> length pre)"
  proof (cases "resolve_in rooted ?ms")
    case None
    then show ?thesis using resolve_in_None [of ?ms rooted] ok unfolding res dom by (simp add: table_ok_def)
  next
    case (Some br)
    obtain b rest where br: "br = (b, rest)" by fastforce
    from resolve_in_Some [OF Some [unfolded br] ok] obtain pre where pre: "(pre, b) \<in> set ?ms" "owns pre rooted rest"
      "\<forall>e \<in> set ?ms. \<forall>r. owns (fst e) rooted r \<longrightarrow> length (fst e) \<le> length pre" by blast
    from pre(1) ok have "reg pre = Some b" unfolding reg [symmetric] by (simp add: table_ok_def)
    with pre(2,3) show ?thesis unfolding res dom Some br by auto
  qed
  then show ?thesis by (simp only: Let_def reg_def rooted_def)
qed

lemma resolve_longest_prefix_witness:
  "\<exists>pre. map_of (rev (map (\<lambda>(pre, b). (normalize_prefix pre, b)) [(''project'', 1), (''project/sub'', 2 :: nat)])) pre = Some 2
     \<and> owns pre ''/project/sub/x'' ''x''"
proof -
  have "mounts_resolve ''/project/sub/x'' (build_table [(''project'', 1), (''project/sub'', 2 :: nat)]) = Some (2, ''x'')"
    by code_simp
  moreover have "starts_with ''/project/sub/x'' ''/'' = True" by code_simp
  ultimately show ?thesis
    using resolve_longest_prefix [where p = "''/project/sub/x''" and adds = "[(''project'', 1), (''project/sub'', 2 :: nat)]"]
    unfolding Let_def by (simp only: if_True option.case prod.case) blast
qed

section \<open>The registry\<close>

lemma workspace_builds_once:
  assumes "workspace_resolve build pid p (cache, s) = (Ok x, cache', s')"
  shows "\<exists>ms. hm_get cache' pid = Some ms \<and> x = mounts_resolve p ms
     \<and> (\<forall>p' t. workspace_resolve build pid p' (cache', t) = (Ok (mounts_resolve p' ms), cache', t))
     \<and> (\<forall>pid'. pid' \<noteq> pid \<longrightarrow> hm_get cache' pid' = hm_get cache pid')"
  using assms by (auto simp: workspace_resolve_def hm_simps split: option.splits sum.splits prod.splits)

end
