(* ===== verification/Session.thy ===== *)
theory Session
  imports Llm_Message
begin

text \<open>
  Sessions, threads and turns of the turn-based agent (\<open>src/agent/session.rs\<close>), with the preview
  truncation of \<open>crates/t3claw_common/src/util.rs\<close> and the image sentinels of
  \<open>src/generated_images.rs\<close> that the rebuilt conversation uses. The operations that read the clock
  take \<open>now\<close>, those that make a fresh identifier take it as an argument. The JSON parser and printer
  are parameters (\<open>from_str\<close>, \<open>to_str\<close>).
\<close>

section \<open>Previews\<close>

definition truncate_preview :: "string \<Rightarrow> nat \<Rightarrow> string" where
  "truncate_preview s max_bytes =
     (if byte_len s \<le> max_bytes then s
      else
        let r = take_bytes max_bytes s @ ''...''
        in if starts_with s ''<tool_output'' \<and> \<not> ends_with r ''</tool_output>''
           then r @ [CHR 0x0A] @ ''</tool_output>'' else r)"

section \<open>Image sentinels\<close>

definition MAX_EMBEDDED_JSON_STRING_LAYERS :: nat where "MAX_EMBEDDED_JSON_STRING_LAYERS = 3"

fun unwrap_layers :: "(string \<Rightarrow> json option) \<Rightarrow> nat \<Rightarrow> json \<Rightarrow> json option" where
  "unwrap_layers from_str 0 current = Some current"
| "unwrap_layers from_str (Suc n) current =
     (case current of
        JString s \<Rightarrow> (case from_str s of None \<Rightarrow> None | Some v \<Rightarrow> unwrap_layers from_str n v)
      | v \<Rightarrow> Some v)"

definition normalize_embedded_json :: "(string \<Rightarrow> json option) \<Rightarrow> json \<Rightarrow> json option" where
  "normalize_embedded_json from_str v =
     (case v of
        JString s \<Rightarrow> (case from_str s of None \<Rightarrow> None
                      | Some w \<Rightarrow> unwrap_layers from_str (MAX_EMBEDDED_JSON_STRING_LAYERS - 1) w)
      | _ \<Rightarrow> Some v)"

definition sentinel_from_value :: "(string \<Rightarrow> json option) \<Rightarrow> json \<Rightarrow> json option" where
  "sentinel_from_value from_str v =
     (case normalize_embedded_json from_str v of
        None \<Rightarrow> None
      | Some w \<Rightarrow> if json_str_field w ''type'' = Some ''image_generated'' then Some w else None)"

definition sentinel_media_type :: "json \<Rightarrow> string option" where
  "sentinel_media_type v =
     Option.bind (case json_get v ''media_type'' of Some m \<Rightarrow> Some m | None \<Rightarrow> json_get v ''mime_type'') json_as_str"

definition summary_for_context :: "json \<Rightarrow> string" where
  "summary_for_context v =
     (let media_type = (case sentinel_media_type v of Some m \<Rightarrow> m | None \<Rightarrow> ''image'')
      in case json_str_field v ''path'' of
           Some p \<Rightarrow> if p \<noteq> [] then ''Generated image ('' @ media_type @ '') at '' @ p
                     else ''Generated image ('' @ media_type @ '')''
         | None \<Rightarrow> ''Generated image ('' @ media_type @ '')'')"

section \<open>Turns\<close>

datatype turn_state = TurnProcessing | TurnCompleted | TurnFailed | TurnInterrupted

datatype turn_outcome = CompletedWith string | CompletedSilently | FailedWith string | InterruptedByUser

record turn_tool_call =
  ttc_name :: string
  ttc_parameters :: json
  ttc_result :: "json option"
  ttc_error :: "string option"
  ttc_rationale :: "string option"
  ttc_tool_call_id :: "string option"

record turn =
  tn_turn_number :: nat
  tn_user_message_id :: "uuid option"
  tn_user_input :: string
  tn_response :: "string option"
  tn_tool_calls :: "turn_tool_call list"
  tn_state :: turn_state
  tn_started_at :: time
  tn_completed_at :: "time option"
  tn_error :: "string option"
  tn_narrative :: "string option"
  tn_image_content_parts :: "content_part list"

definition turn_new :: "time \<Rightarrow> nat \<Rightarrow> string \<Rightarrow> turn" where
  "turn_new now turn_number user_input = \<lparr>tn_turn_number = turn_number, tn_user_message_id = None,
     tn_user_input = user_input, tn_response = None, tn_tool_calls = [], tn_state = TurnProcessing,
     tn_started_at = now, tn_completed_at = None, tn_error = None, tn_narrative = None,
     tn_image_content_parts = []\<rparr>"

definition turn_conclude :: "time \<Rightarrow> turn_outcome \<Rightarrow> turn \<Rightarrow> turn" where
  "turn_conclude now outcome t =
     (let t1 = (case outcome of
            CompletedWith response \<Rightarrow> t\<lparr>tn_response := Some response, tn_state := TurnCompleted\<rparr>
          | CompletedSilently \<Rightarrow> t\<lparr>tn_state := TurnCompleted\<rparr>
          | FailedWith e \<Rightarrow> t\<lparr>tn_error := Some e, tn_state := TurnFailed\<rparr>
          | InterruptedByUser \<Rightarrow> t\<lparr>tn_state := TurnInterrupted\<rparr>)
      in t1\<lparr>tn_completed_at := Some now, tn_image_content_parts := []\<rparr>)"

definition tool_call_entry :: "string \<Rightarrow> json \<Rightarrow> string option \<Rightarrow> string option \<Rightarrow> turn_tool_call" where
  "tool_call_entry name params rationale call_id = \<lparr>ttc_name = name, ttc_parameters = params,
     ttc_result = None, ttc_error = None, ttc_rationale = rationale, ttc_tool_call_id = call_id\<rparr>"

definition record_tool_call :: "string \<Rightarrow> json \<Rightarrow> turn \<Rightarrow> turn" where
  "record_tool_call name params t =
     t\<lparr>tn_tool_calls := tn_tool_calls t @ [tool_call_entry name params None None]\<rparr>"

definition record_tool_call_with_reasoning ::
  "string \<Rightarrow> json \<Rightarrow> string option \<Rightarrow> string option \<Rightarrow> turn \<Rightarrow> turn" where
  "record_tool_call_with_reasoning name params rationale call_id t =
     t\<lparr>tn_tool_calls := tn_tool_calls t @ [tool_call_entry name params rationale call_id]\<rparr>"

definition map_last :: "('a \<Rightarrow> 'a) \<Rightarrow> 'a list \<Rightarrow> 'a list" where
  "map_last f xs = (if xs = [] then [] else butlast xs @ [f (last xs)])"

definition record_tool_result :: "json \<Rightarrow> turn \<Rightarrow> turn" where
  "record_tool_result result t =
     t\<lparr>tn_tool_calls := map_last (\<lambda>c. c\<lparr>ttc_result := Some result\<rparr>) (tn_tool_calls t)\<rparr>"

definition record_tool_error :: "string \<Rightarrow> turn \<Rightarrow> turn" where
  "record_tool_error err t =
     t\<lparr>tn_tool_calls := map_last (\<lambda>c. c\<lparr>ttc_error := Some err\<rparr>) (tn_tool_calls t)\<rparr>"

text \<open>\<open>iter_mut().find(..)\<close>: the first element satisfying the test is changed.\<close>

fun update_first :: "('a \<Rightarrow> bool) \<Rightarrow> ('a \<Rightarrow> 'a) \<Rightarrow> 'a list \<Rightarrow> 'a list option" where
  "update_first P f [] = None"
| "update_first P f (x # xs) = (if P x then Some (f x # xs) else map_option (Cons x) (update_first P f xs))"

definition update_call_for :: "string \<Rightarrow> (turn_tool_call \<Rightarrow> turn_tool_call) \<Rightarrow> turn \<Rightarrow> turn" where
  "update_call_for call_id f t =
     (case update_first (\<lambda>c. ttc_tool_call_id c = Some call_id) f (tn_tool_calls t) of
        Some cs \<Rightarrow> t\<lparr>tn_tool_calls := cs\<rparr>
      | None \<Rightarrow>
          (case update_first (\<lambda>c. ttc_result c = None \<and> ttc_error c = None) f (tn_tool_calls t) of
             Some cs \<Rightarrow> t\<lparr>tn_tool_calls := cs\<rparr>
           | None \<Rightarrow> t))"

definition record_tool_result_for :: "string \<Rightarrow> json \<Rightarrow> turn \<Rightarrow> turn" where
  "record_tool_result_for call_id result = update_call_for call_id (\<lambda>c. c\<lparr>ttc_result := Some result\<rparr>)"

definition record_tool_error_for :: "string \<Rightarrow> string \<Rightarrow> turn \<Rightarrow> turn" where
  "record_tool_error_for call_id err = update_call_for call_id (\<lambda>c. c\<lparr>ttc_error := Some err\<rparr>)"

section \<open>Threads\<close>

datatype chat_thread_state = ThreadIdle | ThreadProcessing | ThreadAwaitingApproval | ThreadCompleted
  | ThreadInterrupted

definition AUTH_MODE_TTL :: time where "AUTH_MODE_TTL = secs 300"

record pending_auth =
  pa_extension_name :: string
  pa_created_at :: time

definition pending_auth_expired :: "time \<Rightarrow> pending_auth \<Rightarrow> bool" where
  "pending_auth_expired now p = (now - pa_created_at p > AUTH_MODE_TTL)"

record pending_auth_prompt =
  pap_extension_name :: string
  pap_instructions :: "string option"
  pap_auth_url :: "string option"
  pap_setup_url :: "string option"
  pap_awaiting_token :: bool

record pending_approval =
  pv_request_id :: uuid
  pv_tool_name :: string
  pv_parameters :: json
  pv_display_parameters :: json
  pv_description :: string
  pv_tool_call_id :: string
  pv_context_messages :: "chat_message list"
  pv_deferred_tool_calls :: "tool_call list"
  pv_selected_auth_prompt :: "pending_auth_prompt option"
  pv_user_timezone :: "string option"
  pv_allow_always :: bool

record chat_thread =
  ct_id :: uuid
  ct_session_id :: uuid
  ct_state :: chat_thread_state
  ct_turns :: "turn list"
  ct_created_at :: time
  ct_updated_at :: time
  ct_metadata :: json
  ct_pending_approval :: "pending_approval option"
  ct_pending_auth :: "pending_auth option"
  ct_pending_messages :: "string list"
  ct_source_channel :: "string option"

definition MAX_PENDING_MESSAGES :: nat where "MAX_PENDING_MESSAGES = 10"
definition BOOTSTRAP_SOURCE_CHANNEL :: string where "BOOTSTRAP_SOURCE_CHANNEL = ''__bootstrap__''"
definition TRUSTED_APPROVAL_CHANNELS :: "string list" where "TRUSTED_APPROVAL_CHANNELS = [''web'', ''gateway'']"

definition is_approval_authorized :: "string option \<Rightarrow> string \<Rightarrow> bool" where
  "is_approval_authorized source requesting =
     (case source of
        None \<Rightarrow> False
      | Some src \<Rightarrow> if src = BOOTSTRAP_SOURCE_CHANNEL then True
                    else src = requesting \<or> requesting \<in> set TRUSTED_APPROVAL_CHANNELS)"

definition chat_thread_with_id :: "time \<Rightarrow> uuid \<Rightarrow> uuid \<Rightarrow> string option \<Rightarrow> chat_thread" where
  "chat_thread_with_id now i session_id source = \<lparr>ct_id = i, ct_session_id = session_id, ct_state = ThreadIdle,
     ct_turns = [], ct_created_at = now, ct_updated_at = now, ct_metadata = JNull,
     ct_pending_approval = None, ct_pending_auth = None, ct_pending_messages = [], ct_source_channel = source\<rparr>"

definition turn_number :: "chat_thread \<Rightarrow> nat" where
  "turn_number th = length (ct_turns th) + 1"

definition queue_message :: "time \<Rightarrow> string \<Rightarrow> chat_thread \<Rightarrow> bool \<times> chat_thread" where
  "queue_message now content th =
     (if length (ct_pending_messages th) \<ge> MAX_PENDING_MESSAGES then (False, th)
      else (True, th\<lparr>ct_pending_messages := ct_pending_messages th @ [content], ct_updated_at := now\<rparr>))"

definition take_pending_message :: "chat_thread \<Rightarrow> string option \<times> chat_thread" where
  "take_pending_message th =
     (case ct_pending_messages th of
        [] \<Rightarrow> (None, th)
      | m # ms \<Rightarrow> (Some m, th\<lparr>ct_pending_messages := ms\<rparr>))"

definition drain_pending_messages :: "time \<Rightarrow> chat_thread \<Rightarrow> string option \<times> chat_thread" where
  "drain_pending_messages now th =
     (if ct_pending_messages th = [] then (None, th)
      else (Some (join [CHR 0x0A] (ct_pending_messages th)),
            th\<lparr>ct_pending_messages := [], ct_updated_at := now\<rparr>))"

definition requeue_drained :: "time \<Rightarrow> string \<Rightarrow> chat_thread \<Rightarrow> chat_thread" where
  "requeue_drained now content th =
     th\<lparr>ct_pending_messages := content # ct_pending_messages th, ct_updated_at := now\<rparr>"

definition start_turn :: "time \<Rightarrow> string \<Rightarrow> chat_thread \<Rightarrow> chat_thread" where
  "start_turn now user_input th =
     th\<lparr>ct_turns := ct_turns th @ [turn_new now (length (ct_turns th)) user_input],
       ct_state := ThreadProcessing, ct_updated_at := now\<rparr>"

definition conclude_turn :: "time \<Rightarrow> turn_outcome \<Rightarrow> chat_thread \<Rightarrow> chat_thread" where
  "conclude_turn now outcome th =
     th\<lparr>ct_turns := map_last (turn_conclude now outcome) (ct_turns th),
       ct_state := ThreadIdle, ct_updated_at := now\<rparr>"

definition await_approval :: "time \<Rightarrow> pending_approval \<Rightarrow> chat_thread \<Rightarrow> chat_thread" where
  "await_approval now pending th =
     th\<lparr>ct_state := ThreadAwaitingApproval, ct_pending_approval := Some pending, ct_updated_at := now\<rparr>"

definition take_pending_approval :: "chat_thread \<Rightarrow> pending_approval option \<times> chat_thread" where
  "take_pending_approval th = (ct_pending_approval th, th\<lparr>ct_pending_approval := None\<rparr>)"

definition clear_pending_approval :: "time \<Rightarrow> chat_thread \<Rightarrow> chat_thread" where
  "clear_pending_approval now th =
     th\<lparr>ct_pending_approval := None, ct_state := ThreadIdle, ct_updated_at := now\<rparr>"

definition enter_auth_mode :: "time \<Rightarrow> string \<Rightarrow> chat_thread \<Rightarrow> chat_thread" where
  "enter_auth_mode now extension_name th =
     th\<lparr>ct_pending_auth := Some \<lparr>pa_extension_name = extension_name, pa_created_at = now\<rparr>, ct_updated_at := now\<rparr>"

definition take_pending_auth :: "chat_thread \<Rightarrow> pending_auth option \<times> chat_thread" where
  "take_pending_auth th = (ct_pending_auth th, th\<lparr>ct_pending_auth := None\<rparr>)"

definition thread_interrupt :: "time \<Rightarrow> chat_thread \<Rightarrow> chat_thread" where
  "thread_interrupt now th =
     th\<lparr>ct_turns := map_last (turn_conclude now InterruptedByUser) (ct_turns th), ct_pending_messages := [],
       ct_state := ThreadInterrupted, ct_updated_at := now\<rparr>"

definition thread_resume :: "time \<Rightarrow> chat_thread \<Rightarrow> chat_thread" where
  "thread_resume now th =
     (if ct_state th = ThreadInterrupted then th\<lparr>ct_state := ThreadIdle, ct_updated_at := now\<rparr> else th)"

definition renumber :: "turn list \<Rightarrow> turn list" where
  "renumber ts = map (\<lambda>(i, t). t\<lparr>tn_turn_number := i\<rparr>) (enumerate 0 ts)"

definition truncate_turns :: "nat \<Rightarrow> chat_thread \<Rightarrow> chat_thread" where
  "truncate_turns keep th =
     (if length (ct_turns th) > keep
      then th\<lparr>ct_turns := renumber (drop (length (ct_turns th) - keep) (ct_turns th))\<rparr> else th)"

section \<open>The conversation of a thread\<close>

definition call_content :: "(string \<Rightarrow> json option) \<Rightarrow> (json \<Rightarrow> string) \<Rightarrow> turn_tool_call \<Rightarrow> string" where
  "call_content from_str to_str tc =
     (case ttc_error tc of
        Some err \<Rightarrow> truncate_preview err 1000
      | None \<Rightarrow>
          (case ttc_result tc of
             None \<Rightarrow> ''OK''
           | Some res \<Rightarrow>
               (case sentinel_from_value from_str res of
                  Some sentinel \<Rightarrow> summary_for_context sentinel
                | None \<Rightarrow> truncate_preview (case res of JString t \<Rightarrow> t | v \<Rightarrow> to_str v) 1000)))"

definition call_ids :: "nat \<Rightarrow> turn_tool_call list \<Rightarrow> (string \<times> turn_tool_call) list" where
  "call_ids turn_idx calls =
     map (\<lambda>(tc_idx, tc). (generate_tool_call_id (word_of_nat turn_idx) (word_of_nat tc_idx), tc)) (enumerate 0 calls)"

definition turn_messages :: "(string \<Rightarrow> json option) \<Rightarrow> (json \<Rightarrow> string) \<Rightarrow> nat \<Rightarrow> turn \<Rightarrow> chat_message list" where
  "turn_messages from_str to_str turn_idx t =
     (if tn_image_content_parts t = [] then chat_user (tn_user_input t)
      else user_with_parts (tn_user_input t) (tn_image_content_parts t))
     # (if tn_tool_calls t = [] then []
        else
          let ids = call_ids turn_idx (tn_tool_calls t)
          in assistant_with_tool_calls None
               (map (\<lambda>(i, tc). \<lparr>tc_id = i, tc_name = ttc_name tc, tc_arguments = ttc_parameters tc, tc_reasoning = None\<rparr>) ids)
             # map (\<lambda>(i, tc). tool_result i (ttc_name tc) (call_content from_str to_str tc)) ids)
     @ (case tn_response t of Some response \<Rightarrow> [chat_assistant response] | None \<Rightarrow> [])"

definition thread_messages :: "(string \<Rightarrow> json option) \<Rightarrow> (json \<Rightarrow> string) \<Rightarrow> chat_thread \<Rightarrow> chat_message list" where
  "thread_messages from_str to_str th =
     concat (map (\<lambda>(i, t). turn_messages from_str to_str i t) (enumerate 0 (ct_turns th)))"

text \<open>
  Rebuilding the turns: the results that follow a batch are assigned by position, starting at the
  first call of the batch; several batches may belong to one turn.
\<close>

fun consume_results :: "nat \<Rightarrow> turn_tool_call list \<Rightarrow> chat_message list \<Rightarrow> turn_tool_call list \<times> chat_message list" where
  "consume_results idx calls [] = (calls, [])"
| "consume_results idx calls (m # ms) =
     (if cm_role m \<noteq> ToolRole then (calls, m # ms)
      else consume_results (Suc idx)
        (if idx < length calls
         then calls[idx := (calls ! idx)\<lparr>ttc_result := Some (JString (cm_content m))\<rparr>] else calls) ms)"

lemma consume_results_length [termination_simp]:
  "length (snd (consume_results idx calls ms)) \<le> length ms"
  by (induction idx calls ms rule: consume_results.induct) auto

fun consume_rounds :: "turn_tool_call list \<Rightarrow> chat_message list \<Rightarrow> turn_tool_call list \<times> chat_message list" where
  "consume_rounds calls [] = (calls, [])"
| "consume_rounds calls (m # ms) =
     (case cm_tool_calls m of
        Some tcs \<Rightarrow>
          if cm_role m = AssistantRole then
            let r = consume_results (length calls)
                  (calls @ map (\<lambda>tc. tool_call_entry (tc_name tc) (tc_arguments tc) (tc_reasoning tc) (Some (tc_id tc))) tcs) ms
            in consume_rounds (fst r) (snd r)
          else (calls, m # ms)
      | None \<Rightarrow> (calls, m # ms))"

lemma consume_rounds_length [termination_simp]:
  "length (snd (consume_rounds calls ms)) \<le> length ms"
proof (induction calls ms rule: consume_rounds.induct)
  case (2 calls m ms)
  show ?case
  proof (cases "cm_tool_calls m")
    case (Some tcs)
    let ?r = "consume_results (length calls)
      (calls @ map (\<lambda>tc. tool_call_entry (tc_name tc) (tc_arguments tc) (tc_reasoning tc) (Some (tc_id tc))) tcs) ms"
    have "length (snd ?r) \<le> length ms" by (rule consume_results_length)
    with 2 [OF Some _ refl] Some show ?thesis by (auto simp: Let_def)
  qed simp
qed simp

definition final_response :: "time \<Rightarrow> turn \<Rightarrow> chat_message list \<Rightarrow> turn \<times> chat_message list" where
  "final_response now t ms =
     (case ms of
        m # ms' \<Rightarrow>
          if cm_role m = AssistantRole \<and> cm_tool_calls m = None
          then (turn_conclude now (CompletedWith (cm_content m)) t, ms') else (t, ms)
      | [] \<Rightarrow> (t, ms))"

lemma final_response_length [termination_simp]: "length (snd (final_response now t ms)) \<le> length ms"
  by (simp add: final_response_def split: list.split)

function restore_turns :: "time \<Rightarrow> nat \<Rightarrow> chat_message list \<Rightarrow> turn list" where
  "restore_turns now n [] = []"
| "restore_turns now n (m # ms) =
     (if cm_role m = UserRole then
        let r = consume_rounds [] ms;
            q = final_response now ((turn_new now n (cm_content m))\<lparr>tn_tool_calls := fst r\<rparr>) (snd r)
        in fst q # restore_turns now (Suc n) (snd q)
      else restore_turns now n ms)"
  by pat_completeness auto
termination
proof (relation "measure (\<lambda>(_, _, ms). length ms)")
  fix now :: time and n :: nat and m :: chat_message and ms r q
  assume r: "r = consume_rounds [] ms"
    and q: "q = final_response now ((turn_new now n (cm_content m))\<lparr>tn_tool_calls := fst r\<rparr>) (snd r)"
  have "length (snd q) \<le> length (snd r)" unfolding q by (rule final_response_length)
  also have "\<dots> \<le> length ms" unfolding r by (rule consume_rounds_length)
  finally show "((now, Suc n, snd q), now, n, m # ms) \<in> measure (\<lambda>(_, _, ms). length ms)" by simp
qed simp_all

definition restore_from_messages :: "time \<Rightarrow> chat_message list \<Rightarrow> chat_thread \<Rightarrow> chat_thread" where
  "restore_from_messages now messages th =
     th\<lparr>ct_turns := restore_turns now 0 messages, ct_state := ThreadIdle, ct_updated_at := now\<rparr>"

section \<open>Sessions\<close>

record session =
  ss_id :: uuid
  ss_user_id :: string
  ss_active_thread :: "uuid option"
  ss_threads :: "(uuid, chat_thread) hmap"
  ss_created_at :: time
  ss_last_active_at :: time
  ss_metadata :: json
  ss_auto_approved_tools :: "string list"

definition session_new :: "time \<Rightarrow> uuid \<Rightarrow> string \<Rightarrow> session" where
  "session_new now i user_id = \<lparr>ss_id = i, ss_user_id = user_id, ss_active_thread = None, ss_threads = [],
     ss_created_at = now, ss_last_active_at = now, ss_metadata = JNull, ss_auto_approved_tools = []\<rparr>"

definition is_tool_auto_approved :: "string \<Rightarrow> session \<Rightarrow> bool" where
  "is_tool_auto_approved tool_name s = (tool_name \<in> set (ss_auto_approved_tools s))"

definition auto_approve_tool :: "string \<Rightarrow> session \<Rightarrow> session" where
  "auto_approve_tool tool_name s = s\<lparr>ss_auto_approved_tools := List.insert tool_name (ss_auto_approved_tools s)\<rparr>"

text \<open>\<open>entry(id).or_insert(thread)\<close>, then the thread the reference returned points to, by its id.\<close>

definition or_insert :: "'k \<Rightarrow> 'v \<Rightarrow> ('k, 'v) hmap \<Rightarrow> ('k, 'v) hmap" where
  "or_insert i th m = (case hm_get m i of None \<Rightarrow> hm_insert m i th | Some _ \<Rightarrow> m)"

definition create_thread_with_id :: "time \<Rightarrow> uuid \<Rightarrow> string option \<Rightarrow> session \<Rightarrow> uuid \<times> session" where
  "create_thread_with_id now i channel s =
     (if hm_get (ss_threads s) i \<noteq> None then (i, s)
      else (i, s\<lparr>ss_active_thread := Some i, ss_last_active_at := now,
              ss_threads := or_insert i (chat_thread_with_id now i (ss_id s) channel) (ss_threads s)\<rparr>))"

definition create_thread :: "time \<Rightarrow> uuid \<Rightarrow> string option \<Rightarrow> session \<Rightarrow> uuid \<times> session" where
  "create_thread now fresh_id channel s =
     (fresh_id, s\<lparr>ss_active_thread := Some fresh_id, ss_last_active_at := now,
        ss_threads := or_insert fresh_id (chat_thread_with_id now fresh_id (ss_id s) channel) (ss_threads s)\<rparr>)"

definition active_thread :: "session \<Rightarrow> chat_thread option" where
  "active_thread s = Option.bind (ss_active_thread s) (hm_get (ss_threads s))"

definition get_or_create_thread :: "time \<Rightarrow> uuid \<Rightarrow> string option \<Rightarrow> session \<Rightarrow> uuid \<times> session" where
  "get_or_create_thread now fresh_id channel s =
     (case ss_active_thread s of
        None \<Rightarrow> create_thread now fresh_id channel s
      | Some i \<Rightarrow> if hm_get (ss_threads s) i \<noteq> None then (i, s) else create_thread now fresh_id channel s)"

definition switch_thread :: "time \<Rightarrow> uuid \<Rightarrow> session \<Rightarrow> bool \<times> session" where
  "switch_thread now i s =
     (if hm_get (ss_threads s) i \<noteq> None then (True, s\<lparr>ss_active_thread := Some i, ss_last_active_at := now\<rparr>)
      else (False, s))"

section \<open>Rebuilding a thread from its own messages\<close>

definition restored_call ::
  "(string \<Rightarrow> json option) \<Rightarrow> (json \<Rightarrow> string) \<Rightarrow> string \<times> turn_tool_call \<Rightarrow> turn_tool_call" where
  "restored_call from_str to_str = (\<lambda>(i, tc).
     (tool_call_entry (ttc_name tc) (ttc_parameters tc) None (Some i))
       \<lparr>ttc_result := Some (JString (call_content from_str to_str tc))\<rparr>)"

definition restored_turn ::
  "(string \<Rightarrow> json option) \<Rightarrow> (json \<Rightarrow> string) \<Rightarrow> time \<Rightarrow> nat \<Rightarrow> turn \<Rightarrow> turn" where
  "restored_turn from_str to_str now i t =
     (let t1 = (turn_new now i (tn_user_input t))
              \<lparr>tn_tool_calls := map (restored_call from_str to_str) (call_ids i (tn_tool_calls t))\<rparr>
      in case tn_response t of Some r \<Rightarrow> turn_conclude now (CompletedWith r) t1 | None \<Rightarrow> t1)"

lemmas chat_defs = chat_user_def user_with_parts_def chat_assistant_def assistant_with_tool_calls_def tool_result_def

lemma consume_results_stop:
  "(case ms of [] \<Rightarrow> True | m # _ \<Rightarrow> cm_role m \<noteq> ToolRole) \<Longrightarrow> consume_results k calls ms = (calls, ms)"
  by (cases ms) auto

text \<open>A batch of calls with the content of their results, as it stands in a conversation.\<close>

definition batch_messages :: "(tool_call \<times> string) list \<Rightarrow> chat_message list" where
  "batch_messages outs =
     (if outs = [] then []
      else assistant_with_tool_calls None (map fst outs)
        # map (\<lambda>(tc, out). tool_result (tc_id tc) (tc_name tc) out) outs)"

definition response_messages :: "string option \<Rightarrow> chat_message list" where
  "response_messages response = (case response of Some r \<Rightarrow> [chat_assistant r] | None \<Rightarrow> [])"

definition answered_call :: "tool_call \<times> string \<Rightarrow> turn_tool_call" where
  "answered_call = (\<lambda>(tc, out). (tool_call_entry (tc_name tc) (tc_arguments tc) (tc_reasoning tc) (Some (tc_id tc)))
     \<lparr>ttc_result := Some (JString out)\<rparr>)"

definition answered_turn :: "time \<Rightarrow> nat \<Rightarrow> string \<Rightarrow> (tool_call \<times> string) list \<Rightarrow> string option \<Rightarrow> turn" where
  "answered_turn now n user_input outs response =
     (let t = (turn_new now n user_input)\<lparr>tn_tool_calls := map answered_call outs\<rparr>
      in case response of Some r \<Rightarrow> turn_conclude now (CompletedWith r) t | None \<Rightarrow> t)"

lemma consume_results_batch:
  assumes "case rest of [] \<Rightarrow> True | m # _ \<Rightarrow> cm_role m \<noteq> ToolRole"
  shows "consume_results (length pre)
      (pre @ map (\<lambda>tc. tool_call_entry (tc_name tc) (tc_arguments tc) (tc_reasoning tc) (Some (tc_id tc))) (map fst outs))
      (map (\<lambda>(tc, out). tool_result (tc_id tc) (tc_name tc) out) outs @ rest)
    = (pre @ map answered_call outs, rest)"
proof (induction outs arbitrary: pre)
  case Nil
  show ?case using consume_results_stop [OF assms] by simp
next
  case (Cons a outs)
  show ?case using Cons [of "pre @ [answered_call a]"]
    by (simp add: tool_result_def answered_call_def case_prod_unfold)
qed

lemma consume_rounds_stop:
  "(case ms of [] \<Rightarrow> True | m # _ \<Rightarrow> cm_role m \<noteq> AssistantRole \<or> cm_tool_calls m = None) \<Longrightarrow>
     consume_rounds calls ms = (calls, ms)"
  by (cases ms) (auto split: option.splits)

lemma call_ids_Nil [simp]: "call_ids i cs = [] \<longleftrightarrow> cs = []"
  by (cases cs) (simp_all add: call_ids_def)

lemma restore_answered_turn:
  assumes rest: "case rest of [] \<Rightarrow> True | m # _ \<Rightarrow> cm_role m = UserRole" and user: "cm_role m = UserRole"
  shows "restore_turns now n (m # batch_messages outs @ response_messages response @ rest)
    = answered_turn now n (cm_content m) outs response # restore_turns now (Suc n) rest"
proof -
  let ?resp = "response_messages response"
  have stop: "case ?resp @ rest of [] \<Rightarrow> True | m # _ \<Rightarrow> cm_role m \<noteq> AssistantRole \<or> cm_tool_calls m = None"
      "case ?resp @ rest of [] \<Rightarrow> True | m # _ \<Rightarrow> cm_role m \<noteq> ToolRole"
    using rest by (auto simp: response_messages_def chat_assistant_def split: option.splits list.splits)
  have rounds: "consume_rounds [] (batch_messages outs @ ?resp @ rest) = (map answered_call outs, ?resp @ rest)"
  proof (cases "outs = []")
    case True
    then show ?thesis using consume_rounds_stop [OF stop(1)] by (simp add: batch_messages_def)
  next
    case False
    then show ?thesis using consume_results_batch [OF stop(2), of "[]" outs] consume_rounds_stop [OF stop(1)]
      by (simp add: batch_messages_def Let_def assistant_with_tool_calls_def chat_assistant_def del: map_map)
  qed
  have final: "final_response now t1 (?resp @ rest)
      = (case response of Some r \<Rightarrow> turn_conclude now (CompletedWith r) t1 | None \<Rightarrow> t1, rest)" for t1
    using rest by (auto simp: response_messages_def final_response_def chat_assistant_def split: option.splits list.splits)
  show ?thesis by (simp add: user rounds final answered_turn_def Let_def split: option.split)
qed

definition shown_calls ::
  "(string \<Rightarrow> json option) \<Rightarrow> (json \<Rightarrow> string) \<Rightarrow> nat \<Rightarrow> turn_tool_call list \<Rightarrow> (tool_call \<times> string) list" where
  "shown_calls from_str to_str n cs =
     map (\<lambda>(i, tc). (\<lparr>tc_id = i, tc_name = ttc_name tc, tc_arguments = ttc_parameters tc, tc_reasoning = None\<rparr>,
                    call_content from_str to_str tc)) (call_ids n cs)"

lemma turn_messages_batch:
  "tl (turn_messages from_str to_str n t)
     = batch_messages (shown_calls from_str to_str n (tn_tool_calls t)) @ response_messages (tn_response t)"
  by (auto simp: turn_messages_def batch_messages_def shown_calls_def response_messages_def Let_def case_prod_unfold
      comp_def)

lemma restored_turn_answered:
  "restored_turn from_str to_str now n t
     = answered_turn now n (tn_user_input t) (shown_calls from_str to_str n (tn_tool_calls t)) (tn_response t)"
proof -
  have "map answered_call (shown_calls from_str to_str n cs) = map (restored_call from_str to_str) (call_ids n cs)" for cs
    by (simp add: shown_calls_def answered_call_def restored_call_def case_prod_unfold)
  then show ?thesis by (simp add: restored_turn_def answered_turn_def Let_def)
qed

lemma restore_turn_messages:
  assumes "case rest of [] \<Rightarrow> True | m # _ \<Rightarrow> cm_role m = UserRole"
  shows "restore_turns now n (turn_messages from_str to_str n t @ rest)
    = restored_turn from_str to_str now n t # restore_turns now (Suc n) rest"
proof -
  obtain m where m: "turn_messages from_str to_str n t = m # tl (turn_messages from_str to_str n t)"
      "cm_role m = UserRole" "cm_content m = tn_user_input t"
    by (auto simp: turn_messages_def chat_user_def user_with_parts_def)
  then have "turn_messages from_str to_str n t @ rest
      = m # batch_messages (shown_calls from_str to_str n (tn_tool_calls t)) @ response_messages (tn_response t) @ rest"
    by (simp add: turn_messages_batch)
  then show ?thesis
    using restore_answered_turn [OF assms m(2)] m(3) by (simp only: restored_turn_answered)
qed

lemma messages_start: "case concat (map (\<lambda>(i, t). turn_messages from_str to_str i t) (enumerate n ts)) of
    [] \<Rightarrow> True | m # _ \<Rightarrow> cm_role m = UserRole"
  by (cases ts) (simp_all add: turn_messages_def chat_user_def user_with_parts_def)

lemma restore_turns_messages:
  "restore_turns now n (concat (map (\<lambda>(i, t). turn_messages from_str to_str i t) (enumerate n ts)))
     = map (\<lambda>(i, t). restored_turn from_str to_str now i t) (enumerate n ts)"
  by (induction ts arbitrary: n) (simp_all add: restore_turn_messages messages_start)

text \<open>
  C28. Rebuilding a thread from the messages it produced gives back every turn, in order and
  renumbered from zero: its input and response, and each tool call under its generated identifier
  with the name, the arguments and, as its result, the text the model was shown. (Errors become
  results, and narratives, images and timestamps are not carried by the messages.)
\<close>

theorem restore_own_messages:
  "ct_turns (restore_from_messages now (thread_messages from_str to_str th) th')
     = map (\<lambda>(i, t). restored_turn from_str to_str now i t) (enumerate 0 (ct_turns th))"
  by (simp add: restore_from_messages_def thread_messages_def restore_turns_messages)

lemma restored_turn_view:
  "tn_user_input (restored_turn from_str to_str now i t) = tn_user_input t"
  "tn_response (restored_turn from_str to_str now i t) = tn_response t"
  "map ttc_name (tn_tool_calls (restored_turn from_str to_str now i t)) = map ttc_name (tn_tool_calls t)"
  "map ttc_parameters (tn_tool_calls (restored_turn from_str to_str now i t)) = map ttc_parameters (tn_tool_calls t)"
proof -
  have "map (ttc_name \<circ> restored_call from_str to_str) (call_ids i cs) = map ttc_name cs"
    "map (ttc_parameters \<circ> restored_call from_str to_str) (call_ids i cs) = map ttc_parameters cs" for cs
    by (auto simp: call_ids_def restored_call_def tool_call_entry_def enumerate_eq_zip intro!: nth_equalityI)
  then show "tn_user_input (restored_turn from_str to_str now i t) = tn_user_input t"
    "tn_response (restored_turn from_str to_str now i t) = tn_response t"
    "map ttc_name (tn_tool_calls (restored_turn from_str to_str now i t)) = map ttc_name (tn_tool_calls t)"
    "map ttc_parameters (tn_tool_calls (restored_turn from_str to_str now i t)) = map ttc_parameters (tn_tool_calls t)"
    by (auto simp: restored_turn_def turn_conclude_def turn_new_def Let_def split: option.split)
qed

lemma known_ids_sub: "m \<in> set ms \<Longrightarrow> set (known_ids [m]) \<subseteq> set (known_ids ms)"
  by (induction ms) (auto simp: known_ids_def)

lemma sanitize_fixed:
  "(\<And>m. m \<in> set ms \<Longrightarrow> cm_role m = ToolRole \<Longrightarrow> \<not> is_orphaned (known_ids ms) m) \<Longrightarrow> sanitize_tool_messages ms = ms"
  by (simp add: sanitize_tool_messages_def Let_def map_eq_self)

lemma turn_messages_known:
  assumes "m \<in> set (turn_messages from_str to_str i t)" and "cm_role m = ToolRole"
  shows "\<exists>j. cm_tool_call_id m = Some j \<and> j \<in> set (known_ids (turn_messages from_str to_str i t))"
proof -
  let ?ids = "call_ids i (tn_tool_calls t)"
  let ?a = "assistant_with_tool_calls None
      (map (\<lambda>(i, tc). \<lparr>tc_id = i, tc_name = ttc_name tc, tc_arguments = ttc_parameters tc, tc_reasoning = None\<rparr>) ?ids)"
  from assms obtain j tc where j: "(j, tc) \<in> set ?ids" "m = tool_result j (ttc_name tc) (call_content from_str to_str tc)"
      and ne: "tn_tool_calls t \<noteq> []"
    by (auto simp: turn_messages_def Let_def chat_defs split: if_splits option.splits)
  have "known_ids [?a] = map fst ?ids"
    using ne by (simp add: known_ids_def assistant_with_tool_calls_def chat_assistant_def case_prod_unfold comp_def)
  moreover have "?a \<in> set (turn_messages from_str to_str i t)" using ne by (simp add: turn_messages_def Let_def)
  then have "set (known_ids [?a]) \<subseteq> set (known_ids (turn_messages from_str to_str i t))"
    by (rule known_ids_sub)
  ultimately show ?thesis using j by (force simp: tool_result_def)
qed

text \<open>
  The conversation a thread hands to the model needs no repair: every tool result in it names
  a call of an assistant message, so sanitizing leaves it as it is.
\<close>

theorem thread_messages_sane:
  "sanitize_tool_messages (thread_messages from_str to_str th) = thread_messages from_str to_str th"
proof (rule sanitize_fixed)
  let ?ms = "thread_messages from_str to_str th"
  fix m assume "m \<in> set ?ms" and tool: "cm_role m = ToolRole"
  then obtain i t where it: "(i, t) \<in> set (enumerate 0 (ct_turns th))" "m \<in> set (turn_messages from_str to_str i t)"
    by (auto simp: thread_messages_def)
  then obtain j where j: "cm_tool_call_id m = Some j" "j \<in> set (known_ids (turn_messages from_str to_str i t))"
    using turn_messages_known tool by blast
  have "set (turn_messages from_str to_str i t) \<subseteq> set ?ms" using it(1) by (auto simp: thread_messages_def)
  then have "j \<in> set (known_ids ?ms)" using j(2) unfolding known_ids_mem by blast
  with j(1) show "\<not> is_orphaned (known_ids ?ms) m" by (simp add: is_orphaned_def)
qed

section \<open>Invariants\<close>

text \<open>
  The operations of a thread and of its last turn. The second component says whether drained messages are being
  processed: they may be put back once, and only then.
\<close>

inductive turn_recording :: "(turn \<Rightarrow> turn) \<Rightarrow> bool" where
  call: "turn_recording (record_tool_call name params)"
| call_with_reasoning: "turn_recording (record_tool_call_with_reasoning name params rationale call_id)"
| result: "turn_recording (record_tool_result res)"
| error: "turn_recording (record_tool_error err)"
| result_for: "turn_recording (record_tool_result_for call_id res)"
| error_for: "turn_recording (record_tool_error_for call_id err)"

inductive thread_op :: "chat_thread \<times> bool \<Rightarrow> chat_thread \<times> bool \<Rightarrow> bool" where
  queue: "thread_op (th, d) (snd (queue_message now m th), d)"
| take: "thread_op (th, d) (snd (take_pending_message th), d)"
| drain: "drain_pending_messages now th = (Some m, th') \<Longrightarrow> thread_op (th, False) (th', True)"
| requeue: "thread_op (th, True) (requeue_drained now m th, False)"
| drained: "thread_op (th, True) (th, False)"
| start: "thread_op (th, d) (start_turn now inp th, d)"
| conclude: "thread_op (th, d) (conclude_turn now outcome th, d)"
| await: "thread_op (th, d) (await_approval now p th, d)"
| take_approval: "thread_op (th, d) (snd (take_pending_approval th), d)"
| clear_approval: "thread_op (th, d) (clear_pending_approval now th, d)"
| enter_auth: "thread_op (th, d) (enter_auth_mode now e th, d)"
| take_auth: "thread_op (th, d) (snd (take_pending_auth th), d)"
| interrupt: "thread_op (th, d) (thread_interrupt now th, d)"
| resume: "thread_op (th, d) (thread_resume now th, d)"
| truncate: "thread_op (th, d) (truncate_turns keep th, d)"
| restore: "thread_op (th, d) (restore_from_messages now ms th, d)"
| recording: "turn_recording f \<Longrightarrow> thread_op (th, d) (th\<lparr>ct_turns := map_last f (ct_turns th)\<rparr>, d)"

definition turn_ok :: "nat \<Rightarrow> turn \<Rightarrow> bool" where
  "turn_ok i t = (tn_turn_number t = i
     \<and> (tn_state t = TurnProcessing \<longleftrightarrow> tn_completed_at t = None)
     \<and> (tn_state t \<noteq> TurnProcessing \<longrightarrow> tn_image_content_parts t = [])
     \<and> (tn_state t = TurnFailed \<longrightarrow> tn_error t \<noteq> None))"

definition session_thread_inv :: "chat_thread \<times> bool \<Rightarrow> bool" where
  "session_thread_inv = (\<lambda>(th, d).
     list_all2 turn_ok [0..<length (ct_turns th)] (ct_turns th)
     \<and> length (ct_pending_messages th) \<le> MAX_PENDING_MESSAGES + (if d then 0 else 1))"

lemma turn_ok_new [simp]: "turn_ok i (turn_new now i inp)"
  by (simp add: turn_ok_def turn_new_def)

lemma turn_ok_conclude: "turn_ok i t \<Longrightarrow> turn_ok i (turn_conclude now outcome t)"
  by (cases outcome) (simp_all add: turn_ok_def turn_conclude_def)

lemma turn_ok_recording: "turn_recording f \<Longrightarrow> turn_ok i t \<Longrightarrow> turn_ok i (f t)"
  by (induction rule: turn_recording.induct)
    (auto simp: turn_ok_def record_tool_call_def record_tool_call_with_reasoning_def record_tool_result_def
      record_tool_error_def record_tool_result_for_def record_tool_error_for_def update_call_for_def
      split: option.splits)

lemma turns_ok_nth:
  "list_all2 turn_ok [0..<length ts] ts \<longleftrightarrow> (\<forall>i < length ts. turn_ok i (ts ! i))"
  by (simp add: list_all2_conv_all_nth)

lemma turns_ok_snoc:
  "list_all2 turn_ok [0..<length ts] ts \<Longrightarrow> turn_ok (length ts) t \<Longrightarrow> list_all2 turn_ok [0..<length (ts @ [t])] (ts @ [t])"
  unfolding turns_ok_nth by (auto simp: nth_append less_Suc_eq)

lemma turns_ok_map_last:
  assumes "list_all2 turn_ok [0..<length ts] ts" and "\<And>i t. turn_ok i t \<Longrightarrow> turn_ok i (f t)"
  shows "list_all2 turn_ok [0..<length (map_last f ts)] (map_last f ts)"
proof (cases ts rule: rev_cases)
  case (snoc xs x)
  with assms show ?thesis unfolding turns_ok_nth by (auto simp: map_last_def nth_append less_Suc_eq)
qed (simp add: map_last_def)

lemma turns_ok_renumber:
  assumes "\<forall>t \<in> set ts. \<exists>i. turn_ok i t"
  shows "list_all2 turn_ok [0..<length (renumber ts)] (renumber ts)"
  unfolding turns_ok_nth
proof (intro allI impI)
  fix i assume i: "i < length (renumber ts)"
  then have "ts ! i \<in> set ts" by (simp add: renumber_def)
  with assms obtain k where "turn_ok k (ts ! i)" by blast
  then show "turn_ok i (renumber ts ! i)" using i by (simp add: renumber_def nth_enumerate_eq turn_ok_def)
qed

lemma restore_turns_ok: "\<forall>i < length (restore_turns now n ms). turn_ok (n + i) (restore_turns now n ms ! i)"
proof (induction now n ms rule: restore_turns.induct)
  case (2 now n m ms)
  show ?case
  proof (cases "cm_role m = UserRole")
    case True
    let ?r = "consume_rounds [] ms"
    let ?t = "(turn_new now n (cm_content m))\<lparr>tn_tool_calls := fst ?r\<rparr>"
    have "turn_ok n ?t" by (simp add: turn_ok_def turn_new_def)
    then have "turn_ok n (fst (final_response now ?t (snd ?r)))"
      by (auto simp: final_response_def turn_ok_conclude split: list.split)
    then show ?thesis using 2(1) [OF True refl refl] True
      by (auto simp: Let_def nth_Cons split: nat.splits)
  qed (use 2 in auto)
qed simp

lemma session_thread_inv_step: "thread_op s s' \<Longrightarrow> session_thread_inv s \<Longrightarrow> session_thread_inv s'"
proof (induction rule: thread_op.induct)
  case (start th d now inp)
  then show ?case using turns_ok_snoc [of "ct_turns th" "turn_new now (length (ct_turns th)) inp"]
    by (simp add: session_thread_inv_def start_turn_def)
next
  case (conclude th d now outcome)
  then show ?case using turns_ok_map_last [of "ct_turns th" "turn_conclude now outcome"]
    by (simp add: session_thread_inv_def conclude_turn_def turn_ok_conclude)
next
  case (interrupt th d now)
  then show ?case using turns_ok_map_last [of "ct_turns th" "turn_conclude now InterruptedByUser"]
    by (simp add: session_thread_inv_def thread_interrupt_def turn_ok_conclude)
next
  case (recording f th d)
  then show ?case using turns_ok_map_last [of "ct_turns th" f] turn_ok_recording
    by (simp add: session_thread_inv_def)
next
  case (truncate th d keep)
  have "\<forall>t \<in> set (drop k (ct_turns th)). \<exists>i. turn_ok i t" for k
    using truncate unfolding session_thread_inv_def
    by (auto simp: turns_ok_nth dest!: in_set_dropD) (metis in_set_conv_nth)
  then show ?case using truncate turns_ok_renumber by (simp add: session_thread_inv_def truncate_turns_def split: if_splits)
next
  case (restore th d now ms)
  then show ?case using restore_turns_ok [of now 0 ms]
    by (simp add: session_thread_inv_def restore_from_messages_def turns_ok_nth)
next
  case (drain now th m th')
  then show ?case by (auto simp: session_thread_inv_def drain_pending_messages_def split: if_splits)
qed (auto simp: session_thread_inv_def queue_message_def take_pending_message_def requeue_drained_def
    await_approval_def take_pending_approval_def clear_pending_approval_def enter_auth_mode_def
    take_pending_auth_def thread_resume_def split: list.splits)



end
