(* ===== verification/Session_Manager.thy ===== *)
theory Session_Manager
  imports Session Undo
begin

text \<open>
  The session manager (\<open>src/agent/session_manager.rs\<close>): the sessions of all users, the map from
  the threads of the channels to internal threads, and the undo managers. A session behind its
  \<open>Arc<Mutex<_>>\<close> is the entry of its user. The sections of \<open>prune_stale_sessions\<close> under separate
  locks are separate definitions, so that other operations can run between them. The parser of
  identifiers (\<open>parse_uuid\<close>) and their printer (\<open>uuid_str\<close>) are parameters; the session hooks,
  which run detached, are not part of the state.
\<close>

record thread_key =
  tk_user_id :: string
  tk_channel :: string
  tk_external_thread_id :: "string option"

record session_manager =
  sm_sessions :: "(string, session) hmap"
  sm_thread_map :: "(thread_key, uuid) hmap"
  sm_undo_managers :: "(uuid, chat_message undo_manager) hmap"

definition session_manager_new :: session_manager where
  "session_manager_new = \<lparr>sm_sessions = [], sm_thread_map = [], sm_undo_managers = []\<rparr>"

definition get_or_create_session ::
  "time \<Rightarrow> uuid \<Rightarrow> string \<Rightarrow> session_manager \<Rightarrow> session \<times> session_manager" where
  "get_or_create_session now session_id user_id m =
     (case hm_get (sm_sessions m) user_id of
        Some s \<Rightarrow> (s, m)
      | None \<Rightarrow>
          let s = session_new now session_id user_id
          in (s, m\<lparr>sm_sessions := hm_insert (sm_sessions m) user_id s\<rparr>))"

section \<open>Resolving a thread\<close>

definition thread_key_of :: "string \<Rightarrow> string \<Rightarrow> string option \<Rightarrow> thread_key" where
  "thread_key_of user_id channel external =
     \<lparr>tk_user_id = user_id, tk_channel = channel, tk_external_thread_id = external\<rparr>"

text \<open>\<open>thread_map.values().any(|v| v == uuid)\<close>.\<close>

definition is_mapped :: "session_manager \<Rightarrow> uuid \<Rightarrow> bool" where
  "is_mapped m i = (i \<in> set (hm_values (sm_thread_map m)))"

definition external_uuid :: "(string \<Rightarrow> uuid option) \<Rightarrow> string option \<Rightarrow> uuid option \<Rightarrow> uuid option" where
  "external_uuid parse_uuid external parsed =
     (case parsed of Some i \<Rightarrow> Some i | None \<Rightarrow> Option.bind external parse_uuid)"

definition lookup_key :: "session_manager \<Rightarrow> session \<Rightarrow> thread_key \<Rightarrow> uuid option" where
  "lookup_key m s key =
     (case hm_get (sm_thread_map m) key of
        Some i \<Rightarrow> if hm_get (ss_threads s) i \<noteq> None then Some i else None
      | None \<Rightarrow> None)"

definition adoptable_uuid :: "session_manager \<Rightarrow> string option \<Rightarrow> uuid option \<Rightarrow> uuid option" where
  "adoptable_uuid m external ext_uuid =
     (if external \<noteq> None
      then (case ext_uuid of Some i \<Rightarrow> if is_mapped m i then None else Some i | None \<Rightarrow> None)
      else None)"

definition adopt_thread :: "session_manager \<Rightarrow> session \<Rightarrow> thread_key \<Rightarrow> uuid option \<Rightarrow> (uuid \<times> session_manager) option" where
  "adopt_thread m s key adoptable =
     (case adoptable of
        None \<Rightarrow> None
      | Some i \<Rightarrow>
          if hm_get (ss_threads s) i \<noteq> None \<and> \<not> is_mapped m i
          then Some (i, m\<lparr>sm_thread_map := hm_insert (sm_thread_map m) key i,
                         sm_undo_managers := or_insert i undo_manager_new (sm_undo_managers m)\<rparr>)
          else None)"

definition create_mapped_thread ::
  "time \<Rightarrow> uuid \<Rightarrow> string \<Rightarrow> uuid option \<Rightarrow> session_manager \<Rightarrow> session \<Rightarrow> thread_key \<Rightarrow> uuid \<times> session_manager" where
  "create_mapped_thread now fresh_id channel ext_uuid m s key =
     (let safe_ext_uuid = (case ext_uuid of Some i \<Rightarrow> if is_mapped m i then None else Some i | None \<Rightarrow> None);
          r = (case safe_ext_uuid of
                 Some i \<Rightarrow> create_thread_with_id now i (Some channel) s
               | None \<Rightarrow> create_thread now fresh_id (Some channel) s)
      in (fst r,
          m\<lparr>sm_sessions := hm_insert (sm_sessions m) (tk_user_id key) (snd r),
            sm_thread_map := hm_insert (sm_thread_map m) key (fst r),
            sm_undo_managers := hm_insert (sm_undo_managers m) (fst r) undo_manager_new\<rparr>))"

definition resolve_thread_with_parsed_uuid ::
  "(string \<Rightarrow> uuid option) \<Rightarrow> time \<Rightarrow> uuid \<Rightarrow> uuid \<Rightarrow> string \<Rightarrow> string \<Rightarrow> string option \<Rightarrow> uuid option \<Rightarrow>
     session_manager \<Rightarrow> uuid \<times> session_manager" where
  "resolve_thread_with_parsed_uuid parse_uuid now session_id fresh_id user_id channel external parsed m =
     (let g = get_or_create_session now session_id user_id m;
          s = fst g; m1 = snd g;
          key = thread_key_of user_id channel external;
          ext_uuid = external_uuid parse_uuid external parsed
      in case lookup_key m1 s key of
           Some i \<Rightarrow> (i, m1)
         | None \<Rightarrow>
             (case adopt_thread m1 s key (adoptable_uuid m1 external ext_uuid) of
                Some r \<Rightarrow> r
              | None \<Rightarrow> create_mapped_thread now fresh_id channel ext_uuid m1 s key))"

definition resolve_thread ::
  "(string \<Rightarrow> uuid option) \<Rightarrow> time \<Rightarrow> uuid \<Rightarrow> uuid \<Rightarrow> string \<Rightarrow> string \<Rightarrow> string option \<Rightarrow>
     session_manager \<Rightarrow> uuid \<times> session_manager" where
  "resolve_thread parse_uuid now session_id fresh_id user_id channel external m =
     resolve_thread_with_parsed_uuid parse_uuid now session_id fresh_id user_id channel external None m"

definition register_thread ::
  "(uuid \<Rightarrow> string) \<Rightarrow> string \<Rightarrow> string \<Rightarrow> uuid \<Rightarrow> session \<Rightarrow> session_manager \<Rightarrow> session_manager" where
  "register_thread uuid_str user_id channel thread_id s m =
     m\<lparr>sm_thread_map := hm_insert (sm_thread_map m) (thread_key_of user_id channel (Some (uuid_str thread_id))) thread_id,
       sm_undo_managers := or_insert thread_id undo_manager_new (sm_undo_managers m),
       sm_sessions := or_insert user_id s (sm_sessions m)\<rparr>"

definition get_undo_manager :: "uuid \<Rightarrow> session_manager \<Rightarrow> chat_message undo_manager \<times> session_manager" where
  "get_undo_manager thread_id m =
     (case hm_get (sm_undo_managers m) thread_id of
        Some u \<Rightarrow> (u, m)
      | None \<Rightarrow> (undo_manager_new,
                 m\<lparr>sm_undo_managers := hm_insert (sm_undo_managers m) thread_id undo_manager_new\<rparr>))"

section \<open>Pruning\<close>

text \<open>
  \<open>free\<close> and \<open>free'\<close> say for which users \<open>try_lock\<close> succeeds in the two passes over the sessions;
  the timeout is a number of seconds.
\<close>

definition stale_users :: "(string \<Rightarrow> bool) \<Rightarrow> time \<Rightarrow> int \<Rightarrow> session_manager \<Rightarrow> string list" where
  "stale_users free now max_idle_secs m =
     map fst (filter (\<lambda>(u, s). free u \<and> ss_last_active_at s < now - secs max_idle_secs) (sm_sessions m))"

definition stale_thread_ids :: "(string \<Rightarrow> bool) \<Rightarrow> string list \<Rightarrow> session_manager \<Rightarrow> uuid list" where
  "stale_thread_ids free' stale m =
     concat (map (\<lambda>u. case hm_get (sm_sessions m) u of
         Some s \<Rightarrow> if free' u then hm_keys (ss_threads s) else []
       | None \<Rightarrow> []) stale)"

definition prune_sessions :: "string list \<Rightarrow> session_manager \<Rightarrow> nat \<times> session_manager" where
  "prune_sessions stale m =
     (let remaining = fold (\<lambda>u ss. hm_remove ss u) stale (sm_sessions m)
      in (length (sm_sessions m) - length remaining, m\<lparr>sm_sessions := remaining\<rparr>))"

definition prune_thread_map :: "string list \<Rightarrow> session_manager \<Rightarrow> session_manager" where
  "prune_thread_map stale m =
     m\<lparr>sm_thread_map := hm_retain (sm_thread_map m) (\<lambda>key _. tk_user_id key \<notin> set stale)\<rparr>"

definition prune_undo_managers :: "uuid list \<Rightarrow> session_manager \<Rightarrow> session_manager" where
  "prune_undo_managers tids m = m\<lparr>sm_undo_managers := fold (\<lambda>i us. hm_remove us i) tids (sm_undo_managers m)\<rparr>"

definition prune_stale_sessions ::
  "(string \<Rightarrow> bool) \<Rightarrow> (string \<Rightarrow> bool) \<Rightarrow> time \<Rightarrow> int \<Rightarrow> session_manager \<Rightarrow> nat \<times> session_manager" where
  "prune_stale_sessions free free' now max_idle_secs m =
     (let stale = stale_users free now max_idle_secs m
      in if stale = [] then (0, m)
         else
           let tids = stale_thread_ids free' stale m;
               r = prune_sessions stale m
           in (fst r, prune_undo_managers tids (prune_thread_map stale (snd r))))"

section \<open>Lemmas\<close>

lemma hm_get_or_insert [hm_simps]:
  "hm_get (or_insert k v m) k' = (if k' = k \<and> hm_get m k = None then Some v else hm_get m k')"
  by (auto simp: or_insert_def hm_get_insert split: option.splits)

lemma hm_get_fold_remove: "hm_get (fold (\<lambda>u ss. hm_remove ss u) us m) k = (if k \<in> set us then None else hm_get m k)"
  by (induction us arbitrary: m) (auto simp: hm_get_remove)

lemma get_or_create_session_get:
  "hm_get (sm_sessions (snd (get_or_create_session now sid u m))) u = Some (fst (get_or_create_session now sid u m))"
  by (simp add: get_or_create_session_def hm_get_insert Let_def split: option.split)

lemma get_or_create_session_maps [simp]:
  "sm_thread_map (snd (get_or_create_session now sid u m)) = sm_thread_map m"
  "sm_undo_managers (snd (get_or_create_session now sid u m)) = sm_undo_managers m"
  by (simp_all add: get_or_create_session_def Let_def split: option.split)

lemma create_thread_has: "hm_get (ss_threads (snd (create_thread now i ch s))) (fst (create_thread now i ch s)) \<noteq> None"
  by (simp add: create_thread_def hm_simps)

lemma create_thread_with_id_has:
  "hm_get (ss_threads (snd (create_thread_with_id now i ch s))) (fst (create_thread_with_id now i ch s)) \<noteq> None"
  by (simp add: create_thread_with_id_def hm_simps)

lemma create_thread_keeps:
  "hm_get (ss_threads s) j \<noteq> None \<Longrightarrow> hm_get (ss_threads (snd (create_thread now i ch s))) j \<noteq> None"
  "hm_get (ss_threads s) j \<noteq> None \<Longrightarrow> hm_get (ss_threads (snd (create_thread_with_id now i ch s))) j \<noteq> None"
  by (simp_all add: create_thread_def create_thread_with_id_def hm_simps)

text \<open>What resolving gives: the thread of the key, in the session of the user.\<close>

definition key_open :: "session_manager \<Rightarrow> thread_key \<Rightarrow> uuid \<Rightarrow> bool" where
  "key_open m key i = (hm_get (sm_thread_map m) key = Some i
     \<and> (\<exists>s. hm_get (sm_sessions m) (tk_user_id key) = Some s \<and> hm_get (ss_threads s) i \<noteq> None))"

lemma thread_key_of_user [simp]: "tk_user_id (thread_key_of u ch ext) = u"
  by (simp add: thread_key_of_def)

lemma create_mapped_thread_open:
  "key_open (snd (create_mapped_thread now fresh ch ext m s key)) key (fst (create_mapped_thread now fresh ch ext m s key))"
  using create_thread_has [of now fresh "Some ch" s] create_thread_with_id_has [of now _ "Some ch" s]
  by (auto simp: create_mapped_thread_def key_open_def hm_simps Let_def split: option.split)

lemma resolve_opens:
  assumes "resolve_thread_with_parsed_uuid parse_uuid now sid fresh u ch ext parsed m = (i, m1)"
  shows "key_open m1 (thread_key_of u ch ext) i"
proof -
  let ?g = "get_or_create_session now sid u m"
  let ?key = "thread_key_of u ch ext"
  let ?a = "adopt_thread (snd ?g) (fst ?g) ?key (adoptable_uuid (snd ?g) ext (external_uuid parse_uuid ext parsed))"
  consider (found) "lookup_key (snd ?g) (fst ?g) ?key = Some i" "m1 = snd ?g"
    | (adopted) "?a = Some (i, m1)"
    | (created) "create_mapped_thread now fresh ch (external_uuid parse_uuid ext parsed) (snd ?g) (fst ?g) ?key = (i, m1)"
    using assms by (auto simp: resolve_thread_with_parsed_uuid_def Let_def split: option.splits)
  then show ?thesis
  proof cases
    case found
    then show ?thesis
      using get_or_create_session_get [of now sid u m]
      by (auto simp: lookup_key_def key_open_def split: option.splits if_splits)
  next
    case adopted
    then show ?thesis
      using get_or_create_session_get [of now sid u m]
      by (auto simp: adopt_thread_def key_open_def hm_simps split: option.splits if_splits)
  next
    case created
    then show ?thesis
      using create_mapped_thread_open [of now fresh ch "external_uuid parse_uuid ext parsed" "snd ?g" "fst ?g" ?key]
      by simp
  qed
qed

lemma resolve_open_key:
  assumes "key_open m (thread_key_of u ch ext) i"
  shows "resolve_thread_with_parsed_uuid parse_uuid now sid fresh u ch ext parsed m = (i, m)"
  using assms
  by (auto simp: key_open_def resolve_thread_with_parsed_uuid_def get_or_create_session_def lookup_key_def)

section \<open>Properties\<close>

text \<open>
  Resolving is stable: once a conversation of a channel has been resolved, resolving it again
  answers the same thread and changes nothing, whatever the clock, the fresh identifiers and the
  identifier passed along, and that thread is in the session of the user.
\<close>

theorem resolve_stable:
  "let (i, m1) = resolve_thread_with_parsed_uuid parse_uuid now sid fresh u ch ext parsed m
   in resolve_thread_with_parsed_uuid parse_uuid now' sid' fresh' u ch ext parsed' m1 = (i, m1)
      \<and> (\<exists>s. hm_get (sm_sessions m1) u = Some s \<and> hm_get (ss_threads s) i \<noteq> None)"
proof -
  obtain i m1 where r: "resolve_thread_with_parsed_uuid parse_uuid now sid fresh u ch ext parsed m = (i, m1)"
    by (cases "resolve_thread_with_parsed_uuid parse_uuid now sid fresh u ch ext parsed m")
  have op: "key_open m1 (thread_key_of u ch ext) i" using r by (rule resolve_opens)
  then have "\<exists>s. hm_get (sm_sessions m1) u = Some s \<and> hm_get (ss_threads s) i \<noteq> None"
    by (simp add: key_open_def)
  then show ?thesis using resolve_open_key [OF op] r by simp
qed

section \<open>No two conversations share a thread\<close>

text \<open>
  The operations of the manager by which sessions, threads and their keys come and go: resolving
  with a fresh identifier, creating a thread without a key (as \<open>/thread new\<close> does), any
  operation within the sessions that keeps their threads, and pruning.
\<close>

inductive manager_op :: "session_manager \<Rightarrow> session_manager \<Rightarrow> bool" where
  resolve: "\<not> is_mapped m fresh \<Longrightarrow>
    manager_op m (snd (resolve_thread_with_parsed_uuid parse_uuid now sid fresh u ch ext parsed m))"
| new_thread: "hm_get (sm_sessions m) u = Some s \<Longrightarrow>
    manager_op m (m\<lparr>sm_sessions := hm_insert (sm_sessions m) u (snd (create_thread now i ch s))\<rparr>)"
| edit: "hm_get (sm_sessions m) u = Some s \<Longrightarrow> hm_keys (ss_threads s') = hm_keys (ss_threads s) \<Longrightarrow>
    manager_op m (m\<lparr>sm_sessions := hm_insert (sm_sessions m) u s'\<rparr>)"
| undo_managers: "manager_op m (snd (get_undo_manager i m))"
| prune: "manager_op m (snd (prune_stale_sessions free free' now idle m))"

definition manager_inv :: "session_manager \<Rightarrow> bool" where
  "manager_inv m = (hm_wf (sm_thread_map m)
     \<and> (\<forall>key i. hm_get (sm_thread_map m) key = Some i \<longrightarrow> key_open m key i)
     \<and> (\<forall>k k' i. hm_get (sm_thread_map m) k = Some i \<longrightarrow> hm_get (sm_thread_map m) k' = Some i \<longrightarrow> k = k'))"

lemma is_mapped_get: "manager_inv m \<Longrightarrow> is_mapped m i \<longleftrightarrow> (\<exists>k. hm_get (sm_thread_map m) k = Some i)"
  by (simp add: is_mapped_def manager_inv_def hm_values_get)

lemma manager_inv_insert:
  assumes inv: "manager_inv m" and new: "\<not> is_mapped m i"
    and tm: "sm_thread_map m' = hm_insert (sm_thread_map m) key i"
    and op: "key_open m' key i"
    and keep: "\<And>u s j. hm_get (sm_sessions m) u = Some s \<Longrightarrow> hm_get (ss_threads s) j \<noteq> None \<Longrightarrow>
      \<exists>s'. hm_get (sm_sessions m') u = Some s' \<and> hm_get (ss_threads s') j \<noteq> None"
  shows "manager_inv m'"
proof -
  have fresh: "hm_get (sm_thread_map m) k \<noteq> Some i" for k using is_mapped_get [OF inv] new by simp
  have "key_open m' k j" if "hm_get (sm_thread_map m') k = Some j" for k j
  proof (cases "k = key")
    case True
    then show ?thesis using that op tm by (simp add: hm_get_insert)
  next
    case False
    with that tm have "hm_get (sm_thread_map m) k = Some j" by (simp add: hm_get_insert)
    with inv have "key_open m k j" by (simp add: manager_inv_def)
    with keep that show ?thesis by (auto simp: key_open_def)
  qed
  moreover have "k = k'" if "hm_get (sm_thread_map m') k = Some j" "hm_get (sm_thread_map m') k' = Some j" for k k' j
    using that inv fresh unfolding tm manager_inv_def by (auto simp: hm_get_insert split: if_splits)
  ultimately show ?thesis using inv tm by (simp add: manager_inv_def hm_wf_insert)
qed

lemma manager_inv_frame:
  assumes "manager_inv m" and "sm_thread_map m' = sm_thread_map m"
    and "\<And>u s j. hm_get (sm_sessions m) u = Some s \<Longrightarrow> hm_get (ss_threads s) j \<noteq> None \<Longrightarrow>
      \<exists>s'. hm_get (sm_sessions m') u = Some s' \<and> hm_get (ss_threads s') j \<noteq> None"
  shows "manager_inv m'"
  using assms unfolding manager_inv_def key_open_def by (simp add: not_None_eq) (metis option.inject)

lemma get_or_create_session_keeps:
  "hm_get (sm_sessions m) w = Some s \<Longrightarrow> hm_get (sm_sessions (snd (get_or_create_session now sid u m))) w = Some s"
  by (auto simp: get_or_create_session_def hm_get_insert Let_def split: option.split)

lemma manager_inv_get_or_create:
  "manager_inv m \<Longrightarrow> manager_inv (snd (get_or_create_session now sid u m))"
  by (rule manager_inv_frame) (auto dest: get_or_create_session_keeps)

lemma is_mapped_get_or_create [simp]: "is_mapped (snd (get_or_create_session now sid u m)) i = is_mapped m i"
  by (simp add: is_mapped_def)

lemma manager_inv_adopt:
  assumes "manager_inv m" and "hm_get (sm_sessions m) (tk_user_id key) = Some s"
    and "adopt_thread m s key a = Some (i, m')"
  shows "manager_inv m'"
proof (rule manager_inv_insert [OF assms(1)])
  from assms(3) have a: "a = Some i" "hm_get (ss_threads s) i \<noteq> None" "\<not> is_mapped m i"
      "m' = m\<lparr>sm_thread_map := hm_insert (sm_thread_map m) key i,
              sm_undo_managers := or_insert i undo_manager_new (sm_undo_managers m)\<rparr>"
    by (auto simp: adopt_thread_def split: option.splits if_splits)
  then show "\<not> is_mapped m i" "sm_thread_map m' = hm_insert (sm_thread_map m) key i" by simp_all
  show "key_open m' key i" using a assms(2) by (auto simp: key_open_def hm_get_insert)
  show "\<exists>s'. hm_get (sm_sessions m') w = Some s' \<and> hm_get (ss_threads s') j \<noteq> None"
    if "hm_get (sm_sessions m) w = Some t" "hm_get (ss_threads t) j \<noteq> None" for w t j
    using that a(4) by simp
qed

lemma manager_inv_create:
  assumes inv: "manager_inv m" and s: "hm_get (sm_sessions m) (tk_user_id key) = Some s"
    and fresh: "\<not> is_mapped m fresh"
  shows "manager_inv (snd (create_mapped_thread now fresh ch ext m s key))"
proof (rule manager_inv_insert [OF inv, where key = key])
  let ?r = "create_mapped_thread now fresh ch ext m s key"
  show "\<not> is_mapped m (fst ?r)"
    using fresh by (auto simp: create_mapped_thread_def create_thread_with_id_def create_thread_def Let_def
        split: option.splits)
  show "sm_thread_map (snd ?r) = hm_insert (sm_thread_map m) key (fst ?r)"
    by (simp add: create_mapped_thread_def Let_def)
  show "key_open (snd ?r) key (fst ?r)" by (rule create_mapped_thread_open)
  show "\<exists>s'. hm_get (sm_sessions (snd ?r)) w = Some s' \<and> hm_get (ss_threads s') j \<noteq> None"
    if w: "hm_get (sm_sessions m) w = Some t" "hm_get (ss_threads t) j \<noteq> None" for w t j
  proof (cases "w = tk_user_id key")
    case True
    with w s have "hm_get (ss_threads s) j \<noteq> None" by simp
    then show ?thesis using True create_thread_keeps
      by (simp add: create_mapped_thread_def hm_get_insert Let_def split: option.split)
  next
    case False
    then show ?thesis using w by (simp add: create_mapped_thread_def hm_get_insert Let_def)
  qed
qed

lemma manager_inv_resolve:
  assumes inv: "manager_inv m" and fresh: "\<not> is_mapped m fresh"
  shows "manager_inv (snd (resolve_thread_with_parsed_uuid parse_uuid now sid fresh u ch ext parsed m))"
proof -
  let ?g = "get_or_create_session now sid u m"
  let ?key = "thread_key_of u ch ext"
  have g: "manager_inv (snd ?g)" "hm_get (sm_sessions (snd ?g)) (tk_user_id ?key) = Some (fst ?g)"
    using inv get_or_create_session_get by (simp_all add: manager_inv_get_or_create)
  show ?thesis
    using g manager_inv_create [OF g] fresh manager_inv_adopt [OF g]
    by (auto simp: resolve_thread_with_parsed_uuid_def Let_def split: option.split)
qed

lemma manager_inv_prune:
  assumes inv: "manager_inv m"
  shows "manager_inv (snd (prune_stale_sessions free free' now idle m))"
proof (cases "stale_users free now idle m = []")
  case True
  then show ?thesis using inv by (simp add: prune_stale_sessions_def)
next
  case False
  let ?stale = "stale_users free now idle m"
  let ?m = "snd (prune_stale_sessions free free' now idle m)"
  have tm: "sm_thread_map ?m = hm_retain (sm_thread_map m) (\<lambda>key _. tk_user_id key \<notin> set ?stale)"
    and ss: "hm_get (sm_sessions ?m) w = (if w \<in> set ?stale then None else hm_get (sm_sessions m) w)" for w
    using False by (simp_all add: prune_stale_sessions_def prune_sessions_def prune_thread_map_def
        prune_undo_managers_def hm_get_fold_remove Let_def)
  have wf: "hm_wf (sm_thread_map m)" using inv by (simp add: manager_inv_def)
  have tm': "hm_get (sm_thread_map ?m) k = Some i
      \<longleftrightarrow> hm_get (sm_thread_map m) k = Some i \<and> tk_user_id k \<notin> set ?stale" for k i
    unfolding tm by (rule hm_get_retain_Some [OF wf])
  have "hm_wf (sm_thread_map ?m)" unfolding tm using wf by (rule hm.wf_keep)
  then show ?thesis
    using inv unfolding manager_inv_def key_open_def tm' ss by auto
qed

lemma manager_inv_step: "manager_op m m' \<Longrightarrow> manager_inv m \<Longrightarrow> manager_inv m'"
proof (induction rule: manager_op.induct)
  case (resolve m fresh parse_uuid now sid u ch ext parsed)
  then show ?case by (intro manager_inv_resolve)
next
  case (new_thread m u s now i ch)
  then show ?case
    by (elim manager_inv_frame) (auto simp: hm_get_insert simp del: not_None_eq intro!: create_thread_keeps(1))
next
  case (edit m u s s')
  have "hm_get (ss_threads s) j = Some y \<Longrightarrow> \<exists>y. hm_get (ss_threads s') j = Some y" for j y
    using edit(2) hm_keys_get [of j "ss_threads s"] hm_keys_get [of j "ss_threads s'"] by simp
  with edit show ?case by (elim manager_inv_frame) (auto simp: hm_get_insert)
next
  case (undo_managers m i)
  then show ?case
    by (elim manager_inv_frame) (auto simp: get_undo_manager_def split: option.split)
next
  case (prune m free free' now idle)
  then show ?case by (rule manager_inv_prune)
qed



section \<open>Pruning and activity\<close>

text \<open>
  A message of a conversation: its thread is resolved and a turn is started in it (what a turn does
  afterwards stays within the thread).
\<close>

definition on_session_thread :: "string \<Rightarrow> uuid \<Rightarrow> (chat_thread \<Rightarrow> chat_thread) \<Rightarrow> session_manager \<Rightarrow> session_manager" where
  "on_session_thread u i f m =
     m\<lparr>sm_sessions := hm_modify (sm_sessions m) u (\<lambda>s. s\<lparr>ss_threads := hm_modify (ss_threads s) i f\<rparr>)\<rparr>"

definition user_message ::
  "(string \<Rightarrow> uuid option) \<Rightarrow> string \<Rightarrow> string \<Rightarrow> string option \<Rightarrow> time \<times> uuid \<times> uuid \<times> string \<Rightarrow>
     session_manager \<Rightarrow> session_manager" where
  "user_message parse_uuid u ch ext = (\<lambda>(now, sid, fresh, inp) m.
     let (i, m1) = resolve_thread parse_uuid now sid fresh u ch ext m
     in on_session_thread u i (start_turn now inp) m1)"

lemma user_message_keeps:
  assumes "key_open m (thread_key_of u ch ext) i" and "hm_get (sm_sessions m) u = Some s"
  shows "key_open (user_message parse_uuid u ch ext x m) (thread_key_of u ch ext) i
     \<and> (\<exists>s'. hm_get (sm_sessions (user_message parse_uuid u ch ext x m)) u = Some s'
          \<and> ss_last_active_at s' = ss_last_active_at s)"
proof -
  obtain now sid fresh inp where x: "x = (now, sid, fresh, inp)" by (cases x) auto
  have "user_message parse_uuid u ch ext x m = on_session_thread u i (start_turn now inp) m"
    by (simp add: x user_message_def resolve_thread_def resolve_open_key [OF assms(1)])
  then show ?thesis using assms by (auto simp: on_session_thread_def key_open_def hm_get_modify)
qed

lemma user_messages_keep:
  assumes "key_open m (thread_key_of u ch ext) i" and "hm_get (sm_sessions m) u = Some s"
  shows "key_open (fold (user_message parse_uuid u ch ext) xs m) (thread_key_of u ch ext) i
     \<and> (\<exists>s'. hm_get (sm_sessions (fold (user_message parse_uuid u ch ext) xs m)) u = Some s'
          \<and> ss_last_active_at s' = ss_last_active_at s)"
  using assms
proof (induction xs arbitrary: m s)
  case (Cons x xs)
  from user_message_keeps [OF Cons.prems] Cons.IH show ?case by fastforce
qed auto

lemma prune_removes:
  assumes "hm_get (sm_sessions m) u = Some s" and "free u" and "ss_last_active_at s < now - secs idle"
  shows "hm_get (sm_sessions (snd (prune_stale_sessions free free' now idle m))) u = None"
proof -
  have "u \<in> set (stale_users free now idle m)"
    using assms hm_get_entry [OF assms(1)] by (force simp: stale_users_def)
  then show ?thesis
    by (auto simp: prune_stale_sessions_def prune_sessions_def prune_thread_map_def prune_undo_managers_def
        hm_get_fold_remove Let_def)
qed

text \<open>
  Talking does not count as activity: a session created at \<open>t0\<close> by a first message is pruned,
  with all its threads, once \<open>t0\<close> is further back than the idle time, however many messages the
  user has sent in that conversation in between, and however recently.
\<close>

theorem active_session_pruned:
  assumes "hm_get (sm_sessions m) u = None" and "free u" and "t0 < now - secs idle"
  shows "hm_get (sm_sessions (snd (prune_stale_sessions free free' now idle
      (fold (user_message parse_uuid u ch ext) ((t0, sid, fresh, inp) # later) m)))) u = None"
proof -
  let ?key = "thread_key_of u ch ext"
  obtain i m1 where r: "resolve_thread_with_parsed_uuid parse_uuid t0 sid fresh u ch ext None m = (i, m1)"
    by (cases "resolve_thread_with_parsed_uuid parse_uuid t0 sid fresh u ch ext None m")
  let ?m0 = "user_message parse_uuid u ch ext (t0, sid, fresh, inp) m"
  have m0: "?m0 = on_session_thread u i (start_turn t0 inp) m1"
    by (simp add: user_message_def resolve_thread_def r)
  have op: "key_open m1 ?key i" using r by (rule resolve_opens)
  have new: "hm_get (ss_threads (session_new t0 sid u)) j = None" for j
    by (simp add: session_new_def hm.get_empty)
  have "\<exists>s. hm_get (sm_sessions m1) u = Some s \<and> ss_last_active_at s = t0"
    using r assms(1) new
    by (auto simp: resolve_thread_with_parsed_uuid_def get_or_create_session_def lookup_key_def adopt_thread_def
        create_mapped_thread_def create_thread_def create_thread_with_id_def hm_get_insert Let_def
        split: option.splits if_splits)
  then have "key_open ?m0 ?key i" "\<exists>s. hm_get (sm_sessions ?m0) u = Some s \<and> ss_last_active_at s = t0"
    using op by (auto simp: m0 on_session_thread_def key_open_def hm_get_modify)
  then have "\<exists>s. hm_get (sm_sessions (fold (user_message parse_uuid u ch ext) later ?m0)) u = Some s
      \<and> ss_last_active_at s = t0"
    using user_messages_keep by fastforce
  then show ?thesis using prune_removes assms(2,3) by fastforce
qed

lemma active_session_pruned_witness:
  "hm_get (sm_sessions (snd (prune_stale_sessions (\<lambda>_. True) (\<lambda>_. True) (secs 101) 100
      (fold (user_message (\<lambda>_. None) ''ann'' ''cli'' None)
        [(0, 1, 2, ''hi''), (secs 50, 3, 4, ''and''), (secs 100, 5, 6, ''now'')] session_manager_new)))) ''ann'' = None"
  by (rule active_session_pruned) (simp_all add: session_manager_new_def hm.get_empty secs_def)

lemma resolve_no_external:
  assumes "get_or_create_session now sid u m = (s, m')" and "lookup_key m' s (thread_key_of u ch None) = None"
  shows "\<exists>m1. resolve_thread parse_uuid now sid fresh u ch None m = (fresh, m1)
     \<and> sm_sessions m1 = hm_insert (sm_sessions m') u (snd (create_thread now fresh (Some ch) s))"
  using assms
  by (simp add: resolve_thread_def resolve_thread_with_parsed_uuid_def adoptable_uuid_def adopt_thread_def
      external_uuid_def create_mapped_thread_def create_thread_def Let_def)

text \<open>
  A resolution that runs between the removal of a stale session and the cleaning of the thread
  map loses its key: the message goes to a new session and thread, the cleaning then drops the key
  just made, and the next message of the same conversation gets yet another thread although the
  first is still in the session.
\<close>

theorem prune_race_splits_conversation:
  "let m1 = snd (prune_sessions [u] m);
             (i1, m2) = resolve_thread parse_uuid t1 sid1 fresh1 u ch None m1;
             m3 = prune_thread_map [u] m2;
             (i2, m4) = resolve_thread parse_uuid t2 sid2 fresh2 u ch None m3
         in i1 = fresh1 \<and> i2 = fresh2
            \<and> (\<exists>s. hm_get (sm_sessions m4) u = Some s \<and> hm_get (ss_threads s) i1 \<noteq> None
                   \<and> hm_get (ss_threads s) i2 \<noteq> None)"
proof -
  let ?key = "thread_key_of u ch None"
  define m1 where "m1 = snd (prune_sessions [u] m)"
  define s0 where "s0 = session_new t1 sid1 u"
  define s1 where "s1 = snd (create_thread t1 fresh1 (Some ch) s0)"
  define m2 where "m2 = snd (resolve_thread parse_uuid t1 sid1 fresh1 u ch None m1)"
  define m3 where "m3 = prune_thread_map [u] m2"
  have gone: "hm_get (sm_sessions m1) u = None"
    by (simp add: m1_def prune_sessions_def hm_get_remove Let_def)
  then have g: "get_or_create_session t1 sid1 u m1 = (s0, m1\<lparr>sm_sessions := hm_insert (sm_sessions m1) u s0\<rparr>)"
    by (simp add: get_or_create_session_def s0_def Let_def)
  have "lookup_key m' s0 ?key = None" for m'
    by (simp add: lookup_key_def s0_def session_new_def hm.get_empty split: option.split)
  from resolve_no_external [OF g this, where parse_uuid = parse_uuid and fresh = fresh1]
  have r1: "resolve_thread parse_uuid t1 sid1 fresh1 u ch None m1 = (fresh1, m2)"
    and s1: "hm_get (sm_sessions m2) u = Some s1"
    unfolding m2_def s1_def by (auto simp: hm_get_insert)
  have m3: "hm_get (sm_sessions m3) u = Some s1" "hm_get (sm_thread_map m3) ?key = None"
    using s1 by (auto simp: m3_def prune_thread_map_def hm_get_None_iff hm_retain_def)
  have g2: "get_or_create_session t2 sid2 u m3 = (s1, m3)" using m3(1) by (simp add: get_or_create_session_def)
  have "lookup_key m3 s1 ?key = None" using m3(2) by (simp add: lookup_key_def)
  from resolve_no_external [OF g2 this, where parse_uuid = parse_uuid and fresh = fresh2] obtain m4 where r2: "resolve_thread parse_uuid t2 sid2 fresh2 u ch None m3 = (fresh2, m4)"
      "hm_get (sm_sessions m4) u = Some (snd (create_thread t2 fresh2 (Some ch) s1))"
    by (auto simp: hm_get_insert)
  have "hm_get (ss_threads s1) fresh1 \<noteq> None"
    unfolding s1_def using create_thread_has [of t1 fresh1 "Some ch" s0] by (simp add: create_thread_def)
  from create_thread_keeps(1) [OF this] create_thread_has [of t2 fresh2 "Some ch" s1]
  have "hm_get (ss_threads (snd (create_thread t2 fresh2 (Some ch) s1))) fresh1 \<noteq> None"
    "hm_get (ss_threads (snd (create_thread t2 fresh2 (Some ch) s1))) fresh2 \<noteq> None"
    by (simp_all add: create_thread_def)
  then show ?thesis using r1 r2 by (simp add: m1_def [symmetric] m3_def [symmetric])
qed

end
