(* ===== verification/Identity.thy ===== *)
theory Identity
  imports Text
begin

text \<open>
  Validated names (\<open>crates/t3claw_common/src/identity.rs\<close>): the rule shared by credential and
  extension names, their legacy alias, and external thread identifiers. The newtypes are the
  strings their validated constructors accept; a name that was deserialized or made by
  \<open>from_trusted\<close> has not passed the rule.
\<close>

definition MAX_NAME_LEN :: nat where "MAX_NAME_LEN = 64"

datatype identity_error = IdentityEmpty | IdentityTooLong string | IdentityPathTraversal string
  | IdentityInvalidChar string | IdentityEdgeUnderscore string | IdentityConsecutiveUnderscores string

text \<open>\<open>is_ascii_lowercase() || is_ascii_digit() || '_'\<close>.\<close>

definition is_name_char :: "char \<Rightarrow> bool" where
  "is_name_char c = (let n = (of_char c :: nat) in (97 \<le> n \<and> n \<le> 122) \<or> (48 \<le> n \<and> n \<le> 57) \<or> c = CHR ''_'')"

fun scan_name :: "string \<Rightarrow> bool \<Rightarrow> string \<Rightarrow> identity_error + string" where
  "scan_name canonical prev_underscore [] = Ok canonical"
| "scan_name canonical prev_underscore (ch # cs) =
     (if \<not> is_name_char ch then Err (IdentityInvalidChar canonical)
      else if ch = CHR ''_'' then
        if prev_underscore then Err (IdentityConsecutiveUnderscores canonical)
        else scan_name canonical True cs
      else scan_name canonical False cs)"

definition canonicalize_name :: "string \<Rightarrow> identity_error + string" where
  "canonicalize_name raw =
     (let trimmed = trim raw
      in if trimmed = [] then Err IdentityEmpty
         else if byte_len trimmed > MAX_NAME_LEN then Err (IdentityTooLong trimmed)
         else if CHR ''/'' \<in> set trimmed \<or> CHR 0x5C \<in> set trimmed \<or> contains_str trimmed ''..''
              \<or> CHR 0x00 \<in> set trimmed
         then Err (IdentityPathTraversal trimmed)
         else
           let canonical = str_replace CHR ''-'' CHR ''_'' trimmed
           in if hd canonical = CHR ''_'' \<or> last canonical = CHR ''_'' then Err (IdentityEdgeUnderscore canonical)
              else scan_name canonical False canonical)"

definition legacy_alias :: "string \<Rightarrow> string option" where
  "legacy_alias name =
     (let a = str_replace CHR ''_'' CHR ''-'' name in if a \<noteq> name then Some a else None)"

definition MAX_EXTERNAL_THREAD_ID_LEN :: nat where "MAX_EXTERNAL_THREAD_ID_LEN = 512"

datatype external_thread_id_error = ExternalIdEmpty | ExternalIdTooLong | ExternalIdContainsNul

definition validate_external_thread_id :: "string \<Rightarrow> external_thread_id_error + string" where
  "validate_external_thread_id s =
     (if s = [] then Err ExternalIdEmpty
      else if byte_len s > MAX_EXTERNAL_THREAD_ID_LEN then Err ExternalIdTooLong
      else if CHR 0x00 \<in> set s then Err ExternalIdContainsNul
      else Ok s)"

section \<open>The grammar of names\<close>

definition valid_name :: "string \<Rightarrow> bool" where
  "valid_name c = (c \<noteq> [] \<and> length c \<le> 64 \<and> list_all is_name_char c
     \<and> hd c \<noteq> CHR ''_'' \<and> last c \<noteq> CHR ''_'' \<and> \<not> contains_str c ''__'')"

lemma contains_double:
  "contains_str (x # y # s) [a, a] \<longleftrightarrow> (x = a \<and> y = a) \<or> contains_str (y # s) [a, a]"
  by (auto simp: starts_with_def)

lemma scan_name_iff:
  "scan_name c p s = Ok r \<longleftrightarrow> r = c \<and> list_all is_name_char s
     \<and> \<not> contains_str (if p then CHR ''_'' # s else s) ''__''"
proof (induction c p s rule: scan_name.induct)
  case (2 c p ch cs)
  then show ?case by (cases cs) (auto simp: starts_with_def)
qed (auto simp: starts_with_def)

lemma name_char_ascii: "is_name_char c \<Longrightarrow> (of_char c :: nat) < 128 \<and> \<not> is_space c
    \<and> c \<noteq> CHR ''-'' \<and> c \<noteq> CHR ''/'' \<and> c \<noteq> CHR 0x5C \<and> c \<noteq> CHR ''.'' \<and> c \<noteq> CHR 0x00"
  by (auto simp: is_name_char_def is_space_def Let_def)

lemma replaced_ascii:
  assumes "list_all is_name_char (str_replace CHR ''-'' CHR ''_'' t)" and "c \<in> set t"
  shows "is_name_char c \<or> c = CHR ''-''"
  using assms by (auto simp: str_replace_def list_all_iff split: if_splits)

lemma not_contains_dots:
  assumes "CHR ''.'' \<notin> set t"
  shows "\<not> contains_str t ''..''"
  using assms by (auto simp: contains_str_iff)

text \<open>
  C29. The names that pass validation are exactly the non-empty strings of at most 64 lower-case
  letters, digits and single inner underscores; validating answers the trimmed text with its
  hyphens turned into underscores, exactly when that is such a name, and leaves a valid name as it
  is.
\<close>

theorem canonicalize_name_type:
  "(canonicalize_name raw = Ok c \<longleftrightarrow> c = str_replace CHR ''-'' CHR ''_'' (trim raw) \<and> valid_name c)
     \<and> (valid_name c \<longrightarrow> canonicalize_name c = Ok c)"
proof -
  have main: "canonicalize_name raw = Ok c \<longleftrightarrow> c = str_replace CHR ''-'' CHR ''_'' (trim raw) \<and> valid_name c" for raw c
  proof -
    let ?t = "trim raw"
    let ?c = "str_replace CHR ''-'' CHR ''_'' ?t"
    have clean: "byte_len ?t = length ?t \<and> CHR ''/'' \<notin> set ?t \<and> CHR 0x5C \<notin> set ?t
        \<and> \<not> contains_str ?t ''..'' \<and> CHR 0x00 \<notin> set ?t" if v: "list_all is_name_char ?c"
    proof -
      have "is_name_char x \<or> x = CHR ''-''" if "x \<in> set ?t" for x using replaced_ascii [OF v that] .
      then have *: "(of_char x :: nat) < 128 \<and> x \<noteq> CHR ''/'' \<and> x \<noteq> CHR 0x5C \<and> x \<noteq> CHR ''.'' \<and> x \<noteq> CHR 0x00"
        if "x \<in> set ?t" for x using name_char_ascii that by fastforce
      then show ?thesis using byte_len_ascii [of ?t] not_contains_dots [of ?t] by blast
    qed
    have len: "length ?c = length ?t" "(?c = []) = (?t = [])" by (simp_all add: str_replace_def)
    show ?thesis
    proof (cases "list_all is_name_char ?c")
      case True
      have iff: "scan_name ?c False ?c = Ok c \<longleftrightarrow> c = ?c \<and> \<not> contains_str ?c ''__''"
        using True by (simp add: scan_name_iff)
      have "\<not> byte_len ?t > MAX_NAME_LEN \<longleftrightarrow> length ?c \<le> 64" using clean [OF True] len by (simp add: MAX_NAME_LEN_def not_less)
      with iff clean [OF True] len True show ?thesis
        by (cases "?t = []"; cases "length ?c \<le> 64") (auto simp: canonicalize_name_def valid_name_def Let_def)
    next
      case False
      then show ?thesis by (auto simp: canonicalize_name_def valid_name_def scan_name_iff Let_def)
    qed
  qed
  have fix_point: "canonicalize_name d = Ok d" if d: "valid_name d" for d
  proof -
    have ok: "is_name_char x" if "x \<in> set d" for x using d that by (simp add: valid_name_def list_all_iff)
    have "d \<noteq> []" using d by (simp add: valid_name_def)
    then have "is_name_char (hd d)" "is_name_char (last d)" by (simp_all add: ok)
    then have "trim d = d" using name_char_ascii by (intro trim_id) blast
    moreover have "str_replace CHR ''-'' CHR ''_'' d = d"
      unfolding str_replace_def by (rule map_idI) (use ok name_char_ascii in auto)
    ultimately show ?thesis using d by (simp add: main)
  qed
  show ?thesis using main fix_point by blast
qed

lemma canonicalize_name_type_witness:
  "canonicalize_name ''google_calendar'' = Ok ''google_calendar''"
proof -
  have "valid_name ''google_calendar''" by code_simp
  then show ?thesis using canonicalize_name_type by blast
qed

end
