(* ===== verification/Tool_Permissions.thy ===== *)
theory Tool_Permissions
  imports Llm_Message
begin

text \<open>
  Which tools the model is shown: the per-user permission states and the admin tool policy
  (\<open>src/tools/permissions.rs\<close>), and the attenuation by the trust of the active skills
  (\<open>src/skills/attenuation.rs\<close>, with the trust levels of \<open>crates/t3claw_skills/src/types.rs\<close>).
  Reading the policy from the database and its JSON form are parameters.
\<close>

section \<open>Permission states\<close>

datatype permission_state = AlwaysAllow | AskEachTime | Disabled

definition ALWAYS_ALLOW_DEFAULTS :: "string list" where
  "ALWAYS_ALLOW_DEFAULTS =
     [''echo'', ''time'', ''json'', ''memory_search'', ''memory_read'', ''memory_write'', ''memory_tree'',
      ''tool_list'', ''tool_info'', ''tool_search'', ''skill_list'', ''skill_search'', ''list_jobs'',
      ''job_status'', ''job_events'', ''image_analyze'', ''message'']"

definition ASK_EACH_TIME_DEFAULTS :: "string list" where
  "ASK_EACH_TIME_DEFAULTS =
     [''shell'', ''read_file'', ''write_file'', ''list_dir'', ''apply_patch'', ''http'', ''create_job'',
      ''event_emit'', ''routine_create'', ''routine_update'', ''cancel_job'', ''job_prompt'', ''routine_delete'',
      ''routine_fire'', ''tool_install'', ''tool_auth'', ''tool_activate'', ''tool_remove'', ''tool_upgrade'',
      ''skill_install'', ''skill_remove'', ''secret_list'', ''secret_delete'', ''image_generate'', ''image_edit'',
      ''restart'', ''build_software'', ''tool_permission_set'']"

definition TOOL_RISK_DEFAULTS :: "(string, permission_state) hmap" where
  "TOOL_RISK_DEFAULTS =
     fold (\<lambda>n m. hm_insert m n AskEachTime) ASK_EACH_TIME_DEFAULTS
       (fold (\<lambda>n m. hm_insert m n AlwaysAllow) ALWAYS_ALLOW_DEFAULTS [])"

definition effective_permission :: "string \<Rightarrow> (string, permission_state) hmap \<Rightarrow> permission_state" where
  "effective_permission tool_name overrides =
     (case hm_get overrides tool_name of
        Some st \<Rightarrow> st
      | None \<Rightarrow> (case hm_get TOOL_RISK_DEFAULTS tool_name of Some st \<Rightarrow> st | None \<Rightarrow> AskEachTime))"

section \<open>The admin tool policy\<close>

definition ADMIN_SETTINGS_USER_ID :: string where "ADMIN_SETTINGS_USER_ID = ''__admin__''"
definition ADMIN_TOOL_POLICY_KEY :: string where "ADMIN_TOOL_POLICY_KEY = ''admin_tool_policy''"
definition ADMIN_TOOL_POLICY_MAX_BYTES :: nat where "ADMIN_TOOL_POLICY_MAX_BYTES = 32 * 1024"
definition ADMIN_TOOL_POLICY_MAX_GLOBAL_ENTRIES :: nat where "ADMIN_TOOL_POLICY_MAX_GLOBAL_ENTRIES = 1000"
definition ADMIN_TOOL_POLICY_MAX_USER_KEYS :: nat where "ADMIN_TOOL_POLICY_MAX_USER_KEYS = 1000"
definition ADMIN_TOOL_POLICY_MAX_PER_USER_ENTRIES :: nat where "ADMIN_TOOL_POLICY_MAX_PER_USER_ENTRIES = 1000"
definition ADMIN_TOOL_NAME_MAX_LEN :: nat where "ADMIN_TOOL_NAME_MAX_LEN = 128"
definition ADMIN_POLICY_USER_KEY_MAX_LEN :: nat where "ADMIN_POLICY_USER_KEY_MAX_LEN = 256"

record admin_tool_policy =
  ap_disabled_tools :: "string list"
  ap_user_disabled_tools :: "(string, string list) hmap"

definition is_tool_disabled :: "admin_tool_policy \<Rightarrow> string \<Rightarrow> string \<Rightarrow> bool" where
  "is_tool_disabled p tool_name user_id =
     (if tool_name \<in> set (ap_disabled_tools p) then True
      else (case hm_get (ap_user_disabled_tools p) user_id of
              Some user_tools \<Rightarrow> tool_name \<in> set user_tools
            | None \<Rightarrow> False))"

definition admin_policy_is_empty :: "admin_tool_policy \<Rightarrow> bool" where
  "admin_policy_is_empty p = (ap_disabled_tools p = [] \<and> ap_user_disabled_tools p = [])"

datatype admin_tool_policy_state = PolicyMissing | PolicyLoaded admin_tool_policy | PolicyFailClosed

definition is_lower_or_digit :: "char \<Rightarrow> bool" where
  "is_lower_or_digit c = (let n = (of_char c :: nat) in (97 \<le> n \<and> n \<le> 122) \<or> (48 \<le> n \<and> n \<le> 57))"

definition is_ascii_alphanumeric :: "char \<Rightarrow> bool" where
  "is_ascii_alphanumeric c = (let n = (of_char c :: nat) in is_lower_or_digit c \<or> (65 \<le> n \<and> n \<le> 90))"

definition is_valid_admin_tool_name :: "string \<Rightarrow> bool" where
  "is_valid_admin_tool_name name =
     (name \<noteq> [] \<and> byte_len name \<le> ADMIN_TOOL_NAME_MAX_LEN
      \<and> list_all (\<lambda>b. is_lower_or_digit b \<or> b = CHR ''_'' \<or> b = CHR ''-'') name)"

definition is_valid_admin_policy_user_key :: "string \<Rightarrow> bool" where
  "is_valid_admin_policy_user_key user_id =
     (user_id \<noteq> [] \<and> byte_len user_id \<le> ADMIN_POLICY_USER_KEY_MAX_LEN
      \<and> list_all (\<lambda>b. is_ascii_alphanumeric b \<or> b = CHR ''_'' \<or> b = CHR ''-'') user_id)"

fun validate_tool_names :: "(string \<Rightarrow> string) \<Rightarrow> string list \<Rightarrow> string option" where
  "validate_tool_names msg [] = None"
| "validate_tool_names msg (n # ns) =
     (if \<not> is_valid_admin_tool_name n then Some (msg n) else validate_tool_names msg ns)"

fun validate_user_entries :: "(string, string list) hmap \<Rightarrow> string option" where
  "validate_user_entries [] = None"
| "validate_user_entries ((user_id, tools) # rest) =
     (if \<not> is_valid_admin_policy_user_key user_id then Some (''Invalid user_id: '' @ [CHR 0x27] @ user_id @ [CHR 0x27])
      else if length tools > ADMIN_TOOL_POLICY_MAX_PER_USER_ENTRIES
      then Some (''user '' @ [CHR 0x27] @ user_id @ [CHR 0x27] @ '' has '' @ show_nat (length tools)
             @ '' disabled tools, maximum is '' @ show_nat ADMIN_TOOL_POLICY_MAX_PER_USER_ENTRIES)
      else (case validate_tool_names (\<lambda>n. ''Invalid tool name for user '' @ [CHR 0x27] @ user_id @ [CHR 0x27]
                   @ '': '' @ [CHR 0x27] @ n @ [CHR 0x27]) tools of
              Some e \<Rightarrow> Some e
            | None \<Rightarrow> validate_user_entries rest))"

definition validate_admin_tool_policy :: "(admin_tool_policy \<Rightarrow> nat) \<Rightarrow> admin_tool_policy \<Rightarrow> string + unit" where
  "validate_admin_tool_policy serialized_len p =
     (if length (ap_disabled_tools p) > ADMIN_TOOL_POLICY_MAX_GLOBAL_ENTRIES
      then Err (''disabled_tools has '' @ show_nat (length (ap_disabled_tools p)) @ '' entries, maximum is ''
             @ show_nat ADMIN_TOOL_POLICY_MAX_GLOBAL_ENTRIES)
      else if length (ap_user_disabled_tools p) > ADMIN_TOOL_POLICY_MAX_USER_KEYS
      then Err (''user_disabled_tools has '' @ show_nat (length (ap_user_disabled_tools p)) @ '' user keys, maximum is ''
             @ show_nat ADMIN_TOOL_POLICY_MAX_USER_KEYS)
      else (case validate_tool_names (\<lambda>n. ''Invalid tool name: '' @ [CHR 0x27] @ n @ [CHR 0x27]) (ap_disabled_tools p) of
              Some e \<Rightarrow> Err e
            | None \<Rightarrow>
                (case validate_user_entries (ap_user_disabled_tools p) of
                   Some e \<Rightarrow> Err e
                 | None \<Rightarrow>
                     if serialized_len p > ADMIN_TOOL_POLICY_MAX_BYTES
                     then Err (''Admin tool policy exceeds the maximum size of ''
                            @ show_nat ADMIN_TOOL_POLICY_MAX_BYTES @ '' bytes'')
                     else Ok ())))"

text \<open>
  \<open>db\<close> is the database, if there is one, as the result of the lookup; the once-cell keeps the
  first answer of a loop, so the state is an argument of the filter.
\<close>

definition load_admin_tool_policy ::
  "(json \<Rightarrow> admin_tool_policy option) \<Rightarrow> ('e + json option) option \<Rightarrow> admin_tool_policy_state" where
  "load_admin_tool_policy from_value db =
     (case db of
        None \<Rightarrow> PolicyMissing
      | Some (Inr (Some v)) \<Rightarrow>
          (case from_value v of Some p \<Rightarrow> PolicyLoaded p | None \<Rightarrow> PolicyFailClosed)
      | Some (Inr None) \<Rightarrow> PolicyMissing
      | Some (Inl e) \<Rightarrow> PolicyFailClosed)"

definition filter_admin_disabled_tools ::
  "tool_definition list \<Rightarrow> bool \<Rightarrow> bool \<Rightarrow> string \<Rightarrow> admin_tool_policy_state \<Rightarrow> tool_definition list" where
  "filter_admin_disabled_tools tool_defs multi_tenant is_admin user_id policy_state =
     (if \<not> multi_tenant \<or> is_admin then tool_defs
      else (case policy_state of
              PolicyMissing \<Rightarrow> tool_defs
            | PolicyFailClosed \<Rightarrow> []
            | PolicyLoaded p \<Rightarrow>
                if admin_policy_is_empty p then tool_defs
                else
                  let user_disabled = (case hm_get (ap_user_disabled_tools p) user_id of Some ts \<Rightarrow> ts | None \<Rightarrow> [])
                  in filter (\<lambda>d. \<not> (td_name d \<in> set (ap_disabled_tools p) \<or> td_name d \<in> set user_disabled)) tool_defs))"

section \<open>Skill trust\<close>

datatype skill_trust = Installed | Trusted

text \<open>The derived order: \<open>Installed < Trusted\<close>.\<close>

instantiation skill_trust :: linorder
begin

definition less_eq_skill_trust :: "skill_trust \<Rightarrow> skill_trust \<Rightarrow> bool" where
  "less_eq_skill_trust a b = (a = Installed \<or> b = Trusted)"

definition less_skill_trust :: "skill_trust \<Rightarrow> skill_trust \<Rightarrow> bool" where
  "less_skill_trust a b = (a = Installed \<and> b = Trusted)"

instance
proof
  fix a b c :: skill_trust
  show "(a < b) = (a \<le> b \<and> \<not> b \<le> a)" by (cases a; cases b) (simp_all add: less_eq_skill_trust_def less_skill_trust_def)
  show "a \<le> a" by (cases a) (simp_all add: less_eq_skill_trust_def)
  show "a \<le> b \<Longrightarrow> b \<le> c \<Longrightarrow> a \<le> c" by (cases a; cases b; cases c) (simp_all add: less_eq_skill_trust_def)
  show "a \<le> b \<Longrightarrow> b \<le> a \<Longrightarrow> a = b" by (cases a; cases b) (simp_all add: less_eq_skill_trust_def)
  show "a \<le> b \<or> b \<le> a" by (cases a; cases b) (simp_all add: less_eq_skill_trust_def)
qed

end

definition READ_ONLY_TOOLS :: "string list" where
  "READ_ONLY_TOOLS =
     [''memory_search'', ''memory_read'', ''memory_tree'', ''time'', ''echo'', ''json'', ''skill_list'', ''skill_search'']"

record attenuation_result =
  at_tools :: "tool_definition list"
  at_min_trust :: skill_trust
  at_explanation :: string
  at_removed_tools :: "string list"

text \<open>\<open>iter().map(|s| s.trust).min()\<close>.\<close>

definition min_trust :: "skill_trust list \<Rightarrow> skill_trust option" where
  "min_trust trusts = (case trusts of [] \<Rightarrow> None | t # ts \<Rightarrow> Some (fold min ts t))"

definition attenuate_tools :: "tool_definition list \<Rightarrow> skill_trust list \<Rightarrow> attenuation_result" where
  "attenuate_tools tools trusts =
     (if trusts = [] then
        \<lparr>at_tools = tools, at_min_trust = Trusted, at_explanation = ''No skills active, all tools available'',
         at_removed_tools = []\<rparr>
      else
        (case (case min_trust trusts of Some t \<Rightarrow> t | None \<Rightarrow> Trusted) of
           Trusted \<Rightarrow>
             \<lparr>at_tools = tools, at_min_trust = Trusted,
              at_explanation = ''All active skills are trusted (full trust), all tools available'',
              at_removed_tools = []\<rparr>
         | Installed \<Rightarrow>
             let kept = filter (\<lambda>t. td_name t \<in> set READ_ONLY_TOOLS) tools;
                 removed = map td_name (filter (\<lambda>t. td_name t \<notin> set READ_ONLY_TOOLS) tools)
             in \<lparr>at_tools = kept, at_min_trust = Installed,
                 at_explanation = ''Installed skill present: restricted to read-only tools, removed ''
                    @ show_nat (length removed) @ '' tool(s): '' @ join '', '' removed,
                 at_removed_tools = removed\<rparr>))"

section \<open>Lemmas\<close>

lemma fold_min_Installed: "fold min ts t = Installed \<longleftrightarrow> Installed \<in> set (t # ts)"
proof (induction ts arbitrary: t)
  case (Cons u ts)
  have "min u t = Installed \<longleftrightarrow> u = Installed \<or> t = Installed"
    by (cases u; cases t) (simp_all add: min_def less_eq_skill_trust_def)
  with Cons.IH show ?case by simp metis
qed auto

lemma fold_min_Trusted: "fold min ts t = Trusted \<longleftrightarrow> Installed \<notin> set (t # ts)"
  using fold_min_Installed [of ts t] by (cases "fold min ts t") auto

lemma attenuate_installed:
  "Installed \<in> set trusts \<Longrightarrow> at_tools (attenuate_tools tools trusts) = filter (\<lambda>t. td_name t \<in> set READ_ONLY_TOOLS) tools"
  by (cases trusts) (auto simp: attenuate_tools_def min_trust_def fold_min_Installed fold_min_Trusted Let_def split: skill_trust.split)

lemma attenuate_trusted:
  "Installed \<notin> set trusts \<Longrightarrow> at_tools (attenuate_tools tools trusts) = tools"
  by (cases trusts) (auto simp: attenuate_tools_def min_trust_def fold_min_Installed fold_min_Trusted Let_def split: skill_trust.split)

text \<open>
  The admin filter and the policy's own test agree: for a user who is not an admin of a
  multi-tenant system with a loaded policy, what is left are the tools the policy does not disable.
\<close>

lemma admin_filter_agrees:
  "filter_admin_disabled_tools defs True False user (PolicyLoaded p)
     = filter (\<lambda>d. \<not> is_tool_disabled p (td_name d) user) defs"
  by (auto simp: filter_admin_disabled_tools_def is_tool_disabled_def admin_policy_is_empty_def hm.get_empty Let_def
      intro!: filter_cong split: option.split)

lemma validate_tool_names_None:
  "validate_tool_names msg ns = None \<longleftrightarrow> list_all is_valid_admin_tool_name ns"
  by (induction msg ns rule: validate_tool_names.induct) auto

lemma validate_tool_names_Some:
  "validate_tool_names msg ns = Some e \<Longrightarrow> \<not> list_all is_valid_admin_tool_name ns"
  using validate_tool_names_None [of msg ns] by auto

lemma validate_user_entries_None:
  "validate_user_entries es = None \<longleftrightarrow>
     list_all (\<lambda>(u, ts). is_valid_admin_policy_user_key u \<and> length ts \<le> 1000 \<and> list_all is_valid_admin_tool_name ts) es"
  by (induction es rule: validate_user_entries.induct)
    (auto simp: validate_tool_names_None ADMIN_TOOL_POLICY_MAX_PER_USER_ENTRIES_def dest: validate_tool_names_Some
      split: option.splits)

end
