(* ===== verification/Chat_Tools.thy ===== *)
theory Chat_Tools
  imports Session Hooks Tool_Registry Identity Agentic_Loop
begin

text \<open>
  How the chat agent executes a batch of tool calls (\<open>execute_tool_calls\<close> of
  \<open>src/agent/dispatcher.rs\<close>): hooks and approval are checked call by call up to the first call that
  needs an approval, the runnable calls are executed, and every result is recorded in the turn and
  in the conversation. The safety layer (\<open>sanitize\<close>, \<open>wrap\<close>), the execution of one tool with its
  timeout and validation (\<open>exec\<close>), the JSON library and the description of a tool are parameters
  of the environment; the calls of a batch run in parallel and do not depend on each other.
  Status messages to the channel are not part of the state.
\<close>

record chat_env =
  ce_thread_id :: uuid
  ce_registry :: tool_registry
  ce_hooks :: hook_registry
  ce_auto_approve_tools :: bool
  ce_channel :: string
  ce_event_type :: "string option"
  ce_user_id :: string
  ce_user_tz :: string
  ce_request_id :: uuid
  ce_now :: time
  ce_show_duration :: "time \<Rightarrow> string"
  ce_to_str :: "json \<Rightarrow> string"
  ce_from_str :: "string \<Rightarrow> json option"
  ce_describe :: "tool \<Rightarrow> string"
  ce_sanitize :: "string \<Rightarrow> string \<Rightarrow> string"
  ce_wrap :: "string \<Rightarrow> string \<Rightarrow> string"
  ce_exec :: "tool_call \<Rightarrow> string + string"

record chat_state =
  cd_session :: session
  cd_output_stash :: "(string, string) hmap"

section \<open>Preflight\<close>

datatype preflight_outcome = PreRejected string | PreRunnable

text \<open>The values of sensitive parameters, which the hooks do not see, are put back.\<close>

fun restore_sensitive :: "json \<Rightarrow> string list \<Rightarrow> (string \<times> json) list \<Rightarrow> (string \<times> json) list" where
  "restore_sensitive orig [] obj = obj"
| "restore_sensitive orig (key # keys) obj =
     restore_sensitive orig keys (case json_get orig key of Some v \<Rightarrow> hm_insert obj key v | None \<Rightarrow> obj)"

definition hook_arguments :: "json \<Rightarrow> string list \<Rightarrow> json \<Rightarrow> json" where
  "hook_arguments orig sensitive parsed =
     (case parsed of JObject obj \<Rightarrow> JObject (restore_sensitive orig sensitive obj) | v \<Rightarrow> v)"

definition sensitive_of :: "chat_env \<Rightarrow> string \<Rightarrow> string list" where
  "sensitive_of E name = (case get_tool (ce_registry E) name of Some t \<Rightarrow> tl_sensitive_params t | None \<Rightarrow> [])"

definition before_tool_call :: "chat_env \<Rightarrow> tool_call \<Rightarrow> string + tool_call" where
  "before_tool_call E tc =
     (let sensitive = sensitive_of E (tc_name tc);
          ev = ToolCall (tc_name tc) (redact_params (tc_arguments tc) sensitive) (ce_user_id E) ''chat''
      in case run_hooks (ce_show_duration E) (ce_to_str E) (ce_from_str E) (ce_hooks E) ev of
           Inl (Rejected reason) \<Rightarrow> Err (''Tool call rejected by hook: '' @ reason)
         | Inl err \<Rightarrow> Err (''Tool call blocked by hook policy: '' @ hook_error_display (ce_show_duration E) err)
         | Inr (Continue (Some new_params)) \<Rightarrow>
             (case ce_from_str E new_params of
                Some parsed \<Rightarrow> Ok (tc\<lparr>tc_arguments := hook_arguments (tc_arguments tc) sensitive parsed\<rparr>)
              | None \<Rightarrow> Ok tc)
         | Inr _ \<Rightarrow> Ok tc)"

text \<open>The tool that needs an approval, with \<open>allow_always\<close>.\<close>

definition needs_approval :: "tool_registry \<Rightarrow> bool \<Rightarrow> session \<Rightarrow> tool_call \<Rightarrow> (tool \<times> bool) option" where
  "needs_approval reg auto_approve s tc =
     (if auto_approve then None
      else (case get_tool reg (tc_name tc) of
              None \<Rightarrow> None
            | Some t \<Rightarrow>
                (case tl_requires_approval t (tc_arguments tc) of
                   NeverApprove \<Rightarrow> None
                 | UnlessAutoApproved \<Rightarrow> if is_tool_auto_approved (tc_name tc) s then None else Some (t, True)
                 | AlwaysApprove \<Rightarrow> Some (t, False))))"

definition is_shared_relay :: "chat_env \<Rightarrow> bool" where
  "is_shared_relay E = (ends_with (ce_channel E) ''-relay'' \<and> ce_event_type E \<noteq> Some ''direct_message'')"

definition relay_rejection :: "string \<Rightarrow> string" where
  "relay_rejection name = ''Tool '' @ [CHR 0x27] @ name @ [CHR 0x27]
     @ '' requires approval and cannot run in shared channels. ''
     @ ''Ask the user to message me directly (DM) to use this tool.''"

type_synonym approval_stop = "(nat \<times> tool_call \<times> tool \<times> bool) option"

fun preflight ::
  "chat_env \<Rightarrow> session \<Rightarrow> nat \<Rightarrow> tool_call list \<Rightarrow> (tool_call \<times> preflight_outcome) list \<times> approval_stop" where
  "preflight E s idx [] = ([], None)"
| "preflight E s idx (orig # rest) =
     (case before_tool_call E orig of
        Inl msg \<Rightarrow> let r = preflight E s (Suc idx) rest in ((orig, PreRejected msg) # fst r, snd r)
      | Inr tc \<Rightarrow>
          (case needs_approval (ce_registry E) (ce_auto_approve_tools E) s tc of
             None \<Rightarrow> let r = preflight E s (Suc idx) rest in ((tc, PreRunnable) # fst r, snd r)
           | Some (t, allow_always) \<Rightarrow>
               if is_shared_relay E
               then let r = preflight E s (Suc idx) rest
                    in ((tc, PreRejected (relay_rejection (tc_name tc))) # fst r, snd r)
               else ([], Some (idx, tc, t, allow_always))))"

section \<open>Results\<close>

definition process_tool_result ::
  "chat_env \<Rightarrow> string \<Rightarrow> string \<Rightarrow> string + string \<Rightarrow> string \<times> chat_message" where
  "process_tool_result E name call_id result =
     (let raw = (case result of
                   Inr output \<Rightarrow> output
                 | Inl e \<Rightarrow> ''Tool '' @ [CHR 0x27] @ name @ [CHR 0x27] @ '' failed: '' @ e);
          content = ce_wrap E name (ce_sanitize E name raw)
      in (content, tool_result call_id name content))"

definition MAX_RECORDED_IMAGE_SENTINEL_BYTES :: nat where "MAX_RECORDED_IMAGE_SENTINEL_BYTES = 512 * 1024"

definition recorded_image_sentinel_cap_label :: string where
  "recorded_image_sentinel_cap_label =
     (if MAX_RECORDED_IMAGE_SENTINEL_BYTES mod (1024 * 1024) = 0
      then show_nat (MAX_RECORDED_IMAGE_SENTINEL_BYTES div (1024 * 1024)) @ '' MiB''
      else if MAX_RECORDED_IMAGE_SENTINEL_BYTES mod 1024 = 0
      then show_nat (MAX_RECORDED_IMAGE_SENTINEL_BYTES div 1024) @ '' KiB''
      else show_nat MAX_RECORDED_IMAGE_SENTINEL_BYTES @ '' bytes'')"

text \<open>Objects of \<open>serde_json\<close> keep their keys sorted.\<close>

definition compact_value_without_data_url :: "json \<Rightarrow> json" where
  "compact_value_without_data_url v =
     JObject ([(''data_omitted'', JBool True)]
       @ (case sentinel_media_type v of Some m \<Rightarrow> [(''media_type'', JString m)] | None \<Rightarrow> [])
       @ [(''omitted_reason'', JString (''exceeded the '' @ recorded_image_sentinel_cap_label @ '' cap''))]
       @ (case json_str_field v ''path'' of Some p \<Rightarrow> if p \<noteq> [] then [(''path'', JString p)] else [] | None \<Rightarrow> [])
       @ [(''type'', JString ''image_generated'')])"

definition image_record_content :: "(json \<Rightarrow> string) \<Rightarrow> json \<Rightarrow> string" where
  "image_record_content to_str v =
     (let normalized = to_str v
      in if byte_len normalized \<le> MAX_RECORDED_IMAGE_SENTINEL_BYTES then normalized
         else to_str (compact_value_without_data_url v))"

definition sentinel_from_output :: "(string \<Rightarrow> json option) \<Rightarrow> string \<Rightarrow> json option" where
  "sentinel_from_output from_str output = Option.bind (from_str output) (sentinel_from_value from_str)"

definition image_summary_message :: "chat_env \<Rightarrow> string \<Rightarrow> string \<Rightarrow> json \<Rightarrow> chat_message" where
  "image_summary_message E name call_id v =
     (let media_type = (case sentinel_media_type v of Some m \<Rightarrow> m | None \<Rightarrow> ''image'');
          summary = ce_to_str E (JObject ([(''media_type'', JString media_type)]
              @ (case json_str_field v ''path'' of Some p \<Rightarrow> [(''path'', JString p)] | None \<Rightarrow> [])
              @ [(''status'', JString ''ok''), (''type'', JString ''image_generated'')]))
      in tool_result call_id name (ce_wrap E name (ce_sanitize E name summary)))"

text \<open>What is recorded in the turn and what is put into the conversation.\<close>

definition result_record :: "chat_env \<Rightarrow> tool_call \<Rightarrow> string + string \<Rightarrow> string \<times> chat_message" where
  "result_record E tc result =
     (case result of
        Inr output \<Rightarrow>
          (case (if tc_name tc \<in> {''image_generate'', ''image_edit''}
                 then sentinel_from_output (ce_from_str E) output else None) of
             Some sentinel \<Rightarrow>
               (image_record_content (ce_to_str E) sentinel, image_summary_message E (tc_name tc) (tc_id tc) sentinel)
           | None \<Rightarrow> process_tool_result E (tc_name tc) (tc_id tc) result)
      | Inl _ \<Rightarrow> process_tool_result E (tc_name tc) (tc_id tc) result)"

section \<open>Authentication prompts\<close>

record parsed_auth =
  pr_extension_name :: "string option"
  pr_instructions :: "string option"
  pr_auth_url :: "string option"
  pr_setup_url :: "string option"
  pr_awaiting_token :: bool

definition DEFAULT_AUTH_TOKEN_INSTRUCTIONS :: string where
  "DEFAULT_AUTH_TOKEN_INSTRUCTIONS = ''Please provide your API token/key.''"

definition normalize_extension_name :: "string option \<Rightarrow> string option" where
  "normalize_extension_name v =
     Option.bind v (\<lambda>raw. case canonicalize_name raw of Inr n \<Rightarrow> Some n | Inl _ \<Rightarrow> None)"

definition sanitize_auth_url :: "string option \<Rightarrow> string option" where
  "sanitize_auth_url url =
     (case map_option trim url of Some u \<Rightarrow> if starts_with u ''https://'' then Some u else None | None \<Rightarrow> None)"

definition auth_instructions_or_default :: "string option \<Rightarrow> string" where
  "auth_instructions_or_default instructions =
     (case instructions of Some t \<Rightarrow> t | None \<Rightarrow> DEFAULT_AUTH_TOKEN_INSTRUCTIONS)"

definition parse_auth_result :: "(string \<Rightarrow> json option) \<Rightarrow> string + string \<Rightarrow> parsed_auth" where
  "parse_auth_result from_str result =
     (let parsed = (case result of Inr t \<Rightarrow> from_str t | Inl _ \<Rightarrow> None);
          field = (\<lambda>k. Option.bind parsed (\<lambda>v. json_str_field v k))
      in \<lparr>pr_extension_name = normalize_extension_name (field ''name''), pr_instructions = field ''instructions'',
          pr_auth_url = sanitize_auth_url (field ''auth_url''), pr_setup_url = sanitize_auth_url (field ''setup_url''),
          pr_awaiting_token =
            (case Option.bind parsed (\<lambda>v. json_get v ''awaiting_token'') of Some (JBool b) \<Rightarrow> b | _ \<Rightarrow> False)\<rparr>)"

definition extract_auth_prompt :: "(string \<Rightarrow> json option) \<Rightarrow> string \<Rightarrow> string + string \<Rightarrow> parsed_auth option" where
  "extract_auth_prompt from_str name result =
     (if name \<noteq> ''tool_auth'' \<and> name \<noteq> ''tool_activate'' then None
      else
        let auth = parse_auth_result from_str result
        in if pr_extension_name auth = None then None
           else if pr_awaiting_token auth \<or> pr_auth_url auth \<noteq> None \<or> pr_setup_url auth \<noteq> None
           then Some auth else None)"

definition capture_auth_prompt ::
  "(string \<Rightarrow> json option) \<Rightarrow> string \<Rightarrow> string + string \<Rightarrow> (string \<times> parsed_auth) option \<Rightarrow> (string \<times> parsed_auth) option" where
  "capture_auth_prompt from_str name result selected =
     (case selected of
        Some s \<Rightarrow> Some s
      | None \<Rightarrow>
          (case extract_auth_prompt from_str name result of
             Some auth \<Rightarrow> map_option (\<lambda>ext. (ext, auth)) (pr_extension_name auth)
           | None \<Rightarrow> None))"

definition persist_selected_auth_prompt :: "(string \<times> parsed_auth) option \<Rightarrow> pending_auth_prompt option" where
  "persist_selected_auth_prompt selected =
     map_option (\<lambda>(ext, auth). \<lparr>pap_extension_name = ext, pap_instructions = pr_instructions auth,
       pap_auth_url = pr_auth_url auth, pap_setup_url = pr_setup_url auth,
       pap_awaiting_token = pr_awaiting_token auth\<rparr>) selected"

definition restore_selected_auth_prompt :: "pending_auth_prompt option \<Rightarrow> (string \<times> parsed_auth) option" where
  "restore_selected_auth_prompt pending =
     Option.bind pending (\<lambda>p.
       case canonicalize_name (pap_extension_name p) of
         Inl _ \<Rightarrow> None
       | Inr n \<Rightarrow> Some (n, \<lparr>pr_extension_name = Some n, pr_instructions = pap_instructions p,
           pr_auth_url = pap_auth_url p, pr_setup_url = pap_setup_url p, pr_awaiting_token = pap_awaiting_token p\<rparr>))"

section \<open>Executing a batch\<close>

text \<open>\<open>threads.get_mut(..).and_then(last_turn_mut)\<close>.\<close>

definition on_last_turn :: "uuid \<Rightarrow> (turn \<Rightarrow> turn) \<Rightarrow> session \<Rightarrow> session" where
  "on_last_turn i f s =
     s\<lparr>ss_threads := hm_modify (ss_threads s) i (\<lambda>th. th\<lparr>ct_turns := map_last f (ct_turns th)\<rparr>)\<rparr>"

definition narrative_of :: "chat_env \<Rightarrow> string option \<Rightarrow> string option" where
  "narrative_of E content =
     (case content of
        None \<Rightarrow> None
      | Some c \<Rightarrow>
          if trim c = [] then None
          else let t = ce_sanitize E ''agent_narrative'' c in if trim t = [] then None else Some t)"

definition record_calls :: "chat_env \<Rightarrow> string option \<Rightarrow> tool_call list \<Rightarrow> turn \<Rightarrow> turn" where
  "record_calls E narrative calls t =
     fold (\<lambda>tc. record_tool_call_with_reasoning (tc_name tc)
             (redact_params (tc_arguments tc) (sensitive_of E (tc_name tc)))
             (map_option (ce_sanitize E ''tool_rationale'') (tc_reasoning tc)) (Some (tc_id tc)))
       calls (if tn_narrative t = None then t\<lparr>tn_narrative := narrative\<rparr> else t)"

record post_state =
  po_messages :: "chat_message list"
  po_state :: chat_state
  po_auth :: "(string \<times> parsed_auth) option"
  po_failures :: nat

definition record_outcome :: "chat_env \<Rightarrow> tool_call \<Rightarrow> bool \<Rightarrow> string \<Rightarrow> chat_state \<Rightarrow> chat_state" where
  "record_outcome E tc is_error content d =
     d\<lparr>cd_session := on_last_turn (ce_thread_id E)
         (if is_error then record_tool_error_for (tc_id tc) content
          else record_tool_result_for (tc_id tc) (JString content)) (cd_session d)\<rparr>"

definition postflight_step :: "chat_env \<Rightarrow> tool_call \<times> preflight_outcome \<Rightarrow> post_state \<Rightarrow> post_state" where
  "postflight_step E = (\<lambda>(tc, outcome) p.
     case outcome of
       PreRejected msg \<Rightarrow>
         let (content, m) = process_tool_result E (tc_name tc) (tc_id tc) (Err msg)
         in p\<lparr>po_messages := po_messages p @ [m], po_state := record_outcome E tc True content (po_state p),
              po_failures := po_failures p + 1\<rparr>
     | PreRunnable \<Rightarrow>
         let result = ce_exec E tc;
             d = (case result of
                    Inr output \<Rightarrow> (po_state p)\<lparr>cd_output_stash := hm_insert (cd_output_stash (po_state p)) (tc_id tc) output\<rparr>
                  | Inl _ \<Rightarrow> po_state p);
             (content, m) = result_record E tc result
         in p\<lparr>po_messages := po_messages p @ [m], po_state := record_outcome E tc (\<not> is_ok result) content d,
              po_auth := capture_auth_prompt (ce_from_str E) (tc_name tc) result (po_auth p),
              po_failures := po_failures p + (if is_ok result then 0 else 1)\<rparr>)"

definition pending_of ::
  "chat_env \<Rightarrow> chat_message list \<Rightarrow> tool_call list \<Rightarrow> (string \<times> parsed_auth) option \<Rightarrow> string option \<Rightarrow>
     nat \<times> tool_call \<times> tool \<times> bool \<Rightarrow> pending_approval" where
  "pending_of E messages calls auth tz = (\<lambda>(idx, tc, t, allow_always).
     \<lparr>pv_request_id = ce_request_id E, pv_tool_name = tc_name tc, pv_parameters = tc_arguments tc,
      pv_display_parameters = redact_params (tc_arguments tc) (tl_sensitive_params t),
      pv_description = ce_describe E t, pv_tool_call_id = tc_id tc, pv_context_messages = messages,
      pv_deferred_tool_calls = drop (Suc idx) calls, pv_selected_auth_prompt = persist_selected_auth_prompt auth,
      pv_user_timezone = tz, pv_allow_always = allow_always\<rparr>)"

definition enter_auth :: "chat_env \<Rightarrow> string \<Rightarrow> chat_state \<Rightarrow> chat_state" where
  "enter_auth E ext d =
     d\<lparr>cd_session := (cd_session d)\<lparr>ss_threads := hm_modify (ss_threads (cd_session d)) (ce_thread_id E)
          (enter_auth_mode (ce_now E) ext)\<rparr>\<rparr>"

definition chat_execute_tool_calls ::
  "chat_env \<Rightarrow> tool_call list \<Rightarrow> string option \<Rightarrow> chat_state \<times> reasoning_context \<Rightarrow>
     ('e + pending_approval loop_outcome option) \<times> chat_state \<times> reasoning_context" where
  "chat_execute_tool_calls E calls content = (\<lambda>(d, ctx).
     let ctx1 = push_messages [assistant_with_tool_calls content calls] ctx;
         d1 = d\<lparr>cd_session := on_last_turn (ce_thread_id E) (record_calls E (narrative_of E content) calls) (cd_session d)\<rparr>;
         (checked, approval_needed) = preflight E (cd_session d1) 0 calls;
         p = fold (postflight_step E) checked
               \<lparr>po_messages = rx_messages ctx1, po_state = d1, po_auth = None, po_failures = 0\<rparr>;
         ctx2 = ctx1\<lparr>rx_messages := po_messages p,
                    rx_last_tool_batch_all_failed := checked \<noteq> [] \<and> po_failures p = length checked\<rparr>
     in case approval_needed of
          Some stop \<Rightarrow>
            (Ok (Some (LoopNeedApproval (pending_of E (rx_messages ctx2) calls (po_auth p) (Some (ce_user_tz E)) stop))),
             po_state p, ctx2)
        | None \<Rightarrow>
            (case po_auth p of
               Some (ext, auth) \<Rightarrow>
                 if pr_awaiting_token auth
                 then (Ok (Some (LoopAuthPending (auth_instructions_or_default (pr_instructions auth)))),
                       enter_auth E ext (po_state p), ctx2)
                 else (Ok None, po_state p, ctx2)
             | None \<Rightarrow> (Ok None, po_state p, ctx2)))"

section \<open>Lemmas\<close>

definition checked_call :: "chat_env \<Rightarrow> session \<Rightarrow> tool_call \<Rightarrow> tool_call \<Rightarrow> bool" where
  "checked_call E s orig tc = (before_tool_call E orig = Ok tc
     \<and> needs_approval (ce_registry E) (ce_auto_approve_tools E) s tc = None)"

lemma preflight_runnable:
  "(tc, PreRunnable) \<in> set (fst (preflight E s idx calls)) \<Longrightarrow> \<exists>orig \<in> set calls. checked_call E s orig tc"
proof (induction calls arbitrary: idx)
  case (Cons orig rest)
  then show ?case by (fastforce simp: checked_call_def Let_def split: sum.splits option.splits if_splits)
qed simp

lemma before_tool_call_id: "before_tool_call E orig = Ok tc \<Longrightarrow> tc_id tc = tc_id orig \<and> tc_name tc = tc_name orig"
  by (auto simp: before_tool_call_def Let_def split: sum.splits hook_error.splits hook_outcome.splits option.splits)

text \<open>The checked calls, the call that stopped the batch and the rest are the calls of the batch, in order.\<close>

definition batch_split ::
  "nat \<Rightarrow> tool_call list \<Rightarrow> (tool_call \<times> preflight_outcome) list \<times> approval_stop \<Rightarrow> bool" where
  "batch_split idx calls r = (case snd r of
       None \<Rightarrow> map (tc_id \<circ> fst) (fst r) = map tc_id calls
     | Some (i, tc, t, a) \<Rightarrow>
         i = idx + length (fst r)
         \<and> map (tc_id \<circ> fst) (fst r) @ tc_id tc # map tc_id (drop (Suc (length (fst r))) calls) = map tc_id calls)"

lemma batch_split_Cons:
  "batch_split (Suc idx) rest r \<Longrightarrow> tc_id tc = tc_id orig \<Longrightarrow> batch_split idx (orig # rest) ((tc, o1) # fst r, snd r)"
  by (cases "snd r") (auto simp: batch_split_def)

lemma preflight_split: "batch_split idx calls (preflight E s idx calls)"
proof (induction E s idx calls rule: preflight.induct)
  case (1 E s idx)
  show ?case by (simp add: batch_split_def)
next
  case (2 E s idx orig rest)
  show ?case
  proof (cases "before_tool_call E orig")
    case (Inl msg)
    show ?thesis using batch_split_Cons [OF 2(1) [OF Inl], of orig] Inl by (simp add: Let_def)
  next
    case (Inr tc)
    note id = before_tool_call_id [OF Inr]
    show ?thesis
    proof (cases "needs_approval (ce_registry E) (ce_auto_approve_tools E) s tc")
      case None
      show ?thesis using batch_split_Cons [OF 2(2) [OF Inr None], of tc] Inr None id by (simp add: Let_def)
    next
      case (Some ta)
      obtain t a where ta: "ta = (t, a)" by fastforce
      show ?thesis
      proof (cases "is_shared_relay E")
        case True
        show ?thesis using batch_split_Cons [OF 2(3) [OF Inr Some ta [symmetric] True], of tc] Inr Some ta True id by (simp add: Let_def)
      next
        case False
        then show ?thesis using Inr Some ta id by (simp add: batch_split_def)
      qed
    qed
  qed
qed

text \<open>One result message per checked call, with its identifier.\<close>

lemma process_tool_result_msg:
  "cm_role (snd (process_tool_result E n i r)) = ToolRole \<and> cm_tool_call_id (snd (process_tool_result E n i r)) = Some i"
  by (simp add: process_tool_result_def tool_result_def Let_def)

lemma result_record_msg:
  "cm_role (snd (result_record E tc r)) = ToolRole \<and> cm_tool_call_id (snd (result_record E tc r)) = Some (tc_id tc)"
  using process_tool_result_msg
  by (auto simp: result_record_def image_summary_message_def tool_result_def split: sum.split option.split)

lemma postflight_step_messages:
  "\<exists>m. po_messages (postflight_step E x p) = po_messages p @ [m] \<and> cm_role m = ToolRole
     \<and> cm_tool_call_id m = Some (tc_id (fst x))"
  using process_tool_result_msg [of E] result_record_msg [of E]
  by (cases x; cases "snd x") (auto simp: postflight_step_def case_prod_unfold Let_def)

lemma postflight_messages:
  "\<exists>ms. po_messages (fold (postflight_step E) xs p) = po_messages p @ ms
     \<and> list_all (\<lambda>m. cm_role m = ToolRole) ms \<and> map cm_tool_call_id ms = map (Some \<circ> tc_id \<circ> fst) xs"
proof (induction xs arbitrary: p)
  case (Cons x xs)
  obtain m where m: "po_messages (postflight_step E x p) = po_messages p @ [m]" "cm_role m = ToolRole"
      "cm_tool_call_id m = Some (tc_id (fst x))"
    using postflight_step_messages by blast
  from Cons.IH [of "postflight_step E x p"] obtain ms where
      "po_messages (fold (postflight_step E) xs (postflight_step E x p)) = (po_messages p @ [m]) @ ms"
      "list_all (\<lambda>m. cm_role m = ToolRole) ms" "map cm_tool_call_id ms = map (Some \<circ> tc_id \<circ> fst) xs"
    using m(1) by auto
  with m show ?case by (intro exI [of _ "m # ms"]) simp
qed simp

lemma postflight_failures:
  "po_failures (fold (postflight_step E) xs p) = po_failures p
     + length (filter (\<lambda>(tc, outcome). outcome \<noteq> PreRunnable \<or> \<not> is_ok (ce_exec E tc)) xs)"
proof (induction xs arbitrary: p)
  case (Cons x xs)
  have "po_failures (postflight_step E x p) = po_failures p
      + (if snd x \<noteq> PreRunnable \<or> \<not> is_ok (ce_exec E (fst x)) then 1 else 0)"
    by (cases x; cases "snd x") (auto simp: postflight_step_def case_prod_unfold Let_def)
  with Cons.IH show ?case by (simp add: case_prod_unfold)
qed simp

section \<open>Properties\<close>

text \<open>
  C24. Every call of a batch is accounted for: the conversation grows by the assistant's message and
  then by one tool result per call, in the order of the calls; when a call needs an approval, the
  results stop before it, and the call that waits and the calls deferred behind it are the rest
  of the batch. The flag for the detection of repeated failures is set exactly when there was a
  call and all of them failed.
\<close>

theorem one_result_per_call:
  fixes d :: chat_state and ctx :: reasoning_context
  assumes "chat_execute_tool_calls E calls content (d, ctx) = (r, d', ctx')"
  shows "\<exists>results. rx_messages ctx' = rx_messages ctx @ [assistant_with_tool_calls content calls] @ results
     \<and> list_all (\<lambda>m. cm_role m = ToolRole) results
     \<and> (case r of
          Inr (Some (LoopNeedApproval p)) \<Rightarrow>
            map cm_tool_call_id results @ Some (pv_tool_call_id p) # map (Some \<circ> tc_id) (pv_deferred_tool_calls p)
              = map (Some \<circ> tc_id) calls
            \<and> pv_context_messages p = rx_messages ctx'
        | _ \<Rightarrow> map cm_tool_call_id results = map (Some \<circ> tc_id) calls)"
proof -
  let ?s = "on_last_turn (ce_thread_id E) (record_calls E (narrative_of E content) calls) (cd_session d)"
  let ?ms = "rx_messages ctx @ [assistant_with_tool_calls content calls]"
  obtain checked stop where pre: "preflight E ?s 0 calls = (checked, stop)" by fastforce
  define p where "p = fold (postflight_step E) checked
      \<lparr>po_messages = ?ms, po_state = d\<lparr>cd_session := ?s\<rparr>, po_auth = None, po_failures = 0\<rparr>"
  obtain results where res: "po_messages p = ?ms @ results" "list_all (\<lambda>m. cm_role m = ToolRole) results"
      "map cm_tool_call_id results = map (Some \<circ> tc_id \<circ> fst) checked"
    using postflight_messages [of E checked "\<lparr>po_messages = ?ms, po_state = d\<lparr>cd_session := ?s\<rparr>, po_auth = None, po_failures = 0\<rparr>"]
    unfolding p_def by auto
  have ctx': "rx_messages ctx' = po_messages p"
    using assms pre by (auto simp: chat_execute_tool_calls_def p_def push_messages_def Let_def split: option.splits if_splits)
  have split: "batch_split 0 calls (checked, stop)" using preflight_split pre by metis
  have ids: "map cm_tool_call_id results = map Some (map (tc_id \<circ> fst) checked)" using res(3) by simp
  show ?thesis
  proof (cases stop)
    case None
    then have "map (tc_id \<circ> fst) checked = map tc_id calls" using split by (simp add: batch_split_def)
    moreover have "\<nexists>q. r = Ok (Some (LoopNeedApproval q))"
      using assms pre None by (auto simp: chat_execute_tool_calls_def Let_def split: option.splits if_splits)
    ultimately show ?thesis using res ids ctx'
      by (intro exI [of _ results]) (auto split: sum.split option.split loop_outcome.split)
  next
    case (Some q)
    obtain i tc t a where q: "q = (i, tc, t, a)" by (metis prod_cases4)
    have i: "i = length checked"
      "map (tc_id \<circ> fst) checked @ tc_id tc # map tc_id (drop (Suc (length checked)) calls) = map tc_id calls"
      using split Some q by (simp_all add: batch_split_def)
    have r: "r = Ok (Some (LoopNeedApproval (pending_of E (po_messages p) calls (po_auth p) (Some (ce_user_tz E)) q)))"
      using assms pre Some by (auto simp: chat_execute_tool_calls_def p_def push_messages_def Let_def)
    have "map cm_tool_call_id results @ Some (tc_id tc) # map (Some \<circ> tc_id) (drop (Suc i) calls) = map (Some \<circ> tc_id) calls"
      using arg_cong [OF i(2), of "map Some"] ids i(1) by simp
    then show ?thesis using res r ctx' q by (intro exI [of _ results]) (simp add: pending_of_def)
  qed
qed

definition plain_env :: chat_env where
  "plain_env = \<lparr>ce_thread_id = 1, ce_registry = tool_registry_new, ce_hooks = [], ce_auto_approve_tools = False,
     ce_channel = ''cli'', ce_event_type = None, ce_user_id = ''ann'', ce_user_tz = ''UTC'', ce_request_id = 7,
     ce_now = 0, ce_show_duration = (\<lambda>_. []), ce_to_str = (\<lambda>_. []), ce_from_str = (\<lambda>_. None),
     ce_describe = (\<lambda>_. []), ce_sanitize = (\<lambda>_ t. t), ce_wrap = (\<lambda>_ t. t), ce_exec = (\<lambda>tc. Ok (tc_name tc))\<rparr>"

definition plain_state :: chat_state where
  "plain_state = \<lparr>cd_session = session_new 0 2 ''ann'', cd_output_stash = []\<rparr>"

lemma one_result_per_call_witness:
  "\<exists>results. rx_messages (snd (snd (chat_execute_tool_calls plain_env
        [\<lparr>tc_id = ''a'', tc_name = ''echo'', tc_arguments = JNull, tc_reasoning = None\<rparr>] None
        (plain_state, reasoning_context_new) :: (unit + pending_approval loop_outcome option) \<times> chat_state \<times> reasoning_context)))
     = rx_messages reasoning_context_new
       @ [assistant_with_tool_calls None [\<lparr>tc_id = ''a'', tc_name = ''echo'', tc_arguments = JNull, tc_reasoning = None\<rparr>]]
       @ results"
proof -
  let ?calls = "[\<lparr>tc_id = ''a'', tc_name = ''echo'', tc_arguments = JNull, tc_reasoning = None\<rparr>]"
  let ?r = "chat_execute_tool_calls plain_env ?calls None (plain_state, reasoning_context_new)
      :: (unit + pending_approval loop_outcome option) \<times> chat_state \<times> reasoning_context"
  have "?r = (fst ?r, fst (snd ?r), snd (snd ?r))" by simp
  from one_result_per_call [OF this] show ?thesis by blast
qed

section \<open>Only checked calls run\<close>

text \<open>
  When a call may run, said without the checks of the code. No hook stops it: of the hooks for
  tool calls, each one reached with the redacted event as the hooks before it left it, none
  rejects, and none that is fail-closed fails or times out. Its arguments are those of the
  model, or what the hooks made of them with the sensitive values put back. And the tool, if
  it is known, needs no approval for these arguments: approvals are switched off as a whole, or
  the tool never needs one, or it needs one unless auto-approved and the session has it among
  the auto-approved tools; a tool that always needs one does not run.
\<close>

definition tool_event :: "chat_env \<Rightarrow> tool_call \<Rightarrow> hook_event" where
  "tool_event E tc = ToolCall (tc_name tc) (redact_params (tc_arguments tc)
     (case get_tool (ce_registry E) (tc_name tc) of Some t \<Rightarrow> tl_sensitive_params t | None \<Rightarrow> []))
     (ce_user_id E) ''chat''"

definition hooks_pass :: "chat_env \<Rightarrow> hook_event \<Rightarrow> bool" where
  "hooks_pass E ev \<longleftrightarrow> \<not> (\<exists>xs h ys ev'. matching_hooks (ce_hooks E) ev = xs @ h # ys
     \<and> run_chain (ce_show_duration E) (ce_from_str E) ev xs = Ok ev'
     \<and> ((\<exists>reason. hk_execute h ev' = Returned (Ok (Reject reason)))
        \<or> (hk_failure_mode h = FailClosed
            \<and> (hk_execute h ev' = TimedOut \<or> (\<exists>e. hk_execute h ev' = Returned (Err e))))))"

definition arguments_from :: "chat_env \<Rightarrow> tool_call \<Rightarrow> json \<Rightarrow> bool" where
  "arguments_from E orig args \<longleftrightarrow> args = tc_arguments orig
     \<or> (\<exists>v parsed. run_hooks (ce_show_duration E) (ce_to_str E) (ce_from_str E) (ce_hooks E) (tool_event E orig)
            = Ok (Continue (Some v)) \<and> ce_from_str E v = Some parsed
          \<and> (case parsed of
               JObject obj \<Rightarrow> (\<exists>obj'. args = JObject obj' \<and> (\<forall>key. hm_get obj' key =
                 (if key \<in> set (sensitive_of E (tc_name orig)) \<and> json_get (tc_arguments orig) key \<noteq> None
                  then json_get (tc_arguments orig) key else hm_get obj key)))
             | _ \<Rightarrow> args = parsed))"

definition may_run :: "chat_env \<Rightarrow> session \<Rightarrow> tool_call \<Rightarrow> tool_call \<Rightarrow> bool" where
  "may_run E s orig tc \<longleftrightarrow> hooks_pass E (tool_event E orig)
     \<and> (\<exists>args. tc = orig\<lparr>tc_arguments := args\<rparr> \<and> arguments_from E orig args)
     \<and> (\<forall>t. get_tool (ce_registry E) (tc_name orig) = Some t \<longrightarrow>
          ce_auto_approve_tools E
          \<or> tl_requires_approval t (tc_arguments tc) = NeverApprove
          \<or> (tl_requires_approval t (tc_arguments tc) = UnlessAutoApproved
             \<and> tc_name orig \<in> set (ss_auto_approved_tools s)))"

lemma restore_sensitive_get:
  "hm_get (restore_sensitive orig ks obj) key =
     (if key \<in> set ks \<and> json_get orig key \<noteq> None then json_get orig key else hm_get obj key)"
  by (induction orig ks obj rule: restore_sensitive.induct) (auto simp: hm_simps split: option.split)

lemma hooks_pass_iff:
  "hooks_pass E ev \<longleftrightarrow> is_ok (run_hooks (ce_show_duration E) (ce_to_str E) (ce_from_str E) (ce_hooks E) ev)"
  using hook_chain_verdict [of "ce_show_duration E" "ce_to_str E" "ce_from_str E" "ce_hooks E" ev]
  unfolding hooks_pass_def hook_stops_def by blast

lemma hook_arguments_get:
  assumes "run_hooks (ce_show_duration E) (ce_to_str E) (ce_from_str E) (ce_hooks E) (tool_event E orig)
      = Ok (Continue (Some v))" "ce_from_str E v = Some parsed"
  shows "arguments_from E orig (hook_arguments (tc_arguments orig) (sensitive_of E (tc_name orig)) parsed)"
  using assms unfolding arguments_from_def hook_arguments_def
  by (intro disjI2 exI [of _ v] exI [of _ parsed]) (auto simp: restore_sensitive_get split: json.split)

lemma before_tool_call_passes:
  assumes "before_tool_call E orig = Ok tc"
  shows "hooks_pass E (tool_event E orig) \<and> (\<exists>args. tc = orig\<lparr>tc_arguments := args\<rparr> \<and> arguments_from E orig args)"
proof -
  let ?run = "run_hooks (ce_show_duration E) (ce_to_str E) (ce_from_str E) (ce_hooks E) (tool_event E orig)"
  have ev: "tool_event E orig = ToolCall (tc_name orig) (redact_params (tc_arguments orig)
      (sensitive_of E (tc_name orig))) (ce_user_id E) ''chat''"
    by (simp add: tool_event_def sensitive_of_def)
  obtain answer where answer: "?run = Ok answer"
    using assms unfolding before_tool_call_def ev [symmetric] Let_def
    by (cases ?run) (auto split: hook_error.splits)
  show ?thesis
  proof (cases "\<exists>v parsed. answer = Continue (Some v) \<and> ce_from_str E v = Some parsed")
    case True
    then obtain v parsed where v: "answer = Continue (Some v)" "ce_from_str E v = Some parsed" by blast
    then have "tc = orig\<lparr>tc_arguments := hook_arguments (tc_arguments orig) (sensitive_of E (tc_name orig)) parsed\<rparr>"
      using assms answer unfolding before_tool_call_def ev [symmetric] Let_def by simp
    then show ?thesis using hook_arguments_get [OF answer [unfolded v(1)] v(2)] answer by (auto simp: hooks_pass_iff)
  next
    case False
    then have "tc = orig"
      using assms answer unfolding before_tool_call_def ev [symmetric] Let_def
      by (auto split: hook_outcome.splits option.splits)
    then show ?thesis using answer
      by (auto simp: hooks_pass_iff arguments_from_def intro!: exI [of _ "tc_arguments orig"])
  qed
qed

lemma checked_may_run: "checked_call E s orig tc \<Longrightarrow> may_run E s orig tc"
  using before_tool_call_passes [of E orig tc] before_tool_call_id [of E orig tc]
  by (auto simp: may_run_def checked_call_def needs_approval_def is_tool_auto_approved_def
      split: if_splits option.splits approval_requirement.splits)

lemma needs_approval_session:
  assumes "ss_auto_approved_tools s = ss_auto_approved_tools s'"
  shows "needs_approval reg auto s = needs_approval reg auto s'"
  by (rule ext) (unfold needs_approval_def is_tool_auto_approved_def assms, rule refl)

lemma before_tool_call_exec [simp]: "before_tool_call (E\<lparr>ce_exec := f\<rparr>) tc = before_tool_call E tc"
  by (simp add: before_tool_call_def sensitive_of_def
      cong: sum.case_cong option.case_cong hook_error.case_cong hook_outcome.case_cong)

lemma preflight_exec [simp]: "preflight (E\<lparr>ce_exec := f\<rparr>) s idx calls = preflight E s idx calls"
  by (induction calls arbitrary: idx) (simp_all add: is_shared_relay_def cong: sum.case_cong option.case_cong if_cong)

lemma preflight_session:
  assumes "ss_auto_approved_tools s = ss_auto_approved_tools s'"
  shows "preflight E s idx calls = preflight E s' idx calls"
  by (induction calls arbitrary: idx) (simp_all add: needs_approval_session [OF assms]
      cong: sum.case_cong option.case_cong if_cong)

lemma on_last_turn_auto [simp]: "ss_auto_approved_tools (on_last_turn i f s) = ss_auto_approved_tools s"
  by (simp add: on_last_turn_def)

lemma result_record_exec [simp]: "result_record (E\<lparr>ce_exec := f\<rparr>) tc r = result_record E tc r"
  by (simp add: result_record_def process_tool_result_def image_summary_message_def Let_def split: sum.split option.split)

lemma postflight_step_exec:
  assumes "snd x = PreRunnable \<Longrightarrow> f (fst x) = ce_exec E (fst x)"
  shows "postflight_step (E\<lparr>ce_exec := f\<rparr>) x p = postflight_step E x p"
proof (cases x)
  case (Pair tc outcome)
  then show ?thesis using assms
    by (cases outcome) (simp_all add: postflight_step_def record_outcome_def process_tool_result_def)
qed

lemma postflight_exec:
  assumes "\<And>tc. (tc, PreRunnable) \<in> set xs \<Longrightarrow> f tc = ce_exec E tc"
  shows "fold (postflight_step (E\<lparr>ce_exec := f\<rparr>)) xs p = fold (postflight_step E) xs p"
  using assms
proof (induction xs arbitrary: p)
  case (Cons x xs)
  have "snd x = PreRunnable \<Longrightarrow> f (fst x) = ce_exec E (fst x)" using Cons.prems [of "fst x"] by (cases x) simp
  then have "postflight_step (E\<lparr>ce_exec := f\<rparr>) x p = postflight_step E x p" by (rule postflight_step_exec)
  with Cons show ?case by simp
qed simp


text \<open>With a tool that always needs an approval, how it would execute makes no difference.\<close>

definition guarded_env :: chat_env where
  "guarded_env = plain_env\<lparr>ce_registry :=
     tool_registry_new\<lparr>tr_tools := [(''shell'', sample_tool ''shell'' AlwaysApprove)]\<rparr>\<rparr>"

definition shell_call :: tool_call where
  "shell_call = \<lparr>tc_id = ''a'', tc_name = ''shell'', tc_arguments = JNull, tc_reasoning = None\<rparr>"


end
