(* ===== verification/Chat_History.thy ===== *)
theory Chat_History
  imports Session_Manager Chat_Tools
begin

text \<open>
  The stored history of a conversation (\<open>src/agent/thread_ops.rs\<close>): the rows a turn leaves in the
  database, the messages rebuilt from them, the hydration of a thread that is not in memory, and
  the views of a thread that a channel is shown. The database is a record of its answers; the
  JSON library and the parser and printer of identifiers are parameters.
\<close>

definition FORGED_THREAD_ID_ERROR :: string where
  "FORGED_THREAD_ID_ERROR = ''Invalid or unauthorized thread ID.''"

record db_message =
  dm_role :: string
  dm_content :: string

section \<open>Rows of a turn\<close>

definition tool_result_preview_for_persistence :: "(string \<Rightarrow> json option) \<Rightarrow> (json \<Rightarrow> string) \<Rightarrow> json \<Rightarrow> string" where
  "tool_result_preview_for_persistence from_str to_str result =
     (if sentinel_from_value from_str result \<noteq> None then ''Generated image''
      else truncate_preview (case result of JString t \<Rightarrow> t | v \<Rightarrow> to_str v) 500)"

definition tool_result_content_for_persistence :: "(string \<Rightarrow> json option) \<Rightarrow> (json \<Rightarrow> string) \<Rightarrow> json \<Rightarrow> string" where
  "tool_result_content_for_persistence from_str to_str result =
     (case sentinel_from_value from_str result of
        Some sentinel \<Rightarrow> image_record_content to_str sentinel
      | None \<Rightarrow> truncate_preview (case result of JString t \<Rightarrow> t | v \<Rightarrow> to_str v) 1000)"

definition tool_result_content_for_rebuild :: "(string \<Rightarrow> json option) \<Rightarrow> string \<Rightarrow> string" where
  "tool_result_content_for_rebuild from_str result =
     (case sentinel_from_value from_str (JString result) of
        Some sentinel \<Rightarrow> summary_for_context sentinel
      | None \<Rightarrow> result)"

text \<open>Members of a JSON object are kept sorted by key.\<close>

definition opt_member :: "string \<Rightarrow> string option \<Rightarrow> (string \<times> json) list" where
  "opt_member k v = (case v of Some t \<Rightarrow> [(k, JString t)] | None \<Rightarrow> [])"

definition persisted_call_id :: "nat \<Rightarrow> nat \<Rightarrow> string" where
  "persisted_call_id n i = ''turn'' @ show_nat n @ ''_'' @ show_nat i"

definition call_row ::
  "(string \<Rightarrow> json option) \<Rightarrow> (json \<Rightarrow> string) \<Rightarrow> nat \<Rightarrow> nat \<Rightarrow> turn_tool_call \<Rightarrow> json" where
  "call_row from_str to_str n i tc =
     JObject ([(''call_id'', JString (persisted_call_id n i))]
       @ opt_member ''error'' (map_option (\<lambda>e. truncate_preview e 200) (ttc_error tc))
       @ [(''name'', JString (ttc_name tc))]
       @ opt_member ''rationale'' (map_option (\<lambda>r. truncate_preview r 500) (ttc_rationale tc))
       @ opt_member ''result'' (map_option (tool_result_content_for_persistence from_str to_str) (ttc_result tc))
       @ opt_member ''result_preview'' (map_option (tool_result_preview_for_persistence from_str to_str) (ttc_result tc))
       @ opt_member ''tool_call_id'' (map_option (\<lambda>i. truncate_preview i 128) (ttc_tool_call_id tc)))"

definition tool_calls_value ::
  "(string \<Rightarrow> json option) \<Rightarrow> (json \<Rightarrow> string) \<Rightarrow> nat \<Rightarrow> turn_tool_call list \<Rightarrow> string option \<Rightarrow> json" where
  "tool_calls_value from_str to_str n calls narrative =
     JObject ([(''calls'', JArray (map (\<lambda>(i, tc). call_row from_str to_str n i tc) (enumerate 0 calls)))]
       @ opt_member ''narrative'' (map_option (\<lambda>t. truncate_preview t 1000) narrative))"

definition user_row :: "string \<Rightarrow> db_message" where
  "user_row user_input = \<lparr>dm_role = ''user'', dm_content = user_input\<rparr>"

definition tool_calls_rows ::
  "(string \<Rightarrow> json option) \<Rightarrow> (json \<Rightarrow> string) \<Rightarrow> nat \<Rightarrow> turn_tool_call list \<Rightarrow> string option \<Rightarrow> db_message list" where
  "tool_calls_rows from_str to_str n calls narrative =
     (if calls = [] then []
      else [\<lparr>dm_role = ''tool_calls'',
             dm_content = to_str (tool_calls_value from_str to_str n calls narrative)\<rparr>])"

definition assistant_row :: "string \<Rightarrow> db_message" where
  "assistant_row response = \<lparr>dm_role = ''assistant'', dm_content = response\<rparr>"

text \<open>All rows of a turn that ended with a response (or silently).\<close>

definition turn_rows :: "(string \<Rightarrow> json option) \<Rightarrow> (json \<Rightarrow> string) \<Rightarrow> turn \<Rightarrow> db_message list" where
  "turn_rows from_str to_str t =
     user_row (tn_user_input t)
     # tool_calls_rows from_str to_str (tn_turn_number t) (tn_tool_calls t) (tn_narrative t)
     @ (case tn_response t of Some r \<Rightarrow> [assistant_row r] | None \<Rightarrow> [])"

section \<open>Rebuilding the messages\<close>

definition stored_calls :: "(string \<Rightarrow> json option) \<Rightarrow> string \<Rightarrow> json list" where
  "stored_calls from_str content =
     (case from_str content of
        Some (JArray arr) \<Rightarrow> arr
      | Some (JObject obj) \<Rightarrow> (case map_of obj ''calls'' of Some (JArray arr) \<Rightarrow> arr | _ \<Rightarrow> [])
      | _ \<Rightarrow> [])"

definition str_or :: "string \<Rightarrow> json \<Rightarrow> string \<Rightarrow> string" where
  "str_or d c k = (case json_str_field c k of Some t \<Rightarrow> t | None \<Rightarrow> d)"

definition rebuilt_call :: "json \<Rightarrow> tool_call" where
  "rebuilt_call c =
     \<lparr>tc_id = str_or ''call_0'' c ''call_id'', tc_name = str_or ''unknown'' c ''name'',
      tc_arguments = (case json_get c ''parameters'' of Some v \<Rightarrow> v | None \<Rightarrow> JObject []),
      tc_reasoning = json_str_field c ''rationale''\<rparr>"

definition rebuilt_content :: "(string \<Rightarrow> json option) \<Rightarrow> json \<Rightarrow> string" where
  "rebuilt_content from_str c =
     (case json_str_field c ''error'' of
        Some err \<Rightarrow> err
      | None \<Rightarrow>
          (case json_str_field c ''result'' of
             Some res \<Rightarrow> tool_result_content_for_rebuild from_str res
           | None \<Rightarrow> str_or ''OK'' c ''result_preview''))"

definition rebuild_row :: "(string \<Rightarrow> json option) \<Rightarrow> db_message \<Rightarrow> chat_message list" where
  "rebuild_row from_str m =
     (if dm_role m = ''user'' then [chat_user (dm_content m)]
      else if dm_role m = ''assistant'' then [chat_assistant (dm_content m)]
      else if dm_role m = ''tool_calls'' then
        (case stored_calls from_str (dm_content m) of
           [] \<Rightarrow> []
         | c # cs \<Rightarrow>
             if json_str_field c ''call_id'' \<noteq> None then
               assistant_with_tool_calls None (map rebuilt_call (c # cs))
               # map (\<lambda>c. tool_result (str_or ''call_0'' c ''call_id'') (str_or ''unknown'' c ''name'')
                            (rebuilt_content from_str c)) (c # cs)
             else [])
      else [])"

definition rebuild_chat_messages_from_db :: "(string \<Rightarrow> json option) \<Rightarrow> db_message list \<Rightarrow> chat_message list" where
  "rebuild_chat_messages_from_db from_str db_messages = concat (map (rebuild_row from_str) db_messages)"

section \<open>Hydration\<close>

definition requires_preexisting_uuid_thread :: "string \<Rightarrow> bool" where
  "requires_preexisting_uuid_thread channel = (channel \<in> {''gateway'', ''test''})"

record db_store =
  ds_belongs :: "uuid \<Rightarrow> string \<Rightarrow> string + bool"
  ds_metadata :: "uuid \<Rightarrow> string + json option"
  ds_messages :: "uuid \<Rightarrow> string + db_message list"
  ds_source_channel :: "uuid \<Rightarrow> string + string option"

record incoming =
  im_user_id :: string
  im_channel :: string
  im_source :: "string option"

definition unavailable :: "string \<Rightarrow> string option" where
  "unavailable channel = (if requires_preexisting_uuid_thread channel then Some FORGED_THREAD_ID_ERROR else None)"

text \<open>Either the answer of the hydration (a rejection or nothing), or the rows to go on with.\<close>

definition hydration_rows :: "db_store \<Rightarrow> incoming \<Rightarrow> uuid \<Rightarrow> string option + db_message list" where
  "hydration_rows db msg i =
     (case ds_belongs db i (im_user_id msg) of
        Inl _ \<Rightarrow> Err (unavailable (im_channel msg))
      | Inr True \<Rightarrow> Ok (case ds_messages db i of Inr rows \<Rightarrow> rows | Inl _ \<Rightarrow> [])
      | Inr False \<Rightarrow>
          (case ds_metadata db i of
             Inl _ \<Rightarrow> Err (unavailable (im_channel msg))
           | Inr metadata \<Rightarrow>
               if requires_preexisting_uuid_thread (im_channel msg) then
                 Err (if metadata = None \<and> im_channel msg = ''gateway'' \<and> im_source msg = Some ''responses_api''
                      then None else Some FORGED_THREAD_ID_ERROR)
               else Err None))"

definition hydrated_thread ::
  "(string \<Rightarrow> json option) \<Rightarrow> time \<Rightarrow> db_store option \<Rightarrow> uuid \<Rightarrow> uuid \<Rightarrow> db_message list \<Rightarrow> chat_thread" where
  "hydrated_thread from_str now store i session_id rows =
     (let source = (case store of
             Some db \<Rightarrow> (case ds_source_channel db i of Inr sc \<Rightarrow> sc | Inl _ \<Rightarrow> None)
           | None \<Rightarrow> None);
          th = chat_thread_with_id now i session_id source;
          ms = rebuild_chat_messages_from_db from_str rows
      in if ms \<noteq> [] then restore_from_messages now ms th else th)"

definition maybe_hydrate_thread ::
  "(string \<Rightarrow> uuid option) \<Rightarrow> (uuid \<Rightarrow> string) \<Rightarrow> (string \<Rightarrow> json option) \<Rightarrow> db_store option \<Rightarrow>
     time \<Rightarrow> uuid \<Rightarrow> incoming \<Rightarrow> string \<Rightarrow> session_manager \<Rightarrow> string option \<times> session_manager" where
  "maybe_hydrate_thread parse_uuid uuid_str from_str store now session_id msg external m =
     (case parse_uuid external of
        None \<Rightarrow> (None, m)
      | Some i \<Rightarrow>
          let (s, m1) = get_or_create_session now session_id (im_user_id msg) m
          in if hm_get (ss_threads s) i \<noteq> None then (None, m1)
             else
               (case (case store of Some db \<Rightarrow> hydration_rows db msg i | None \<Rightarrow> Ok []) of
                  Inl answer \<Rightarrow> (answer, m1)
                | Inr rows \<Rightarrow>
                    let th = hydrated_thread from_str now store i (ss_id s) rows;
                        s1 = s\<lparr>ss_threads := hm_insert (ss_threads s) i th, ss_active_thread := Some i,
                               ss_last_active_at := now\<rparr>;
                        m2 = m1\<lparr>sm_sessions := hm_insert (sm_sessions m1) (im_user_id msg) s1\<rparr>
                    in (None, register_thread uuid_str (im_user_id msg) (im_channel msg) i s1 m2)))"

section \<open>Views\<close>

record history_message =
  hi_role :: string
  hi_content :: string
  hi_timestamp :: time

definition history_of_turn :: "turn \<Rightarrow> history_message list" where
  "history_of_turn t =
     (if tn_user_input t \<noteq> []
      then [\<lparr>hi_role = ''user'', hi_content = tn_user_input t, hi_timestamp = tn_started_at t\<rparr>] else [])
     @ (case tn_response t of
          Some r \<Rightarrow> [\<lparr>hi_role = ''assistant'', hi_content = r,
                     hi_timestamp = (case tn_completed_at t of Some c \<Rightarrow> c | None \<Rightarrow> tn_started_at t)\<rparr>]
        | None \<Rightarrow> [])"

definition history_messages_from_thread :: "chat_thread \<Rightarrow> history_message list" where
  "history_messages_from_thread th = concat (map history_of_turn (ct_turns th))"

definition display_parameters_or_fallback :: "pending_approval \<Rightarrow> json" where
  "display_parameters_or_fallback p =
     (if pv_display_parameters p = JNull then pv_parameters p else pv_display_parameters p)"

record approval_prompt =
  ap_request_id :: string
  ap_tool_name :: string
  ap_description :: string
  ap_parameters :: json
  ap_allow_always :: bool

definition approval_prompt_from_pending :: "(uuid \<Rightarrow> string) \<Rightarrow> pending_approval \<Rightarrow> approval_prompt" where
  "approval_prompt_from_pending uuid_str p =
     \<lparr>ap_request_id = uuid_str (pv_request_id p), ap_tool_name = pv_tool_name p, ap_description = pv_description p,
      ap_parameters = display_parameters_or_fallback p, ap_allow_always = pv_allow_always p\<rparr>"

record conversation_summary =
  cv_id :: uuid
  cv_title :: "string option"
  cv_message_count :: int
  cv_started_at :: time
  cv_last_activity :: time
  cv_channel :: string

text \<open>Latest activity first, then latest start, then the identifier (\<open>sort_by\<close> is stable).\<close>

definition thread_summaries_order :: "conversation_summary list \<Rightarrow> conversation_summary list" where
  "thread_summaries_order cs =
     sort_key (\<lambda>c. - cv_last_activity c) (sort_key (\<lambda>c. - cv_started_at c) (sort_key cv_id cs))"

section \<open>The stored history of a thread\<close>

lemma map_of_opt_member [simp]: "map_of (opt_member k v) k' = (if k' = k then map_option JString v else None)"
  by (simp add: opt_member_def split: option.split)

text \<open>What survives of a call: its position, its name and a cut rationale, and the text of its outcome.\<close>

definition stored_content :: "(string \<Rightarrow> json option) \<Rightarrow> (json \<Rightarrow> string) \<Rightarrow> turn_tool_call \<Rightarrow> string" where
  "stored_content from_str to_str tc =
     (case ttc_error tc of
        Some e \<Rightarrow> truncate_preview e 200
      | None \<Rightarrow>
          (case ttc_result tc of
             Some r \<Rightarrow> tool_result_content_for_rebuild from_str (tool_result_content_for_persistence from_str to_str r)
           | None \<Rightarrow> ''OK''))"

definition stored_batch ::
  "(string \<Rightarrow> json option) \<Rightarrow> (json \<Rightarrow> string) \<Rightarrow> turn \<Rightarrow> (tool_call \<times> string) list" where
  "stored_batch from_str to_str t =
     map (\<lambda>(i, tc). (\<lparr>tc_id = persisted_call_id (tn_turn_number t) i, tc_name = ttc_name tc, tc_arguments = JObject [],
                      tc_reasoning = map_option (\<lambda>r. truncate_preview r 500) (ttc_rationale tc)\<rparr>,
                    stored_content from_str to_str tc)) (enumerate 0 (tn_tool_calls t))"

lemma call_row_fields:
  "json_str_field (call_row from_str to_str n i tc) ''call_id'' = Some (persisted_call_id n i)"
  "json_str_field (call_row from_str to_str n i tc) ''name'' = Some (ttc_name tc)"
  "json_get (call_row from_str to_str n i tc) ''parameters'' = None"
  "json_str_field (call_row from_str to_str n i tc) ''rationale'' = map_option (\<lambda>r. truncate_preview r 500) (ttc_rationale tc)"
  "json_str_field (call_row from_str to_str n i tc) ''error'' = map_option (\<lambda>e. truncate_preview e 200) (ttc_error tc)"
  "json_str_field (call_row from_str to_str n i tc) ''result''
     = map_option (tool_result_content_for_persistence from_str to_str) (ttc_result tc)"
  "json_str_field (call_row from_str to_str n i tc) ''result_preview''
     = map_option (tool_result_preview_for_persistence from_str to_str) (ttc_result tc)"
  by (simp_all add: call_row_def json_str_field_def json_get_def map_add_def split: option.split)

lemma rebuilt_row:
  "rebuilt_call (call_row from_str to_str n i tc)
     = \<lparr>tc_id = persisted_call_id n i, tc_name = ttc_name tc, tc_arguments = JObject [],
        tc_reasoning = map_option (\<lambda>r. truncate_preview r 500) (ttc_rationale tc)\<rparr>"
  "rebuilt_content from_str (call_row from_str to_str n i tc) = stored_content from_str to_str tc"
  by (simp_all add: rebuilt_call_def rebuilt_content_def stored_content_def str_or_def call_row_fields split: option.split)

lemma rebuild_enriched:
  "stored_calls from_str content = rows \<Longrightarrow> rows \<noteq> [] \<Longrightarrow> json_str_field (hd rows) ''call_id'' \<noteq> None \<Longrightarrow>
     rebuild_row from_str \<lparr>dm_role = ''tool_calls'', dm_content = content\<rparr>
       = assistant_with_tool_calls None (map rebuilt_call rows)
         # map (\<lambda>c. tool_result (str_or ''call_0'' c ''call_id'') (str_or ''unknown'' c ''name'') (rebuilt_content from_str c)) rows"
  by (cases rows) (auto simp: rebuild_row_def)

lemma rebuild_tool_calls:
  assumes "from_str (to_str (tool_calls_value from_str to_str (tn_turn_number t) (tn_tool_calls t) (tn_narrative t)))
      = Some (tool_calls_value from_str to_str (tn_turn_number t) (tn_tool_calls t) (tn_narrative t))"
  shows "rebuild_chat_messages_from_db from_str
      (tool_calls_rows from_str to_str (tn_turn_number t) (tn_tool_calls t) (tn_narrative t))
    = batch_messages (stored_batch from_str to_str t)"
proof (cases "tn_tool_calls t")
  case Nil
  then show ?thesis by (simp add: rebuild_chat_messages_from_db_def tool_calls_rows_def batch_messages_def stored_batch_def)
next
  case (Cons c cs)
  let ?rows = "map (\<lambda>(i, tc). call_row from_str to_str (tn_turn_number t) i tc) (enumerate 0 (tn_tool_calls t))"
  have rows: "stored_calls from_str (to_str (tool_calls_value from_str to_str (tn_turn_number t) (tn_tool_calls t) (tn_narrative t))) = ?rows"
    by (simp add: stored_calls_def assms) (simp add: tool_calls_value_def)
  note rebuild_enriched [OF rows]
  moreover have "assistant_with_tool_calls None (map rebuilt_call ?rows)
        # map (\<lambda>c. tool_result (str_or ''call_0'' c ''call_id'') (str_or ''unknown'' c ''name'') (rebuilt_content from_str c)) ?rows
      = batch_messages (stored_batch from_str to_str t)"
    by (simp add: Cons batch_messages_def stored_batch_def rebuilt_row case_prod_unfold str_or_def call_row_fields comp_def)
  ultimately show ?thesis using Cons by (simp add: rebuild_chat_messages_from_db_def tool_calls_rows_def call_row_fields)
qed

lemma rebuild_append: "rebuild_chat_messages_from_db from_str (a @ b)
    = rebuild_chat_messages_from_db from_str a @ rebuild_chat_messages_from_db from_str b"
  by (simp add: rebuild_chat_messages_from_db_def)

text \<open>The JSON library reads back what it wrote for the calls of a turn.\<close>

definition calls_readable :: "(string \<Rightarrow> json option) \<Rightarrow> (json \<Rightarrow> string) \<Rightarrow> turn \<Rightarrow> bool" where
  "calls_readable from_str to_str t =
     (let v = tool_calls_value from_str to_str (tn_turn_number t) (tn_tool_calls t) (tn_narrative t)
      in from_str (to_str v) = Some v)"

lemma rebuild_turn:
  assumes "calls_readable from_str to_str t"
  shows "rebuild_chat_messages_from_db from_str (turn_rows from_str to_str t)
    = chat_user (tn_user_input t) # batch_messages (stored_batch from_str to_str t) @ response_messages (tn_response t)"
proof -
  have rows: "turn_rows from_str to_str t = [user_row (tn_user_input t)]
      @ tool_calls_rows from_str to_str (tn_turn_number t) (tn_tool_calls t) (tn_narrative t)
      @ (case tn_response t of Some r \<Rightarrow> [assistant_row r] | None \<Rightarrow> [])"
    by (simp add: turn_rows_def)
  have "rebuild_chat_messages_from_db from_str [user_row (tn_user_input t)] = [chat_user (tn_user_input t)]"
    by (simp add: rebuild_chat_messages_from_db_def rebuild_row_def user_row_def)
  moreover have "rebuild_chat_messages_from_db from_str (case tn_response t of Some r \<Rightarrow> [assistant_row r] | None \<Rightarrow> [])
      = response_messages (tn_response t)"
    by (simp add: rebuild_chat_messages_from_db_def rebuild_row_def assistant_row_def response_messages_def split: option.split)
  ultimately show ?thesis
    using rebuild_tool_calls assms unfolding rows rebuild_append calls_readable_def Let_def by simp
qed

lemma restore_stored_turns:
  assumes "\<forall>t \<in> set ts. calls_readable from_str to_str t"
  shows "restore_turns now k (rebuild_chat_messages_from_db from_str (concat (map (turn_rows from_str to_str) ts)))
    = map (\<lambda>(i, t). answered_turn now i (tn_user_input t) (stored_batch from_str to_str t) (tn_response t)) (enumerate k ts)"
  using assms
proof (induction ts arbitrary: k)
  case (Cons t ts)
  let ?rest = "rebuild_chat_messages_from_db from_str (concat (map (turn_rows from_str to_str) ts))"
  have "case ?rest of [] \<Rightarrow> True | m # _ \<Rightarrow> cm_role m = UserRole"
    by (cases ts) (simp_all add: rebuild_chat_messages_from_db_def turn_rows_def user_row_def rebuild_row_def chat_user_def)
  from restore_answered_turn [OF this, of "chat_user (tn_user_input t)" now k] Cons show ?case
    by (simp add: rebuild_append rebuild_turn chat_user_def del: restore_turns.simps)
qed (simp add: rebuild_chat_messages_from_db_def)

lemma answered_turn_view:
  "tn_user_input (answered_turn now i u b r) = u" "tn_response (answered_turn now i u b r) = r"
  "tn_turn_number (answered_turn now i u b r) = i" "tn_tool_calls (answered_turn now i u b r) = map answered_call b"
  by (simp_all add: answered_turn_def turn_new_def turn_conclude_def Let_def split: option.split)


section \<open>Hydration is for the owner\<close>

definition in_memory :: "session_manager \<Rightarrow> string \<Rightarrow> uuid \<Rightarrow> bool" where
  "in_memory m u i = (\<exists>s. hm_get (sm_sessions m) u = Some s \<and> hm_get (ss_threads s) i \<noteq> None)"

definition hydration_of ::
  "(uuid \<Rightarrow> string) \<Rightarrow> (string \<Rightarrow> json option) \<Rightarrow> db_store option \<Rightarrow> time \<Rightarrow> incoming \<Rightarrow> uuid \<Rightarrow> db_message list \<Rightarrow>
     session \<Rightarrow> session_manager \<Rightarrow> session_manager" where
  "hydration_of uuid_str from_str store now msg i rows s m =
     (let s1 = s\<lparr>ss_threads := hm_insert (ss_threads s) i (hydrated_thread from_str now store i (ss_id s) rows),
                 ss_active_thread := Some i, ss_last_active_at := now\<rparr>
      in register_thread uuid_str (im_user_id msg) (im_channel msg) i s1
           (m\<lparr>sm_sessions := hm_insert (sm_sessions m) (im_user_id msg) s1\<rparr>))"

lemma hydration_cases:
  assumes "parse_uuid ext = Some i" and "\<not> in_memory m (im_user_id msg) i"
  shows "maybe_hydrate_thread parse_uuid uuid_str from_str (Some db) now sid msg ext m =
     (let (s, m1) = get_or_create_session now sid (im_user_id msg) m
      in case hydration_rows db msg i of
           Inl answer \<Rightarrow> (answer, m1)
         | Inr rows \<Rightarrow> (None, hydration_of uuid_str from_str (Some db) now msg i rows s m1))
    \<and> hm_get (ss_threads (fst (get_or_create_session now sid (im_user_id msg) m))) i = None"
proof -
  have "hm_get (ss_threads (fst (get_or_create_session now sid (im_user_id msg) m))) i = None"
    using assms(2) by (auto simp: in_memory_def get_or_create_session_def session_new_def hm.get_empty Let_def split: option.split)
  then show ?thesis
    by (cases "get_or_create_session now sid (im_user_id msg) m")
      (simp add: maybe_hydrate_thread_def assms(1) hydration_of_def Let_def split: sum.split)
qed

lemma hydrated_in_memory: "in_memory (hydration_of uuid_str from_str store now msg i rows s m) (im_user_id msg) i"
  by (simp add: in_memory_def hydration_of_def register_thread_def Let_def hm_simps)

lemma hydration_rows_Ok: "is_ok (hydration_rows db msg i) \<longleftrightarrow> ds_belongs db i (im_user_id msg) = Ok True"
  by (auto simp: hydration_rows_def split: sum.split bool.split)

text \<open>
  A conversation is loaded from the database exactly for its owner: a thread that is not in
  memory is there afterwards if and only if the database says it belongs to the sender, and then
  the message goes on. On a channel whose clients send identifiers issued by the server every
  other identifier is rejected, also when the database fails, except for an unused one that
  the responses API brings through the gateway.
\<close>

theorem hydration_guard:
  assumes "parse_uuid ext = Some i" and "\<not> in_memory m (im_user_id msg) i"
    and "maybe_hydrate_thread parse_uuid uuid_str from_str (Some db) now sid msg ext m = (r, m')"
  shows "(in_memory m' (im_user_id msg) i \<longleftrightarrow> ds_belongs db i (im_user_id msg) = Ok True)
     \<and> (if ds_belongs db i (im_user_id msg) = Ok True \<or> \<not> requires_preexisting_uuid_thread (im_channel msg) then r = None
        else r = Some FORGED_THREAD_ID_ERROR
          \<or> (im_channel msg = ''gateway'' \<and> im_source msg = Some ''responses_api'' \<and> ds_metadata db i = Ok None))"
proof -
  obtain s m1 where g: "get_or_create_session now sid (im_user_id msg) m = (s, m1)" by fastforce
  have s: "hm_get (sm_sessions m1) (im_user_id msg) = Some s"
    using get_or_create_session_get [of now sid "im_user_id msg" m] by (simp add: g)
  note cs = hydration_cases [where parse_uuid = parse_uuid and ext = ext and now = now and sid = sid and db = db
      and uuid_str = uuid_str and from_str = from_str, OF assms(1,2)]
  have none: "\<not> in_memory m1 (im_user_id msg) i" using cs by (simp add: g in_memory_def s)
  show ?thesis
  proof (cases "hydration_rows db msg i")
    case (Inl answer)
    then have "ds_belongs db i (im_user_id msg) \<noteq> Ok True" using hydration_rows_Ok [of db msg i] by auto
    moreover have "r = answer" "m' = m1" using assms(3) cs by (simp_all add: g Inl)
    ultimately show ?thesis
      using none Inl by (auto simp: hydration_rows_def unavailable_def split: sum.splits bool.splits if_splits)
  next
    case (Inr rows)
    then have "ds_belongs db i (im_user_id msg) = Ok True" using hydration_rows_Ok [of db msg i] by auto
    moreover have "r = None" "m' = hydration_of uuid_str from_str (Some db) now msg i rows s m1"
      using assms(3) cs by (simp_all add: g Inr)
    ultimately show ?thesis using hydrated_in_memory by simp
  qed
qed

text \<open>
  The hydrated thread is found only under the canonical spelling of its identifier: the message
  that caused the hydration is resolved to it if the channel sent exactly the printed form, and
  to a new, empty thread if it sent another spelling of the same identifier.
\<close>

theorem hydration_needs_canonical_id:
  assumes "parse_uuid ext = Some i" and "\<not> in_memory m (im_user_id msg) i"
    and "ds_belongs db i (im_user_id msg) = Ok True"
    and "hm_get (sm_thread_map m) (thread_key_of (im_user_id msg) (im_channel msg) (Some ext)) = None"
    and "maybe_hydrate_thread parse_uuid uuid_str from_str (Some db) now sid msg ext m = (r, m')"
  shows "fst (resolve_thread parse_uuid now' sid' fresh (im_user_id msg) (im_channel msg) (Some ext) m')
     = (if ext = uuid_str i then i else fresh)"
proof -
  let ?u = "im_user_id msg" and ?ch = "im_channel msg"
  obtain s m1 where g: "get_or_create_session now sid ?u m = (s, m1)" by fastforce
  obtain rows where rows: "hydration_rows db msg i = Ok rows"
    using hydration_rows_Ok [of db msg i] assms(3) by (cases "hydration_rows db msg i") auto
  have m': "m' = hydration_of uuid_str from_str (Some db) now msg i rows s m1"
    using assms(5) hydration_cases [where parse_uuid = parse_uuid and ext = ext and now = now and sid = sid and db = db
      and uuid_str = uuid_str and from_str = from_str, OF assms(1,2)] by (simp add: g rows)
  have map1: "sm_thread_map m1 = sm_thread_map m" using get_or_create_session_maps(1) [of now sid ?u m] by (simp add: g)
  have sess: "\<exists>s'. hm_get (sm_sessions m') ?u = Some s' \<and> hm_get (ss_threads s') i \<noteq> None"
    using hydrated_in_memory [of uuid_str from_str "Some db" now msg i rows s m1] by (simp add: in_memory_def m')
  have key: "hm_get (sm_thread_map m') k
      = (if k = thread_key_of ?u ?ch (Some (uuid_str i)) then Some i else hm_get (sm_thread_map m) k)" for k
    by (simp add: m' hydration_of_def register_thread_def Let_def hm_simps map1)
  then have "(thread_key_of ?u ?ch (Some (uuid_str i)), i) \<in> set (sm_thread_map m')" by (intro hm_get_entry) simp
  then have "is_mapped m' i" by (force simp: is_mapped_def hm_values_def)
  with sess key assms(1,4) show ?thesis
    by (auto simp: resolve_thread_def resolve_thread_with_parsed_uuid_def get_or_create_session_def lookup_key_def
        adoptable_uuid_def adopt_thread_def external_uuid_def create_mapped_thread_def create_thread_def
        thread_key_of_def Let_def)
qed

section \<open>Concrete inputs\<close>

definition listed_turn :: turn where
  "listed_turn = turn_conclude 8 (CompletedWith ''done'')
     (record_tool_result (JString ''a b'') (record_tool_call ''ls'' (JObject [(''path'', JString ''x'')]) (turn_new 7 0 ''list x'')))"

definition listed_value :: json where
  "listed_value = JObject [(''calls'', JArray [JObject
     [(''call_id'', JString ''turn0_0''), (''name'', JString ''ls''), (''result'', JString ''a b''),
      (''result_preview'', JString ''a b'')]])]"


definition plain_db :: "bool \<Rightarrow> db_store" where
  "plain_db owned = \<lparr>ds_belongs = (\<lambda>_ _. Ok owned), ds_metadata = (\<lambda>_. Ok (Some JNull)), ds_messages = (\<lambda>_. Ok []),
     ds_source_channel = (\<lambda>_. Ok (Some ''gateway''))\<rparr>"

definition plain_incoming :: incoming where
  "plain_incoming = \<lparr>im_user_id = ''u'', im_channel = ''gateway'', im_source = None\<rparr>"

lemma new_not_in_memory: "\<not> in_memory session_manager_new u i"
  by (simp add: in_memory_def session_manager_new_def hm.get_empty)

lemma hydration_guard_witness:
  "fst (maybe_hydrate_thread (\<lambda>_. Some 7) (\<lambda>_. ''7'') (\<lambda>_. None) (Some (plain_db False)) 1 2 plain_incoming ''7''
     session_manager_new) = Some FORGED_THREAD_ID_ERROR"
proof -
  obtain r m' where run: "maybe_hydrate_thread (\<lambda>_. Some 7) (\<lambda>_. ''7'') (\<lambda>_. None) (Some (plain_db False)) 1 2
      plain_incoming ''7'' session_manager_new = (r, m')" by fastforce
  from hydration_guard [OF _ new_not_in_memory run] run show ?thesis
    by (simp add: plain_db_def plain_incoming_def requires_preexisting_uuid_thread_def)
qed

lemma hydration_needs_canonical_id_witness:
  "fst (resolve_thread (\<lambda>_. Some 7) 1 3 9 ''u'' ''gateway'' (Some ''SEVEN'')
     (snd (maybe_hydrate_thread (\<lambda>_. Some 7) (\<lambda>_. ''7'') (\<lambda>_. None) (Some (plain_db True)) 1 2 plain_incoming ''SEVEN''
        session_manager_new))) = 9"
proof -
  obtain r m' where run: "maybe_hydrate_thread (\<lambda>_. Some 7) (\<lambda>_. ''7'') (\<lambda>_. None) (Some (plain_db True)) 1 2
      plain_incoming ''SEVEN'' session_manager_new = (r, m')" by fastforce
  have "hm_get (sm_thread_map session_manager_new) k = None" for k
    by (simp add: session_manager_new_def hm.get_empty)
  from hydration_needs_canonical_id [where parse_uuid = "\<lambda>_. Some 7" and uuid_str = "\<lambda>_. ''7''" and i = 7 and now' = 1
      and sid' = 3 and fresh = 9, OF refl new_not_in_memory _ this run] run show ?thesis
    by (simp add: plain_db_def plain_incoming_def)
qed

end
