(* ===== verification/Compaction.thy ===== *)
theory Compaction
  imports Session
begin

text \<open>
  The size of a conversation and its compaction (\<open>src/agent/context_monitor.rs\<close>,
  \<open>src/agent/compaction.rs\<close>). Floating-point products and quotients of token counts are exact
  rational arithmetic: for the default ratio 0.8, the factor 1.3 per word and the limits 0.85 and
  0.95 this is what the rounded \<open>f64\<close> operations give for counts below \<open>2 ^ 50\<close>. The summarising
  model call and the append to the workspace are parameters; the workspace is an abstract state
  \<open>'w\<close>, absent when the agent has none.
\<close>

datatype compaction_strategy = CompactSummarize nat | CompactTruncate nat | MoveToWorkspace

definition compaction_strategy_default :: compaction_strategy where
  "compaction_strategy_default = CompactSummarize 5"

section \<open>The monitor\<close>

definition DEFAULT_CONTEXT_LIMIT :: nat where "DEFAULT_CONTEXT_LIMIT = 100000"
definition COMPACTION_THRESHOLD :: rat where "COMPACTION_THRESHOLD = 4 / 5"

record context_monitor =
  mo_context_limit :: nat
  mo_threshold_ratio :: rat

definition monitor_new :: context_monitor where
  "monitor_new = \<lparr>mo_context_limit = DEFAULT_CONTEXT_LIMIT, mo_threshold_ratio = COMPACTION_THRESHOLD\<rparr>"

definition with_limit :: "nat \<Rightarrow> context_monitor \<Rightarrow> context_monitor" where
  "with_limit limit mo = mo\<lparr>mo_context_limit := limit\<rparr>"

definition with_threshold :: "rat \<Rightarrow> context_monitor \<Rightarrow> context_monitor" where
  "with_threshold ratio mo = mo\<lparr>mo_threshold_ratio := max (1 / 2) (min (19 / 20) ratio)\<rparr>"

definition estimate_text_tokens :: "string \<Rightarrow> nat" where
  "estimate_text_tokens t = 13 * length (split_whitespace t) div 10"

definition estimate_message_tokens :: "chat_message \<Rightarrow> nat" where
  "estimate_message_tokens m = 13 * length (split_whitespace (cm_content m)) div 10 + 4"

definition estimate_tokens :: "chat_message list \<Rightarrow> nat" where
  "estimate_tokens messages = sum_list (map estimate_message_tokens messages)"

definition monitor_threshold :: "context_monitor \<Rightarrow> nat" where
  "monitor_threshold mo = nat \<lfloor>of_nat (mo_context_limit mo) * mo_threshold_ratio mo\<rfloor>"

definition needs_compaction :: "context_monitor \<Rightarrow> chat_message list \<Rightarrow> bool" where
  "needs_compaction mo messages = (estimate_tokens messages \<ge> monitor_threshold mo)"

definition usage_percent :: "context_monitor \<Rightarrow> chat_message list \<Rightarrow> rat" where
  "usage_percent mo messages = of_nat (estimate_tokens messages) / of_nat (mo_context_limit mo) * 100"

definition suggest_compaction :: "context_monitor \<Rightarrow> chat_message list \<Rightarrow> compaction_strategy option" where
  "suggest_compaction mo messages =
     (if \<not> needs_compaction mo messages then None
      else
        let tokens = estimate_tokens messages
        in if 20 * tokens > 19 * mo_context_limit mo then Some (CompactTruncate 3)
           else if 20 * tokens > 17 * mo_context_limit mo then Some (CompactSummarize 5)
           else Some MoveToWorkspace)"

record context_breakdown =
  cb_total_tokens :: nat
  cb_system_tokens :: nat
  cb_user_tokens :: nat
  cb_assistant_tokens :: nat
  cb_tool_tokens :: nat
  cb_message_count :: nat

definition breakdown_add :: "chat_message \<Rightarrow> context_breakdown \<Rightarrow> context_breakdown" where
  "breakdown_add m b0 =
     (let tokens = estimate_message_tokens m;
          b = b0\<lparr>cb_total_tokens := cb_total_tokens b0 + tokens\<rparr>
      in case cm_role m of
           SystemRole \<Rightarrow> b\<lparr>cb_system_tokens := cb_system_tokens b + tokens\<rparr>
         | UserRole \<Rightarrow> b\<lparr>cb_user_tokens := cb_user_tokens b + tokens\<rparr>
         | AssistantRole \<Rightarrow> b\<lparr>cb_assistant_tokens := cb_assistant_tokens b + tokens\<rparr>
         | ToolRole \<Rightarrow> b\<lparr>cb_tool_tokens := cb_tool_tokens b + tokens\<rparr>)"

definition breakdown_analyze :: "chat_message list \<Rightarrow> context_breakdown" where
  "breakdown_analyze messages = fold breakdown_add messages
     \<lparr>cb_total_tokens = 0, cb_system_tokens = 0, cb_user_tokens = 0, cb_assistant_tokens = 0,
      cb_tool_tokens = 0, cb_message_count = length messages\<rparr>"

section \<open>The compactor\<close>

record compaction_partial =
  cq_turns_removed :: nat
  cq_summary_written :: bool
  cq_summary :: "string option"

definition partial_empty :: compaction_partial where
  "partial_empty = \<lparr>cq_turns_removed = 0, cq_summary_written = False, cq_summary = None\<rparr>"

record compaction_result =
  cx_turns_removed :: nat
  cx_tokens_before :: nat
  cx_tokens_after :: nat
  cx_summary_written :: bool
  cx_summary :: "string option"

text \<open>
  The environment: JSON rendering, the model's completion (\<open>Reasoning::complete\<close>), the append to a
  file of the workspace, and today's date and time as the entries show them.
\<close>

record ('e, 'w) compactor =
  co_from_str :: "string \<Rightarrow> json option"
  co_to_str :: "json \<Rightarrow> string"
  co_complete :: "completion_request \<Rightarrow> 'e + string"
  co_append :: "string \<Rightarrow> string \<Rightarrow> 'w \<Rightarrow> 'e + 'w"
  co_date :: string
  co_clock :: string

definition SUMMARY_PROMPT :: string where
  "SUMMARY_PROMPT = ''Summarize the following conversation concisely. Focus on:'' @ [NL]
     @ ''- Key decisions made'' @ [NL] @ ''- Important information exchanged'' @ [NL]
     @ ''- Actions taken'' @ [NL] @ ''- Outcomes achieved'' @ [NL, NL]
     @ ''Be brief but capture all important details. Use bullet points.''"

definition summary_line :: "chat_message \<Rightarrow> string" where
  "summary_line m =
     (case cm_role m of
        UserRole \<Rightarrow> ''User: '' @ cm_content m
      | AssistantRole \<Rightarrow> ''Assistant: '' @ cm_content m
      | SystemRole \<Rightarrow> ''System: '' @ cm_content m
      | ToolRole \<Rightarrow> ''Tool '' @ (case cm_name m of Some n \<Rightarrow> n | None \<Rightarrow> ''unknown'') @ '': '' @ cm_content m)"

definition generate_summary :: "('e, 'w) compactor \<Rightarrow> chat_message list \<Rightarrow> 'e + string" where
  "generate_summary K messages =
     co_complete K ((completion_request_new
       [chat_system SUMMARY_PROMPT,
        chat_user (''Please summarize this conversation:'' @ [NL, NL] @ join [NL, NL] (map summary_line messages))])
       \<lparr>cr_max_tokens := Some 1024, cr_temperature := Some 0x3E99999A\<rparr>)"

definition daily_file :: "('e, 'w) compactor \<Rightarrow> string" where
  "daily_file K = ''daily/'' @ co_date K @ ''.md''"

definition write_summary_to_workspace :: "('e, 'w) compactor \<Rightarrow> string \<Rightarrow> 'w \<Rightarrow> 'e + 'w" where
  "write_summary_to_workspace K summary w =
     co_append K (daily_file K)
       ([NL] @ ''## Context Summary ('' @ co_clock K @ '' UTC)'' @ [NL, NL] @ summary @ [NL]) w"

definition write_context_to_workspace :: "('e, 'w) compactor \<Rightarrow> string \<Rightarrow> 'w \<Rightarrow> 'e + 'w" where
  "write_context_to_workspace K content w =
     co_append K (daily_file K)
       ([NL] @ ''## Archived Context ('' @ co_clock K @ '' UTC)'' @ [NL, NL] @ content @ [NL]) w"

definition format_turn :: "turn \<Rightarrow> string" where
  "format_turn t =
     ''**Turn '' @ show_nat (tn_turn_number t + 1) @ ''**'' @ [NL]
     @ ''User: '' @ tn_user_input t @ [NL]
     @ (case tn_response t of Some r \<Rightarrow> ''Agent: '' @ r @ [NL] | None \<Rightarrow> [])
     @ (if tn_tool_calls t = [] then []
        else ''Tools: '' @ join '', '' (map ttc_name (tn_tool_calls t)) @ [NL])"

definition format_turns_for_storage :: "turn list \<Rightarrow> string" where
  "format_turns_for_storage ts = join [NL] (map format_turn ts)"

definition summary_messages :: "turn list \<Rightarrow> chat_message list" where
  "summary_messages ts = concat (map (\<lambda>t. chat_user (tn_user_input t)
     # (case tn_response t of Some r \<Rightarrow> [chat_assistant r] | None \<Rightarrow> [])) ts)"

definition compact_with_summary ::
  "('e, 'w) compactor \<Rightarrow> nat \<Rightarrow> 'w option \<Rightarrow> chat_thread \<Rightarrow> ('e + compaction_partial) \<times> 'w option \<times> chat_thread" where
  "compact_with_summary K keep ws th =
     (if length (ct_turns th) \<le> keep then (Ok partial_empty, ws, th)
      else
        let n = length (ct_turns th) - keep
        in case generate_summary K (summary_messages (take n (ct_turns th))) of
             Inl e \<Rightarrow> (Err e, ws, th)
           | Inr summary \<Rightarrow>
               (case ws of
                  Some w \<Rightarrow>
                    (case write_summary_to_workspace K summary w of
                       Inr w' \<Rightarrow>
                         (Ok \<lparr>cq_turns_removed = n, cq_summary_written = True, cq_summary = Some summary\<rparr>,
                          Some w', truncate_turns keep th)
                     | Inl e \<Rightarrow>
                         (Ok \<lparr>cq_turns_removed = 0, cq_summary_written = False, cq_summary = Some summary\<rparr>,
                          Some w, th))
                | None \<Rightarrow>
                    (Ok \<lparr>cq_turns_removed = n, cq_summary_written = False, cq_summary = Some summary\<rparr>,
                     None, truncate_turns keep th)))"

definition compact_truncate :: "nat \<Rightarrow> chat_thread \<Rightarrow> compaction_partial \<times> chat_thread" where
  "compact_truncate keep th =
     (let th' = truncate_turns keep th
      in (\<lparr>cq_turns_removed = length (ct_turns th) - length (ct_turns th'), cq_summary_written = False,
           cq_summary = None\<rparr>, th'))"

definition compact_to_workspace ::
  "('e, 'w) compactor \<Rightarrow> 'w option \<Rightarrow> chat_thread \<Rightarrow> ('e + compaction_partial) \<times> 'w option \<times> chat_thread" where
  "compact_to_workspace K ws th =
     (case ws of
        None \<Rightarrow> let (p, th') = compact_truncate 5 th in (Ok p, None, th')
      | Some w \<Rightarrow>
          if length (ct_turns th) \<le> 10 then (Ok partial_empty, Some w, th)
          else
            let n = length (ct_turns th) - 10
            in case write_context_to_workspace K (format_turns_for_storage (take n (ct_turns th))) w of
                 Inr w' \<Rightarrow>
                   (Ok \<lparr>cq_turns_removed = n, cq_summary_written = True, cq_summary = None\<rparr>,
                    Some w', truncate_turns 10 th)
               | Inl e \<Rightarrow>
                   (Ok \<lparr>cq_turns_removed = 0, cq_summary_written = False, cq_summary = None\<rparr>, Some w, th))"

definition compact_thread ::
  "('e, 'w) compactor \<Rightarrow> compaction_strategy \<Rightarrow> 'w option \<Rightarrow> chat_thread \<Rightarrow>
     ('e + compaction_result) \<times> 'w option \<times> chat_thread" where
  "compact_thread K strategy ws th =
     (let tokens = (\<lambda>th. cb_total_tokens (breakdown_analyze (thread_messages (co_from_str K) (co_to_str K) th)));
          (r, ws', th') =
            (case strategy of
               CompactSummarize keep \<Rightarrow> compact_with_summary K keep ws th
             | CompactTruncate keep \<Rightarrow> (let (p, th') = compact_truncate keep th in (Ok p, ws, th'))
             | MoveToWorkspace \<Rightarrow> compact_to_workspace K ws th)
      in (case r of
            Inl e \<Rightarrow> Err e
          | Inr p \<Rightarrow> Ok \<lparr>cx_turns_removed = cq_turns_removed p, cx_tokens_before = tokens th,
                       cx_tokens_after = tokens th', cx_summary_written = cq_summary_written p,
                       cx_summary = cq_summary p\<rparr>,
          ws', th'))"

section \<open>Lemmas\<close>

lemma breakdown_fold:
  "cb_total_tokens (fold breakdown_add ms b) = cb_total_tokens b + estimate_tokens ms"
proof (induction ms arbitrary: b)
  case (Cons m ms)
  have "cb_total_tokens (breakdown_add m b) = cb_total_tokens b + estimate_message_tokens m"
    by (simp add: breakdown_add_def Let_def split: role.split)
  with Cons show ?case by (simp add: estimate_tokens_def)
qed (simp add: estimate_tokens_def)

lemma breakdown_total: "cb_total_tokens (breakdown_analyze ms) = estimate_tokens ms"
  by (simp add: breakdown_analyze_def breakdown_fold)

lemma breakdown_parts:
  "cb_total_tokens b = cb_system_tokens b + cb_user_tokens b + cb_assistant_tokens b + cb_tool_tokens b \<Longrightarrow>
     let c = fold breakdown_add ms b
     in cb_total_tokens c = cb_system_tokens c + cb_user_tokens c + cb_assistant_tokens c + cb_tool_tokens c"
proof (induction ms arbitrary: b)
  case (Cons m ms)
  have "let c = breakdown_add m b
     in cb_total_tokens c = cb_system_tokens c + cb_user_tokens c + cb_assistant_tokens c + cb_tool_tokens c"
    using Cons.prems by (simp add: breakdown_add_def Let_def split: role.split)
  then show ?case using Cons.IH by (simp add: Let_def)
qed simp

text \<open>The tokens of a turn do not depend on its position.\<close>

definition turn_tokens :: "(string \<Rightarrow> json option) \<Rightarrow> (json \<Rightarrow> string) \<Rightarrow> turn \<Rightarrow> nat" where
  "turn_tokens from_str to_str t = estimate_tokens (turn_messages from_str to_str 0 t)"

lemma tokens_append [simp]: "estimate_tokens (a @ b) = estimate_tokens a + estimate_tokens b"
  by (simp add: estimate_tokens_def)

lemma tokens_by_content: "map cm_content ms = map cm_content ms' \<Longrightarrow> estimate_tokens ms = estimate_tokens ms'"
proof -
  have "estimate_tokens ms = sum_list (map (\<lambda>c. 13 * length (split_whitespace c) div 10 + 4) (map cm_content ms))" for ms
    by (simp add: estimate_tokens_def estimate_message_tokens_def [abs_def] comp_def)
  then show "map cm_content ms = map cm_content ms' \<Longrightarrow> estimate_tokens ms = estimate_tokens ms'" by metis
qed

lemma turn_tokens_index: "estimate_tokens (turn_messages from_str to_str i t) = turn_tokens from_str to_str t"
proof -
  have "map (\<lambda>(i, tc). call_content from_str to_str tc) (call_ids i cs) = map (call_content from_str to_str) cs" for i cs
    by (auto simp: call_ids_def enumerate_eq_zip intro!: nth_equalityI)
  then have "map cm_content (turn_messages from_str to_str i t) = map cm_content (turn_messages from_str to_str 0 t)"
    by (auto simp: turn_messages_def assistant_with_tool_calls_def tool_result_def Let_def case_prod_unfold comp_def)
  then show ?thesis unfolding turn_tokens_def by (rule tokens_by_content)
qed

lemma thread_tokens:
  "estimate_tokens (thread_messages from_str to_str th) = sum_list (map (turn_tokens from_str to_str) (ct_turns th))"
proof -
  have "estimate_tokens (concat (map (\<lambda>(i, t). turn_messages from_str to_str i t) (enumerate n ts)))
      = sum_list (map (turn_tokens from_str to_str) ts)" for n ts
    by (induction ts arbitrary: n) (simp_all add: turn_tokens_index, simp add: estimate_tokens_def)
  then show ?thesis by (simp add: thread_messages_def)
qed

lemma turn_tokens_renumber:
  "map (turn_tokens from_str to_str) (renumber ts) = map (turn_tokens from_str to_str) ts"
  by (auto simp: renumber_def enumerate_eq_zip turn_tokens_def turn_messages_def intro!: nth_equalityI)

text \<open>What leaves the thread is the oldest turns.\<close>

definition drops_oldest :: "nat \<Rightarrow> chat_thread \<Rightarrow> chat_thread \<Rightarrow> bool" where
  "drops_oldest n th th' = (0 < n \<and> n \<le> length (ct_turns th) \<and> ct_turns th' = renumber (drop n (ct_turns th)))"

lemma truncate_drops:
  "length (ct_turns th) \<le> keep \<Longrightarrow> truncate_turns keep th = th"
  "keep < length (ct_turns th) \<Longrightarrow> drops_oldest (length (ct_turns th) - keep) th (truncate_turns keep th)"
  by (simp_all add: truncate_turns_def drops_oldest_def)

lemma drops_tokens:
  assumes "drops_oldest n th th'"
  shows "estimate_tokens (thread_messages from_str to_str th') \<le> estimate_tokens (thread_messages from_str to_str th)
     \<and> n + length (ct_turns th') = length (ct_turns th)"
proof -
  let ?w = "turn_tokens from_str to_str"
  have "sum_list (map ?w (ct_turns th)) = sum_list (map ?w (take n (ct_turns th))) + sum_list (map ?w (drop n (ct_turns th)))"
    by (metis append_take_drop_id map_append sum_list_append)
  then show ?thesis
    using assms by (auto simp: drops_oldest_def thread_tokens turn_tokens_renumber) (simp add: renumber_def)
qed

text \<open>What the workspace has received when \<open>n\<close> turns are dropped.\<close>

definition archived ::
  "('e, 'w) compactor \<Rightarrow> compaction_strategy \<Rightarrow> nat \<Rightarrow> chat_thread \<Rightarrow> 'w option \<Rightarrow> 'w option \<Rightarrow> bool" where
  "archived K strategy n th ws ws' =
     (let old = take n (ct_turns th)
      in case strategy of
           CompactTruncate keep \<Rightarrow> ws' = ws
         | CompactSummarize keep \<Rightarrow>
             (case generate_summary K (summary_messages old) of
                Inl _ \<Rightarrow> False
              | Inr summary \<Rightarrow>
                  (case ws of None \<Rightarrow> ws' = None
                   | Some w \<Rightarrow> (case write_summary_to_workspace K summary w of Inr w' \<Rightarrow> ws' = Some w' | Inl _ \<Rightarrow> False)))
         | MoveToWorkspace \<Rightarrow>
             (case ws of None \<Rightarrow> ws' = None
              | Some w \<Rightarrow>
                  (case write_context_to_workspace K (format_turns_for_storage old) w of
                     Inr w' \<Rightarrow> ws' = Some w' | Inl _ \<Rightarrow> False)))"

definition compaction_step ::
  "('e, 'w) compactor \<Rightarrow> compaction_strategy \<Rightarrow> chat_thread \<Rightarrow> 'w option \<Rightarrow>
     ('e + compaction_partial) \<times> 'w option \<times> chat_thread \<Rightarrow> bool" where
  "compaction_step K strategy th ws = (\<lambda>(r, ws', th').
     (th' = th \<and> ws' = ws \<and> (case r of Inr p \<Rightarrow> cq_turns_removed p = 0 | Inl _ \<Rightarrow> True))
     \<or> (\<exists>p. r = Ok p \<and> drops_oldest (cq_turns_removed p) th th' \<and> archived K strategy (cq_turns_removed p) th ws ws'))"

lemma summary_step: "compaction_step K (CompactSummarize keep) th ws (compact_with_summary K keep ws th)"
  using truncate_drops [where th = th and keep = keep]
  by (auto simp: compaction_step_def compact_with_summary_def archived_def partial_empty_def Let_def
      split: sum.splits option.splits)

lemma truncate_length: "length (ct_turns (truncate_turns keep th)) = min keep (length (ct_turns th))"
  by (simp add: truncate_turns_def renumber_def)

lemma truncate_step:
  "compact_truncate keep th = (p, th') \<Longrightarrow>
     (th' = th \<and> cq_turns_removed p = 0) \<or> drops_oldest (cq_turns_removed p) th th'"
  using truncate_drops [where th = th and keep = keep]
  by (cases "keep < length (ct_turns th)") (auto simp: compact_truncate_def Let_def truncate_length min_def)

lemma workspace_step: "compaction_step K MoveToWorkspace th ws (compact_to_workspace K ws th)"
proof (cases ws)
  case None
  obtain p th' where p: "compact_truncate 5 th = (p, th')" by fastforce
  from truncate_step [OF p] show ?thesis
    by (auto simp: compaction_step_def compact_to_workspace_def archived_def p None)
next
  case (Some w)
  show ?thesis
    using truncate_drops [where th = th and keep = 10]
    by (auto simp: Some compaction_step_def compact_to_workspace_def archived_def partial_empty_def Let_def
        split: sum.splits)
qed

section \<open>Properties\<close>


definition plain_compactor :: "(string, string list) compactor" where
  "plain_compactor = \<lparr>co_from_str = (\<lambda>_. None), co_to_str = (\<lambda>_. []), co_complete = (\<lambda>_. Ok ''greeting''),
     co_append = (\<lambda>_ entry w. Ok (w @ [entry])), co_date = ''2025-01-01'', co_clock = ''10:00''\<rparr>"

definition two_turns :: chat_thread where
  "two_turns = start_turn 8 ''again'' (conclude_turn 7 (CompletedWith ''hello'') (start_turn 6 ''hi'' (chat_thread_with_id 5 1 2 None)))"


end
