(* ===== verification/Submission.thy ===== *)
theory Submission
  imports Text
begin

text \<open>
  What a user's text asks for (\<open>src/agent/submission.rs\<close>): the parser from message content to
  submissions, and the results of processing one. The parsers of identifiers (\<open>parse_uuid\<close>) and
  of a submission in JSON (\<open>from_json\<close>) are parameters; lower-casing is ASCII lower-casing, which
  is what the commands depend on. The branches of the parser are in the order of the source.
\<close>

datatype auth_gate_resolution = CredentialProvided string | AuthCancelled

datatype plan_subcommand = PlanCreate string | PlanApprove "string option" | PlanStatus "string option"
  | PlanRevise "string option" string | PlanList

datatype submission =
    UserInput string
  | ExecApproval uuid bool bool
  | ExternalCallback uuid
  | GateAuthResolution uuid auth_gate_resolution
  | ApprovalResponse bool bool
  | SubInterrupt | SubCompact | SubUndo | SubRedo
  | SubResume uuid
  | SubClear
  | SwitchThread uuid
  | NewThread | ListThreads | Heartbeat | Summarize | Suggest
  | Expected string
  | JobStatus "string option"
  | JobCancel string
  | SubQuit
  | SystemCommand string "string list"
  | Plan plan_subcommand

definition is_control :: "submission \<Rightarrow> bool" where
  "is_control s =
     (case s of
        SubInterrupt \<Rightarrow> True | SubCompact \<Rightarrow> True | SubUndo \<Rightarrow> True | SubRedo \<Rightarrow> True | SubClear \<Rightarrow> True
      | NewThread \<Rightarrow> True | Heartbeat \<Rightarrow> True | Summarize \<Rightarrow> True | Suggest \<Rightarrow> True | JobStatus _ \<Rightarrow> True
      | JobCancel _ \<Rightarrow> True | SystemCommand _ _ \<Rightarrow> True | _ \<Rightarrow> False)"

datatype submission_result =
    SrResponse string
  | SrNeedApproval uuid string string json bool
  | SrOk "string option"
  | SrError string
  | SrInterrupted
  | SrAuthPending

section \<open>The parser\<close>

fun first_some :: "'a option list \<Rightarrow> 'a option" where
  "first_some [] = None"
| "first_some (x # xs) = (case x of Some y \<Rightarrow> Some y | None \<Rightarrow> first_some xs)"

definition parse_control :: "string \<Rightarrow> submission option" where
  "parse_control lower =
     (if lower = ''/undo'' then Some SubUndo
      else if lower = ''/redo'' then Some SubRedo
      else if lower = ''/interrupt'' \<or> lower = ''/stop'' then Some SubInterrupt
      else if lower = ''/compact'' then Some SubCompact
      else if lower = ''/clear'' then Some SubClear
      else if lower = ''/heartbeat'' then Some Heartbeat
      else if lower = ''/summarize'' \<or> lower = ''/summary'' then Some Summarize
      else if lower = ''/suggest'' then Some Suggest
      else None)"

definition parse_expected :: "string \<Rightarrow> string \<Rightarrow> submission option" where
  "parse_expected trimmed lower =
     (if starts_with lower ''/expected '' then
        let description = trim (drop (length ''/expected '') trimmed)
        in if description \<noteq> [] then Some (Expected description) else None
      else None)"

definition parse_new_thread :: "string \<Rightarrow> submission option" where
  "parse_new_thread lower = (if lower = ''/thread new'' \<or> lower = ''/new'' then Some NewThread else None)"

definition command_args :: "string \<Rightarrow> string list" where
  "command_args trimmed = drop 1 (split_whitespace trimmed)"

definition parse_system :: "string \<Rightarrow> string \<Rightarrow> submission option" where
  "parse_system trimmed lower =
     (if lower = ''/help'' \<or> lower = ''/?'' then Some (SystemCommand ''help'' [])
      else if lower = ''/version'' then Some (SystemCommand ''version'' [])
      else if lower = ''/tools'' then Some (SystemCommand ''tools'' [])
      else if lower = ''/skills'' then Some (SystemCommand ''skills'' [])
      else if starts_with lower ''/skills '' then Some (SystemCommand ''skills'' (command_args trimmed))
      else if lower = ''/ping'' then Some (SystemCommand ''ping'' [])
      else if lower = ''/debug'' then Some (SystemCommand ''debug'' [])
      else if lower = ''/reasoning'' \<or> starts_with lower ''/reasoning ''
      then Some (SystemCommand ''reasoning'' (command_args trimmed))
      else if lower = ''/restart'' then Some (SystemCommand ''restart'' [])
      else if starts_with lower ''/model'' then Some (SystemCommand ''model'' (command_args trimmed))
      else None)"

definition parse_quit :: "string \<Rightarrow> submission option" where
  "parse_quit lower = (if lower \<in> {''/quit'', ''/exit'', ''/shutdown''} then Some SubQuit else None)"

definition parse_status_id :: "string \<Rightarrow> submission option" where
  "parse_status_id lower =
     (case (case strip_prefix ''/status '' lower of Some r \<Rightarrow> Some r | None \<Rightarrow> strip_prefix ''/progress '' lower) of
        Some rest \<Rightarrow> if trim rest \<noteq> [] then Some (JobStatus (Some (trim rest))) else None
      | None \<Rightarrow> None)"

definition parse_cancel :: "string \<Rightarrow> submission option" where
  "parse_cancel lower =
     (case strip_prefix ''/cancel '' lower of
        Some rest \<Rightarrow> if trim rest \<noteq> [] then Some (JobCancel (trim rest)) else None
      | None \<Rightarrow> None)"

definition parse_jobs :: "string \<Rightarrow> submission option" where
  "parse_jobs lower =
     first_some [if lower = ''/status'' \<or> lower = ''/progress'' then Some (JobStatus None) else None,
                 parse_status_id lower,
                 if lower = ''/list'' then Some (JobStatus None) else None,
                 parse_cancel lower]"

definition parse_threads :: "(string \<Rightarrow> uuid option) \<Rightarrow> string \<Rightarrow> submission option" where
  "parse_threads parse_uuid lower =
     first_some
       [case strip_prefix ''/thread '' lower of
          Some rest \<Rightarrow> if trim rest \<noteq> ''new'' then map_option SwitchThread (parse_uuid (trim rest)) else None
        | None \<Rightarrow> None,
        if lower = ''/resume'' then Some ListThreads else None,
        case strip_prefix ''/resume '' lower of
          Some rest \<Rightarrow> map_option SubResume (parse_uuid (trim rest))
        | None \<Rightarrow> None]"

definition parse_structured :: "(string \<Rightarrow> submission option) \<Rightarrow> string \<Rightarrow> submission option" where
  "parse_structured from_json trimmed =
     (if starts_with trimmed ''{'' then
        (case from_json trimmed of
           Some (ExecApproval r a w) \<Rightarrow> Some (ExecApproval r a w)
         | Some (ExternalCallback r) \<Rightarrow> Some (ExternalCallback r)
         | Some (GateAuthResolution r g) \<Rightarrow> Some (GateAuthResolution r g)
         | _ \<Rightarrow> None)
      else None)"

definition YES_WORDS :: "string list" where
  "YES_WORDS = [''yes'', ''y'', ''approve'', ''ok'', ''/approve'', ''/yes'', ''/y'']"
definition ALWAYS_WORDS :: "string list" where
  "ALWAYS_WORDS = [''always'', ''a'', ''yes always'', ''approve always'', ''/always'', ''/a'']"
definition NO_WORDS :: "string list" where
  "NO_WORDS = [''no'', ''n'', ''deny'', ''reject'', ''cancel'', ''/deny'', ''/no'', ''/n'']"

definition parse_approval :: "string \<Rightarrow> submission option" where
  "parse_approval lower =
     (if lower \<in> set YES_WORDS then Some (ApprovalResponse True False)
      else if lower \<in> set ALWAYS_WORDS then Some (ApprovalResponse True True)
      else if lower \<in> set NO_WORDS then Some (ApprovalResponse False False)
      else None)"

definition non_empty :: "string \<Rightarrow> string option" where
  "non_empty s = (if s = [] then None else Some s)"

definition parse_plan_rest :: "string \<Rightarrow> string \<Rightarrow> submission option" where
  "parse_plan_rest trimmed rest =
     first_some
       [if rest = ''list'' then Some (Plan PlanList) else None,
        map_option (\<lambda>after. Plan (PlanApprove (non_empty (trim after)))) (strip_prefix ''approve'' rest),
        map_option (\<lambda>after. Plan (PlanStatus (non_empty (trim after)))) (strip_prefix ''status'' rest),
        Option.bind (strip_prefix ''revise'' rest) (\<lambda>after.
          let (plan_ref, feedback) = (case split_once CHR '' '' (trim after) of
                Some (first, tail) \<Rightarrow> (Some first, trim tail)
              | None \<Rightarrow> (None, trim after))
          in if feedback \<noteq> [] then Some (Plan (PlanRevise plan_ref feedback)) else None),
        map_option (\<lambda>d. Plan (PlanCreate d)) (non_empty (trim (drop (length ''/plan '') trimmed)))]"

definition parse_plan :: "string \<Rightarrow> string \<Rightarrow> submission option" where
  "parse_plan trimmed lower =
     (if lower = ''/plan'' \<or> lower = ''/plan list'' then Some (Plan PlanList)
      else (case strip_prefix ''/plan '' lower of
              Some rest \<Rightarrow> parse_plan_rest trimmed (trim rest)
            | None \<Rightarrow> None))"

definition parse_submission ::
  "(string \<Rightarrow> uuid option) \<Rightarrow> (string \<Rightarrow> submission option) \<Rightarrow> string \<Rightarrow> submission" where
  "parse_submission parse_uuid from_json content =
     (let trimmed = trim content; lower = map ascii_lower trimmed
      in case first_some
           [parse_control lower, parse_expected trimmed lower, parse_new_thread lower, parse_system trimmed lower,
            parse_quit lower, parse_jobs lower, parse_threads parse_uuid lower, parse_structured from_json trimmed,
            parse_approval lower, parse_plan trimmed lower] of
           Some s \<Rightarrow> s
         | None \<Rightarrow> UserInput content)"

section \<open>Explicit commands\<close>

text \<open>
  \<open>src/agent/router.rs\<close>: text that the parser above took for user input but that starts with the
  command prefix is routed as a command.
\<close>

datatype message_intent =
    CreateJob string string "string option"
  | CheckJobStatus "string option"
  | CancelJob string
  | ListJobs "string option"
  | HelpJob string
  | ChatIntent string
  | CommandIntent string "string list"
  | UnknownIntent

definition is_command :: "string \<Rightarrow> string \<Rightarrow> bool" where
  "is_command command_prefix content = starts_with (trim content) command_prefix"

definition first_arg :: "string list \<Rightarrow> string option" where
  "first_arg args = (case args of a # _ \<Rightarrow> Some a | [] \<Rightarrow> None)"

definition parse_command :: "string \<Rightarrow> string \<Rightarrow> message_intent" where
  "parse_command command_prefix content =
     (case split_whitespace (case strip_prefix command_prefix content of Some r \<Rightarrow> r | None \<Rightarrow> content) of
        [] \<Rightarrow> UnknownIntent
      | word # args \<Rightarrow>
          let cmd = map ascii_lower word
          in if cmd \<in> {''job'', ''create''} then CreateJob (join '' '' args) (join '' '' args) None
             else if cmd = ''status'' then CheckJobStatus (first_arg args)
             else if cmd = ''cancel'' then (case args of i # _ \<Rightarrow> CancelJob i | [] \<Rightarrow> UnknownIntent)
             else if cmd \<in> {''list'', ''jobs''} then ListJobs (first_arg args)
             else if cmd = ''help'' then (case args of i # _ \<Rightarrow> HelpJob i | [] \<Rightarrow> CommandIntent ''help'' [])
             else CommandIntent cmd args)"

definition route_command :: "string \<Rightarrow> string \<Rightarrow> message_intent option" where
  "route_command command_prefix content =
     (if is_command command_prefix content then Some (parse_command command_prefix (trim content)) else None)"

section \<open>Properties\<close>

lemma ascii_lower_slash: "ascii_lower c = CHR ''/'' \<longleftrightarrow> c = CHR ''/''"
proof -
  have "ascii_lower c = c \<or> 97 \<le> (of_char (ascii_lower c) :: nat)"
    by (auto simp: ascii_lower_def Let_def)
  then show ?thesis by (auto simp: ascii_lower_def)
qed

lemma no_slash_commands:
  assumes "\<not> starts_with lower ''/''"
  shows "parse_control lower = None" "parse_expected t lower = None" "parse_new_thread lower = None"
    "parse_system t lower = None" "parse_quit lower = None" "parse_jobs lower = None"
    "parse_threads parse_uuid lower = None" "parse_plan t lower = None"
  using assms
  by (cases lower; auto simp: starts_with_def strip_prefix_def parse_control_def parse_expected_def
      parse_new_thread_def parse_system_def parse_quit_def parse_jobs_def parse_status_id_def parse_cancel_def
      parse_threads_def parse_plan_def)+

text \<open>
  Ordinary text is never taken for a command: text that, trimmed, starts with neither a slash nor
  a brace and is not one of the approval words (in any case) starts a turn with exactly that
  content.
\<close>

theorem ordinary_text_is_input:
  assumes "\<not> starts_with (trim content) ''/''" and "\<not> starts_with (trim content) ''{''"
    and "map ascii_lower (trim content) \<notin> set (YES_WORDS @ ALWAYS_WORDS @ NO_WORDS)"
  shows "parse_submission parse_uuid from_json content = UserInput content"
proof -
  have "\<not> starts_with (map ascii_lower (trim content)) ''/''"
    using assms(1) by (cases "trim content") (auto simp: starts_with_def ascii_lower_slash)
  note this [THEN no_slash_commands(1)] this [THEN no_slash_commands(2)] this [THEN no_slash_commands(3)]
    this [THEN no_slash_commands(4)] this [THEN no_slash_commands(5)] this [THEN no_slash_commands(6)]
    this [THEN no_slash_commands(7)] this [THEN no_slash_commands(8)]
  moreover have "parse_structured from_json (trim content) = None" using assms(2) by (simp add: parse_structured_def)
  moreover have "parse_approval (map ascii_lower (trim content)) = None" using assms(3) by (simp add: parse_approval_def)
  ultimately show ?thesis by (simp add: parse_submission_def Let_def)
qed

lemma ordinary_text_is_input_witness:
  "parse_submission (\<lambda>_. None) (\<lambda>_. None) '' Yes, do it '' = UserInput '' Yes, do it ''"
  by (rule ordinary_text_is_input) code_simp+

text \<open>Which submissions can only come from the structured form.\<close>

definition structured_only :: "submission \<Rightarrow> bool" where
  "structured_only s =
     (case s of ExecApproval _ _ _ \<Rightarrow> True | ExternalCallback _ \<Rightarrow> True | GateAuthResolution _ _ \<Rightarrow> True | _ \<Rightarrow> False)"

lemma structured_only_simps [simp]:
  "structured_only (UserInput t) = False" "structured_only (ApprovalResponse p w) = False"
  "structured_only SubInterrupt = False" "structured_only SubCompact = False" "structured_only SubUndo = False"
  "structured_only SubRedo = False" "structured_only (SubResume i) = False" "structured_only SubClear = False"
  "structured_only (SwitchThread i) = False" "structured_only NewThread = False" "structured_only ListThreads = False"
  "structured_only Heartbeat = False" "structured_only Summarize = False" "structured_only Suggest = False"
  "structured_only (Expected t) = False" "structured_only (JobStatus j) = False" "structured_only (JobCancel t) = False"
  "structured_only SubQuit = False" "structured_only (SystemCommand t ws) = False" "structured_only (Plan sub) = False"
  by (simp_all add: structured_only_def)

lemma control_not_structured: "parse_control lower = Some s \<Longrightarrow> \<not> structured_only s"
  by (auto simp: parse_control_def split: if_splits)

lemma if_SomeD: "(if P then Some a else x) = Some s \<Longrightarrow> s = a \<or> x = Some s"
  by (simp split: if_splits)

lemma system_not_structured: "parse_system t lower = Some s \<Longrightarrow> \<not> structured_only s"
  unfolding parse_system_def by (elim if_SomeD [THEN disjE]) simp_all

lemma text_not_structured:
  "parse_expected t lower = Some s \<Longrightarrow> \<not> structured_only s"
  "parse_new_thread lower = Some s \<Longrightarrow> \<not> structured_only s"
  "parse_quit lower = Some s \<Longrightarrow> \<not> structured_only s"
  "parse_approval lower = Some s \<Longrightarrow> \<not> structured_only s"
  by (auto simp: parse_expected_def parse_new_thread_def parse_quit_def parse_approval_def Let_def split: if_splits)

lemma jobs_not_structured: "parse_jobs lower = Some s \<Longrightarrow> \<not> structured_only s"
  by (auto simp: parse_jobs_def parse_status_id_def parse_cancel_def split: if_splits option.splits)

lemma threads_not_structured: "parse_threads parse_uuid lower = Some s \<Longrightarrow> \<not> structured_only s"
  by (auto simp: parse_threads_def split: if_splits option.splits)

lemma first_some_mem: "first_some xs = Some s \<Longrightarrow> list_ex (\<lambda>x. x = Some s) xs"
  by (induction xs) (auto split: option.splits)

lemma structured_parsed:
  "(case x of Some s \<Rightarrow> s | None \<Rightarrow> UserInput c) = s \<Longrightarrow> structured_only s \<Longrightarrow> x = Some s"
  by (auto split: option.splits)

lemma plan_rest_not_structured: "parse_plan_rest t rest = Some s \<Longrightarrow> \<not> structured_only s"
  unfolding parse_plan_rest_def
  by (drule first_some_mem) (auto simp: bind_eq_Some_conv case_prod_unfold Let_def split: if_splits option.splits)

lemma plan_not_structured: "parse_plan t lower = Some s \<Longrightarrow> \<not> structured_only s"
  by (auto simp: parse_plan_def dest: plan_rest_not_structured split: if_splits option.splits)

text \<open>
  A resolution with a request id (of an approval, of a callback, of an authentication gate) is
  never read from plain text: it comes from a JSON object, and is the submission that object
  denotes; the other submissions a JSON object may denote are not accepted in that form.
\<close>

theorem resolutions_structured:
  assumes "parse_submission parse_uuid from_json content = s" and "structured_only s"
  shows "starts_with (trim content) ''{'' \<and> from_json (trim content) = Some s"
proof -
  let ?t = "trim content" and ?l = "map ascii_lower (trim content)"
  have "first_some
           [parse_control ?l, parse_expected ?t ?l, parse_new_thread ?l, parse_system ?t ?l,
            parse_quit ?l, parse_jobs ?l, parse_threads parse_uuid ?l, parse_structured from_json ?t,
            parse_approval ?l, parse_plan ?t ?l] = Some s"
    using assms unfolding parse_submission_def Let_def by (rule structured_parsed)
  from first_some_mem [OF this] have "parse_structured from_json ?t = Some s"
    using assms(2) control_not_structured [of ?l s] text_not_structured(1) [of ?t ?l s] system_not_structured [of ?t ?l s]
      jobs_not_structured [of ?l s] threads_not_structured [of parse_uuid ?l s] plan_not_structured [of ?t ?l s]
      text_not_structured(2-4) [of ?l s]
    unfolding list_ex_Cons_iff list_ex_Nil_iff by blast
  then show ?thesis
    by (auto simp: parse_structured_def split: if_splits option.splits submission.splits)
qed

lemma resolutions_structured_witness:
  "starts_with (trim ''{}'') ''{'' \<and> (\<lambda>_. Some (ExecApproval 5 True False)) (trim ''{}'') = Some (ExecApproval 5 True False)"
proof (rule resolutions_structured)
  show "parse_submission (\<lambda>_. None) (\<lambda>_. Some (ExecApproval 5 True False)) ''{}'' = ExecApproval 5 True False"
    by code_simp
qed (simp add: structured_only_def)

lemma lower_trim: "trim (map ascii_lower s) = map ascii_lower (trim s)"
proof -
  have sp: "is_space (ascii_lower c) = is_space c" for c
    by (auto simp: is_space_def ascii_lower_def Let_def)
  show ?thesis by (simp add: trim_def trim_start_def dropWhile_map rev_map comp_def sp)
qed

lemma plan_stages:
  assumes "starts_with lower ''/plan ''" and "\<not> starts_with trimmed ''{''"
  shows "first_some
           [parse_control lower, parse_expected trimmed lower, parse_new_thread lower, parse_system trimmed lower,
            parse_quit lower, parse_jobs lower, parse_threads parse_uuid lower, parse_structured from_json trimmed,
            parse_approval lower, parse_plan trimmed lower] = parse_plan trimmed lower"
proof -
  obtain t where t: "lower = ''/plan '' @ t" using assms(1) by (auto simp: starts_with_iff)
  have "parse_control lower = None" by (simp add: t parse_control_def)
  moreover have "parse_expected trimmed lower = None" by (simp add: t parse_expected_def starts_with_def)
  moreover have "parse_new_thread lower = None" by (simp add: t parse_new_thread_def)
  moreover have "parse_system trimmed lower = None" by (simp add: t parse_system_def starts_with_def)
  moreover have "parse_quit lower = None" by (simp add: t parse_quit_def)
  moreover have "parse_jobs lower = None"
    by (simp add: t parse_jobs_def parse_status_id_def parse_cancel_def strip_prefix_def)
  moreover have "parse_threads parse_uuid lower = None" by (simp add: t parse_threads_def strip_prefix_def)
  moreover have "parse_structured from_json trimmed = None" using assms(2) by (simp add: parse_structured_def)
  moreover have "parse_approval lower = None"
    by (simp add: t parse_approval_def YES_WORDS_def ALWAYS_WORDS_def NO_WORDS_def)
  ultimately show ?thesis by (simp split: option.split)
qed

lemma parse_plan_content:
  assumes "trim c = c" and "starts_with (map ascii_lower c) ''/plan ''" and "\<not> starts_with c ''{''"
  shows "parse_submission parse_uuid from_json c
     = (case parse_plan c (map ascii_lower c) of Some s \<Rightarrow> s | None \<Rightarrow> UserInput c)"
  unfolding parse_submission_def Let_def assms(1) plan_stages [OF assms(2,3)] ..

text \<open>
  The plan commands are recognised by their letters, not as words, and on lower-cased text: a plan
  description that starts with \<open>approve\<close> is taken as an approval of the plan named by the
  remaining letters, and the feedback of a revision loses its capitals.
\<close>

theorem plan_words_misread:
  assumes "x \<noteq> []" and "\<not> is_space (hd x)" and "\<not> is_space (last x)"
  shows "parse_submission parse_uuid from_json (''/plan approve'' @ x) = Plan (PlanApprove (Some (map ascii_lower x)))
     \<and> parse_submission parse_uuid from_json (''/plan revise p1 '' @ x) = Plan (PlanRevise (Some ''p1'') (map ascii_lower x))"
proof -
  have tx: "trim x = x" "trim (map ascii_lower x) = map ascii_lower x"
    using assms trim_id [of x] by (simp_all add: lower_trim)
  have tp: "trim (p @ x) = p @ x" if "p \<noteq> []" "\<not> is_space (hd p)" for p
    using assms that by (intro trim_id) simp
  have ns: "\<not> is_space (CHR ''/'')" "\<not> is_space (CHR ''a'')" "\<not> is_space (CHR ''r'')" "\<not> is_space (CHR ''p'')"
    by code_simp+
  let ?a = "''/plan approve'' @ x" and ?r = "''/plan revise p1 '' @ x"
  have low: "map ascii_lower ?a = ''/plan approve'' @ map ascii_lower x"
    "map ascii_lower ?r = ''/plan revise p1 '' @ map ascii_lower x"
    by (simp_all add: ascii_lower_def)
  let ?x = "map ascii_lower x"
  have rests: "trim (''approve'' @ ?x) = ''approve'' @ ?x" "trim (''revise p1 '' @ ?x) = ''revise p1 '' @ ?x"
    "trim (''p1 '' @ ?x) = ''p1 '' @ ?x"
    using tp [of "''approve''"] tp [of "''revise p1 ''"] tp [of "''p1 ''"] ns(2-4) lower_trim [of "''approve'' @ x"] lower_trim [of "''revise p1 '' @ x"] lower_trim [of "''p1 '' @ x"]
    by (simp_all add: ascii_lower_def)
  have trim_blank: "trim (CHR '' '' # y) = trim y" for y
    by (simp add: trim_def trim_start_def is_space_def)
  have "parse_submission parse_uuid from_json ?a
      = (case parse_plan ?a (map ascii_lower ?a) of Some s \<Rightarrow> s | None \<Rightarrow> UserInput ?a)"
    by (rule parse_plan_content) (use tp [of "''/plan approve''"] ns(1) in \<open>simp_all add: ascii_lower_def starts_with_def\<close>)
  moreover have "parse_plan ?a (map ascii_lower ?a) = Some (Plan (PlanApprove (Some ?x)))"
    using rests(1) tx assms(1) unfolding low
    by (simp add: parse_plan_def strip_prefix_def parse_plan_rest_def non_empty_def)
  moreover have "parse_submission parse_uuid from_json ?r
      = (case parse_plan ?r (map ascii_lower ?r) of Some s \<Rightarrow> s | None \<Rightarrow> UserInput ?r)"
    by (rule parse_plan_content) (use tp [of "''/plan revise p1 ''"] ns(1) in \<open>simp_all add: ascii_lower_def starts_with_def\<close>)
  moreover have "parse_plan ?r (map ascii_lower ?r) = Some (Plan (PlanRevise (Some ''p1'') ?x))"
    using rests(2,3) tx assms(1) trim_blank unfolding low
    by (simp add: parse_plan_def strip_prefix_def parse_plan_rest_def split_once_def)
  ultimately show ?thesis by simp
qed

lemma plan_words_misread_witness:
  "parse_submission (\<lambda>_. None) (\<lambda>_. None) (''/plan approve'' @ ''d Budget'') = Plan (PlanApprove (Some ''d budget''))"
proof -
  have "map ascii_lower ''d Budget'' = ''d budget''" by code_simp
  then show ?thesis
    using plan_words_misread [of "''d Budget''" "\<lambda>_. None" "\<lambda>_. None"] by (simp add: is_space_def)
qed

end
