(* ===== verification/Chat_Agent.thy ===== *)
theory Chat_Agent
  imports Chat_Tools Tool_Permissions Llm_Error
begin

text \<open>
  The chat agent as a consumer of the agentic loop (\<open>ChatDelegate\<close> and
  \<open>Agent::run_agentic_loop\<close> of \<open>src/agent/dispatcher.rs\<close>): signals, what is prepared before a
  model call, the call with its cost check and retry after compaction, text responses, and the
  configuration of the loop. The settings store is read once per iteration (\<open>cl_settings\<close>: no
  store, a failure, or the user's permissions); the model, the cost guard and the prompts are
  parameters. \<open>cl_world\<close> is what other tasks did to the session before the signals are checked.
  The cost of a call and the text of the prompts do not influence the control flow.
\<close>

record turn_usage =
  tu_usage :: response_usage
  tu_cost :: rat

record chat_loop_state =
  cs_chat :: chat_state
  cs_usage :: turn_usage

record chat_loop_env =
  cl_env :: chat_env
  cl_tool_defs :: "tool_definition list"
  cl_active_skills :: "skill_trust list"
  cl_multi_tenant :: bool
  cl_is_admin :: bool
  cl_admin_policy :: admin_tool_policy_state
  cl_settings :: "nat \<Rightarrow> (string + (string, permission_state) hmap) option"
  cl_model_setting :: "json option"
  cl_temperature_setting :: "json option"
  cl_clamped_f32 :: "json \<Rightarrow> u32 option"
  cl_cached_prompt :: string
  cl_cached_prompt_no_tools :: string
  cl_nudge_at :: nat
  cl_force_text_at :: nat
  cl_world :: "session \<Rightarrow> session"
  cl_cost_check :: "nat \<Rightarrow> string option"
  cl_respond :: "nat \<Rightarrow> bool \<Rightarrow> reasoning_context \<Rightarrow> llm_error + respond_output"
  cl_call_cost :: "string option \<Rightarrow> response_usage \<Rightarrow> rat"

section \<open>Usage\<close>

definition record_turn_usage :: "response_usage \<Rightarrow> rat \<Rightarrow> turn_usage \<Rightarrow> turn_usage" where
  "record_turn_usage u cost t =
     \<lparr>tu_usage =
        \<lparr>ru_input_tokens = sat_add (ru_input_tokens (tu_usage t)) (ru_input_tokens u),
         ru_output_tokens = sat_add (ru_output_tokens (tu_usage t)) (ru_output_tokens u),
         ru_cache_read_input_tokens = sat_add (ru_cache_read_input_tokens (tu_usage t)) (ru_cache_read_input_tokens u),
         ru_cache_creation_input_tokens =
           sat_add (ru_cache_creation_input_tokens (tu_usage t)) (ru_cache_creation_input_tokens u)\<rparr>,
      tu_cost = tu_cost t + cost\<rparr>"

definition turn_usage_default :: turn_usage where
  "turn_usage_default = \<lparr>tu_usage = \<lparr>ru_input_tokens = 0, ru_output_tokens = 0, ru_cache_read_input_tokens = 0,
     ru_cache_creation_input_tokens = 0\<rparr>, tu_cost = 0\<rparr>"

section \<open>Signals and text\<close>

definition chat_check_signals :: "chat_loop_env \<Rightarrow> chat_loop_state \<Rightarrow> loop_signal \<times> chat_loop_state" where
  "chat_check_signals L d0 =
     (let s = cl_world L (cd_session (cs_chat d0));
          d = d0\<lparr>cs_chat := (cs_chat d0)\<lparr>cd_session := s\<rparr>\<rparr>
      in case hm_get (ss_threads s) (ce_thread_id (cl_env L)) of
           Some th \<Rightarrow> if ct_state th = ThreadInterrupted then (SignalStop, d) else (SignalContinue, d)
         | None \<Rightarrow> (SignalContinue, d))"

definition internal_marker :: "string \<Rightarrow> bool" where
  "internal_marker line =
     (let trimmed = trim line
      in (starts_with trimmed ''[Called tool '' \<and> ends_with trimmed '']'')
         \<or> (starts_with trimmed ''[Tool '' \<and> contains_str trimmed '' returned:'' \<and> ends_with trimmed '']''))"

definition strip_internal_tool_call_text :: "string \<Rightarrow> string" where
  "strip_internal_tool_call_text txt =
     (let kept = fold (\<lambda>s acc. (if acc \<noteq> [] then acc @ [NL] else acc) @ s)
                   (filter (\<lambda>l. \<not> internal_marker l) (text_lines txt)) [];
          result = trim kept
      in if result = []
         then ''I wasn'' @ [CHR 0x27] @ ''t able to complete that request. Could you try rephrasing or providing more details?''
         else result)"

definition chat_handle_text_response ::
  "string \<Rightarrow> response_anomaly option \<Rightarrow> chat_loop_state \<times> reasoning_context \<Rightarrow>
     pending_approval text_action \<times> chat_loop_state \<times> reasoning_context" where
  "chat_handle_text_response txt anomaly = (\<lambda>(d, ctx).
     (TextReturn (LoopResponse (strip_internal_tool_call_text txt)), d, ctx))"

section \<open>Before a model call\<close>

definition ITERATION_LIMIT_NUDGE :: string where
  "ITERATION_LIMIT_NUDGE = ''You are approaching the tool call limit. ''
     @ ''Provide your best final answer on the next response ''
     @ ''using the information you have gathered so far. ''
     @ ''Do not call any more tools.''"

definition attenuated_defs :: "chat_loop_env \<Rightarrow> tool_definition list" where
  "attenuated_defs L =
     (if cl_active_skills L \<noteq> [] then at_tools (attenuate_tools (cl_tool_defs L) (cl_active_skills L))
      else cl_tool_defs L)"

definition admin_filtered_defs :: "chat_loop_env \<Rightarrow> tool_definition list" where
  "admin_filtered_defs L =
     filter_admin_disabled_tools (attenuated_defs L) (cl_multi_tenant L) (cl_is_admin L)
       (ce_user_id (cl_env L)) (cl_admin_policy L)"

definition set_auto_approved :: "string list \<Rightarrow> chat_loop_state \<Rightarrow> chat_loop_state" where
  "set_auto_approved names d =
     d\<lparr>cs_chat := (cs_chat d)\<lparr>cd_session :=
         fold auto_approve_tool names ((cd_session (cs_chat d))\<lparr>ss_auto_approved_tools := []\<rparr>)\<rparr>\<rparr>"

definition chat_before_llm_call ::
  "chat_loop_env \<Rightarrow> nat \<Rightarrow> chat_loop_state \<times> reasoning_context \<Rightarrow>
     pending_approval loop_outcome option \<times> chat_loop_state \<times> reasoning_context" where
  "chat_before_llm_call L i = (\<lambda>(d, ctx).
     let ctx1 = (if i = cl_nudge_at L then push_messages [chat_system ITERATION_LIMIT_NUDGE] ctx else ctx);
         force_text = (i \<ge> cl_force_text_at L);
         defs = admin_filtered_defs L
     in case cl_settings L i of
          Some (Inl e) \<Rightarrow> (None, d, ctx1)
        | store \<Rightarrow>
            let perms = (case store of Some (Inr m) \<Rightarrow> m | _ \<Rightarrow> []);
                auto = map td_name (filter (\<lambda>t. effective_permission (td_name t) perms = AlwaysAllow) defs);
                published = filter (\<lambda>t. effective_permission (td_name t) perms \<noteq> Disabled) defs;
                force = (force_text \<or> rx_force_text ctx1)
            in (None, set_auto_approved auto d,
                ctx1\<lparr>rx_available_tools := published,
                     rx_system_prompt := Some (if force then cl_cached_prompt_no_tools L else cl_cached_prompt L),
                     rx_force_text := force\<rparr>))"

section \<open>The model call\<close>

definition selected_model_override :: "json \<Rightarrow> string option" where
  "selected_model_override v = normalized_model_override (json_as_str v)"

definition resolve_settings_temperature ::
  "(json \<Rightarrow> u32 option) \<Rightarrow> u32 option \<Rightarrow> json option \<Rightarrow> u32 option" where
  "resolve_settings_temperature clamped_f32 current setting =
     (if current \<noteq> None then None else Option.bind setting clamped_f32)"

definition apply_model_settings :: "chat_loop_env \<Rightarrow> reasoning_context \<Rightarrow> reasoning_context" where
  "apply_model_settings L ctx =
     (let ctx1 = (case Option.bind (cl_model_setting L) selected_model_override of
                    Some model \<Rightarrow> ctx\<lparr>rx_model_override := Some model\<rparr> | None \<Rightarrow> ctx)
      in case resolve_settings_temperature (cl_clamped_f32 L) (rx_temperature ctx1) (cl_temperature_setting L) of
           Some t \<Rightarrow> ctx1\<lparr>rx_temperature := Some t\<rparr> | None \<Rightarrow> ctx1)"

definition COMPACTION_NOTE :: string where
  "COMPACTION_NOTE = ''[Note: Earlier conversation history was automatically compacted ''
     @ ''to fit within the context window. The most recent exchange is preserved below.]''"

definition compact_messages_for_retry :: "chat_message list \<Rightarrow> chat_message list" where
  "compact_messages_for_retry messages =
     (let after = length (takeWhile (\<lambda>m. cm_role m \<noteq> UserRole) (rev messages))
      in if after < length messages then
           let idx = length messages - Suc after
           in filter (\<lambda>m. cm_role m = SystemRole) (take idx messages)
              @ (if idx > 0 then [chat_system COMPACTION_NOTE] else [])
              @ drop idx messages
         else filter (\<lambda>m. cm_role m = SystemRole) messages @ filter (\<lambda>m. cm_role m \<noteq> SystemRole) messages)"

definition record_usage :: "chat_loop_env \<Rightarrow> reasoning_context \<Rightarrow> respond_output \<Rightarrow> chat_loop_state \<Rightarrow> chat_loop_state" where
  "record_usage L ctx out d =
     d\<lparr>cs_usage := record_turn_usage (ro_usage out) (cl_call_cost L (rx_model_override ctx) (ro_usage out)) (cs_usage d)\<rparr>"

definition chat_call_llm ::
  "chat_loop_env \<Rightarrow> nat \<Rightarrow> chat_loop_state \<times> reasoning_context \<Rightarrow>
     (llm_error + respond_output) \<times> chat_loop_state \<times> reasoning_context" where
  "chat_call_llm L i = (\<lambda>(d, ctx).
     case cl_cost_check L i of
       Some limit \<Rightarrow> (Err (InvalidResponse ''agent'' limit), d, ctx)
     | None \<Rightarrow>
         let ctx1 = (if i = 0 then apply_model_settings L ctx else ctx)
         in case cl_respond L i False ctx1 of
              Inr out \<Rightarrow> (Ok out, record_usage L ctx1 out d, ctx1)
            | Inl (ContextLengthExceeded used limit) \<Rightarrow>
                let ctx2 = ctx1\<lparr>rx_messages := compact_messages_for_retry (rx_messages ctx1)\<rparr>;
                    ctx3 = (if rx_force_text ctx2 then ctx2\<lparr>rx_available_tools := []\<rparr> else ctx2)
                in (case cl_respond L i True ctx3 of
                      Inr out \<Rightarrow> (Ok out, record_usage L ctx3 out d, ctx3)
                    | Inl e \<Rightarrow> (Err e, d, ctx3))
            | Inl e \<Rightarrow> (Err e, d, ctx1))"

section \<open>The delegate and its loop\<close>

definition chat_delegate :: "chat_loop_env \<Rightarrow> (chat_loop_state, llm_error, pending_approval) loop_delegate" where
  "chat_delegate L = \<lparr>
     ld_check_signals = chat_check_signals L,
     ld_before_llm_call = chat_before_llm_call L,
     ld_call_llm = chat_call_llm L,
     ld_handle_text_response = chat_handle_text_response,
     ld_execute_tool_calls = (\<lambda>calls content (d, ctx).
       case chat_execute_tool_calls (cl_env L) calls content (cs_chat d, ctx) of
         (r, c, ctx1) \<Rightarrow> (r, d\<lparr>cs_chat := c\<rparr>, ctx1)),
     ld_on_tool_intent_nudge = (\<lambda>_ s. s),
     ld_after_iteration = (\<lambda>_ d. d)\<rparr>"

text \<open>
  A message whose skill mentions were expanded replaces the last user message of the conversation
  (\<open>iter_mut().rev().find(..)\<close>).
\<close>

definition replace_last_user :: "chat_message \<Rightarrow> chat_message list \<Rightarrow> chat_message list" where
  "replace_last_user m messages =
     (let after = length (takeWhile (\<lambda>m. cm_role m \<noteq> UserRole) (rev messages))
      in if after < length messages then messages[length messages - Suc after := m] else messages)"

definition messages_for_llm :: "string \<Rightarrow> string \<Rightarrow> chat_message list \<Rightarrow> chat_message list" where
  "messages_for_llm original rewritten initial =
     (if rewritten \<noteq> original then replace_last_user (chat_user rewritten) initial else initial)"

definition chat_context :: "(uuid \<Rightarrow> string) \<Rightarrow> chat_loop_env \<Rightarrow> chat_message list \<Rightarrow> reasoning_context" where
  "chat_context uuid_str L messages =
     reasoning_context_new\<lparr>rx_messages := messages, rx_available_tools := attenuated_defs L,
       rx_system_prompt := Some (cl_cached_prompt L),
       rx_metadata := [(''thread_id'', uuid_str (ce_thread_id (cl_env L)))]\<rparr>"

datatype chat_error = JobContextError uuid string | ChatLlmError llm_error

datatype agentic_loop_result = ArResponse string turn_usage | ArNeedApproval pending_approval turn_usage
  | ArFailed chat_error turn_usage | ArAuthPending turn_usage

definition chat_loop_config :: "nat \<Rightarrow> agentic_loop_config" where
  "chat_loop_config max_tool_iterations =
     \<lparr>al_max_iterations = max_tool_iterations + 1, al_enable_tool_intent_nudge = True, al_max_tool_intent_nudges = 2\<rparr>"

definition loop_result :: "uuid \<Rightarrow> nat \<Rightarrow> turn_usage \<Rightarrow> llm_error + pending_approval loop_outcome \<Rightarrow> agentic_loop_result" where
  "loop_result thread_id max_tool_iterations u outcome =
     (case outcome of
        Inr (LoopResponse txt) \<Rightarrow> ArResponse txt u
      | Inr LoopStopped \<Rightarrow> ArFailed (JobContextError thread_id ''Interrupted'') u
      | Inr LoopMaxIterations \<Rightarrow>
          ArFailed (ChatLlmError (InvalidResponse ''agent''
            (''Exceeded maximum tool iterations ('' @ show_nat max_tool_iterations @ '')''))) u
      | Inr (LoopFailure reason) \<Rightarrow> ArFailed (ChatLlmError (InvalidResponse ''agent'' reason)) u
      | Inr (LoopNeedApproval pending) \<Rightarrow> ArNeedApproval pending u
      | Inr (LoopAuthPending _) \<Rightarrow> ArAuthPending u
      | Inl e \<Rightarrow> ArFailed (ChatLlmError e) u)"

definition run_chat_loop ::
  "(tool_call list \<Rightarrow> u64) \<Rightarrow> (uuid \<Rightarrow> string) \<Rightarrow> chat_loop_env \<Rightarrow> nat \<Rightarrow> string \<Rightarrow> string \<Rightarrow> chat_message list \<Rightarrow>
     chat_state \<Rightarrow> agentic_loop_result \<times> chat_state" where
  "run_chat_loop fp uuid_str L0 max_tool_iterations original rewritten initial d =
     (let L = L0\<lparr>cl_nudge_at := max_tool_iterations - 1, cl_force_text_at := max_tool_iterations\<rparr>;
          ctx = chat_context uuid_str L (messages_for_llm original rewritten initial);
          (outcome, (d1, ctx1), v) =
            run_agentic_loop fp (chat_delegate L) (chat_loop_config max_tool_iterations)
              (\<lparr>cs_chat = d, cs_usage = turn_usage_default\<rparr>, ctx)
      in (loop_result (ce_thread_id (cl_env L)) max_tool_iterations (cs_usage d1) outcome, cs_chat d1))"

section \<open>What the model is shown\<close>

lemma fold_auto_approve_set:
  "set (ss_auto_approved_tools (fold auto_approve_tool ns s)) = set (ss_auto_approved_tools s) \<union> set ns"
  by (induction ns arbitrary: s) (auto simp: auto_approve_tool_def)

lemma admin_filtered_sub: "t \<in> set (admin_filtered_defs L) \<Longrightarrow> t \<in> set (attenuated_defs L)"
  by (auto simp: admin_filtered_defs_def filter_admin_disabled_tools_def Let_def
      split: if_splits admin_tool_policy_state.splits)

lemma admin_filtered_policy:
  "t \<in> set (admin_filtered_defs L) \<Longrightarrow> cl_multi_tenant L \<Longrightarrow> \<not> cl_is_admin L \<Longrightarrow> cl_admin_policy L = PolicyLoaded p \<Longrightarrow>
     \<not> is_tool_disabled p (td_name t) (ce_user_id (cl_env L))"
  by (simp add: admin_filtered_defs_def admin_filter_agrees)

lemma attenuated_installed:
  "t \<in> set (attenuated_defs L) \<Longrightarrow> Installed \<in> set (cl_active_skills L) \<Longrightarrow> td_name t \<in> set READ_ONLY_TOOLS"
  by (cases "cl_active_skills L") (auto simp: attenuated_defs_def attenuate_installed)

definition permissions_of :: "(string + (string, permission_state) hmap) option \<Rightarrow> (string, permission_state) hmap" where
  "permissions_of store = (case store of Some (Inr m) \<Rightarrow> m | _ \<Rightarrow> [])"

lemma chat_before_ok:
  assumes "\<forall>e. cl_settings L i \<noteq> Some (Inl e)"
  shows "chat_before_llm_call L i (d, ctx) =
     (let ctx1 = (if i = cl_nudge_at L then push_messages [chat_system ITERATION_LIMIT_NUDGE] ctx else ctx);
          perms = permissions_of (cl_settings L i);
          force = (i \<ge> cl_force_text_at L \<or> rx_force_text ctx1)
      in (None,
          set_auto_approved (map td_name (filter (\<lambda>t. effective_permission (td_name t) perms = AlwaysAllow) (admin_filtered_defs L))) d,
          ctx1\<lparr>rx_available_tools := filter (\<lambda>t. effective_permission (td_name t) perms \<noteq> Disabled) (admin_filtered_defs L),
               rx_system_prompt := Some (if force then cl_cached_prompt_no_tools L else cl_cached_prompt L),
               rx_force_text := force\<rparr>))"
  using assms by (cases "cl_settings L i") (auto simp: chat_before_llm_call_def permissions_of_def Let_def split: sum.split)

text \<open>
  When the user's settings can be read, the model is shown exactly permitted tools before each
  call: every published tool is defined, is read-only when an installed skill is active, is not
  disabled by a loaded admin policy (for a non-admin in a multi-tenant system) nor by the user; the
  tools approved without asking are exactly the published ones that are always allowed; and from
  the last allowed tool iteration on the call is text-only.
\<close>

theorem tools_shown_permitted:
  assumes "\<forall>e. cl_settings L i \<noteq> Some (Inl e)"
    and "chat_before_llm_call L i (d, ctx) = (r, d', ctx')" and "t \<in> set (rx_available_tools ctx')"
  shows "t \<in> set (cl_tool_defs L)
     \<and> (Installed \<in> set (cl_active_skills L) \<longrightarrow> td_name t \<in> set READ_ONLY_TOOLS)
     \<and> (\<forall>p. cl_multi_tenant L \<and> \<not> cl_is_admin L \<and> cl_admin_policy L = PolicyLoaded p \<longrightarrow>
          \<not> is_tool_disabled p (td_name t) (ce_user_id (cl_env L)))
     \<and> effective_permission (td_name t) (permissions_of (cl_settings L i)) \<noteq> Disabled
     \<and> (is_tool_auto_approved (td_name t) (cd_session (cs_chat d')) \<longleftrightarrow>
          effective_permission (td_name t) (permissions_of (cl_settings L i)) = AlwaysAllow)
     \<and> (cl_force_text_at L \<le> i \<longrightarrow> rx_force_text ctx')"
proof -
  let ?perms = "permissions_of (cl_settings L i)"
  from assms(2) chat_before_ok [OF assms(1)]
  have tools: "rx_available_tools ctx' = filter (\<lambda>t. effective_permission (td_name t) ?perms \<noteq> Disabled) (admin_filtered_defs L)"
    and d': "d' = set_auto_approved (map td_name (filter (\<lambda>t. effective_permission (td_name t) ?perms = AlwaysAllow) (admin_filtered_defs L))) d"
    and force: "cl_force_text_at L \<le> i \<longrightarrow> rx_force_text ctx'"
    by (auto simp: Let_def)
  have shown: "t \<in> set (admin_filtered_defs L)" "effective_permission (td_name t) ?perms \<noteq> Disabled"
    using assms(3) by (simp_all add: tools)
  have att: "t \<in> set (attenuated_defs L)" using shown(1) by (rule admin_filtered_sub)
  have "t \<in> set (cl_tool_defs L)"
    using att by (cases "Installed \<in> set (cl_active_skills L)")
      (auto simp: attenuated_defs_def attenuate_installed attenuate_trusted split: if_splits)
  moreover have "is_tool_auto_approved (td_name t) (cd_session (cs_chat d')) \<longleftrightarrow> effective_permission (td_name t) ?perms = AlwaysAllow"
    using shown by (auto simp: d' set_auto_approved_def is_tool_auto_approved_def fold_auto_approve_set)
  ultimately show ?thesis
    using shown att force attenuated_installed admin_filtered_policy by blast
qed

definition plain_loop_env :: chat_loop_env where
  "plain_loop_env = \<lparr>cl_env = plain_env,
     cl_tool_defs = [\<lparr>td_name = ''echo'', td_description = [], td_parameters = JNull\<rparr>],
     cl_active_skills = [], cl_multi_tenant = False, cl_is_admin = False, cl_admin_policy = PolicyMissing,
     cl_settings = (\<lambda>_. None), cl_model_setting = Some (JString ''big''), cl_temperature_setting = None,
     cl_clamped_f32 = (\<lambda>_. None), cl_cached_prompt = [], cl_cached_prompt_no_tools = [], cl_nudge_at = 9,
     cl_force_text_at = 10, cl_world = (\<lambda>s. s), cl_cost_check = (\<lambda>_. None), cl_respond = (\<lambda>_ _ _. Err (EmptyResponse [])),
     cl_call_cost = (\<lambda>_ _. 0)\<rparr>"

definition plain_loop_state :: chat_loop_state where
  "plain_loop_state = \<lparr>cs_chat = plain_state, cs_usage = turn_usage_default\<rparr>"

lemma tools_shown_permitted_witness:
  "is_tool_auto_approved ''echo'' (cd_session (cs_chat (fst (snd (chat_before_llm_call plain_loop_env 1 (plain_loop_state, reasoning_context_new))))))"
proof -
  let ?t = "\<lparr>td_name = ''echo'', td_description = [], td_parameters = JNull\<rparr>"
  let ?r = "chat_before_llm_call plain_loop_env 1 (plain_loop_state, reasoning_context_new)"
  have no_error: "\<forall>e. cl_settings plain_loop_env 1 \<noteq> Some (Inl e)" by (simp add: plain_loop_env_def)
  have eq: "?r = (fst ?r, fst (snd ?r), snd (snd ?r))" by simp
  have allow: "effective_permission ''echo'' [] = AlwaysAllow" by code_simp
  have shown: "?t \<in> set (rx_available_tools (snd (snd ?r)))"
    unfolding chat_before_ok [OF no_error]
    by (simp add: plain_loop_env_def admin_filtered_defs_def filter_admin_disabled_tools_def attenuated_defs_def
        permissions_of_def allow Let_def)
  have "permissions_of (cl_settings plain_loop_env 1) = []" by (simp add: plain_loop_env_def permissions_of_def)
  with tools_shown_permitted [OF no_error eq shown] allow show ?thesis by simp
qed

text \<open>
  When the settings cannot be read, nothing is withheld on the first call: the model is shown
  every tool definition that the skills leave, whatever the admin policy says (even one that fails
  closed) and whatever the user disabled, and the approvals granted before stay in force.
\<close>

theorem settings_failure_shows_all:
  assumes "cl_settings L i = Some (Inl e)"
  shows "let (r, d', ctx') = chat_before_llm_call L i (d, chat_context uuid_str L messages)
     in r = None \<and> rx_available_tools ctx' = attenuated_defs L \<and> d' = d
        \<and> (cl_active_skills L = [] \<longrightarrow> rx_available_tools ctx' = cl_tool_defs L)"
  using assms
  by (simp add: chat_before_llm_call_def chat_context_def push_messages_def attenuated_defs_def Let_def)

lemma settings_failure_shows_all_witness:
  "let L = plain_loop_env\<lparr>cl_settings := (\<lambda>_. Some (Inl ''db down'')), cl_multi_tenant := True,
        cl_admin_policy := PolicyFailClosed\<rparr>;
      (r, d', ctx') = chat_before_llm_call L 1 (plain_loop_state, chat_context show_nat L [])
   in map td_name (rx_available_tools ctx') = [''echo''] \<and> admin_filtered_defs L = []"
proof -
  let ?L = "plain_loop_env\<lparr>cl_settings := (\<lambda>_. Some (Inl ''db down'')), cl_multi_tenant := True,
        cl_admin_policy := PolicyFailClosed\<rparr>"
  have "cl_settings ?L 1 = Some (Inl ''db down'')" by simp
  from settings_failure_shows_all [OF this, of plain_loop_state show_nat "[]"]
  show ?thesis
    by (simp add: Let_def case_prod_unfold attenuated_defs_def admin_filtered_defs_def filter_admin_disabled_tools_def)
      (simp add: plain_loop_env_def)
qed

section \<open>The settings of the model\<close>

lemma llm_update_fields:
  "ld_check_signals (D\<lparr>ld_call_llm := f\<rparr>) = ld_check_signals D"
  "ld_before_llm_call (D\<lparr>ld_call_llm := f\<rparr>) = ld_before_llm_call D"
  "ld_handle_text_response (D\<lparr>ld_call_llm := f\<rparr>) = ld_handle_text_response D"
  "ld_execute_tool_calls (D\<lparr>ld_call_llm := f\<rparr>) = ld_execute_tool_calls D"
  "ld_on_tool_intent_nudge (D\<lparr>ld_call_llm := f\<rparr>) = ld_on_tool_intent_nudge D"
  "after_iteration (D\<lparr>ld_call_llm := f\<rparr>) = after_iteration D"
  "ld_call_llm (D\<lparr>ld_call_llm := f\<rparr>) = f"
  by (simp_all add: after_iteration_def fun_eq_iff)

lemma on_response_llm: "on_response fp (D\<lparr>ld_call_llm := f\<rparr>) = on_response fp D"
  by (intro ext, unfold on_response_def on_text_def on_truncated_def on_tool_calls_def llm_update_fields) (rule refl)

lemma loop_iteration_llm:
  assumes "f i = ld_call_llm D i"
  shows "loop_iteration fp (D\<lparr>ld_call_llm := f\<rparr>) cfg i = loop_iteration fp D cfg i"
  by (unfold loop_iteration_def llm_update_fields on_response_llm assms) (rule refl)

lemma loop_iterations_llm:
  assumes "\<And>i. i \<in> set is \<Longrightarrow> f i = ld_call_llm D i"
  shows "loop_iterations fp (D\<lparr>ld_call_llm := f\<rparr>) cfg is st = loop_iterations fp D cfg is st"
  using assms
proof (induction "is" arbitrary: st)
  case (Cons i rest)
  then show ?case using loop_iteration_llm [of f i D fp cfg] by (simp split: progress.split)
qed simp

lemma run_agentic_loop_llm:
  assumes "\<And>i. 0 < i \<Longrightarrow> f i = ld_call_llm D i"
  shows "run_agentic_loop fp (D\<lparr>ld_call_llm := f\<rparr>) cfg st = run_agentic_loop fp D cfg st"
  unfolding run_agentic_loop_def by (rule loop_iterations_llm) (use assms in auto)

lemma chat_call_llm_settings:
  "0 < i \<Longrightarrow> chat_call_llm (L\<lparr>cl_model_setting := m, cl_temperature_setting := t\<rparr>) i = chat_call_llm L i"
  by (rule ext) (auto simp: chat_call_llm_def record_usage_def Let_def
      cong: option.case_cong sum.case_cong split: option.split sum.split llm_error.split)

lemma chat_delegate_settings:
  "chat_delegate (L\<lparr>cl_model_setting := m, cl_temperature_setting := t\<rparr>)
     = (chat_delegate L)\<lparr>ld_call_llm := chat_call_llm (L\<lparr>cl_model_setting := m, cl_temperature_setting := t\<rparr>)\<rparr>"
proof -
  have "chat_check_signals (L\<lparr>cl_model_setting := m, cl_temperature_setting := t\<rparr>) = chat_check_signals L"
    by (rule ext) (simp add: chat_check_signals_def)
  moreover have "chat_before_llm_call (L\<lparr>cl_model_setting := m, cl_temperature_setting := t\<rparr>) = chat_before_llm_call L"
    by (intro ext) (simp add: chat_before_llm_call_def admin_filtered_defs_def attenuated_defs_def Let_def
        split: prod.split cong: option.case_cong sum.case_cong)
  ultimately show ?thesis by (simp add: chat_delegate_def)
qed

text \<open>
  The user's model and temperature settings have no effect on a chat turn: they are applied in
  iteration 0 only, and the loop counts from 1. Two environments that differ in these settings
  only run every turn alike.
\<close>

theorem model_setting_ignored:
  "run_chat_loop fp uuid_str (L\<lparr>cl_model_setting := m, cl_temperature_setting := t\<rparr>) n original rewritten initial d
     = run_chat_loop fp uuid_str L n original rewritten initial d"
proof -
  define L1 where "L1 = L\<lparr>cl_nudge_at := n - 1, cl_force_text_at := n\<rparr>"
  have L2: "L\<lparr>cl_model_setting := m, cl_temperature_setting := t, cl_nudge_at := n - 1, cl_force_text_at := n\<rparr>
      = L1\<lparr>cl_model_setting := m, cl_temperature_setting := t\<rparr>"
    by (simp add: L1_def)
  have "run_agentic_loop fp (chat_delegate (L1\<lparr>cl_model_setting := m, cl_temperature_setting := t\<rparr>)) cfg st
      = run_agentic_loop fp (chat_delegate L1) cfg st" for cfg st
    unfolding chat_delegate_settings
    by (rule run_agentic_loop_llm) (simp add: chat_call_llm_settings, simp add: chat_delegate_def)
  moreover have "chat_context uuid_str (L1\<lparr>cl_model_setting := m, cl_temperature_setting := t\<rparr>) = chat_context uuid_str L1"
    by (rule ext) (simp add: chat_context_def attenuated_defs_def)
  moreover have "cl_env (L1\<lparr>cl_model_setting := m, cl_temperature_setting := t\<rparr>) = cl_env L1" by simp
  ultimately show ?thesis
    unfolding run_chat_loop_def L2 L1_def [symmetric] Let_def by (simp only:)
qed

text \<open>
  Without a settings store an \<open>always\<close> approval is forgotten before the next model call: the
  tools approved without asking are reset to those the static defaults always allow.
\<close>

theorem always_approval_forgotten:
  assumes "cl_settings L i = None" and "hm_get TOOL_RISK_DEFAULTS name \<noteq> Some AlwaysAllow"
  shows "\<not> is_tool_auto_approved name (cd_session (cs_chat (fst (snd (chat_before_llm_call L i
      (d\<lparr>cs_chat := (cs_chat d)\<lparr>cd_session := auto_approve_tool name (cd_session (cs_chat d))\<rparr>\<rparr>, ctx))))))"
proof -
  have "effective_permission name [] \<noteq> AlwaysAllow"
    using assms(2) by (auto simp: effective_permission_def hm.get_empty split: option.split)
  then show ?thesis using assms(1)
    by (subst chat_before_ok)
      (auto simp: set_auto_approved_def is_tool_auto_approved_def fold_auto_approve_set permissions_of_def Let_def)
qed

lemma always_approval_forgotten_witness:
  "\<not> is_tool_auto_approved ''shell'' (cd_session (cs_chat (fst (snd (chat_before_llm_call plain_loop_env 1
      (plain_loop_state\<lparr>cs_chat := (cs_chat plain_loop_state)\<lparr>cd_session :=
         auto_approve_tool ''shell'' (cd_session (cs_chat plain_loop_state))\<rparr>\<rparr>, reasoning_context_new))))))"
proof (rule always_approval_forgotten)
  show "cl_settings plain_loop_env 1 = None" by (simp add: plain_loop_env_def)
  show "hm_get TOOL_RISK_DEFAULTS ''shell'' \<noteq> Some AlwaysAllow" by code_simp
qed

section \<open>Compaction\<close>

text \<open>
  Compaction keeps the system messages and the exchange from the last user message on; but a
  warning that the loop itself pushed counts as that message, and then the user's request and the
  results of its tools are dropped: only system messages and the warning are sent.
\<close>

theorem compaction_keeps_last_exchange:
  assumes "cm_role u = UserRole" and "list_all (\<lambda>m. cm_role m \<noteq> UserRole) rest"
  shows "compact_messages_for_retry (old @ u # rest) =
       filter (\<lambda>m. cm_role m = SystemRole) old @ (if old = [] then [] else [chat_system COMPACTION_NOTE]) @ u # rest
     \<and> compact_messages_for_retry (old @ u # rest @ [chat_user DUPLICATE_TOOL_CALL_WARNING]) =
         filter (\<lambda>m. cm_role m = SystemRole) (old @ rest) @ [chat_system COMPACTION_NOTE, chat_user DUPLICATE_TOOL_CALL_WARNING]"
proof -
  have tw: "takeWhile (\<lambda>m. cm_role m \<noteq> UserRole) (rev (old @ u # rest)) = rev rest"
    using assms by (subst rev_append) (simp add: takeWhile_append list_all_iff)
  have first: "compact_messages_for_retry (old @ u # rest) =
       filter (\<lambda>m. cm_role m = SystemRole) old @ (if old = [] then [] else [chat_system COMPACTION_NOTE]) @ u # rest"
    unfolding compact_messages_for_retry_def tw by (simp add: Let_def)
  have "compact_messages_for_retry (old @ u # rest @ [chat_user w]) =
      filter (\<lambda>m. cm_role m = SystemRole) (old @ rest) @ [chat_system COMPACTION_NOTE, chat_user w]" for w
    using assms(1) by (simp add: compact_messages_for_retry_def chat_user_def Let_def)
  with first show ?thesis by blast
qed

lemma compaction_keeps_last_exchange_witness:
  "compact_messages_for_retry [chat_system ''p'', chat_user ''old'', chat_user ''ask'', chat_assistant ''call''] =
     [chat_system ''p'', chat_system COMPACTION_NOTE, chat_user ''ask'', chat_assistant ''call'']"
  using compaction_keeps_last_exchange [of "chat_user ''ask''" "[chat_assistant ''call'']" "[chat_system ''p'', chat_user ''old'']"]
  by (simp add: chat_user_def chat_system_def chat_assistant_def)

section \<open>Escalation\<close>

text \<open>
  The chat delegate never clears \<open>force_text\<close>: what is prepared before a model call only adds to
  it, and the retry after compaction, the execution of tools and the rest leave it alone.
\<close>

lemma chat_before_force: "rx_force_text ctx \<Longrightarrow> rx_force_text (snd (snd (chat_before_llm_call L i (d, ctx))))"
  by (auto simp: chat_before_llm_call_def Let_def split: option.split sum.split)

lemma apply_model_settings_force [simp]: "rx_force_text (apply_model_settings L ctx) = rx_force_text ctx"
  by (simp add: apply_model_settings_def Let_def split: option.split)

lemma chat_call_force: "rx_force_text ctx \<Longrightarrow> rx_force_text (snd (snd (chat_call_llm L i (d, ctx))))"
  by (auto simp: chat_call_llm_def Let_def split: option.split sum.split llm_error.split)

lemma chat_execute_force: "rx_force_text (snd (snd (chat_execute_tool_calls E calls content (d, ctx)))) = rx_force_text ctx"
  by (auto simp: chat_execute_tool_calls_def Let_def case_prod_unfold split: option.split)

lemma chat_keeps_force_text: "keeps_force_text (chat_delegate L)"
  unfolding keeps_force_text_def chat_delegate_def
  by (simp add: chat_before_force chat_call_force chat_handle_text_response_def)
    (auto simp: case_prod_unfold chat_execute_force)

text \<open>
  C20. Escalation in a chat turn: once three truncated tool-call responses have come since a batch
  was last executed, or the same batch has failed five times in a row without a text response
  in between, every later model call of the turn is made in text-only mode, whatever the settings,
  the model and the tools do. (An executed batch resets the count of truncations.)
\<close>

theorem chat_escalates:
  assumes "n + 1 < 2 ^ 32"
    and "run_agentic_loop fp (logged (chat_delegate L)) (chat_loop_config n) ((d, []), ctx)
      = (r, ((d', a @ EvLlm j text_only x # c), ctx'), v')"
    and "prefix p a" and "3 \<le> truncations_since_exec p \<or> 5 \<le> streak (dup_marks fp p)"
  shows text_only
proof (rule loop_escalates [OF chat_keeps_force_text _ assms(2-4)])
  show "al_max_iterations (chat_loop_config n) < 2 ^ 32" using assms(1) by (simp add: chat_loop_config_def)
qed

text \<open>A model whose tool calls are always cut off.\<close>

definition truncated_output :: respond_output where
  "truncated_output = stuck_output\<lparr>ro_finish_reason := FinishLength\<rparr>"

definition truncated_env :: chat_loop_env where
  "truncated_env = plain_loop_env\<lparr>cl_settings := (\<lambda>_. Some (Err ''down'')), cl_respond := (\<lambda>_ _ _. Ok truncated_output)\<rparr>"

lemma truncated_iteration:
  assumes "cs_chat d = plain_state" and "i \<noteq> 0"
  shows "\<exists>d' f ctx' v'. cs_chat d' = plain_state
     \<and> loop_iteration fp (logged (chat_delegate truncated_env)) cfg i (((d, l), ctx), v)
       = Next (((d', l @ [EvSignal SignalContinue, EvBefore i None, EvLlm i f (Ok truncated_output), EvAfter i]), ctx'), v')"
  using assms
  by (simp add: loop_iteration_def logged_def chat_delegate_def chat_check_signals_def truncated_env_def
      plain_loop_env_def plain_state_def session_new_def hm_get_def apply_signal_def chat_before_llm_call_def
      chat_call_llm_def record_usage_def on_response_def truncated_output_def stuck_output_def on_truncated_def
      after_iteration_def Let_def)

definition truncated_log :: "(llm_error, pending_approval) loop_event list" where
  "truncated_log = snd (fst (fst (snd (run_agentic_loop (\<lambda>_. 0) (logged (chat_delegate truncated_env))
     (chat_loop_config 3) ((plain_loop_state, []), reasoning_context_new)))))"

lemma chat_escalates_witness: "\<exists>a x c. truncated_log = a @ EvLlm 4 True x # c"
proof -
  let ?D = "logged (chat_delegate truncated_env)" and ?cfg = "chat_loop_config 3"
  let ?ev = "\<lambda>i f. [EvSignal SignalContinue, EvBefore i None, EvLlm i f (Ok truncated_output), EvAfter i]"
  have start: "cs_chat plain_loop_state = plain_state" by (simp add: plain_loop_state_def)
  obtain d1 f1 c1 v1 where 1: "cs_chat d1 = plain_state"
      "loop_iteration (\<lambda>_. 0) ?D ?cfg 1 (((plain_loop_state, []), reasoning_context_new), loop_vars_init)
        = Next (((d1, [] @ ?ev 1 f1), c1), v1)"
    using truncated_iteration [OF start, of 1] by blast
  obtain d2 f2 c2 v2 where 2: "cs_chat d2 = plain_state"
      "loop_iteration (\<lambda>_. 0) ?D ?cfg 2 (((d1, [] @ ?ev 1 f1), c1), v1) = Next (((d2, ([] @ ?ev 1 f1) @ ?ev 2 f2), c2), v2)"
    using truncated_iteration [OF 1(1), of 2] by (metis zero_neq_numeral)
  obtain d3 f3 c3 v3 where 3: "cs_chat d3 = plain_state"
      "loop_iteration (\<lambda>_. 0) ?D ?cfg 3 (((d2, ([] @ ?ev 1 f1) @ ?ev 2 f2), c2), v2)
        = Next (((d3, (([] @ ?ev 1 f1) @ ?ev 2 f2) @ ?ev 3 f3), c3), v3)"
    using truncated_iteration [OF 2(1), of 3] by (metis zero_neq_numeral)
  obtain d4 f4 c4 v4 where 4:
      "loop_iteration (\<lambda>_. 0) ?D ?cfg 4 (((d3, (([] @ ?ev 1 f1) @ ?ev 2 f2) @ ?ev 3 f3), c3), v3)
        = Next (((d4, ((([] @ ?ev 1 f1) @ ?ev 2 f2) @ ?ev 3 f3) @ ?ev 4 f4), c4), v4)"
    using truncated_iteration [OF 3(1), of 4] by (metis zero_neq_numeral)
  let ?a = "?ev 1 f1 @ ?ev 2 f2 @ ?ev 3 f3 @ [EvSignal SignalContinue, EvBefore 4 None]"
  let ?log = "?a @ EvLlm 4 f4 (Ok truncated_output) # [EvAfter 4]"
  have "[1..<Suc (al_max_iterations ?cfg)] = [1, 2, 3, 4]" by (simp add: chat_loop_config_def upt_rec)
  then have run: "run_agentic_loop (\<lambda>_. 0) ?D ?cfg ((plain_loop_state, []), reasoning_context_new)
      = (Ok LoopMaxIterations, ((d4, ?log), c4), v4)"
    using 1(2) 2(2) 3(2) 4 by (simp add: run_agentic_loop_def)
  have "is_truncation (EvLlm i f (Ok truncated_output))" for i f
    by (simp add: truncated_output_def stuck_output_def)
  then have three: "3 \<le> truncations_since_exec ?a" by (simp add: truncations_since_exec_def)
  have f4 by (rule chat_escalates [OF _ run prefix_order.refl disjI1 [OF three]]) simp
  moreover have "truncated_log = ?log" by (simp add: truncated_log_def run)
  ultimately have "truncated_log = ?a @ EvLlm 4 True (Ok truncated_output) # [EvAfter 4]" by simp
  then show ?thesis by blast
qed

text \<open>
  A failure to load the settings also suspends the limit on iterations: the preparation of the call
  returns before it sets \<open>force_text\<close>, so that also the last call of the turn offers tools.
\<close>

lemma settings_failure_keeps_tools:
  "cl_settings L i = Some (Err e) \<Longrightarrow>
   rx_force_text (snd (snd (chat_before_llm_call L i (d, ctx)))) = rx_force_text ctx"
  by (simp add: chat_before_llm_call_def Let_def)

end
