(* ===== verification/Thread_Ops.thy ===== *)
theory Thread_Ops
  imports Chat_History Compaction Submission Chat_Agent
begin

text \<open>
  What the agent does with a submission (\<open>src/agent/thread_ops.rs\<close>, the dispatch and the drain loop of
  \<open>src/agent/agent_loop.rs\<close>): a user's input with its checks, the compaction and the checkpoint before
  the turn, the run of the agentic loop and the end of the turn; undo, redo, resume, clear,
  interrupt, approval. The state is the session, the undo managers, the workspace and the stored tool
  permissions that approvals write; the environment of one message holds the chat loop's environment and the parameters: input
  validation, secret scan, attachments, skill mentions, the handlers of explicit commands. Writes
  to the database and status messages do not influence the state.
\<close>

type_synonym workspace = "(string, string) hmap"

text \<open>The thread is gone, or an explicit command failed with an error of its own.\<close>

datatype ops_error = ThreadNotFound uuid | CommandFailed string

record ops_env =
  oe_loop :: chat_loop_env
  oe_fp :: "tool_call list \<Rightarrow> u64"
  oe_uuid_str :: "uuid \<Rightarrow> string"
  oe_max_tool_iterations :: nat
  oe_monitor :: context_monitor
  oe_compactor :: "(string, workspace) compactor"
  oe_message_content :: string
  oe_rewrite :: "string \<Rightarrow> string"
  oe_has_attachments :: bool
  oe_augment :: "string \<Rightarrow> (string \<times> content_part list) option"
  oe_invalid :: "string \<Rightarrow> string option"
  oe_blocked :: "string \<Rightarrow> bool"
  oe_secret :: "string \<Rightarrow> string option"
  oe_command :: "message_intent \<Rightarrow> ops_error + submission_result"
  oe_error_text :: "chat_error \<Rightarrow> string"
  oe_show_percent :: "rat \<Rightarrow> string"
  oe_user_message_id :: "uuid option"
  oe_checkpoint_id :: uuid
  oe_settings_writable :: bool

record ops_state =
  os_session :: session
  os_undo :: "(uuid, chat_message undo_manager) hmap"
  os_workspace :: "workspace option"
  os_permissions :: "(string, permission_state) hmap"

definition oe_chat :: "ops_env \<Rightarrow> chat_env" where "oe_chat E = cl_env (oe_loop E)"
definition oe_thread_id :: "ops_env \<Rightarrow> uuid" where "oe_thread_id E = ce_thread_id (oe_chat E)"
definition oe_now :: "ops_env \<Rightarrow> time" where "oe_now E = ce_now (oe_chat E)"

definition get_thread :: "ops_env \<Rightarrow> ops_state \<Rightarrow> chat_thread option" where
  "get_thread E st = hm_get (ss_threads (os_session st)) (oe_thread_id E)"

definition map_thread :: "ops_env \<Rightarrow> (chat_thread \<Rightarrow> chat_thread) \<Rightarrow> ops_state \<Rightarrow> ops_state" where
  "map_thread E f st =
     st\<lparr>os_session := (os_session st)\<lparr>ss_threads := hm_modify (ss_threads (os_session st)) (oe_thread_id E) f\<rparr>\<rparr>"

definition undo_of :: "ops_env \<Rightarrow> ops_state \<Rightarrow> chat_message undo_manager" where
  "undo_of E st = (case hm_get (os_undo st) (oe_thread_id E) of Some u \<Rightarrow> u | None \<Rightarrow> undo_manager_new)"

definition set_undo :: "ops_env \<Rightarrow> chat_message undo_manager \<Rightarrow> ops_state \<Rightarrow> ops_state" where
  "set_undo E u st = st\<lparr>os_undo := hm_insert (os_undo st) (oe_thread_id E) u\<rparr>"

definition messages_of :: "ops_env \<Rightarrow> chat_thread \<Rightarrow> chat_message list" where
  "messages_of E th = thread_messages (ce_from_str (oe_chat E)) (ce_to_str (oe_chat E)) th"

text \<open>The result of an operation: an error or a submission result.\<close>

type_synonym ops_result = "(ops_error + submission_result) \<times> ops_state"

definition ok_message :: "string \<Rightarrow> submission_result" where "ok_message t = SrOk (Some t)"

section \<open>Undo, redo, resume, clear, interrupt\<close>

definition process_undo :: "ops_env \<Rightarrow> ops_state \<Rightarrow> ops_result" where
  "process_undo E st =
     (let mgr = undo_of E st; st0 = set_undo E mgr st
      in if \<not> can_undo mgr then (Ok (ok_message ''Nothing to undo.''), st0)
         else (case get_thread E st0 of
                 None \<Rightarrow> (Err (ThreadNotFound (oe_thread_id E)), st0)
               | Some th \<Rightarrow>
                   (case undo (oe_checkpoint_id E) mgr (turn_number th) (messages_of E th) of
                      (Some c, mgr') \<Rightarrow>
                        (Ok (ok_message (''Undone to turn '' @ show_nat (cp_turn_number c) @ ''. ''
                           @ show_nat (undo_count mgr') @ '' undo(s) remaining.'')),
                         map_thread E (restore_from_messages (oe_now E) (cp_messages c)) (set_undo E mgr' st0))
                    | (None, mgr') \<Rightarrow> (Ok (SrError ''Undo failed.''), set_undo E mgr' st0))))"

definition process_redo :: "ops_env \<Rightarrow> ops_state \<Rightarrow> ops_result" where
  "process_redo E st =
     (let mgr = undo_of E st; st0 = set_undo E mgr st
      in if \<not> can_redo mgr then (Ok (ok_message ''Nothing to redo.''), st0)
         else (case get_thread E st0 of
                 None \<Rightarrow> (Err (ThreadNotFound (oe_thread_id E)), st0)
               | Some th \<Rightarrow>
                   (case redo (oe_checkpoint_id E) mgr (turn_number th) (messages_of E th) of
                      (Some c, mgr') \<Rightarrow>
                        (Ok (ok_message (''Redone to turn '' @ show_nat (cp_turn_number c) @ ''.'')),
                         map_thread E (restore_from_messages (oe_now E) (cp_messages c)) (set_undo E mgr' st0))
                    | (None, mgr') \<Rightarrow> (Ok (SrError ''Redo failed.''), set_undo E mgr' st0))))"

definition process_resume :: "ops_env \<Rightarrow> uuid \<Rightarrow> ops_state \<Rightarrow> ops_result" where
  "process_resume E checkpoint_id st =
     (case restore (undo_of E st) checkpoint_id of
        (Some c, mgr') \<Rightarrow>
          (case get_thread E st of
             None \<Rightarrow> (Err (ThreadNotFound (oe_thread_id E)), set_undo E mgr' st)
           | Some th \<Rightarrow>
               (Ok (ok_message (''Resumed from checkpoint: '' @ cp_description c)),
                map_thread E (restore_from_messages (oe_now E) (cp_messages c)) (set_undo E mgr' st)))
      | (None, mgr') \<Rightarrow> (Ok (SrError ''Checkpoint not found.''), set_undo E mgr' st))"

definition clear_thread :: "chat_thread \<Rightarrow> chat_thread" where
  "clear_thread th = th\<lparr>ct_turns := [], ct_pending_messages := [], ct_state := ThreadIdle\<rparr>"

definition process_clear :: "ops_env \<Rightarrow> ops_state \<Rightarrow> ops_result" where
  "process_clear E st =
     (case get_thread E st of
        None \<Rightarrow> (Err (ThreadNotFound (oe_thread_id E)), st)
      | Some th \<Rightarrow>
          (Ok (ok_message ''Thread cleared.''),
           set_undo E (undo_clear (undo_of E st)) (map_thread E clear_thread st)))"

definition process_interrupt :: "ops_env \<Rightarrow> ops_state \<Rightarrow> ops_result" where
  "process_interrupt E st =
     (case get_thread E st of
        None \<Rightarrow> (Err (ThreadNotFound (oe_thread_id E)), st)
      | Some th \<Rightarrow>
          if ct_state th \<in> {ThreadProcessing, ThreadAwaitingApproval}
          then (Ok (ok_message ''Interrupted.''), map_thread E (thread_interrupt (oe_now E)) st)
          else (Ok (ok_message ''Nothing to interrupt.''), st))"

definition ARROW :: string where "ARROW = [CHR 0xE2, CHR 0x86, CHR 0x92]"

definition process_compact :: "ops_env \<Rightarrow> ops_state \<Rightarrow> ops_result" where
  "process_compact E st =
     (case get_thread E st of
        None \<Rightarrow> (Err (ThreadNotFound (oe_thread_id E)), st)
      | Some th \<Rightarrow>
          let messages = messages_of E th;
              strategy = (case suggest_compaction (oe_monitor E) messages of Some s \<Rightarrow> s | None \<Rightarrow> CompactSummarize 5);
              (r, ws, th') = compact_thread (oe_compactor E) strategy (os_workspace st) th;
              st' = (map_thread E (\<lambda>_. th') st)\<lparr>os_workspace := ws\<rparr>
          in case r of
               Inr c \<Rightarrow>
                 (Ok (ok_message (''Compacted: '' @ show_nat (cx_turns_removed c) @ '' turns removed, ''
                    @ show_nat (cx_tokens_before c) @ '' '' @ ARROW @ '' '' @ show_nat (cx_tokens_after c)
                    @ '' tokens (was '' @ oe_show_percent E (usage_percent (oe_monitor E) messages) @ ''% full)''
                    @ (if cx_summary_written c then '', summary saved to workspace'' else []))), st')
             | Inl e \<Rightarrow> (Ok (SrError (''Compaction failed: '' @ e)), st'))"

section \<open>The response of a turn\<close>

text \<open>
  The block of suggestions at the end of a response: the regular expression
  \<open><suggestions>\s*(.*?)\s*</suggestions>\<close> finds, from the left, an opening tag, the nearest closing tag
  behind it, and the trimmed text in between.
\<close>

fun find_sub :: "string \<Rightarrow> string \<Rightarrow> nat option" where
  "find_sub pat [] = (if pat = [] then Some 0 else None)"
| "find_sub pat (c # cs) = (if starts_with (c # cs) pat then Some 0 else map_option Suc (find_sub pat cs))"

lemma find_sub_le: "find_sub pat t = Some i \<Longrightarrow> i + length pat \<le> length t"
proof (induction pat t arbitrary: i rule: find_sub.induct)
  case (2 pat c cs)
  show ?case
  proof (cases "starts_with (c # cs) pat")
    case True
    then obtain r where "c # cs = pat @ r" by (auto simp: starts_with_iff)
    then have "length pat \<le> length (c # cs)" by (metis le_add1 length_append)
    with 2(2) True show ?thesis by auto
  qed (use 2 in auto)
qed (auto split: if_splits)

abbreviation "OPEN_TAG \<equiv> ''<suggestions>''"
abbreviation "CLOSE_TAG \<equiv> ''</suggestions>''"

function suggestion_blocks :: "nat \<Rightarrow> string \<Rightarrow> (nat \<times> nat \<times> string) list" where
  "suggestion_blocks off t =
     (case find_sub OPEN_TAG t of
        None \<Rightarrow> []
      | Some i \<Rightarrow>
          let body = drop (i + length OPEN_TAG) t
          in case find_sub CLOSE_TAG body of
               None \<Rightarrow> []
             | Some j \<Rightarrow>
                 let stop = i + length OPEN_TAG + j + length CLOSE_TAG
                 in (off + i, off + stop, trim (take j body)) # suggestion_blocks (off + stop) (drop stop t))"
  by pat_completeness auto
termination
proof (relation "measure (\<lambda>(_, t). length t)")
  fix off :: nat and t i body j stop
  assume "find_sub OPEN_TAG t = Some i" "stop = i + length OPEN_TAG + j + length CLOSE_TAG"
  with find_sub_le [of OPEN_TAG t i]
  show "((off + stop, drop stop t), off, t) \<in> measure (\<lambda>(_, t). length t)" by (simp add: less_diff_conv2)
qed simp

declare suggestion_blocks.simps [simp del]

fun fence_positions :: "nat \<Rightarrow> string \<Rightarrow> nat list" where
  "fence_positions off [] = []"
| "fence_positions off (c # cs) =
     (if starts_with (c # cs) ''```'' then off # fence_positions (off + 3) (drop 2 cs) else fence_positions (off + 1) cs)"

definition inside_fence :: "string \<Rightarrow> nat \<Rightarrow> bool" where
  "inside_fence t pos = odd (length (takeWhile (\<lambda>fp. fp \<le> pos) (fence_positions 0 t)))"

text \<open>\<open>from_str::<Vec<String>>\<close>.\<close>

definition string_array :: "(string \<Rightarrow> json option) \<Rightarrow> string \<Rightarrow> string list option" where
  "string_array from_str t =
     (case from_str t of
        Some (JArray vs) \<Rightarrow> if list_all (\<lambda>v. json_as_str v \<noteq> None) vs then Some (map (the \<circ> json_as_str) vs) else None
      | _ \<Rightarrow> None)"

definition extract_suggestions :: "(string \<Rightarrow> json option) \<Rightarrow> string \<Rightarrow> string \<times> string list" where
  "extract_suggestions from_str t =
     (case filter (\<lambda>(i, _, _). \<not> inside_fence t i) (suggestion_blocks 0 t) of
        [] \<Rightarrow> (t, [])
      | b # bs \<Rightarrow>
          let (i, j, inner) = last (b # bs)
          in (trim (take i t @ drop j t),
              take 3 (filter (\<lambda>s. trim s \<noteq> [] \<and> byte_len s \<le> 80)
                (case string_array from_str inner of Some ss \<Rightarrow> ss | None \<Rightarrow> []))))"

definition strip_suggestions :: "(string \<Rightarrow> json option) \<Rightarrow> string \<Rightarrow> string" where
  "strip_suggestions from_str t = fst (extract_suggestions from_str t)"

text \<open>The hook that may change or reject the final response.\<close>

definition transform_response :: "ops_env \<Rightarrow> string \<Rightarrow> string" where
  "transform_response E response =
     (let C = oe_chat E
      in case run_hooks (ce_show_duration C) (ce_to_str C) (ce_from_str C) (ce_hooks C)
             (ResponseTransform (ce_user_id C) (oe_uuid_str E (oe_thread_id E)) response) of
           Inl (Rejected reason) \<Rightarrow> ''[Response filtered: '' @ reason @ '']''
         | Inl err \<Rightarrow> ''[Response blocked by hook policy: '' @ hook_error_display (ce_show_duration C) err @ '']''
         | Inr (Continue (Some new_response)) \<Rightarrow> new_response
         | Inr _ \<Rightarrow> response)"

definition need_approval :: "pending_approval \<Rightarrow> submission_result" where
  "need_approval p =
     SrNeedApproval (pv_request_id p) (pv_tool_name p) (pv_description p) (pv_display_parameters p) (pv_allow_always p)"

text \<open>How a run ends the turn; \<open>f\<close> is what happens to the response text.\<close>

definition conclude_run ::
  "(string \<Rightarrow> string) \<Rightarrow> ops_env \<Rightarrow> agentic_loop_result \<Rightarrow> ops_state \<Rightarrow> submission_result \<times> ops_state" where
  "conclude_run f E result st =
     (case result of
        ArResponse txt _ \<Rightarrow>
          let response = f (fst (extract_suggestions (ce_from_str (oe_chat E)) txt))
          in (SrResponse response, map_thread E (conclude_turn (oe_now E) (CompletedWith response)) st)
      | ArNeedApproval p _ \<Rightarrow> (need_approval p, map_thread E (await_approval (oe_now E) p) st)
      | ArAuthPending _ \<Rightarrow> (SrAuthPending, map_thread E (conclude_turn (oe_now E) CompletedSilently) st)
      | ArFailed err _ \<Rightarrow>
          (SrError (oe_error_text E err), map_thread E (conclude_turn (oe_now E) (FailedWith (oe_error_text E err))) st))"

definition finish_user_turn :: "ops_env \<Rightarrow> agentic_loop_result \<Rightarrow> ops_state \<Rightarrow> ops_result" where
  "finish_user_turn E result st =
     (case get_thread E st of
        None \<Rightarrow> (Err (ThreadNotFound (oe_thread_id E)), st)
      | Some th \<Rightarrow>
          if ct_state th = ThreadInterrupted then (Ok SrInterrupted, st)
          else let (r, st') = conclude_run (transform_response E) E result st in (Ok r, st'))"

definition finish_approved_turn :: "ops_env \<Rightarrow> agentic_loop_result \<Rightarrow> ops_state \<Rightarrow> ops_result" where
  "finish_approved_turn E result st =
     (case get_thread E st of
        None \<Rightarrow> (Err (ThreadNotFound (oe_thread_id E)), st)
      | Some th \<Rightarrow> let (r, st') = conclude_run id E result st in (Ok r, st'))"

text \<open>One run of the agentic loop on the session; the stash of outputs belongs to the run.\<close>

definition run_loop :: "ops_env \<Rightarrow> chat_message list \<Rightarrow> ops_state \<Rightarrow> agentic_loop_result \<times> ops_state" where
  "run_loop E messages st =
     (case run_chat_loop (oe_fp E) (oe_uuid_str E) (oe_loop E) (oe_max_tool_iterations E) (oe_message_content E)
             (oe_rewrite E (oe_message_content E)) messages \<lparr>cd_session = os_session st, cd_output_stash = []\<rparr> of
        (result, d) \<Rightarrow> (result, st\<lparr>os_session := cd_session d\<rparr>))"

section \<open>A user's input\<close>

definition EM_DASH :: string where "EM_DASH = [CHR 0xE2, CHR 0x80, CHR 0x94]"

definition truncate_for_preview :: "string \<Rightarrow> nat \<Rightarrow> string" where
  "truncate_for_preview output max_chars =
     (let collapsed = join '' '' (split_whitespace (map (\<lambda>c. if c = NL then CHR '' '' else c) (take (max_chars + 50) output)))
      in if length collapsed > max_chars then take max_chars collapsed @ ''...'' else collapsed)"

definition pending_approval_message :: "pending_approval option \<Rightarrow> string" where
  "pending_approval_message pending =
     (case pending of
        Some p \<Rightarrow> ''Waiting for approval: '' @ pv_tool_name p @ '' '' @ EM_DASH @ '' ''
                 @ truncate_for_preview (pv_description p) 80 @ ''. Use /interrupt to cancel.''
      | None \<Rightarrow> ''Waiting for approval. Use /interrupt to cancel.'')"

text \<open>The checks of the safety layer: validation, policy, secrets.\<close>

definition input_error :: "ops_env \<Rightarrow> string \<Rightarrow> string option" where
  "input_error E content =
     (case oe_invalid E content of
        Some details \<Rightarrow> Some (''Input rejected by safety validation: '' @ details)
      | None \<Rightarrow> if oe_blocked E content then Some ''Input rejected by safety policy.'' else oe_secret E content)"

text \<open>A message that arrives while a turn is running is queued.\<close>

definition queue_input :: "ops_env \<Rightarrow> string \<Rightarrow> chat_thread \<Rightarrow> ops_state \<Rightarrow> ops_result" where
  "queue_input E content th st =
     (if oe_has_attachments E then
        (Ok (SrError (''Cannot queue messages with attachments while a turn is processing. ''
           @ ''Please resend after the current turn completes.'')), st)
      else (case input_error E content of
              Some e \<Rightarrow> (Ok (SrError e), st)
            | None \<Rightarrow>
                (case queue_message (oe_now E) content th of
                   (False, _) \<Rightarrow>
                     (Ok (SrError (''Message queue full ('' @ show_nat MAX_PENDING_MESSAGES
                        @ ''). Wait for the current turn to complete.'')), st)
                 | (True, th') \<Rightarrow>
                     (Ok (ok_message (''Message queued '' @ EM_DASH @ '' will be processed after the current turn.'')),
                      map_thread E (\<lambda>_. th') st))))"

text \<open>Compaction before the turn; a failure only loses the compaction.\<close>

definition auto_compact :: "ops_env \<Rightarrow> chat_thread \<Rightarrow> ops_state \<Rightarrow> ops_state" where
  "auto_compact E th st =
     (case suggest_compaction (oe_monitor E) (messages_of E th) of
        None \<Rightarrow> st
      | Some strategy \<Rightarrow>
          (case compact_thread (oe_compactor E) strategy (os_workspace st) th of
             (_, ws, th') \<Rightarrow> (map_thread E (\<lambda>_. th') st)\<lparr>os_workspace := ws\<rparr>))"

definition checkpoint_turn :: "ops_env \<Rightarrow> chat_thread \<Rightarrow> ops_state \<Rightarrow> ops_state" where
  "checkpoint_turn E th st =
     set_undo E (take_checkpoint (oe_checkpoint_id E) (undo_of E st) (turn_number th) (messages_of E th)
       (''Before turn '' @ show_nat (turn_number th))) st"

definition open_turn :: "ops_env \<Rightarrow> string \<Rightarrow> content_part list \<Rightarrow> chat_thread \<Rightarrow> chat_thread" where
  "open_turn E content parts th =
     (let th' = start_turn (oe_now E) content th
      in th'\<lparr>ct_turns := map_last (\<lambda>t. t\<lparr>tn_image_content_parts := parts\<rparr>) (ct_turns th')\<rparr>)"

definition note_user_message_id :: "ops_env \<Rightarrow> chat_thread \<Rightarrow> chat_thread" where
  "note_user_message_id E th =
     (case oe_user_message_id E of
        None \<Rightarrow> th
      | Some i \<Rightarrow> th\<lparr>ct_turns := map_last (\<lambda>t. t\<lparr>tn_user_message_id := Some i\<rparr>) (ct_turns th)\<rparr>)"

definition run_user_turn :: "ops_env \<Rightarrow> string \<Rightarrow> content_part list \<Rightarrow> ops_state \<Rightarrow> ops_result" where
  "run_user_turn E content parts st =
     (case get_thread E st of
        None \<Rightarrow> (Err (ThreadNotFound (oe_thread_id E)), st)
      | Some th0 \<Rightarrow>
          let st1 = auto_compact E th0 st
          in case get_thread E st1 of
               None \<Rightarrow> (Err (ThreadNotFound (oe_thread_id E)), st1)
             | Some th \<Rightarrow>
                 let th1 = open_turn E content parts th;
                     st2 = map_thread E (\<lambda>_. note_user_message_id E th1) (checkpoint_turn E th st1);
                     (result, st3) = run_loop E (messages_of E th1) st2
                 in finish_user_turn E result st3)"

definition process_user_input :: "ops_env \<Rightarrow> string \<Rightarrow> ops_state \<Rightarrow> ops_result" where
  "process_user_input E content st =
     (case get_thread E st of
        None \<Rightarrow> (Err (ThreadNotFound (oe_thread_id E)), st)
      | Some th \<Rightarrow>
          (case ct_state th of
             ThreadProcessing \<Rightarrow> queue_input E content th st
           | ThreadAwaitingApproval \<Rightarrow> (Ok (ok_message (pending_approval_message (ct_pending_approval th))), st)
           | ThreadCompleted \<Rightarrow> (Ok (SrError ''Thread completed. Use /thread new.''), st)
           | _ \<Rightarrow>
               let (effective, parts) = (case oe_augment E content of Some r \<Rightarrow> r | None \<Rightarrow> (content, []))
               in case input_error E effective of
                    Some e \<Rightarrow> (Ok (SrError e), st)
                  | None \<Rightarrow>
                      (case route_command ''/'' content of
                         Some intent \<Rightarrow> (oe_command E intent, st)
                       | None \<Rightarrow> run_user_turn E effective parts st)))"

section \<open>Approvals\<close>

text \<open>What a call needs before it may run again: the pending approval is taken when the thread waits and the id matches.\<close>

definition claim_approval :: "ops_env \<Rightarrow> uuid option \<Rightarrow> ops_state \<Rightarrow> (ops_error + submission_result + pending_approval) \<times> ops_state" where
  "claim_approval E request_id st =
     (case get_thread E st of
        None \<Rightarrow> (Err (ThreadNotFound (oe_thread_id E)), st)
      | Some th \<Rightarrow>
          if ct_state th \<noteq> ThreadAwaitingApproval then (Ok (Inl (ok_message ''No pending approval for this thread.'')), st)
          else (case take_pending_approval th of
                  (None, _) \<Rightarrow> (Ok (Inl (ok_message [])), st)
                | (Some p, th') \<Rightarrow>
                    (case request_id of
                       Some req_id \<Rightarrow>
                         if req_id \<noteq> pv_request_id p then
                           (Ok (Inl (SrError ''Request ID mismatch. Use the correct request ID.'')),
                            map_thread E (\<lambda>_. await_approval (oe_now E) p th') st)
                         else (Ok (Inr p), map_thread E (\<lambda>_. th') st)
                     | None \<Rightarrow> (Ok (Inr p), map_thread E (\<lambda>_. th') st))))"

text \<open>An approval for good: the session remembers the tool, and the settings unless the tool insists on asking.\<close>

definition always_approve :: "ops_env \<Rightarrow> string \<Rightarrow> ops_state \<Rightarrow> ops_state" where
  "always_approve E tool_name st =
     (let st1 = st\<lparr>os_session := auto_approve_tool tool_name (os_session st)\<rparr>;
          is_locked = (case get_tool (ce_registry (oe_chat E)) tool_name of
                         Some t \<Rightarrow> tl_requires_approval t (JObject []) = AlwaysApprove | None \<Rightarrow> False)
      in if is_locked \<or> \<not> oe_settings_writable E then st1
         else st1\<lparr>os_permissions := hm_insert (os_permissions st1) tool_name AlwaysAllow\<rparr>)"

definition approved_call :: "pending_approval \<Rightarrow> tool_call" where
  "approved_call p = \<lparr>tc_id = pv_tool_call_id p, tc_name = pv_tool_name p, tc_arguments = pv_parameters p, tc_reasoning = None\<rparr>"

text \<open>The deferred calls that run without asking, up to the first that needs an approval.\<close>

fun deferred_preflight :: "chat_env \<Rightarrow> session \<Rightarrow> nat \<Rightarrow> tool_call list \<Rightarrow> tool_call list \<times> approval_stop" where
  "deferred_preflight C s idx [] = ([], None)"
| "deferred_preflight C s idx (tc # rest) =
     (case needs_approval (ce_registry C) (ce_auto_approve_tools C) s tc of
        Some (t, allow_always) \<Rightarrow> ([], Some (idx, tc, t, allow_always))
      | None \<Rightarrow> let r = deferred_preflight C s (Suc idx) rest in (tc # fst r, snd r))"

record replay =
  rp_session :: session
  rp_messages :: "chat_message list"
  rp_auth :: "(string \<times> parsed_auth) option"

text \<open>One executed call: its result is recorded in the turn, appended to the messages and searched for an authentication prompt.\<close>

definition replay_call :: "chat_env \<Rightarrow> tool_call \<Rightarrow> replay \<Rightarrow> replay" where
  "replay_call C tc r =
     (let result = ce_exec C tc;
          (content, _) = process_tool_result C (tc_name tc) (tc_id tc) result
      in \<lparr>rp_session = on_last_turn (ce_thread_id C)
            (if is_ok result then record_tool_result_for (tc_id tc) (JString content)
             else record_tool_error_for (tc_id tc) content) (rp_session r),
          rp_messages = rp_messages r @ [tool_result (tc_id tc) (tc_name tc) content],
          rp_auth = capture_auth_prompt (ce_from_str C) (tc_name tc) result (rp_auth r)\<rparr>)"

definition auth_intercept :: "ops_env \<Rightarrow> string \<Rightarrow> string \<Rightarrow> ops_state \<Rightarrow> ops_state" where
  "auth_intercept E ext instructions st =
     map_thread E (\<lambda>th. conclude_turn (oe_now E) (CompletedWith instructions) (enter_auth_mode (oe_now E) ext th)) st"

definition resume_approved :: "ops_env \<Rightarrow> pending_approval \<Rightarrow> ops_state \<Rightarrow> ops_result" where
  "resume_approved E p st =
     (let C = oe_chat E;
          st1 = map_thread E (\<lambda>th. th\<lparr>ct_state := ThreadProcessing\<rparr>) st;
          r1 = replay_call C (approved_call p) \<lparr>rp_session = os_session st1, rp_messages = pv_context_messages p,
                 rp_auth = restore_selected_auth_prompt (pv_selected_auth_prompt p)\<rparr>;
          (runnable, approval_needed) = deferred_preflight C (rp_session r1) 0 (pv_deferred_tool_calls p);
          r2 = fold (replay_call C) runnable r1;
          st2 = st1\<lparr>os_session := rp_session r2\<rparr>
      in case approval_needed of
           Some stop \<Rightarrow>
             let new_pending = pending_of C (rp_messages r2) (pv_deferred_tool_calls p) (rp_auth r2) (pv_user_timezone p) stop
             in (Ok (need_approval new_pending), map_thread E (await_approval (oe_now E) new_pending) st2)
         | None \<Rightarrow>
             (case rp_auth r2 of
                Some (ext, auth) \<Rightarrow>
                  if pr_awaiting_token auth
                  then (Ok SrAuthPending, auth_intercept E ext (auth_instructions_or_default (pr_instructions auth)) st2)
                  else (case run_loop E (rp_messages r2) st2 of (result, st3) \<Rightarrow> finish_approved_turn E result st3)
              | None \<Rightarrow> (case run_loop E (rp_messages r2) st2 of (result, st3) \<Rightarrow> finish_approved_turn E result st3)))"

definition rejection_text :: "string \<Rightarrow> string" where
  "rejection_text tool_name = ''Tool '' @ [CHR 0x27] @ tool_name @ [CHR 0x27]
     @ '' was rejected. The agent will not execute this tool.'' @ [NL, NL]
     @ ''You can continue the conversation or try a different approach.''"

definition reject_call :: "ops_env \<Rightarrow> pending_approval \<Rightarrow> ops_state \<Rightarrow> ops_result" where
  "reject_call E p st =
     (let rejection = rejection_text (pv_tool_name p)
      in (Ok (SrResponse rejection),
          map_thread E (\<lambda>th. conclude_turn (oe_now E) (CompletedWith rejection) (clear_pending_approval (oe_now E) th)) st))"

definition process_approval :: "ops_env \<Rightarrow> uuid option \<Rightarrow> bool \<Rightarrow> bool \<Rightarrow> ops_state \<Rightarrow> ops_result" where
  "process_approval E request_id approved always st =
     (case claim_approval E request_id st of
        (Inl e, st1) \<Rightarrow> (Err e, st1)
      | (Inr (Inl r), st1) \<Rightarrow> (Ok r, st1)
      | (Inr (Inr p), st1) \<Rightarrow>
          if approved then resume_approved E p (if always then always_approve E (pv_tool_name p) st1 else st1)
          else reject_call E p st1)"

end
