(* ===== verification/Message_Loop.thy ===== *)
theory Message_Loop
  imports Thread_Ops
begin

text \<open>
  From a message to its thread and back to the channel (\<open>src/agent/agent_loop.rs\<close>): which thread a
  message addresses, with the authorization of approvals that come from another channel, the
  authentication mode, the dispatch of a submission, the loop that drains queued messages, and
  what the channel is told. The message loop handles one message after the other. The commands that
  do not change the thread (system commands, jobs, summaries) are the parameter \<open>me_other\<close>; creating and
  switching threads changes the session manager and stands by itself below.
\<close>

section \<open>Creating and switching threads\<close>

definition set_session :: "string \<Rightarrow> session \<Rightarrow> session_manager \<Rightarrow> session_manager" where
  "set_session u s m = m\<lparr>sm_sessions := hm_insert (sm_sessions m) u s\<rparr>"

definition process_new_thread ::
  "(uuid \<Rightarrow> string) \<Rightarrow> time \<Rightarrow> uuid \<Rightarrow> uuid \<Rightarrow> incoming \<Rightarrow> session_manager \<Rightarrow> submission_result \<times> session_manager" where
  "process_new_thread uuid_str now session_id fresh_id msg m =
     (let (s, m1) = get_or_create_session now session_id (im_user_id msg) m;
          (i, s1) = create_thread now fresh_id (Some (im_channel msg)) s
      in (ok_message (''New thread: '' @ uuid_str i), set_session (im_user_id msg) s1 m1))"

definition process_switch_thread ::
  "(string \<Rightarrow> uuid option) \<Rightarrow> (uuid \<Rightarrow> string) \<Rightarrow> (string \<Rightarrow> json option) \<Rightarrow> db_store option \<Rightarrow>
     time \<Rightarrow> uuid \<Rightarrow> incoming \<Rightarrow> uuid \<Rightarrow> session_manager \<Rightarrow> submission_result \<times> session_manager" where
  "process_switch_thread parse_uuid uuid_str from_str store now session_id msg target m =
     (case maybe_hydrate_thread parse_uuid uuid_str from_str store now session_id msg (uuid_str target) m of
        (Some rejection, m1) \<Rightarrow> (SrError rejection, m1)
      | (None, m1) \<Rightarrow>
          let (s, m2) = get_or_create_session now session_id (im_user_id msg) m1;
              (switched, s1) = switch_thread now target s
          in if switched
             then (ok_message (''Switched to thread '' @ uuid_str target), set_session (im_user_id msg) s1 m2)
             else (SrError ''Thread not found.'', m2))"

section \<open>Which thread a message addresses\<close>

definition is_approval_submission :: "submission \<Rightarrow> bool" where
  "is_approval_submission sub =
     (case sub of ExecApproval _ _ _ \<Rightarrow> True | ApprovalResponse _ _ \<Rightarrow> True | ExternalCallback _ \<Rightarrow> True
      | GateAuthResolution _ _ \<Rightarrow> True | _ \<Rightarrow> False)"

definition is_exec_approval :: "submission \<Rightarrow> bool" where
  "is_exec_approval sub = (case sub of ExecApproval _ _ _ \<Rightarrow> True | _ \<Rightarrow> False)"

text \<open>An answer that ends the handling, or the thread.\<close>

definition resolve_target ::
  "(string \<Rightarrow> uuid option) \<Rightarrow> (uuid \<Rightarrow> string) \<Rightarrow> time \<Rightarrow> uuid \<Rightarrow> uuid \<Rightarrow> incoming \<Rightarrow> string option \<Rightarrow>
     submission \<Rightarrow> session_manager \<Rightarrow> (string + uuid) \<times> session_manager" where
  "resolve_target parse_uuid uuid_str now session_id fresh_id msg scope sub m =
     (let u = im_user_id msg; ch = im_channel msg
      in case (if is_approval_submission sub then Option.bind scope parse_uuid else None) of
           None \<Rightarrow>
             (case resolve_thread parse_uuid now session_id fresh_id u ch scope m of (i, m1) \<Rightarrow> (Ok i, m1))
         | Some target \<Rightarrow>
             let (s, m1) = get_or_create_session now session_id u m
             in case hm_get (ss_threads s) target of
                  None \<Rightarrow>
                    (case resolve_thread_with_parsed_uuid parse_uuid now session_id fresh_id u ch scope (Some target) m1 of
                       (i, m2) \<Rightarrow> (Ok i, m2))
                | Some th \<Rightarrow>
                    if ct_pending_approval th = None \<and> is_exec_approval sub
                    then (Err ''Error: no pending approval on this thread'', m1)
                    else if ct_pending_approval th \<noteq> None \<and> \<not> is_approval_authorized (ct_source_channel th) ch
                    then (Err ''Error: approval not authorized for this channel'', m1)
                    else
                      let s1 = s\<lparr>ss_active_thread := Some target, ss_last_active_at := now\<rparr>
                      in (Ok target, register_thread uuid_str u ch target s1 (set_session u s1 m1)))"

section \<open>Authentication mode\<close>

text \<open>
  What becomes of a submitted token: the extension is active, wants more, the token is invalid (and the
  user is asked again), or the service fails.
\<close>

datatype token_outcome = TokenActivated string | TokenIncomplete string | TokenInvalid string | TokenFailure string

definition reenter_auth :: "ops_env \<Rightarrow> string \<Rightarrow> ops_state \<Rightarrow> ops_state" where
  "reenter_auth E ext st = map_thread E (enter_auth_mode (oe_now E) ext) st"

definition process_auth_token ::
  "ops_env \<Rightarrow> (string \<Rightarrow> string \<Rightarrow> token_outcome) option \<Rightarrow> pending_auth \<Rightarrow> string \<Rightarrow> ops_state \<Rightarrow> string option \<times> ops_state" where
  "process_auth_token E submit pending content st =
     (let ext = pa_extension_name pending;
          st1 = map_thread E (\<lambda>th. th\<lparr>ct_pending_auth := None\<rparr>) st
      in case submit of
           None \<Rightarrow> (Some ''Extension manager not available.'', st1)
         | Some f \<Rightarrow>
             (case f ext (trim content) of
                TokenActivated m \<Rightarrow> (Some m, st1)
              | TokenIncomplete m \<Rightarrow> (Some m, reenter_auth E ext st1)
              | TokenInvalid m \<Rightarrow> (Some m, reenter_auth E ext st1)
              | TokenFailure m \<Rightarrow> (Some m, st1)))"

section \<open>What the channel is told\<close>

datatype handle_outcome = HoShutdown | HoRespond string | HoNoResponse | HoPending

definition BRIDGE_PENDING_SENTINEL :: string where
  "BRIDGE_PENDING_SENTINEL = CHR 0x00 # ''__bridge_pending__''"

definition from_legacy :: "string option \<Rightarrow> handle_outcome" where
  "from_legacy opt =
     (case opt of
        None \<Rightarrow> HoShutdown
      | Some s \<Rightarrow> if s = BRIDGE_PENDING_SENTINEL then HoPending else if s = [] then HoNoResponse else HoRespond s)"

definition outcome_of :: "bool \<Rightarrow> chat_thread option \<Rightarrow> submission_result \<Rightarrow> handle_outcome" where
  "outcome_of single_message_repl th r =
     (case r of
        SrResponse content \<Rightarrow>
          if is_silent_reply content then HoShutdown else if content = [] then HoNoResponse else HoRespond content
      | SrOk m \<Rightarrow>
          let should_exit =
                (if m = Some [] \<and> single_message_repl
                 then (case th of Some t \<Rightarrow> ct_state t \<noteq> ThreadAwaitingApproval | None \<Rightarrow> True) else False)
          in if should_exit then HoShutdown else from_legacy m
      | SrError m \<Rightarrow> HoRespond (''Error: '' @ m)
      | SrInterrupted \<Rightarrow> HoRespond ''Interrupted.''
      | SrAuthPending \<Rightarrow> HoPending
      | SrNeedApproval _ _ _ _ _ \<Rightarrow> HoPending)"

section \<open>Draining the queue\<close>

definition drained_content :: "ops_env \<Rightarrow> ops_result \<Rightarrow> string option" where
  "drained_content E = (\<lambda>(r, st).
     case r of
       Inr (SrResponse _) \<Rightarrow> Option.bind (get_thread E st) (\<lambda>th. fst (drain_pending_messages (oe_now E) th))
     | _ \<Rightarrow> None)"

definition drain_round :: "ops_env \<Rightarrow> ops_env \<Rightarrow> string \<Rightarrow> ops_state \<Rightarrow> ops_result" where
  "drain_round E E' next_content st =
     (let st1 = map_thread E (\<lambda>th. snd (drain_pending_messages (oe_now E) th)) st;
          (r, st2) = process_user_input E' next_content st1
      in (r, case r of
               Inr (SrResponse _) \<Rightarrow> st2
             | _ \<Rightarrow> map_thread E (requeue_drained (oe_now E) next_content) st2))"

text \<open>
  One environment per round (the original message without its attachments); \<open>None\<close> when there are
  still messages but no environment is left.
\<close>

fun drain_loop :: "ops_env \<Rightarrow> ops_env list \<Rightarrow> ops_result \<Rightarrow> ops_result option" where
  "drain_loop E [] res = (case drained_content E res of None \<Rightarrow> Some res | Some _ \<Rightarrow> None)"
| "drain_loop E (E' # Es) res =
     (case drained_content E res of
        None \<Rightarrow> Some res
      | Some next_content \<Rightarrow> drain_loop E Es (drain_round E E' next_content (snd res)))"

definition handle_user_input :: "ops_env \<Rightarrow> ops_env list \<Rightarrow> string \<Rightarrow> ops_state \<Rightarrow> ops_result option" where
  "handle_user_input E Es content st = drain_loop E Es (process_user_input E content st)"

section \<open>Dispatch\<close>

definition plan_text :: "plan_subcommand \<Rightarrow> string" where
  "plan_text sub =
     (let ref_or = (\<lambda>r. case r of Some t \<Rightarrow> t | None \<Rightarrow> ''the most recent plan'')
      in case sub of
           PlanCreate description \<Rightarrow> ''[PLAN MODE] Create a plan for: '' @ description
         | PlanApprove r \<Rightarrow> ''[PLAN MODE] Approve and execute plan '' @ ref_or r
             @ ''. Create a mission from the plan content using mission_create, then fire it with mission_fire.''
         | PlanStatus r \<Rightarrow> ''[PLAN MODE] Show status of plan '' @ ref_or r
             @ ''. Check the associated mission's thread_history, current_focus, and approach_history.''
         | PlanRevise r feedback \<Rightarrow> ''[PLAN MODE] Revise plan '' @ ref_or r @ '' based on: '' @ feedback
         | PlanList \<Rightarrow> ''[PLAN MODE] List all plans. Search memory for plan documents and show their status.'')"

definition should_route_as_approval :: "chat_thread_state \<Rightarrow> string \<Rightarrow> bool" where
  "should_route_as_approval state raw_content =
     (state = ThreadAwaitingApproval \<or> starts_with (trim raw_content) ''/'')"

definition before_inbound :: "chat_env \<Rightarrow> string option \<Rightarrow> string \<Rightarrow> string + string" where
  "before_inbound C external content =
     (case run_hooks (ce_show_duration C) (ce_to_str C) (ce_from_str C) (ce_hooks C)
             (Inbound (ce_user_id C) (ce_channel C) content external) of
        Inl (Rejected reason) \<Rightarrow> Err (''[Message rejected: '' @ reason @ '']'')
      | Inl err \<Rightarrow> Err (''[Message blocked by hook policy: '' @ hook_error_display (ce_show_duration C) err @ '']'')
      | Inr (Continue (Some new_content)) \<Rightarrow> Ok new_content
      | Inr _ \<Rightarrow> Ok content)"

record message_env =
  me_ops :: ops_env
  me_rounds :: "ops_env list"
  me_external :: "string option"
  me_single_message_repl :: bool
  me_routines_fired :: "string \<Rightarrow> nat"
  me_submit_token :: "(string \<Rightarrow> string \<Rightarrow> token_outcome) option"
  me_other :: "submission \<Rightarrow> ops_error + submission_result"

text \<open>The outcome of handling a message; \<open>None\<close> when the environments of the drain loop run out.\<close>

type_synonym handled = "((ops_error + handle_outcome) \<times> ops_state) option"

definition finish :: "message_env \<Rightarrow> ops_result \<Rightarrow> (ops_error + handle_outcome) \<times> ops_state" where
  "finish M = (\<lambda>(r, st).
     (case r of Inl e \<Rightarrow> Err e | Inr x \<Rightarrow> Ok (outcome_of (me_single_message_repl M) (get_thread (me_ops M) st) x), st))"

definition answer_approval_word :: "message_env \<Rightarrow> bool \<Rightarrow> bool \<Rightarrow> ops_state \<Rightarrow> handled" where
  "answer_approval_word M approved always st =
     (let E = me_ops M;
          state = (case get_thread E st of Some th \<Rightarrow> ct_state th | None \<Rightarrow> ThreadIdle)
      in if should_route_as_approval state (oe_message_content E)
         then Some (finish M (process_approval E None approved always st))
         else (case before_inbound (oe_chat E) (me_external M) (oe_message_content E) of
                 Inl answer \<Rightarrow> Some (Ok (HoRespond answer), st)
               | Inr content \<Rightarrow> map_option (finish M) (handle_user_input E (me_rounds M) content st)))"

text \<open>\<open>/reasoning\<close> is answered past the rules for silent and empty responses.\<close>

definition reasoning_outcome :: "message_env \<Rightarrow> submission_result \<Rightarrow> handle_outcome" where
  "reasoning_outcome M r =
     (case r of
        SrResponse content \<Rightarrow> HoRespond content
      | SrOk m \<Rightarrow> from_legacy m
      | SrError m \<Rightarrow> HoRespond (''Error: '' @ m)
      | _ \<Rightarrow> if me_single_message_repl M then HoShutdown else HoNoResponse)"

definition dispatch :: "message_env \<Rightarrow> submission \<Rightarrow> ops_state \<Rightarrow> handled" where
  "dispatch M sub st =
     (let E = me_ops M
      in case sub of
           UserInput content \<Rightarrow> map_option (finish M) (handle_user_input E (me_rounds M) content st)
         | SubUndo \<Rightarrow> Some (finish M (process_undo E st))
         | SubRedo \<Rightarrow> Some (finish M (process_redo E st))
         | SubInterrupt \<Rightarrow> Some (finish M (process_interrupt E st))
         | SubCompact \<Rightarrow> Some (finish M (process_compact E st))
         | SubClear \<Rightarrow> Some (finish M (process_clear E st))
         | SubResume checkpoint_id \<Rightarrow> Some (finish M (process_resume E checkpoint_id st))
         | SubQuit \<Rightarrow> Some (Ok HoShutdown, st)
         | ExecApproval request_id approved always \<Rightarrow>
             Some (finish M (process_approval E (Some request_id) approved always st))
         | ApprovalResponse approved always \<Rightarrow> answer_approval_word M approved always st
         | Plan p \<Rightarrow> Some (finish M (process_user_input E (plan_text p) st))
         | SystemCommand command args \<Rightarrow>
             if command = ''reasoning''
             then Some (map_sum id (reasoning_outcome M) (me_other M sub), st)
             else Some (finish M (me_other M sub, st))
         | other \<Rightarrow> Some (finish M (me_other M other, st)))"

text \<open>Routines triggered by the message consume it.\<close>

definition after_auth :: "message_env \<Rightarrow> submission \<Rightarrow> ops_state \<Rightarrow> handled" where
  "after_auth M sub st =
     (case sub of
        UserInput content \<Rightarrow>
          if me_routines_fired M content > 0
          then Some (Ok (if me_single_message_repl M then HoShutdown else HoNoResponse), st)
          else dispatch M sub st
      | _ \<Rightarrow> dispatch M sub st)"

definition handle_on_thread :: "message_env \<Rightarrow> submission \<Rightarrow> ops_state \<Rightarrow> handled" where
  "handle_on_thread M sub st =
     (let E = me_ops M;
          leave = map_thread E (\<lambda>th. th\<lparr>ct_pending_auth := None\<rparr>) st
      in case Option.bind (get_thread E st) ct_pending_auth of
           None \<Rightarrow> after_auth M sub st
         | Some pending \<Rightarrow>
             if pending_auth_expired (oe_now E) pending then
               (case sub of
                  UserInput _ \<Rightarrow>
                    Some (Ok (HoRespond (''Authentication for **'' @ pa_extension_name pending
                      @ ''** expired. Please try again.'')), leave)
                | _ \<Rightarrow> after_auth M sub leave)
             else
               (case sub of
                  UserInput content \<Rightarrow>
                    (case process_auth_token E (me_submit_token M) pending content st of
                       (m, st1) \<Rightarrow> Some (Ok (from_legacy m), st1))
                | _ \<Rightarrow> after_auth M sub leave))"

end
