(* ===== verification/Thread_Safety.thy ===== *)
theory Thread_Safety
  imports Message_Loop
begin

text \<open>
  What the operations on threads guarantee. The interface \<open>delegate_inv\<close> carries a predicate on the state of a
  delegate through the agentic loop; its interpretation on the chat delegate shows that a run
  changes nothing of the threads but the tool calls and the narrative of turns, the authentication
  mode and the time stamps.
\<close>

section \<open>Predicates that a delegate keeps\<close>

locale delegate_inv =
  fixes D :: "('d, 'e, 'p) loop_delegate" and Q :: "'d \<Rightarrow> bool"
  assumes signals: "Q d \<Longrightarrow> Q (snd (ld_check_signals D d))"
    and before: "Q (fst s) \<Longrightarrow> Q (fst (snd (ld_before_llm_call D i s)))"
    and call: "Q (fst s) \<Longrightarrow> Q (fst (snd (ld_call_llm D i s)))"
    and text_response: "Q (fst s) \<Longrightarrow> Q (fst (snd (ld_handle_text_response D t a s)))"
    and execute: "Q (fst s) \<Longrightarrow> Q (fst (snd (ld_execute_tool_calls D calls content s)))"
    and nudge: "Q (fst s) \<Longrightarrow> Q (fst (ld_on_tool_intent_nudge D t s))"
    and after: "Q d \<Longrightarrow> Q (ld_after_iteration D i d)"
begin

abbreviation keeps :: "('r, 'd loop_state) progress \<Rightarrow> bool" where
  "keeps p \<equiv> (case p of Finished _ s \<Rightarrow> Q (fst (fst s)) | Next s \<Rightarrow> Q (fst (fst s)))"

lemma after_iteration_keeps [simp]: "Q (fst s) \<Longrightarrow> Q (fst (after_iteration D i s))"
  using after by (cases s) (simp add: after_iteration_def)

lemma on_text_keeps:
  assumes "Q (fst (fst s))" shows "keeps (on_text D cfg i t a s)"
proof -
  obtain d ctx v where s: "s = ((d, ctx), v)" by (cases s) auto
  have 1: "Q (fst (ld_on_tool_intent_nudge D t (d, ctx)))" using nudge [of "(d, ctx)"] assms by (simp add: s)
  have 2: "Q (fst (snd (ld_handle_text_response D t a (d, ctx))))" using text_response [of "(d, ctx)"] assms by (simp add: s)
  show ?thesis using 1 2 by (auto simp: on_text_def s Let_def split: prod.split text_action.split)
qed

lemma on_truncated_keeps: "Q (fst (fst s)) \<Longrightarrow> keeps (on_truncated D i content s)"
  by (cases s) (auto simp: on_truncated_def Let_def)

lemma on_tool_calls_keeps:
  assumes "Q (fst (fst s))" shows "keeps (on_tool_calls fp D i calls content s)"
proof -
  obtain d ctx v where s: "s = ((d, ctx), v)" by (cases s) auto
  have "Q (fst (snd (ld_execute_tool_calls D calls content (d, ctx\<lparr>rx_last_tool_batch_all_failed := False\<rparr>))))"
    using execute [of "(d, ctx\<lparr>rx_last_tool_batch_all_failed := False\<rparr>)"] assms by (simp add: s)
  then show ?thesis by (auto simp: on_tool_calls_def s Let_def split: prod.split sum.split option.split)
qed

lemma on_response_keeps: "Q (fst (fst s)) \<Longrightarrow> keeps (on_response fp D cfg i output s)"
  by (simp add: on_response_def on_text_keeps on_truncated_keeps on_tool_calls_keeps split: respond_result.split)

lemma loop_iteration_keeps:
  assumes "Q (fst (fst s))" shows "keeps (loop_iteration fp D cfg i s)"
proof -
  obtain d ctx v where s: "s = ((d, ctx), v)" by (cases s) auto
  obtain sg d1 where sg: "ld_check_signals D d = (sg, d1)" by fastforce
  with signals [of d] assms have d1: "Q d1" by (simp add: s)
  obtain o1 s1 where b: "ld_before_llm_call D i (d1, apply_signal sg ctx) = (o1, s1)" by (cases "ld_before_llm_call D i (d1, apply_signal sg ctx)")
  with before [of "(d1, apply_signal sg ctx)" i] d1 have s1: "Q (fst s1)" by simp
  obtain r s2 where c: "ld_call_llm D i s1 = (r, s2)" by (cases "ld_call_llm D i s1")
  with call [of s1 i] s1 have s2: "Q (fst s2)" by simp
  show ?thesis using d1 s1 s2 on_response_keeps [of "(s2, v)"]
    by (auto simp: loop_iteration_def s sg b c split: option.split sum.split)
qed

lemma loop_iterations_keeps:
  "Q (fst (fst s)) \<Longrightarrow> loop_iterations fp D cfg is s = (r, s') \<Longrightarrow> Q (fst (fst s'))"
proof (induction "is" arbitrary: s)
  case (Cons i "is")
  from loop_iteration_keeps [OF Cons.prems(1), of fp cfg i] Cons.prems(2) show ?case
    by (auto split: progress.splits intro: Cons.IH)
qed simp

lemma run_keeps: "Q (fst s) \<Longrightarrow> run_agentic_loop fp D cfg s = (r, s') \<Longrightarrow> Q (fst (fst s'))"
  unfolding run_agentic_loop_def by (erule loop_iterations_keeps [rotated]) simp

end

section \<open>What a run leaves of a thread\<close>

definition turn_view :: "turn \<Rightarrow> turn" where
  "turn_view t = t\<lparr>tn_tool_calls := [], tn_narrative := None\<rparr>"

definition thread_view :: "chat_thread \<Rightarrow> chat_thread" where
  "thread_view th = th\<lparr>ct_turns := map turn_view (ct_turns th), ct_updated_at := 0, ct_pending_auth := None\<rparr>"

definition session_view :: "session \<Rightarrow> (uuid \<times> chat_thread) list" where
  "session_view s = map (\<lambda>(k, th). (k, thread_view th)) (ss_threads s)"

lemma session_view_modify:
  "(\<And>th. thread_view (f th) = thread_view th) \<Longrightarrow>
     session_view (s\<lparr>ss_threads := hm_modify (ss_threads s) i f\<rparr>) = session_view s"
  by (auto simp: session_view_def hm_modify_def)

lemma map_last_view: "(\<And>t. g (f t) = g t) \<Longrightarrow> map g (map_last f xs) = map g xs"
  by (cases xs rule: rev_cases) (simp_all add: map_last_def)

lemma on_last_turn_view: "(\<And>t. turn_view (f t) = turn_view t) \<Longrightarrow> session_view (on_last_turn i f s) = session_view s"
  unfolding on_last_turn_def by (rule session_view_modify) (simp add: thread_view_def map_last_view)

lemma turn_view_record [simp]:
  "turn_view (record_tool_call_with_reasoning n p r i t) = turn_view t"
  "turn_view (record_tool_result_for j v t) = turn_view t"
  "turn_view (record_tool_error_for j e t) = turn_view t"
  by (simp_all add: turn_view_def record_tool_call_with_reasoning_def record_tool_result_for_def
      record_tool_error_for_def update_call_for_def split: option.split)

lemma turn_view_record_calls [simp]: "turn_view (record_calls E narrative calls t) = turn_view t"
proof -
  have "turn_view (fold (\<lambda>tc. record_tool_call_with_reasoning (tc_name tc) (p tc) (r tc) (j tc)) calls t') = turn_view t'"
    for p r j t' by (induction calls arbitrary: t') simp_all
  then show ?thesis by (simp add: record_calls_def) (simp add: turn_view_def)
qed

lemma record_outcome_view [simp]: "session_view (cd_session (record_outcome E tc err content d)) = session_view (cd_session d)"
  by (simp add: record_outcome_def on_last_turn_view)

lemma postflight_view:
  "session_view (cd_session (po_state (fold (postflight_step E) checked p))) = session_view (cd_session (po_state p))"
proof (induction checked arbitrary: p)
  case (Cons x xs)
  have "session_view (cd_session (po_state (postflight_step E x p))) = session_view (cd_session (po_state p))"
    by (cases x) (auto simp: postflight_step_def Let_def split: preflight_outcome.split sum.split prod.split)
  with Cons show ?case by simp
qed simp

lemma enter_auth_view [simp]: "session_view (cd_session (enter_auth E ext d)) = session_view (cd_session d)"
  by (simp add: enter_auth_def session_view_modify thread_view_def enter_auth_mode_def)

lemma execute_view:
  "session_view (cd_session (fst (snd (chat_execute_tool_calls E calls content s)))) = session_view (cd_session (fst s))"
proof (cases s)
  case (Pair d ctx)
  then show ?thesis
    by (simp add: chat_execute_tool_calls_def Let_def postflight_view on_last_turn_view
        split: prod.split option.split)
qed

lemma auto_approve_threads [simp]: "ss_threads (fold auto_approve_tool ns s) = ss_threads s"
  by (induction ns arbitrary: s) (simp_all add: auto_approve_tool_def)

lemma set_auto_approved_view [simp]: "session_view (cd_session (cs_chat (set_auto_approved ns d))) = session_view (cd_session (cs_chat d))"
  by (simp add: set_auto_approved_def session_view_def)

lemma record_usage_chat [simp]: "cs_chat (record_usage L ctx out d) = cs_chat d"
  by (simp add: record_usage_def)

lemma chat_call_llm_chat: "cs_chat (fst (snd (chat_call_llm L i (d, ctx)))) = cs_chat d"
proof (cases "cl_cost_check L i")
  case None
  let ?c = "if i = 0 then apply_model_settings L ctx else ctx"
  show ?thesis
  proof (cases "cl_respond L i False ?c")
    case (Inl e)
    with None show ?thesis by (cases e) (simp_all add: chat_call_llm_def Let_def split: sum.split)
  next
    case (Inr out)
    with None show ?thesis by (simp add: chat_call_llm_def Let_def)
  qed
qed (simp add: chat_call_llm_def)

lemma execute_viewD:
  "chat_execute_tool_calls E calls content (c, ctx) = (r, c', ctx') \<Longrightarrow> session_view (cd_session c') = session_view (cd_session c)"
  by (metis execute_view fst_conv snd_conv)

text \<open>When nothing else happens during the run.\<close>

definition alone :: "chat_loop_env \<Rightarrow> chat_loop_env" where "alone L = L\<lparr>cl_world := id\<rparr>"

interpretation chat: delegate_inv "chat_delegate (alone L)" "\<lambda>d. session_view (cd_session (cs_chat d)) = V" for L V
proof (unfold_locales, goal_cases)
  case (1 d)
  then show ?case by (simp add: chat_delegate_def chat_check_signals_def alone_def Let_def split: option.split)
next
  case (2 s i)
  then show ?case
    by (auto simp: chat_delegate_def chat_before_llm_call_def Let_def
        split: prod.split option.split sum.split)
next
  case (3 s i)
  then show ?case
    by (cases s) (simp add: chat_delegate_def chat_call_llm_chat)
next
  case (4 s t a)
  then show ?case
    by (auto simp: chat_delegate_def chat_handle_text_response_def Let_def split: prod.split option.split)
next
  case (5 s calls content)
  then show ?case by (auto simp: chat_delegate_def dest: execute_viewD split: prod.split)
qed (simp_all add: chat_delegate_def)

section \<open>Every message is handled to its end\<close>

definition all_threads :: "(uuid \<Rightarrow> chat_thread \<Rightarrow> bool) \<Rightarrow> ops_state \<Rightarrow> bool" where
  "all_threads P st = list_all (\<lambda>(k, th). P k th) (ss_threads (os_session st))"

text \<open>A thread between messages, and a thread during the turn of thread \<open>i\<close>.\<close>

definition quiet :: "chat_thread \<Rightarrow> bool" where
  "quiet th = (ct_state th \<noteq> ThreadProcessing \<and> ct_pending_messages th = []
     \<and> (ct_state th = ThreadAwaitingApproval \<longrightarrow> ct_pending_approval th \<noteq> None))"

definition running :: "uuid \<Rightarrow> uuid \<Rightarrow> chat_thread \<Rightarrow> bool" where
  "running i k th = (if k = i then ct_pending_messages th = [] \<and> ct_state th \<noteq> ThreadInterrupted else quiet th)"

abbreviation "quiet_state \<equiv> all_threads (\<lambda>_. quiet)"

definition alone_ops :: "ops_env \<Rightarrow> ops_env" where "alone_ops E = E\<lparr>oe_loop := alone (oe_loop E)\<rparr>"

lemma all_threads_get: "all_threads P st \<Longrightarrow> get_thread E st = Some th \<Longrightarrow> P (oe_thread_id E) th"
  by (auto simp: all_threads_def get_thread_def hm_get_def list_all_iff dest: map_of_SomeD)

lemma all_threads_map:
  assumes "all_threads P st" and "\<And>k th. k \<noteq> oe_thread_id E \<Longrightarrow> P k th \<Longrightarrow> Q k th"
    and "\<And>th. P (oe_thread_id E) th \<Longrightarrow> Q (oe_thread_id E) (f th)"
  shows "all_threads Q (map_thread E f st)"
  using assms by (auto simp: all_threads_def map_thread_def hm_modify_def list_all_iff)

lemma all_threads_state [simp]:
  "all_threads P (st\<lparr>os_undo := u\<rparr>) = all_threads P st" "all_threads P (st\<lparr>os_workspace := w\<rparr>) = all_threads P st"
  "all_threads P (st\<lparr>os_permissions := m\<rparr>) = all_threads P st" "all_threads P (set_undo E v st) = all_threads P st"
  by (simp_all add: all_threads_def set_undo_def)

lemma get_thread_map [simp]: "get_thread E (map_thread E f st) = map_option f (get_thread E st)"
  by (simp add: get_thread_def map_thread_def hm_get_modify)

lemma get_thread_state [simp]:
  "get_thread E (st\<lparr>os_undo := u\<rparr>) = get_thread E st" "get_thread E (st\<lparr>os_workspace := w\<rparr>) = get_thread E st"
  "get_thread E (set_undo E' v st) = get_thread E st"
  by (simp_all add: get_thread_def set_undo_def)

lemma all_threads_view:
  assumes "session_view (os_session st') = session_view (os_session st)"
    and "\<And>k th. P k th \<longleftrightarrow> P k (thread_view th)"
  shows "all_threads P st' = all_threads P st"
proof -
  have "all_threads P s = list_all (\<lambda>(k, th). P k th) (session_view (os_session s))" for s
    using assms(2) by (auto simp: all_threads_def session_view_def list_all_iff)
  with assms(1) show ?thesis by simp
qed

lemma quiet_view: "quiet th \<longleftrightarrow> quiet (thread_view th)" and running_view: "running i k th \<longleftrightarrow> running i k (thread_view th)"
  by (simp_all add: quiet_def running_def thread_view_def)

lemma get_thread_view:
  assumes "session_view (os_session st') = session_view (os_session st)"
  shows "map_option thread_view (get_thread E st') = map_option thread_view (get_thread E st)"
proof -
  have "map_option thread_view (get_thread E s) = map_of (session_view (os_session s)) (oe_thread_id E)" for s
  proof -
    have "map_of (map (\<lambda>(k, th). (k, thread_view th)) m) i = map_option thread_view (map_of m i)"
      for m :: "(uuid \<times> chat_thread) list" and i
      by (induction m) auto
    then show ?thesis by (simp add: get_thread_def hm_get_def session_view_def)
  qed
  with assms show ?thesis by simp
qed

lemma run_loop_view:
  assumes "run_loop (alone_ops E) ms st = (r, st')"
  shows "session_view (os_session st') = session_view (os_session st)" "os_undo st' = os_undo st"
    "os_workspace st' = os_workspace st" "os_permissions st' = os_permissions st"
proof -
  let ?n = "oe_max_tool_iterations E"
  let ?L = "(oe_loop E)\<lparr>cl_nudge_at := ?n - 1, cl_force_text_at := ?n\<rparr>"
  have L: "(alone (oe_loop E))\<lparr>cl_nudge_at := ?n - 1, cl_force_text_at := ?n\<rparr> = alone ?L" by (simp add: alone_def)
  let ?c = "chat_context (oe_uuid_str E) (alone ?L)
      (messages_for_llm (oe_message_content E) (oe_rewrite E (oe_message_content E)) ms)"
  obtain o1 d ctx v where run: "run_agentic_loop (oe_fp E) (chat_delegate (alone ?L)) (chat_loop_config ?n)
      (\<lparr>cs_chat = \<lparr>cd_session = os_session st, cd_output_stash = []\<rparr>, cs_usage = turn_usage_default\<rparr>, ?c) = (o1, (d, ctx), v)"
    by (metis prod.collapse)
  from chat.run_keeps [of "(\<lparr>cs_chat = \<lparr>cd_session = os_session st, cd_output_stash = []\<rparr>, cs_usage = turn_usage_default\<rparr>, ?c)"
      "session_view (os_session st)", OF _ run]
  have "session_view (cd_session (cs_chat d)) = session_view (os_session st)" by simp
  with assms run show "session_view (os_session st') = session_view (os_session st)" "os_undo st' = os_undo st"
    "os_workspace st' = os_workspace st" "os_permissions st' = os_permissions st"
    by (auto simp: run_loop_def alone_ops_def run_chat_loop_def Let_def L simp del: One_nat_def)
qed

lemma run_loop_running:
  assumes "run_loop (alone_ops E) ms st = (r, st')" and "all_threads (running i) st"
  shows "all_threads (running i) st'" and "get_thread E' st \<noteq> None \<Longrightarrow> get_thread E' st' \<noteq> None"
  using all_threads_view [where P = "running i", OF run_loop_view(1) [OF assms(1)] running_view] assms(2)
    get_thread_view [OF run_loop_view(1) [OF assms(1)], of E'] by (simp_all flip: not_None_eq) force

lemma conclude_run_quiet:
  assumes "all_threads (running (oe_thread_id E)) st"
  shows "quiet_state (snd (conclude_run f E r st))"
  using assms by (cases r) (auto simp: conclude_run_def Let_def running_def quiet_def conclude_turn_def await_approval_def
      intro!: all_threads_map)


text \<open>Nothing else happens while the message is handled: the message loop takes the next one only afterwards.\<close>

definition serial :: "ops_env \<Rightarrow> bool" where "serial E = (cl_world (oe_loop E) = id)"

lemma serial_alone: "serial E \<Longrightarrow> alone_ops E = E"
  by (simp add: serial_def alone_ops_def alone_def)

lemma serial_run:
  assumes "serial E" and "run_loop E ms st = (r, st')" and "all_threads (running i) st"
  shows "all_threads (running i) st'" and "get_thread E' st \<noteq> None \<Longrightarrow> get_thread E' st' \<noteq> None"
  using run_loop_running [where E = E and ms = ms and st = st and r = r and st' = st', OF _ assms(3)] assms(1,2)
  by (simp_all add: serial_alone)

lemma compact_thread_turns:
  assumes "compact_thread K strategy ws th = (r, ws', th')" shows "\<exists>ts. th' = th\<lparr>ct_turns := ts\<rparr>"
proof -
  have self: "\<exists>ts. th = th\<lparr>ct_turns := ts\<rparr>" by (rule exI [of _ "ct_turns th"]) simp
  have cut: "\<exists>ts. truncate_turns keep th = th\<lparr>ct_turns := ts\<rparr>" for keep
    using self by (auto simp: truncate_turns_def)
  have "th' = th \<or> (\<exists>keep. th' = truncate_turns keep th)"
    using assms by (auto simp: compact_thread_def compact_with_summary_def compact_truncate_def compact_to_workspace_def
        Let_def split: compaction_strategy.splits sum.splits option.splits prod.splits if_splits)
  with self cut show ?thesis by auto
qed

lemma quiet_turns [simp]: "quiet (th\<lparr>ct_turns := ts\<rparr>) = quiet th"
  by (simp add: quiet_def)

lemma auto_compact_quiet:
  assumes "quiet_state st" and "get_thread E st = Some th"
  shows "quiet_state (auto_compact E th st)" and "\<exists>ts. get_thread E (auto_compact E th st) = Some (th\<lparr>ct_turns := ts\<rparr>)"
proof -
  have q: "quiet th" using all_threads_get [OF assms] .
  have self: "\<exists>ts. th = th\<lparr>ct_turns := ts\<rparr>" by (rule exI [of _ "ct_turns th"]) simp
  have "quiet_state (auto_compact E th st) \<and> (\<exists>ts. get_thread E (auto_compact E th st) = Some (th\<lparr>ct_turns := ts\<rparr>))"
  proof (cases "suggest_compaction (oe_monitor E) (messages_of E th)")
    case (Some strategy)
    obtain r ws th' where c: "compact_thread (oe_compactor E) strategy (os_workspace st) th = (r, ws, th')"
      by (metis prod_cases3)
    from compact_thread_turns [OF this] obtain ts where th': "th' = th\<lparr>ct_turns := ts\<rparr>" by blast
    have "quiet_state (map_thread E (\<lambda>_. th') st)"
      by (rule all_threads_map [where P = "\<lambda>_. quiet"]) (use assms q th' in simp_all)
    then show ?thesis using assms th' by (auto simp: auto_compact_def Some c)
  qed (use assms self in \<open>simp add: auto_compact_def\<close>)
  then show "quiet_state (auto_compact E th st)" and "\<exists>ts. get_thread E (auto_compact E th st) = Some (th\<lparr>ct_turns := ts\<rparr>)"
    by blast+
qed

lemma open_turn_running: "quiet th \<Longrightarrow> running (oe_thread_id E) (oe_thread_id E) (note_user_message_id E (open_turn E c ps th))"
  by (auto simp: running_def quiet_def open_turn_def start_turn_def note_user_message_id_def Let_def split: option.split)

lemma run_user_turn_quiet:
  assumes "serial E" and "quiet_state st"
  shows "quiet_state (snd (run_user_turn E content parts st))"
proof (cases "get_thread E st")
  case (Some th0)
  from auto_compact_quiet [OF assms(2) Some]
  obtain th where q1: "quiet_state (auto_compact E th0 st)" and th: "get_thread E (auto_compact E th0 st) = Some th"
    by blast
  let ?st2 = "map_thread E (\<lambda>_. note_user_message_id E (open_turn E content parts th))
      (checkpoint_turn E th (auto_compact E th0 st))"
  have r2: "all_threads (running (oe_thread_id E)) ?st2"
    using q1 all_threads_get [OF q1 th] open_turn_running [of th E content parts]
    by (intro all_threads_map [where P = "\<lambda>_. quiet"]) (simp_all add: checkpoint_turn_def running_def)
  obtain r st3 where run: "run_loop E (messages_of E (open_turn E content parts th)) ?st2 = (r, st3)" by fastforce
  note r3 = serial_run [OF assms(1) run r2]
  have "get_thread E st3 \<noteq> None" using r3(2) [of E] th by (simp add: checkpoint_turn_def)
  then obtain th3 where th3: "get_thread E st3 = Some th3" by blast
  have "ct_state th3 \<noteq> ThreadInterrupted" using all_threads_get [OF r3(1) th3] by (simp add: running_def)
  with th3 conclude_run_quiet [OF r3(1), of "transform_response E" r]
  have "quiet_state (snd (finish_user_turn E r st3))"
    by (cases "conclude_run (transform_response E) E r st3") (simp add: finish_user_turn_def)
  with Some th run show ?thesis by (simp add: run_user_turn_def Let_def)
qed (use assms in \<open>simp add: run_user_turn_def\<close>)

lemma process_user_input_quiet:
  assumes "serial E" and "quiet_state st"
  shows "quiet_state (snd (process_user_input E content st))"
proof (cases "get_thread E st")
  case (Some th)
  have "ct_state th \<noteq> ThreadProcessing" using all_threads_get [OF assms(2) Some] by (simp add: quiet_def)
  with Some assms show ?thesis
    by (auto simp: process_user_input_def run_user_turn_quiet split: chat_thread_state.split option.split prod.split)
qed (use assms in \<open>simp add: process_user_input_def\<close>)

lemma map_quiet: "quiet_state st \<Longrightarrow> (\<And>th. quiet th \<Longrightarrow> quiet (f th)) \<Longrightarrow> quiet_state (map_thread E f st)"
  by (rule all_threads_map [where P = "\<lambda>_. quiet"])

lemma quiet_results [simp]:
  "quiet th \<Longrightarrow> quiet (restore_from_messages now ms th)" "quiet (clear_thread th)" "quiet (thread_interrupt now th)"
  "quiet th \<Longrightarrow> quiet (th\<lparr>ct_pending_auth := a\<rparr>)" "quiet th \<Longrightarrow> quiet (enter_auth_mode now ext th)"
  "quiet th \<Longrightarrow> quiet (conclude_turn now outcome (clear_pending_approval now th))"
  by (simp_all add: quiet_def restore_from_messages_def clear_thread_def thread_interrupt_def enter_auth_mode_def
      conclude_turn_def clear_pending_approval_def)

lemma history_ops_quiet:
  assumes "quiet_state st"
  shows "quiet_state (snd (process_undo E st))" "quiet_state (snd (process_redo E st))"
    "quiet_state (snd (process_resume E cid st))" "quiet_state (snd (process_clear E st))"
    "quiet_state (snd (process_interrupt E st))"
  using assms
  by (auto simp: process_undo_def process_redo_def process_resume_def process_clear_def process_interrupt_def Let_def
      intro!: map_quiet split: option.split prod.split)

lemma process_compact_quiet:
  assumes "quiet_state st" shows "quiet_state (snd (process_compact E st))"
proof (cases "get_thread E st")
  case (Some th)
  let ?s = "case suggest_compaction (oe_monitor E) (messages_of E th) of Some s \<Rightarrow> s | None \<Rightarrow> CompactSummarize 5"
  obtain r ws th' where c: "compact_thread (oe_compactor E) ?s (os_workspace st) th = (r, ws, th')" by (metis prod_cases3)
  from compact_thread_turns [OF this] obtain ts where "th' = th\<lparr>ct_turns := ts\<rparr>" by blast
  with all_threads_get [OF assms Some] have "quiet th'" by simp
  with assms have "quiet_state (map_thread E (\<lambda>_. th') st)" by (simp add: map_quiet)
  with Some c show ?thesis by (simp add: process_compact_def Let_def split: sum.split)
qed (use assms in \<open>simp add: process_compact_def\<close>)

lemma replay_view: "session_view (rp_session (replay_call C tc r)) = session_view (rp_session r)"
  by (simp add: replay_call_def Let_def on_last_turn_view split: prod.split)

lemma replays_view: "session_view (rp_session (fold (replay_call C) tcs r)) = session_view (rp_session r)"
  by (induction tcs arbitrary: r) (simp_all add: replay_view)

lemma finish_approved_quiet:
  assumes "all_threads (running (oe_thread_id E)) st" and "get_thread E st \<noteq> None"
  shows "quiet_state (snd (finish_approved_turn E r st))"
  using conclude_run_quiet [OF assms(1), of id r] assms(2)
  by (cases "conclude_run id E r st") (auto simp: finish_approved_turn_def)

lemma resume_approved_quiet:
  assumes s: "serial E" and q: "all_threads (running (oe_thread_id E)) st" and g: "get_thread E st \<noteq> None"
  shows "quiet_state (snd (resume_approved E p st))"
proof -
  let ?C = "oe_chat E"
  let ?st1 = "map_thread E (\<lambda>th. th\<lparr>ct_state := ThreadProcessing\<rparr>) st"
  let ?r1 = "replay_call ?C (approved_call p) \<lparr>rp_session = os_session ?st1, rp_messages = pv_context_messages p,
      rp_auth = restore_selected_auth_prompt (pv_selected_auth_prompt p)\<rparr>"
  obtain runnable stop where d: "deferred_preflight ?C (rp_session ?r1) 0 (pv_deferred_tool_calls p) = (runnable, stop)"
    by fastforce
  let ?r2 = "fold (replay_call ?C) runnable ?r1"
  let ?st2 = "?st1\<lparr>os_session := rp_session ?r2\<rparr>"
  have q1: "all_threads (running (oe_thread_id E)) ?st1"
    using q by (rule all_threads_map) (simp_all add: running_def)
  have v: "session_view (os_session ?st2) = session_view (os_session ?st1)" by (simp add: replays_view replay_view)
  have q2: "all_threads (running (oe_thread_id E)) ?st2"
    using all_threads_view [where P = "running (oe_thread_id E)", OF v running_view] q1 by blast
  have g2: "get_thread E ?st2 \<noteq> None" using get_thread_view [OF v, of E] g by auto
  have run: "quiet_state (snd (case run_loop E (rp_messages ?r2) ?st2 of (result, st3) \<Rightarrow> finish_approved_turn E result st3))"
  proof -
    obtain r st3 where r: "run_loop E (rp_messages ?r2) ?st2 = (r, st3)" by fastforce
    from serial_run [OF s r q2] g2 finish_approved_quiet [of E st3 r] show ?thesis by (simp add: r)
  qed
  have stopped: "quiet_state (map_thread E (await_approval (oe_now E) np) ?st2)"
    and auth: "quiet_state (auth_intercept E ext instr ?st2)" for np ext instr
    unfolding auth_intercept_def
    by (rule all_threads_map [OF q2]; simp add: running_def quiet_def await_approval_def conclude_turn_def enter_auth_mode_def)+
  show ?thesis unfolding resume_approved_def Let_def d prod.case
    using run stopped auth by (simp split: option.split prod.split)
qed

lemma process_approval_quiet:
  assumes s: "serial E" and q: "quiet_state st"
  shows "quiet_state (snd (process_approval E rid approved always st))"
proof -
  obtain c st1 where c: "claim_approval E rid st = (c, st1)" by fastforce
  show ?thesis
  proof (cases "\<exists>p. c = Ok (Inr p)")
    case True
    then obtain p where p: "c = Ok (Inr p)" ..
    from c p obtain th where th: "get_thread E st = Some th"
      and st1: "st1 = map_thread E (\<lambda>_. th\<lparr>ct_pending_approval := None\<rparr>) st" and a: "ct_state th = ThreadAwaitingApproval"
      by (auto simp: claim_approval_def take_pending_approval_def split: option.splits if_splits)
    let ?st2 = "if always then always_approve E (pv_tool_name p) st1 else st1"
    have r1: "all_threads (running (oe_thread_id E)) st1"
      unfolding st1 by (rule all_threads_map [OF q]) (use all_threads_get [OF q th] a in \<open>simp_all add: running_def quiet_def\<close>)
    from r1 have r: "all_threads (running (oe_thread_id E)) ?st2"
      by (auto simp: always_approve_def auto_approve_tool_def all_threads_def Let_def)
    have g: "get_thread E ?st2 \<noteq> None"
      using th st1 by (auto simp: always_approve_def auto_approve_tool_def get_thread_def map_thread_def hm_get_modify Let_def)
    have "quiet_state (snd (reject_call E p st1))"
      unfolding reject_call_def Let_def snd_conv
      by (rule all_threads_map [OF r1]) (simp_all add: running_def quiet_def conclude_turn_def clear_pending_approval_def)
    with resume_approved_quiet [OF s r g] c p show ?thesis by (simp add: process_approval_def)
  next
    case False
    have "quiet_state st1"
      using c False q by (auto simp: claim_approval_def take_pending_approval_def await_approval_def quiet_def
          intro!: map_quiet dest: all_threads_get split: option.splits if_splits)
    with False c show ?thesis by (auto simp: process_approval_def split: sum.split)
  qed
qed

lemma process_auth_quiet: "quiet_state st \<Longrightarrow> quiet_state (snd (process_auth_token E f p c st))"
  by (auto simp: process_auth_token_def reenter_auth_def Let_def intro!: map_quiet split: option.split token_outcome.split)

lemma no_drain: "quiet_state st \<Longrightarrow> drained_content E (r, st) = None"
  by (auto simp: drained_content_def drain_pending_messages_def quiet_def dest: all_threads_get
      split: sum.split submission_result.split option.split bind_splits)

lemma handle_user_input_quiet:
  assumes "serial E" and "quiet_state st"
  shows "handle_user_input E Es content st = Some (process_user_input E content st)"
proof -
  have "drained_content E (process_user_input E content st) = None"
    using no_drain [OF process_user_input_quiet [OF assms, of content], of E "fst (process_user_input E content st)"] by simp
  then show ?thesis by (cases Es) (simp_all add: handle_user_input_def)
qed

lemma finish_quiet: "quiet_state (snd res) \<Longrightarrow> \<exists>r st'. Some (finish M res) = Some (r, st') \<and> quiet_state st'"
  by (cases res) (simp add: finish_def)

lemma dispatch_quiet:
  assumes s: "serial (me_ops M)" and q: "quiet_state st"
  shows "\<exists>r st'. dispatch M sub st = Some (r, st') \<and> quiet_state st'"
proof -
  note ops = finish_quiet [of "process_user_input (me_ops M) c st" for c, OF process_user_input_quiet [OF s q]]
    finish_quiet [OF process_approval_quiet [OF s q]] finish_quiet [OF process_compact_quiet [OF q]]
    history_ops_quiet [OF q, THEN finish_quiet]
  have other: "\<exists>r st'. Some (finish M (res, st)) = Some (r, st') \<and> quiet_state st'" for res
    using q by (intro finish_quiet) simp
  have words: "\<exists>r st'. answer_approval_word M a b st = Some (r, st') \<and> quiet_state st'" for a b
    using ops q by (auto simp: answer_approval_word_def Let_def handle_user_input_quiet [OF s q] split: sum.split)
  show ?thesis
    using ops words other q by (cases sub) (auto simp: dispatch_def Let_def handle_user_input_quiet [OF s q])
qed

lemma after_auth_quiet:
  assumes "serial (me_ops M)" and "quiet_state st"
  shows "\<exists>r st'. after_auth M sub st = Some (r, st') \<and> quiet_state st'"
  using dispatch_quiet [OF assms, of sub] assms(2) by (cases sub) (auto simp: after_auth_def)

text \<open>
  C32. Every message is handled to its end: with one message handled after the other, as the message loop
  does, handling a submission on a thread always finishes, and afterwards again no thread is in the middle of a
  turn, no thread has queued messages, and a thread that waits for an approval has one to wait for. So
  the queue for messages that arrive during a turn and its drain loop are never used, and \<open>/interrupt\<close> never
  meets a running turn.
\<close>

theorem each_message_settles:
  assumes "serial (me_ops M)" and "quiet_state st"
  shows "\<exists>r st'. handle_on_thread M sub st = Some (r, st') \<and> quiet_state st'"
proof -
  let ?leave = "map_thread (me_ops M) (\<lambda>th. th\<lparr>ct_pending_auth := None\<rparr>) st"
  have q: "quiet_state ?leave" using assms(2) by (intro map_quiet) simp_all
  have "\<exists>r st'. (case process_auth_token (me_ops M) f p c st of (m, st1) \<Rightarrow> Some (Ok (from_legacy m), st1)) = Some (r, st')
      \<and> quiet_state st'" for f p c
    using process_auth_quiet [OF assms(2), of "me_ops M" f p c]
    by (cases "process_auth_token (me_ops M) f p c st") simp
  then show ?thesis
    using after_auth_quiet [OF assms, of sub] after_auth_quiet [OF assms(1) q, of sub] q
    by (cases sub) (auto simp: handle_on_thread_def Let_def split: option.split)
qed

definition plain_ops :: ops_env where
  "plain_ops = \<lparr>oe_loop = plain_loop_env, oe_fp = (\<lambda>_. 0), oe_uuid_str = (\<lambda>_. []), oe_max_tool_iterations = 5,
     oe_monitor = monitor_new,
     oe_compactor = \<lparr>co_from_str = (\<lambda>_. None), co_to_str = (\<lambda>_. []), co_complete = (\<lambda>_. Ok ''greeting''),
       co_append = (\<lambda>_ _ w. Ok w), co_date = [], co_clock = []\<rparr>,
     oe_message_content = ''hello'', oe_rewrite = id, oe_has_attachments = False, oe_augment = (\<lambda>_. None),
     oe_invalid = (\<lambda>_. None), oe_blocked = (\<lambda>_. False), oe_secret = (\<lambda>_. None), oe_command = (\<lambda>_. Ok (SrOk None)),
     oe_error_text = (\<lambda>_. ''failed''), oe_show_percent = (\<lambda>_. []), oe_user_message_id = None, oe_checkpoint_id = 9,
     oe_settings_writable = True\<rparr>"

definition plain_message :: message_env where
  "plain_message = \<lparr>me_ops = plain_ops, me_rounds = [], me_external = None, me_single_message_repl = False,
     me_routines_fired = (\<lambda>_. 0), me_submit_token = None, me_other = (\<lambda>_. Ok (SrOk None))\<rparr>"

definition plain_ops_state :: ops_state where
  "plain_ops_state = \<lparr>os_session = (session_new 0 2 ''ann'')\<lparr>ss_threads := [(1, two_turns)]\<rparr>,
     os_undo = [], os_workspace = None, os_permissions = []\<rparr>"

lemma plain_serial: "serial (me_ops plain_message)"
  by (simp add: serial_def plain_message_def plain_ops_def plain_loop_env_def id_def)

lemma two_turns_fields [simp]:
  "ct_state two_turns = ThreadProcessing" "ct_pending_messages two_turns = []"
  by (simp_all add: two_turns_def start_turn_def conclude_turn_def chat_thread_with_id_def)

definition plain_settled :: ops_state where
  "plain_settled = map_thread plain_ops (\<lambda>th. th\<lparr>ct_state := ThreadIdle\<rparr>) plain_ops_state"

lemma plain_quiet: "quiet_state plain_settled"
  by (simp add: plain_settled_def plain_ops_state_def map_thread_def hm_modify_def all_threads_def quiet_def session_new_def
      oe_thread_id_def oe_chat_def plain_ops_def plain_loop_env_def plain_env_def)

lemma each_message_settles_witness:
  "\<exists>r st'. handle_on_thread plain_message (UserInput ''hello'') plain_settled = Some (r, st') \<and> quiet_state st'"
  by (rule each_message_settles [OF plain_serial plain_quiet])

section \<open>Approvals are used once\<close>

text \<open>The results a delegate can give, beside those of the loop itself.\<close>

locale delegate_outcome =
  fixes D :: "('d, 'e, 'p) loop_delegate" and R :: "'p loop_outcome \<Rightarrow> bool"
  assumes before_outcome: "ld_before_llm_call D i s = (Some outcome, s') \<Longrightarrow> R outcome"
    and text_outcome: "ld_handle_text_response D t a s = (TextReturn outcome, s') \<Longrightarrow> R outcome"
    and execute_outcome: "ld_execute_tool_calls D calls content s = (Ok (Some outcome), s') \<Longrightarrow> R outcome"
    and stopped: "R LoopStopped" and exhausted: "R LoopMaxIterations"
begin

lemma on_response_outcome: "on_response fp D cfg i output s = Finished (Ok outcome) s' \<Longrightarrow> R outcome"
  by (cases s)
    (auto simp: on_response_def on_text_def on_truncated_def on_tool_calls_def Let_def
      dest: text_outcome execute_outcome
      split: respond_result.splits prod.splits text_action.splits sum.splits option.splits if_splits)

lemma loop_iteration_outcome: "loop_iteration fp D cfg i s = Finished (Ok outcome) s' \<Longrightarrow> R outcome"
  by (cases s)
    (auto simp: loop_iteration_def stopped intro: on_response_outcome
      dest: before_outcome split: prod.splits option.splits sum.splits if_splits)

lemma run_outcome:
  assumes "run_agentic_loop fp D cfg s = (Ok outcome, s')" shows "R outcome"
proof -
  have "loop_iterations fp D cfg is x = (Ok outcome, x') \<Longrightarrow> R outcome" for "is" x x'
  proof (induction "is" arbitrary: x)
    case (Cons i "is")
    then show ?case by (auto split: progress.splits dest: loop_iteration_outcome)
  qed (simp add: exhausted)
  with assms show ?thesis by (auto simp: run_agentic_loop_def)
qed

end

interpretation chat_out: delegate_outcome "chat_delegate L"
  "\<lambda>outcome. \<forall>p. outcome = LoopNeedApproval p \<longrightarrow> pv_request_id p = ce_request_id (cl_env L)" for L
proof (unfold_locales, goal_cases)
  case (1 i s outcome s')
  then show ?case
    by (auto simp: chat_delegate_def chat_before_llm_call_def Let_def split: prod.splits option.splits sum.splits)
next
  case (2 t a s outcome s')
  then show ?case
    by (auto simp: chat_delegate_def chat_handle_text_response_def Let_def split: prod.splits option.splits if_splits)
next
  case (3 calls content s outcome s')
  then show ?case
    by (auto simp: chat_delegate_def chat_execute_tool_calls_def Let_def pending_of_def
        split: prod.splits option.splits if_splits)
qed simp_all


lemma run_loop_pending:
  assumes "run_loop E ms st = (ArNeedApproval p u, st')"
  shows "pv_request_id p = ce_request_id (oe_chat E)"
proof -
  let ?n = "oe_max_tool_iterations E"
  let ?L = "(oe_loop E)\<lparr>cl_nudge_at := ?n - 1, cl_force_text_at := ?n\<rparr>"
  let ?c = "chat_context (oe_uuid_str E) ?L
      (messages_for_llm (oe_message_content E) (oe_rewrite E (oe_message_content E)) ms)"
  let ?run = "run_agentic_loop (oe_fp E) (chat_delegate ?L) (chat_loop_config ?n)
      (\<lparr>cs_chat = \<lparr>cd_session = os_session st, cd_output_stash = []\<rparr>, cs_usage = turn_usage_default\<rparr>, ?c)"
  obtain d ctx v where "?run = (Ok (LoopNeedApproval p), (d, ctx), v)"
    using assms by (auto simp: run_loop_def run_chat_loop_def loop_result_def Let_def simp del: One_nat_def
        split: prod.splits sum.splits loop_outcome.splits)
  from chat_out.run_outcome [OF this] show ?thesis by (simp add: oe_chat_def)
qed

text \<open>The approval a thread waits for, if any, is the one made by this operation.\<close>

definition new_request :: "ops_env \<Rightarrow> uuid \<Rightarrow> chat_thread \<Rightarrow> bool" where
  "new_request E k th = (k = oe_thread_id E \<longrightarrow>
     (\<forall>q. ct_pending_approval th = Some q \<longrightarrow> pv_request_id q = ce_request_id (oe_chat E)))"

lemma new_request_view: "new_request E k th \<longleftrightarrow> new_request E k (thread_view th)"
  by (simp add: new_request_def thread_view_def)

lemma finish_approved_request:
  assumes "serial E" and "all_threads (new_request E) st" and "run_loop E ms st = (r, st')"
  shows "all_threads (new_request E) (snd (finish_approved_turn E r st'))"
proof -
  have v: "session_view (os_session st') = session_view (os_session st)"
    using run_loop_view(1) [of E ms st r st'] assms(1,3) by (simp add: serial_alone)
  have q: "all_threads (new_request E) st'"
    using all_threads_view [where P = "new_request E", OF v new_request_view] assms(2) by blast
  have "all_threads (new_request E) (snd (conclude_run id E r st'))"
    using assms(3) q by (cases r) (auto simp: conclude_run_def Let_def new_request_def conclude_turn_def await_approval_def
        dest: run_loop_pending intro!: all_threads_map)
  then show ?thesis using q
    by (cases "conclude_run id E r st'") (auto simp: finish_approved_turn_def split: option.split)
qed

lemma resume_approved_request:
  assumes s: "serial E" and q: "all_threads (new_request E) st"
  shows "all_threads (new_request E) (snd (resume_approved E p st))"
proof -
  let ?C = "oe_chat E"
  let ?st1 = "map_thread E (\<lambda>th. th\<lparr>ct_state := ThreadProcessing\<rparr>) st"
  let ?r1 = "replay_call ?C (approved_call p) \<lparr>rp_session = os_session ?st1, rp_messages = pv_context_messages p,
      rp_auth = restore_selected_auth_prompt (pv_selected_auth_prompt p)\<rparr>"
  obtain runnable stop where d: "deferred_preflight ?C (rp_session ?r1) 0 (pv_deferred_tool_calls p) = (runnable, stop)"
    by fastforce
  let ?r2 = "fold (replay_call ?C) runnable ?r1"
  let ?st2 = "?st1\<lparr>os_session := rp_session ?r2\<rparr>"
  have q1: "all_threads (new_request E) ?st1" using q by (rule all_threads_map) (simp_all add: new_request_def)
  have v: "session_view (os_session ?st2) = session_view (os_session ?st1)" by (simp add: replays_view replay_view)
  have q2: "all_threads (new_request E) ?st2"
    using all_threads_view [where P = "new_request E", OF v new_request_view] q1 by blast
  have run: "all_threads (new_request E)
      (snd (case run_loop E (rp_messages ?r2) ?st2 of (result, st3) \<Rightarrow> finish_approved_turn E result st3))"
    using finish_approved_request [OF s q2] by (cases "run_loop E (rp_messages ?r2) ?st2") simp
  have stopped: "pv_request_id np = ce_request_id ?C \<Longrightarrow>
      all_threads (new_request E) (map_thread E (await_approval (oe_now E) np) ?st2)"
    and auth: "all_threads (new_request E) (auth_intercept E ext instr ?st2)" for np ext instr
    unfolding auth_intercept_def
    by (rule all_threads_map [OF q2]; simp add: new_request_def await_approval_def conclude_turn_def enter_auth_mode_def)+
  show ?thesis unfolding resume_approved_def Let_def d prod.case
    using run stopped auth by (simp add: pending_of_def split: option.split prod.split)
qed


definition sample_approval :: pending_approval where
  "sample_approval = \<lparr>pv_request_id = 5, pv_tool_name = ''shell'', pv_parameters = JNull, pv_display_parameters = JNull,
     pv_description = [], pv_tool_call_id = ''c1'', pv_context_messages = [], pv_deferred_tool_calls = [],
     pv_selected_auth_prompt = None, pv_user_timezone = None, pv_allow_always = True\<rparr>"

definition waiting_state :: ops_state where
  "waiting_state = map_thread plain_ops (await_approval 9 sample_approval) plain_settled"

lemma waiting_quiet: "quiet_state waiting_state"
  unfolding waiting_state_def
  by (rule map_quiet [OF plain_quiet]) (simp add: quiet_def await_approval_def)

lemma waiting_thread:
  "get_thread plain_ops waiting_state = Some (await_approval 9 sample_approval (two_turns\<lparr>ct_state := ThreadIdle\<rparr>))"
  by (simp add: waiting_state_def plain_settled_def)
    (simp add: get_thread_def plain_ops_state_def session_new_def hm_get_def oe_thread_id_def oe_chat_def plain_ops_def
      plain_loop_env_def plain_env_def)


section \<open>Creating or switching threads does not change where messages go\<close>

lemma key_open_session:
  "key_open m (thread_key_of u ch scope) i \<Longrightarrow> \<exists>s. hm_get (sm_sessions m) u = Some s \<and> get_or_create_session now sid u m = (s, m)
     \<and> hm_get (ss_threads s) i \<noteq> None"
  by (auto simp: key_open_def get_or_create_session_def)

lemma key_open_set_session:
  assumes "key_open m (thread_key_of u ch scope) i" and "hm_get (ss_threads s) i \<noteq> None"
  shows "key_open (set_session u s m) (thread_key_of u ch scope) i"
  using assms by (auto simp: key_open_def set_session_def hm_get_insert)

lemma hydrate_keeps_key:
  assumes op: "key_open m (thread_key_of (im_user_id msg) (im_channel msg) scope) i"
    and scope: "scope \<noteq> Some (uuid_str (the (parse_uuid ext)))"
    and h: "maybe_hydrate_thread parse_uuid uuid_str from_str store now sid msg ext m = (answer, m')"
  shows "key_open m' (thread_key_of (im_user_id msg) (im_channel msg) scope) i"
proof -
  obtain s where s: "get_or_create_session now sid (im_user_id msg) m = (s, m)" "hm_get (ss_threads s) i \<noteq> None"
    using key_open_session [OF op] by blast
  show ?thesis
  proof (cases "\<exists>j rows. parse_uuid ext = Some j \<and> hm_get (ss_threads s) j = None
      \<and> (case store of Some db \<Rightarrow> hydration_rows db msg j | None \<Rightarrow> Ok []) = Ok rows")
    case True
    then obtain j rows where j: "parse_uuid ext = Some j" "hm_get (ss_threads s) j = None"
      "(case store of Some db \<Rightarrow> hydration_rows db msg j | None \<Rightarrow> Ok []) = Ok rows" by blast
    then have "thread_key_of (im_user_id msg) (im_channel msg) (Some (uuid_str j))
        \<noteq> thread_key_of (im_user_id msg) (im_channel msg) scope"
      using scope by (simp add: thread_key_of_def)
    moreover have "hm_get (ss_threads (s\<lparr>ss_threads := hm_insert (ss_threads s) j th, ss_active_thread := Some j,
        ss_last_active_at := now\<rparr>)) i \<noteq> None" for th using s(2) by (simp add: hm_get_insert)
    ultimately show ?thesis
      using h op j s(1) by (auto simp: maybe_hydrate_thread_def Let_def key_open_def register_thread_def or_insert_def
          hm_get_insert split: option.splits)
  next
    case False
    with h s have "m' = m"
      by (auto simp: maybe_hydrate_thread_def split: option.splits if_splits sum.splits prod.splits)
    with op show ?thesis by simp
  qed
qed

text \<open>
  Creating a thread or switching to another one does not change where the next messages go: a channel conversation
  that has been resolved to a thread stays with that thread, because resolving looks at the map from
  conversations to threads and neither operation changes the entry; the active thread they set is not consulted.
\<close>

theorem new_thread_ignored:
  assumes "key_open m (thread_key_of (im_user_id msg) (im_channel msg) scope) i"
    and "parse_uuid (uuid_str target) = Some target" and "scope \<noteq> Some (uuid_str target)"
  shows "fst (resolve_thread parse_uuid now sid fresh (im_user_id msg) (im_channel msg) scope
            (snd (process_new_thread uuid_str now1 sid1 fresh1 msg m))) = i
     \<and> fst (resolve_thread parse_uuid now sid fresh (im_user_id msg) (im_channel msg) scope
            (snd (process_switch_thread parse_uuid uuid_str from_str store now1 sid1 msg target m))) = i"
proof -
  let ?u = "im_user_id msg"
  let ?k = "thread_key_of ?u (im_channel msg) scope"
  have res: "key_open m2 ?k i \<Longrightarrow> fst (resolve_thread parse_uuid now sid fresh ?u (im_channel msg) scope m2) = i" for m2
    by (simp add: resolve_thread_def resolve_open_key)
  obtain s where s: "get_or_create_session now1 sid1 ?u m = (s, m)" "hm_get (ss_threads s) i \<noteq> None"
    using key_open_session [OF assms(1)] by blast
  have 1: "key_open (snd (process_new_thread uuid_str now1 sid1 fresh1 msg m)) ?k i"
    using key_open_set_session [OF assms(1) create_thread_keeps(1) [OF s(2), of now1 fresh1 "Some (im_channel msg)"]]
    by (cases "create_thread now1 fresh1 (Some (im_channel msg)) s") (simp add: process_new_thread_def s)
  obtain answer m1 where h: "maybe_hydrate_thread parse_uuid uuid_str from_str store now1 sid1 msg (uuid_str target) m = (answer, m1)"
    by fastforce
  have op1: "key_open m1 ?k i" using hydrate_keeps_key [OF assms(1) _ h] assms(2,3) by simp
  obtain s1 where s1: "get_or_create_session now1 sid1 ?u m1 = (s1, m1)" "hm_get (ss_threads s1) i \<noteq> None"
    using key_open_session [OF op1] by blast
  have "hm_get (ss_threads (snd (switch_thread now1 target s1))) i \<noteq> None" using s1(2) by (simp add: switch_thread_def)
  then have 2: "key_open (snd (process_switch_thread parse_uuid uuid_str from_str store now1 sid1 msg target m)) ?k i"
    using op1 key_open_set_session [OF op1, of "snd (switch_thread now1 target s1)"]
    by (cases answer; cases "switch_thread now1 target s1") (simp_all add: process_switch_thread_def h s1)
  from res [OF 1] res [OF 2] show ?thesis by simp
qed

lemma new_thread_ignored_witness:
  "let m = snd (resolve_thread (\<lambda>_. None) 0 2 3 ''ann'' ''repl'' None session_manager_new);
       msg = \<lparr>im_user_id = ''ann'', im_channel = ''repl'', im_source = None\<rparr>
   in fst (resolve_thread (\<lambda>s. if s = ''t4'' then Some 4 else None) 5 6 7 ''ann'' ''repl'' None
        (snd (process_new_thread (\<lambda>_. ''t4'') 1 2 4 msg m))) = (3 :: uuid)"
proof -
  let ?m = "snd (resolve_thread (\<lambda>_. None) 0 2 3 ''ann'' ''repl'' None session_manager_new)"
  have f: "fst (resolve_thread (\<lambda>_. None) 0 2 3 ''ann'' ''repl'' None session_manager_new) = (3 :: uuid)"
    by code_simp
  have "key_open ?m (thread_key_of ''ann'' ''repl'' None) 3"
    by (rule resolve_opens [where parse_uuid = "\<lambda>_. None" and now = 0 and sid = 2 and fresh = 3 and parsed = None
          and m = session_manager_new]) (use f in \<open>simp add: resolve_thread_def prod_eq_iff\<close>)
  with new_thread_ignored [where msg = "\<lparr>im_user_id = ''ann'', im_channel = ''repl'', im_source = None\<rparr>"
      and scope = None and m = ?m and i = 3 and target = 4 and uuid_str = "\<lambda>_. ''t4''"
      and parse_uuid = "\<lambda>s. if s = ''t4'' then Some 4 else None"]
  show ?thesis by (simp add: Let_def)
qed

section \<open>A skill mention replaces the user's input\<close>

lemma replace_last_user_snoc: "cm_role u = UserRole \<Longrightarrow> replace_last_user m (ms @ [u]) = ms @ [m]"
  by (simp add: replace_last_user_def)

lemma messages_open_turn:
  "messages_of E (open_turn E c ps th) = messages_of E th @ [if ps = [] then chat_user c else user_with_parts c ps]"
  by (simp add: messages_of_def open_turn_def start_turn_def map_last_def thread_messages_def turn_messages_def
      turn_new_def enumerate_append_eq)

text \<open>
  When the text of the incoming message contains a skill mention, the model is given the rewritten text of that
  message in place of the input of the turn, whatever the input is: what a hook made of the message, the text of
  queued messages or of a plan command, and the images of the turn do not reach the model.
\<close>

theorem mention_replaces_input:
  assumes "oe_rewrite E (oe_message_content E) \<noteq> oe_message_content E"
  shows "run_loop E (messages_of E (open_turn E content parts th)) st
       = run_loop E (messages_of E th @ [chat_user (oe_rewrite E (oe_message_content E))]) st"
  using assms
  by (simp add: run_loop_def run_chat_loop_def messages_for_llm_def messages_open_turn replace_last_user_snoc
      chat_user_def user_with_parts_def Let_def)

definition mentioning :: ops_env where
  "mentioning = plain_ops\<lparr>oe_message_content := ''use /csv on it'', oe_rewrite := (\<lambda>_. ''use csv on it'')\<rparr>"

lemma mention_replaces_input_witness:
  "run_loop mentioning (messages_of mentioning (open_turn mentioning ''[redacted]'' [] two_turns)) plain_ops_state
     = run_loop mentioning (messages_of mentioning two_turns @ [chat_user ''use csv on it'']) plain_ops_state"
  using mention_replaces_input [of mentioning "''[redacted]''" "[]" two_turns plain_ops_state]
  by (simp add: mentioning_def)

section \<open>Tokens stay out of conversations\<close>

lemma map_thread_view:
  "(\<And>th. thread_view (f th) = thread_view th) \<Longrightarrow> session_view (os_session (map_thread E f st)) = session_view (os_session st)"
  by (simp add: map_thread_def session_view_modify)



end
