(* ===== verification/Mission_Types.thy ===== *)
theory Mission_Types
  imports Engine_Types
begin

text \<open>
  Missions as data (\<open>crates/t3claw_engine/src/types/mission.rs\<close>): status, cadence, the mission
  record with its guardrails, and the normalization of cron expressions. The \<open>cron\<close> crate is a
  parameter: for a normalized expression, a timezone and the current time it answers \<open>None\<close> when
  the expression does not parse, and otherwise the next fire time, if there is one.
\<close>

type_synonym mission_id = uuid

datatype mission_status = MsActive | MsPaused | MsCompleted | MsFailed

datatype mission_cadence =
    Cron (cron_expression: string) (cron_timezone: "string option")
  | OnEvent (event_pattern: string) (event_channel: "string option")
  | OnSystemEvent (event_source: string) (event_type: string) (event_filters: "(string \<times> json) list")
  | Webhook (webhook_path: string) (webhook_secret: "string option")
  | Manual

record mission =
  mi_id :: mission_id
  mi_project_id :: project_id
  mi_user_id :: string
  mi_name :: string
  mi_description :: "string option"
  mi_goal :: string
  mi_status :: mission_status
  mi_cadence :: mission_cadence
  mi_current_focus :: "string option"
  mi_approach_history :: "string list"
  mi_thread_history :: "thread_id list"
  mi_success_criteria :: "string option"
  mi_notify_channels :: "string list"
  mi_notify_user :: "string option"
  mi_context_paths :: "string list"
  mi_max_threads_per_day :: u32
  mi_threads_today :: u32
  mi_cooldown_secs :: u64
  mi_max_concurrent :: u32
  mi_dedup_window_secs :: u64
  mi_last_fire_at :: "time option"
  mi_last_trigger_payload :: "json option"
  mi_metadata :: json
  mi_created_at :: time
  mi_updated_at :: time
  mi_next_fire_at :: "time option"

fun is_reactive :: "mission_cadence \<Rightarrow> bool" where
  "is_reactive (OnEvent _ _) = True"
| "is_reactive (OnSystemEvent _ _ _) = True"
| "is_reactive (Webhook _ _) = True"
| "is_reactive (Cron _ _) = False"
| "is_reactive Manual = False"

definition default_guardrails :: "mission_cadence \<Rightarrow> u32 \<times> u64 \<times> u32" where
  "default_guardrails cadence = (if is_reactive cadence then (24, 300, 1) else (10, 0, 0))"

definition mission_new ::
  "mission_id \<Rightarrow> time \<Rightarrow> project_id \<Rightarrow> string \<Rightarrow> string \<Rightarrow> string \<Rightarrow> mission_cadence \<Rightarrow> mission" where
  "mission_new i now project user name goal cadence =
     (let (max_per_day, cooldown, max_concurrent) = default_guardrails cadence
      in \<lparr>mi_id = i, mi_project_id = project, mi_user_id = user, mi_name = name, mi_description = None,
          mi_goal = goal, mi_status = MsActive, mi_cadence = cadence, mi_current_focus = None,
          mi_approach_history = [], mi_thread_history = [], mi_success_criteria = None,
          mi_notify_channels = [], mi_notify_user = None, mi_context_paths = [],
          mi_max_threads_per_day = max_per_day, mi_threads_today = 0, mi_cooldown_secs = cooldown,
          mi_max_concurrent = max_concurrent, mi_dedup_window_secs = 0, mi_last_fire_at = None,
          mi_last_trigger_payload = None, mi_metadata = JObject [], mi_created_at = now,
          mi_updated_at = now, mi_next_fire_at = None\<rparr>)"

definition with_success_criteria :: "string \<Rightarrow> mission \<Rightarrow> mission" where
  "with_success_criteria criteria m = m\<lparr>mi_success_criteria := Some criteria\<rparr>"

definition mission_owner_id :: "mission \<Rightarrow> owner_id" where
  "mission_owner_id m = from_user_id (mi_user_id m)"

definition mission_is_owned_by :: "mission \<Rightarrow> string \<Rightarrow> bool" where
  "mission_is_owned_by m user = matches_user (mission_owner_id m) user"

definition record_thread :: "time \<Rightarrow> thread_id \<Rightarrow> mission \<Rightarrow> mission" where
  "record_thread now tid m = m\<lparr>mi_thread_history := mi_thread_history m @ [tid], mi_updated_at := now\<rparr>"

definition mission_is_terminal :: "mission \<Rightarrow> bool" where
  "mission_is_terminal m = (mi_status m \<in> {MsCompleted, MsFailed})"

definition is_event_driven :: "mission \<Rightarrow> bool" where
  "is_event_driven m = is_reactive (mi_cadence m)"

section \<open>Cron expressions\<close>

definition is_digit :: "char \<Rightarrow> bool" where
  "is_digit c = (let n = (of_char c :: nat) in 48 \<le> n \<and> n \<le> 57)"

definition digits_value :: "string \<Rightarrow> nat" where
  "digits_value s = foldl (\<lambda>n c. 10 * n + (of_char c - 48)) 0 s"

definition is_year_field :: "string \<Rightarrow> bool" where
  "is_year_field field =
     (length field = 4 \<and> list_all is_digit field
      \<and> 1970 \<le> digits_value field \<and> digits_value field \<le> 2099)"

definition normalize_cron_expression :: "string \<Rightarrow> engine_error + string" where
  "normalize_cron_expression expression =
     (let trimmed = trim expression; fields = split_whitespace trimmed; n = length fields
      in if n = 5 then Ok (''0 '' @ join '' '' fields @ '' *'')
         else if n = 6 then
           (if is_year_field (last fields) then
              Err (InvalidCadence (''ambiguous 6-field cron expression '' @ expression))
            else Ok (join '' '' fields @ '' *''))
         else if n = 7 then Ok trimmed
         else Err (InvalidCadence (''invalid cron expression '' @ expression)))"

type_synonym cron_lib = "string \<Rightarrow> string option \<Rightarrow> time \<Rightarrow> time option option"

definition next_cron_fire ::
  "cron_lib \<Rightarrow> time \<Rightarrow> string \<Rightarrow> string option \<Rightarrow> engine_error + time option" where
  "next_cron_fire cron now expression timezone =
     (case normalize_cron_expression expression of
        Inl e \<Rightarrow> Err e
      | Inr normalized \<Rightarrow>
          (case cron normalized timezone now of
             None \<Rightarrow> Err (InvalidCadence (''invalid cron expression '' @ expression))
           | Some next \<Rightarrow> Ok next))"

definition next_cron_fire_required ::
  "cron_lib \<Rightarrow> time \<Rightarrow> string \<Rightarrow> string option \<Rightarrow> engine_error + time" where
  "next_cron_fire_required cron now expression timezone =
     (case next_cron_fire cron now expression timezone of
        Inl e \<Rightarrow> Err e
      | Inr None \<Rightarrow> Err (InvalidCadence (''cron expression '' @ expression @ '' has no upcoming fire time''))
      | Inr (Some t) \<Rightarrow> Ok t)"

section \<open>Lemmas\<close>

lemma is_year_field_eq: "is_year_field ''2027''" "\<not> is_year_field ''0009''" "\<not> is_year_field ''20270''"
  by (simp_all add: is_year_field_def is_digit_def digits_value_def)

lemma required_Ok:
  "next_cron_fire_required cron now e tz = Ok t \<longleftrightarrow> next_cron_fire cron now e tz = Ok (Some t)"
  by (auto simp: next_cron_fire_required_def split: sum.splits option.splits)

lemma required_Err:
  "(\<exists>r. next_cron_fire_required cron now e tz = Err (InvalidCadence r)) \<longleftrightarrow>
   (\<forall>t. next_cron_fire cron now e tz \<noteq> Ok (Some t))"
  by (auto simp: next_cron_fire_required_def next_cron_fire_def normalize_cron_expression_def Let_def
      split: sum.splits option.splits if_splits)

lemma record_thread_simps [simp]:
  "mi_thread_history (record_thread now tid m) = mi_thread_history m @ [tid]"
  "mi_user_id (record_thread now tid m) = mi_user_id m" "mi_status (record_thread now tid m) = mi_status m"
  "mi_cadence (record_thread now tid m) = mi_cadence m" "mi_threads_today (record_thread now tid m) = mi_threads_today m"
  "mi_last_fire_at (record_thread now tid m) = mi_last_fire_at m"
  "mi_next_fire_at (record_thread now tid m) = mi_next_fire_at m" "mi_id (record_thread now tid m) = mi_id m"
  "mi_max_threads_per_day (record_thread now tid m) = mi_max_threads_per_day m"
  by (simp_all add: record_thread_def)

end
