(* ===== verification/Missions.thy ===== *)
theory Missions
  imports Mission_Types Tool_Intent Keyed_Store
begin

text \<open>
  The mission manager (\<open>crates/t3claw_engine/src/runtime/mission.rs\<close>): creation, update and
  lifecycle of missions, the guards and the bookkeeping of a fire, the ticker, the three event
  matchers and the processing of a thread's outcome.

  The manager's record holds, beside its own fields, the missions of its store
  (\<open>mim_missions\<close>) and the outcome watchers it has spawned so far (\<open>mim_watchers\<close>). A call of the
  store answers with an optional error; the regular expression library, the JSON printer, the
  hasher and the cron library are parameters. Each operation is one step: the tasks of the
  runtime interleave whole operations.
\<close>

section \<open>The manager\<close>

record fire_rate_limit =
  fr_max_fires :: u32
  fr_window :: time

definition fire_rate_limit_default :: fire_rate_limit where
  "fire_rate_limit_default = \<lparr>fr_max_fires = 100, fr_window = secs 3600\<rparr>"

definition FIRE_COOLDOWN :: time where "FIRE_COOLDOWN = secs 90"

record mission_manager =
  mim_missions :: "(mission_id, mission) hmap"
  mim_active :: "mission_id list"
  mim_last_fire_attempt :: "(mission_id, time) hmap"
  mim_dedup_table :: "(mission_id \<times> string, time) hmap"
  mim_event_regex_cache :: "(mission_id, string \<Rightarrow> bool) hmap"
  mim_user_fire_log :: "(string, time list) hmap"
  mim_rate_limit :: fire_rate_limit
  mim_budget_gate :: "(string \<Rightarrow> mission_id \<Rightarrow> bool) option"
  mim_workspace :: "(string \<Rightarrow> string option) option"
  mim_watchers :: "(mission_id \<times> thread_id \<times> time) list"

definition mission_manager_new :: mission_manager where
  "mission_manager_new = \<lparr>mim_missions = [], mim_active = [], mim_last_fire_attempt = [],
     mim_dedup_table = [], mim_event_regex_cache = [], mim_user_fire_log = [],
     mim_rate_limit = fire_rate_limit_default, mim_budget_gate = None, mim_workspace = None,
     mim_watchers = []\<rparr>"

definition load_mission ::
  "engine_error option \<Rightarrow> mission_id \<Rightarrow> mission_manager \<Rightarrow> engine_error + mission option" where
  "load_mission err i g = (case err of Some e \<Rightarrow> Err e | None \<Rightarrow> Ok (hm_get (mim_missions g) i))"

definition save_mission ::
  "engine_error option \<Rightarrow> mission \<Rightarrow> mission_manager \<Rightarrow> (engine_error + unit) \<times> mission_manager" where
  "save_mission err m g =
     (case err of
        Some e \<Rightarrow> (Err e, g)
      | None \<Rightarrow> (Ok (), g\<lparr>mim_missions := hm_insert (mim_missions g) (mi_id m) m\<rparr>))"

definition update_mission_status ::
  "engine_error option \<Rightarrow> time \<Rightarrow> mission_id \<Rightarrow> mission_status \<Rightarrow> mission_manager \<Rightarrow>
   (engine_error + unit) \<times> mission_manager" where
  "update_mission_status err now i st g =
     (case err of
        Some e \<Rightarrow> (Err e, g)
      | None \<Rightarrow> (Ok (), g\<lparr>mim_missions := hm_modify (mim_missions g) i
                   (\<lambda>m. m\<lparr>mi_status := st, mi_updated_at := now\<rparr>)\<rparr>))"

definition mission_not_found :: "mission_id \<Rightarrow> engine_error" where
  "mission_not_found i = Store (''mission '' @ show_nat i @ '' not found'')"

definition mission_denied :: "string \<Rightarrow> mission_id \<Rightarrow> engine_error" where
  "mission_denied user i = AccessDenied user (''mission '' @ show_nat i)"

definition evict_event_regex :: "mission_id \<Rightarrow> mission_manager \<Rightarrow> mission_manager" where
  "evict_event_regex i g = g\<lparr>mim_event_regex_cache := hm_remove (mim_event_regex_cache g) i\<rparr>"

text \<open>Who may update, pause and resume a mission, and the lookup those operations start with.\<close>

definition may_manage :: "string \<Rightarrow> mission \<Rightarrow> bool" where
  "may_manage user m =
     (if is_shared (mission_owner_id m) then is_shared_owner user else mission_is_owned_by m user)"

definition managed_mission ::
  "engine_error option \<Rightarrow> mission_id \<Rightarrow> string \<Rightarrow> mission_manager \<Rightarrow> engine_error + mission" where
  "managed_mission load_err i user g =
     (case load_mission load_err i g of
        Inl e \<Rightarrow> Err e
      | Inr None \<Rightarrow> Err (mission_not_found i)
      | Inr (Some m) \<Rightarrow> if may_manage user m then Ok m else Err (mission_denied user i))"

section \<open>Creation and update\<close>

definition scheduled :: "cron_lib \<Rightarrow> time \<Rightarrow> mission \<Rightarrow> engine_error + mission" where
  "scheduled cron now m =
     (case mi_cadence m of
        Cron e tz \<Rightarrow>
          (case next_cron_fire_required cron now e tz of
             Inl err \<Rightarrow> Err err
           | Inr t \<Rightarrow> Ok (m\<lparr>mi_next_fire_at := Some t\<rparr>))
      | _ \<Rightarrow> Ok m)"

definition create_mission ::
  "cron_lib \<Rightarrow> engine_error option \<Rightarrow> mission_id \<Rightarrow> time \<Rightarrow> project_id \<Rightarrow> string \<Rightarrow> string \<Rightarrow> string \<Rightarrow>
   mission_cadence \<Rightarrow> string list \<Rightarrow> mission_manager \<Rightarrow> (engine_error + mission_id) \<times> mission_manager" where
  "create_mission cron save_err i now project user name goal cadence channels g =
     (case scheduled cron now (mission_new i now project user name goal cadence) of
        Inl e \<Rightarrow> (Err e, g)
      | Inr m \<Rightarrow>
          (case save_mission save_err (m\<lparr>mi_notify_channels := channels\<rparr>) g of
             (Inl e, g') \<Rightarrow> (Err e, g')
           | (Inr _, g') \<Rightarrow> (Ok i, g'\<lparr>mim_active := mim_active g' @ [i]\<rparr>)))"

record mission_update =
  mu_name :: "string option"
  mu_description :: "string option"
  mu_goal :: "string option"
  mu_cadence :: "mission_cadence option"
  mu_notify_channels :: "string list option"
  mu_notify_user :: "string option"
  mu_context_paths :: "string list option"
  mu_max_threads_per_day :: "u32 option"
  mu_success_criteria :: "string option"
  mu_cooldown_secs :: "u64 option"
  mu_max_concurrent :: "u32 option"
  mu_dedup_window_secs :: "u64 option"

definition mission_update_default :: mission_update where
  "mission_update_default = \<lparr>mu_name = None, mu_description = None, mu_goal = None, mu_cadence = None,
     mu_notify_channels = None, mu_notify_user = None, mu_context_paths = None,
     mu_max_threads_per_day = None, mu_success_criteria = None, mu_cooldown_secs = None,
     mu_max_concurrent = None, mu_dedup_window_secs = None\<rparr>"

definition or_else :: "'a option \<Rightarrow> 'a \<Rightarrow> 'a" where
  "or_else u old = (case u of Some v \<Rightarrow> v | None \<Rightarrow> old)"

definition or_some :: "'a option \<Rightarrow> 'a option \<Rightarrow> 'a option" where
  "or_some u old = (case u of Some v \<Rightarrow> Some v | None \<Rightarrow> old)"

definition apply_cadence ::
  "cron_lib \<Rightarrow> time \<Rightarrow> mission_cadence option \<Rightarrow> mission \<Rightarrow> engine_error + mission" where
  "apply_cadence cron now u m =
     (case u of
        None \<Rightarrow> Ok m
      | Some c \<Rightarrow> scheduled cron now (m\<lparr>mi_cadence := c, mi_next_fire_at := None\<rparr>))"

definition apply_fields :: "mission_update \<Rightarrow> mission \<Rightarrow> mission" where
  "apply_fields u m =
     m\<lparr>mi_name := or_else (mu_name u) (mi_name m),
       mi_description := or_some (mu_description u) (mi_description m),
       mi_goal := or_else (mu_goal u) (mi_goal m),
       mi_notify_channels := or_else (mu_notify_channels u) (mi_notify_channels m),
       mi_notify_user := or_some (mu_notify_user u) (mi_notify_user m),
       mi_context_paths := or_else (mu_context_paths u) (mi_context_paths m),
       mi_max_threads_per_day := or_else (mu_max_threads_per_day u) (mi_max_threads_per_day m),
       mi_success_criteria := or_some (mu_success_criteria u) (mi_success_criteria m),
       mi_cooldown_secs := or_else (mu_cooldown_secs u) (mi_cooldown_secs m),
       mi_max_concurrent := or_else (mu_max_concurrent u) (mi_max_concurrent m),
       mi_dedup_window_secs := or_else (mu_dedup_window_secs u) (mi_dedup_window_secs m)\<rparr>"

definition update_mission ::
  "cron_lib \<Rightarrow> engine_error option \<Rightarrow> engine_error option \<Rightarrow> time \<Rightarrow> mission_id \<Rightarrow> string \<Rightarrow> mission_update \<Rightarrow>
   mission_manager \<Rightarrow> (engine_error + unit) \<times> mission_manager" where
  "update_mission cron load_err save_err now i user u g =
     (case managed_mission load_err i user g of
        Inl e \<Rightarrow> (Err e, g)
      | Inr m \<Rightarrow>
          (case apply_cadence cron now (mu_cadence u) m of
             Inl e \<Rightarrow> (Err e, g)
           | Inr m' \<Rightarrow>
               (case save_mission save_err ((apply_fields u m')\<lparr>mi_updated_at := now\<rparr>) g of
                  (Inl e, g') \<Rightarrow> (Err e, g')
                | (Inr _, g') \<Rightarrow> (Ok (), evict_event_regex i g'))))"

section \<open>Lifecycle\<close>

definition deactivate :: "mission_id \<Rightarrow> mission_manager \<Rightarrow> mission_manager" where
  "deactivate i g =
     g\<lparr>mim_active := filter (\<lambda>j. j \<noteq> i) (mim_active g),
       mim_last_fire_attempt := hm_remove (mim_last_fire_attempt g) i\<rparr>"

definition pause_mission ::
  "engine_error option \<Rightarrow> engine_error option \<Rightarrow> time \<Rightarrow> mission_id \<Rightarrow> string \<Rightarrow> mission_manager \<Rightarrow>
   (engine_error + unit) \<times> mission_manager" where
  "pause_mission load_err status_err now i user g =
     (case managed_mission load_err i user g of
        Inl e \<Rightarrow> (Err e, g)
      | Inr m \<Rightarrow>
          (case update_mission_status status_err now i MsPaused g of
             (Inl e, g') \<Rightarrow> (Err e, g')
           | (Inr _, g') \<Rightarrow> (Ok (), deactivate i g')))"

definition activate :: "mission_id \<Rightarrow> mission_manager \<Rightarrow> mission_manager" where
  "activate i g = (if i \<in> set (mim_active g) then g else g\<lparr>mim_active := mim_active g @ [i]\<rparr>)"

definition resume_mission ::
  "cron_lib \<Rightarrow> engine_error option \<Rightarrow> engine_error option \<Rightarrow> time \<Rightarrow> mission_id \<Rightarrow> string \<Rightarrow> mission_manager \<Rightarrow>
   (engine_error + unit) \<times> mission_manager" where
  "resume_mission cron load_err save_err now i user g =
     (case managed_mission load_err i user g of
        Inl e \<Rightarrow> (Err e, g)
      | Inr m \<Rightarrow>
          if mi_status m \<noteq> MsPaused then
            (Err (Store (''mission '' @ show_nat i @ '': only Paused missions can be resumed'')), g)
          else
            (case scheduled cron now (m\<lparr>mi_status := MsActive\<rparr>) of
               Inl e \<Rightarrow> (Err e, g)
             | Inr m' \<Rightarrow>
                 (case save_mission save_err (m'\<lparr>mi_updated_at := now\<rparr>) g of
                    (Inl e, g') \<Rightarrow> (Err e, g')
                  | (Inr _, g') \<Rightarrow> (Ok (), activate i g'))))"

definition complete_mission ::
  "engine_error option \<Rightarrow> time \<Rightarrow> mission_id \<Rightarrow> mission_manager \<Rightarrow> (engine_error + unit) \<times> mission_manager" where
  "complete_mission status_err now i g =
     (case update_mission_status status_err now i MsCompleted g of
        (Inl e, g') \<Rightarrow> (Err e, g')
      | (Inr _, g') \<Rightarrow> (Ok (), evict_event_regex i (deactivate i g')))"

section \<open>The prompt of a mission thread\<close>

record memory_doc =
  md_doc_type :: string
  md_title :: string
  md_content :: string

definition numbered :: "string list \<Rightarrow> string list" where
  "numbered xs = map (\<lambda>(i, a). show_nat (i + 1) @ ''. '' @ a) (enumerate 0 xs)"

definition doc_part :: "memory_doc \<Rightarrow> string" where
  "doc_part d =
     ''['' @ map ascii_upper (md_doc_type d) @ ''] '' @ md_title d @ '': '' @ take 500 (md_content d)
       @ (if length (md_content d) > 500 then ''...'' else [])"

definition META_INSTRUCTIONS :: string where
  "META_INSTRUCTIONS = [NL] @ ''## Instructions'' @ [NL]
     @ ''Based on the above context, take the next step toward the goal. ''
     @ ''Use tools to gather information, analyze data, or take actions. ''
     @ ''When done, call FINAL() with your response. Include:'' @ [NL]
     @ ''1. What you accomplished in this step'' @ [NL]
     @ ''2. What the next focus should be (for the next thread)'' @ [NL]
     @ ''3. Whether the goal has been achieved (yes/no)''"

definition build_meta_prompt ::
  "(json \<Rightarrow> string) \<Rightarrow> mission \<Rightarrow> memory_doc list \<Rightarrow> json option \<Rightarrow> (string \<times> string) list \<Rightarrow> string" where
  "build_meta_prompt pretty m docs payload blocks =
     join [NL]
       ([''# Mission: '' @ mi_name m @ [NL, NL] @ ''Goal: '' @ mi_goal m]
        @ (case mi_description m of Some d \<Rightarrow> [[NL] @ d] | None \<Rightarrow> [])
        @ (case mi_success_criteria m of Some c \<Rightarrow> [''Success criteria: '' @ c] | None \<Rightarrow> [])
        @ (if blocks = [] then []
           else ([NL] @ ''## Loaded Context'') # map (\<lambda>(p, c). ''### '' @ p @ [NL, NL] @ c) blocks)
        @ (case mi_current_focus m of
             Some f \<Rightarrow> [[NL] @ ''## Current Focus'' @ [NL] @ f]
           | None \<Rightarrow>
               if mi_thread_history m = [] then
                 [[NL] @ ''## Current Focus'' @ [NL]
                    @ ''This is the first run. Start by understanding the goal and determining the first step.'']
               else [])
        @ (if mi_approach_history m = [] then []
           else ([NL] @ ''## Previous Approaches'') # numbered (mi_approach_history m))
        @ (if docs = [] then []
           else ([NL] @ ''## Knowledge from Prior Threads'') # map doc_part docs)
        @ (case payload of
             Some p \<Rightarrow> [[NL] @ ''## Trigger Payload'' @ [NL] @ ''```json'' @ [NL] @ take 1000 (pretty p) @ [NL] @ ''```'']
           | None \<Rightarrow> [])
        @ [[NL] @ ''This is thread #'' @ show_nat (length (mi_thread_history m) + 1) @ '' for this mission.'']
        @ [META_INSTRUCTIONS])"

section \<open>Firing a mission\<close>

text \<open>
  The answers one fire gets: of the store (loading the mission, persisting the daily reset,
  the states of the threads, persisting the fire), of the retrieval engine, of the thread manager
  that spawns the thread, and the readings of the clock, in the order they are taken.
\<close>

record fire_env =
  fe_load :: "engine_error option"
  fe_reset_now :: time
  fe_save_reset :: "engine_error option"
  fe_cooldown_now :: time
  fe_thread_state :: "thread_id \<Rightarrow> thread_state option"
  fe_rate_now :: time
  fe_docs :: "memory_doc list"
  fe_spawn :: "string \<Rightarrow> project_id \<Rightarrow> string \<Rightarrow> engine_error + thread_id"
  fe_instant :: time
  fe_save :: "engine_error option"
  fe_record_now :: time

definition utc_day :: "time \<Rightarrow> int" where
  "utc_day t = t div secs 86400"

definition daily_stale :: "time \<Rightarrow> mission \<Rightarrow> bool" where
  "daily_stale now m =
     (mi_threads_today m > 0
      \<and> (case mi_last_fire_at m of Some t0 \<Rightarrow> utc_day t0 < utc_day now | None \<Rightarrow> True))"

definition daily_reset :: "fire_env \<Rightarrow> mission \<Rightarrow> mission_manager \<Rightarrow> mission \<times> mission_manager" where
  "daily_reset env m g =
     (if daily_stale (fe_reset_now env) m then
        let m' = m\<lparr>mi_threads_today := 0\<rparr> in (m', snd (save_mission (fe_save_reset env) m' g))
      else (m, g))"

definition daily_budget_exhausted :: "mission \<Rightarrow> bool" where
  "daily_budget_exhausted m = (mi_max_threads_per_day m > 0 \<and> mi_threads_today m \<ge> mi_max_threads_per_day m)"

definition cooling_down :: "time \<Rightarrow> mission \<Rightarrow> bool" where
  "cooling_down now m =
     (mi_cooldown_secs m > 0
      \<and> (case mi_last_fire_at m of
           None \<Rightarrow> False
         | Some t0 \<Rightarrow> let elapsed = num_seconds (now - t0) in elapsed \<ge> 0 \<and> elapsed < uint (mi_cooldown_secs m)))"

definition count_running_threads :: "(thread_id \<Rightarrow> thread_state option) \<Rightarrow> mission \<Rightarrow> nat" where
  "count_running_threads st m =
     length (filter (\<lambda>tid. case st tid of Some s \<Rightarrow> s \<notin> {Done, Failed} | None \<Rightarrow> False)
               (rev (mi_thread_history m)))"

definition max_concurrent_reached :: "(thread_id \<Rightarrow> thread_state option) \<Rightarrow> mission \<Rightarrow> bool" where
  "max_concurrent_reached st m =
     (mi_max_concurrent m > 0 \<and> count_running_threads st m \<ge> unat (mi_max_concurrent m))"

definition fire_log_of :: "mission_manager \<Rightarrow> string \<Rightarrow> time list" where
  "fire_log_of g user = (case hm_get (mim_user_fire_log g) user of Some es \<Rightarrow> es | None \<Rightarrow> [])"

definition check_user_rate :: "time \<Rightarrow> string \<Rightarrow> mission_manager \<Rightarrow> bool \<times> mission_manager" where
  "check_user_rate now user g =
     (let cutoff = now - fr_window (mim_rate_limit g);
          entries = dropWhile (\<lambda>ts. ts < cutoff) (fire_log_of g user)
      in ((of_nat (length entries) :: u32) < fr_max_fires (mim_rate_limit g),
          g\<lparr>mim_user_fire_log := hm_insert (mim_user_fire_log g) user entries\<rparr>))"

definition record_user_rate :: "time \<Rightarrow> string \<Rightarrow> mission_manager \<Rightarrow> mission_manager" where
  "record_user_rate now user g =
     g\<lparr>mim_user_fire_log := hm_insert (mim_user_fire_log g) user (fire_log_of g user @ [now])\<rparr>"

definition budget_allows :: "mission_manager \<Rightarrow> string \<Rightarrow> mission_id \<Rightarrow> bool" where
  "budget_allows g user i = (case mim_budget_gate g of Some gate \<Rightarrow> gate user i | None \<Rightarrow> True)"

definition context_blocks :: "mission_manager \<Rightarrow> mission \<Rightarrow> (string \<times> string) list" where
  "context_blocks g m =
     (case mim_workspace g of
        None \<Rightarrow> []
      | Some read_doc \<Rightarrow> List.map_filter (\<lambda>p. map_option (Pair p) (read_doc p)) (mi_context_paths m))"

text \<open>The record as it is saved after the spawn, and the bookkeeping around it.\<close>

definition fired_mission :: "cron_lib \<Rightarrow> time \<Rightarrow> thread_id \<Rightarrow> json option \<Rightarrow> mission \<Rightarrow> mission" where
  "fired_mission cron instant tid payload m =
     (let u = (record_thread instant tid m)\<lparr>mi_threads_today := mi_threads_today m + 1,
                 mi_last_trigger_payload := payload\<rparr>
      in case mi_cadence m of
           Cron e tz \<Rightarrow>
             (case next_cron_fire cron instant e tz of
                Inr next \<Rightarrow> u\<lparr>mi_next_fire_at := next, mi_last_fire_at := Some instant\<rparr>
              | Inl _ \<Rightarrow> u)
         | _ \<Rightarrow> u\<lparr>mi_last_fire_at := Some instant\<rparr>)"

definition record_fire ::
  "cron_lib \<Rightarrow> fire_env \<Rightarrow> mission_id \<Rightarrow> thread_id \<Rightarrow> json option \<Rightarrow> mission \<Rightarrow> mission_manager \<Rightarrow> mission_manager" where
  "record_fire cron env i tid payload m g =
     (let g1 = g\<lparr>mim_watchers := mim_watchers g @ [(i, tid, fe_instant env)]\<rparr>;
          g2 = g1\<lparr>mim_last_fire_attempt := hm_insert (mim_last_fire_attempt g1) i (fe_instant env)\<rparr>;
          g3 = snd (save_mission (fe_save env) (fired_mission cron (fe_instant env) tid payload m) g2)
      in record_user_rate (fe_record_now env) (mi_user_id m) g3)"

definition fire_mission ::
  "cron_lib \<Rightarrow> (json \<Rightarrow> string) \<Rightarrow> mission_id \<Rightarrow> string \<Rightarrow> json option \<Rightarrow> fire_env \<Rightarrow> mission_manager \<Rightarrow>
   (engine_error + thread_id option) \<times> mission_manager" where
  "fire_mission cron pretty i user payload env g =
     (case load_mission (fe_load env) i g of
        Inl e \<Rightarrow> (Err e, g)
      | Inr None \<Rightarrow> (Err (mission_not_found i), g)
      | Inr (Some m) \<Rightarrow>
          if \<not> is_shared (mission_owner_id m) \<and> \<not> mission_is_owned_by m user then
            (Err (mission_denied user i), g)
          else if mission_is_terminal m \<and> \<not> (mi_status m = MsCompleted \<and> is_event_driven m) then
            (Ok None, g)
          else
            let (m1, g1) = daily_reset env m g
            in if daily_budget_exhausted m1 then (Ok None, g1)
               else if cooling_down (fe_cooldown_now env) m1 then (Ok None, g1)
               else if max_concurrent_reached (fe_thread_state env) m1 then (Ok None, g1)
               else
                 let (rate_ok, g2) = check_user_rate (fe_rate_now env) (mi_user_id m1) g1
                 in if \<not> rate_ok then (Ok None, g2)
                    else if \<not> budget_allows g2 (mi_user_id m1) i then (Ok None, g2)
                    else
                      let prompt = build_meta_prompt pretty m1 (fe_docs env) payload (context_blocks g2 m1)
                      in (case fe_spawn env prompt (mi_project_id m1) user of
                            Inl e \<Rightarrow> (Err e, g2)
                          | Inr tid \<Rightarrow> (Ok (Some tid), record_fire cron env i tid payload m1 g2)))"

section \<open>The ticker\<close>

record tick_env =
  te_load :: "engine_error option"
  te_fire :: fire_env

definition tick_due :: "time \<Rightarrow> mission \<Rightarrow> bool" where
  "tick_due now m =
     (case mi_cadence m of
        Cron _ _ \<Rightarrow> (case mi_next_fire_at m of Some next \<Rightarrow> next \<le> now | None \<Rightarrow> False)
      | _ \<Rightarrow> False)"

definition on_cooldown :: "time \<Rightarrow> mission_id \<Rightarrow> mission \<Rightarrow> mission_manager \<Rightarrow> bool" where
  "on_cooldown now i m g =
     (case hm_get (mim_last_fire_attempt g) i of
        Some in_mem \<Rightarrow> now - in_mem < FIRE_COOLDOWN \<and> mi_last_fire_at m \<noteq> Some in_mem
      | None \<Rightarrow> False)"

text \<open>The mission the ticker fires for an entry of the active list, if it does.\<close>

definition tick_target :: "time \<Rightarrow> engine_error option \<Rightarrow> mission_id \<Rightarrow> mission_manager \<Rightarrow> mission option" where
  "tick_target now load_err i g =
     (case load_mission load_err i g of
        Inr (Some m) \<Rightarrow>
          if mi_status m = MsActive \<and> tick_due now m \<and> \<not> on_cooldown now i m g then Some m else None
      | _ \<Rightarrow> None)"

fun tick_loop ::
  "cron_lib \<Rightarrow> (json \<Rightarrow> string) \<Rightarrow> time \<Rightarrow> (nat \<Rightarrow> tick_env) \<Rightarrow> mission_id list \<Rightarrow> mission_manager \<Rightarrow>
   thread_id list \<times> mission_manager" where
  "tick_loop cron pretty now env [] g = ([], g)"
| "tick_loop cron pretty now env (i # is) g =
     (case tick_target now (te_load (env 0)) i g of
        None \<Rightarrow> tick_loop cron pretty now (\<lambda>n. env (Suc n)) is g
      | Some m \<Rightarrow>
          let (r, g1) = fire_mission cron pretty i (mi_user_id m) None (te_fire (env 0)) g;
              (tids, g2) = tick_loop cron pretty now (\<lambda>n. env (Suc n)) is g1
          in (case r of Inr (Some tid) \<Rightarrow> (tid # tids, g2) | _ \<Rightarrow> (tids, g2)))"

definition prune_attempts :: "time \<Rightarrow> mission_manager \<Rightarrow> mission_manager" where
  "prune_attempts now g =
     g\<lparr>mim_last_fire_attempt := hm_retain (mim_last_fire_attempt g) (\<lambda>_ t0. now - t0 < FIRE_COOLDOWN)\<rparr>"

definition mission_tick ::
  "cron_lib \<Rightarrow> (json \<Rightarrow> string) \<Rightarrow> time \<Rightarrow> (nat \<Rightarrow> tick_env) \<Rightarrow> mission_manager \<Rightarrow>
   (engine_error + thread_id list) \<times> mission_manager" where
  "mission_tick cron pretty now env g =
     (let (tids, g') = tick_loop cron pretty now env (mim_active g) (prune_attempts now g)
      in (Ok tids, g'))"

section \<open>Events\<close>

definition payload_matches_filters :: "(string \<times> json) list \<Rightarrow> json option \<Rightarrow> bool" where
  "payload_matches_filters filters payload =
     (filters = []
      \<or> (case payload of
           Some (JObject obj) \<Rightarrow> list_all (\<lambda>(k, v). map_of obj k = Some v) filters
         | _ \<Rightarrow> False))"

definition payload_dedup_key :: "(json \<Rightarrow> string) \<Rightarrow> (string \<Rightarrow> string) \<Rightarrow> json option \<Rightarrow> string" where
  "payload_dedup_key to_str hash payload = hash (case payload of Some v \<Rightarrow> to_str v | None \<Rightarrow> [])"

text \<open>
  The window is read as a signed number of seconds; one above the range of \<open>chrono\<close> durations
  (\<open>i64::MAX\<close> milliseconds) makes the code panic, which the model does not show.
\<close>

definition dedup_event ::
  "time \<Rightarrow> mission_id \<Rightarrow> string \<Rightarrow> u64 \<Rightarrow> mission_manager \<Rightarrow> bool \<times> mission_manager" where
  "dedup_event now i key window_secs g =
     (if window_secs = 0 then (False, g)
      else
        let fresh = (False, g\<lparr>mim_dedup_table := hm_insert (mim_dedup_table g) (i, key) now\<rparr>)
        in (case hm_get (mim_dedup_table g) (i, key) of
              Some t0 \<Rightarrow> if now - t0 < secs (sint window_secs) then (True, g) else fresh
            | None \<Rightarrow> fresh))"

definition event_regex_matches ::
  "(string \<Rightarrow> (string \<Rightarrow> bool) option) \<Rightarrow> mission \<Rightarrow> string \<Rightarrow> mission_manager \<Rightarrow> bool \<times> mission_manager" where
  "event_regex_matches regex m text_in g =
     (case mi_cadence m of
        OnEvent pattern _ \<Rightarrow>
          (case hm_get (mim_event_regex_cache g) (mi_id m) of
             Some re \<Rightarrow> (re text_in, g)
           | None \<Rightarrow>
               (case regex pattern of
                  Some re \<Rightarrow>
                    (re text_in, g\<lparr>mim_event_regex_cache := hm_insert (mim_event_regex_cache g) (mi_id m) re\<rparr>)
                | None \<Rightarrow> (False, g)))
      | _ \<Rightarrow> (False, g))"

record event_env =
  ee_load :: "engine_error option"
  ee_dedup_now :: time
  ee_fire :: fire_env

definition event_candidate :: "string \<Rightarrow> mission \<Rightarrow> bool" where
  "event_candidate user m =
     ((mi_status m = MsActive \<or> (mi_status m = MsCompleted \<and> is_event_driven m))
      \<and> (mission_is_owned_by m user \<or> is_shared (mission_owner_id m)))"

fun event_loop ::
  "cron_lib \<Rightarrow> (json \<Rightarrow> string) \<Rightarrow> (mission \<Rightarrow> mission_manager \<Rightarrow> bool \<times> mission_manager) \<Rightarrow> string \<Rightarrow> string \<Rightarrow>
   json option \<Rightarrow> (nat \<Rightarrow> event_env) \<Rightarrow> mission_id list \<Rightarrow> mission_manager \<Rightarrow>
   (engine_error + thread_id list) \<times> mission_manager" where
  "event_loop cron pretty matches user key payload env [] g = (Ok [], g)"
| "event_loop cron pretty matches user key payload env (i # is) g =
     (let rest = event_loop cron pretty matches user key payload (\<lambda>n. env (Suc n)) is
      in case load_mission (ee_load (env 0)) i g of
           Inl e \<Rightarrow> (Err e, g)
         | Inr None \<Rightarrow> rest g
         | Inr (Some m) \<Rightarrow>
             if \<not> event_candidate user m then rest g
             else
               let (ok, g1) = matches m g
               in if \<not> ok then rest g1
                  else
                    let (dup, g2) = dedup_event (ee_dedup_now (env 0)) i key (mi_dedup_window_secs m) g1
                    in if dup then rest g2
                       else
                         (case fire_mission cron pretty i user payload (ee_fire (env 0)) g2 of
                            (Inl e, g3) \<Rightarrow> (Err e, g3)
                          | (Inr r, g3) \<Rightarrow>
                              (case rest g3 of
                                 (Inl e, g4) \<Rightarrow> (Err e, g4)
                               | (Inr tids, g4) \<Rightarrow>
                                   (Ok (case r of Some tid \<Rightarrow> tid # tids | None \<Rightarrow> tids), g4))))"

definition system_event_matches :: "string \<Rightarrow> string \<Rightarrow> json option \<Rightarrow> mission \<Rightarrow> bool" where
  "system_event_matches source ty payload m =
     (case mi_cadence m of
        OnSystemEvent s t filters \<Rightarrow> s = source \<and> t = ty \<and> payload_matches_filters filters payload
      | _ \<Rightarrow> False)"

definition fire_on_system_event ::
  "cron_lib \<Rightarrow> (json \<Rightarrow> string) \<Rightarrow> (json \<Rightarrow> string) \<Rightarrow> (string \<Rightarrow> string) \<Rightarrow> string \<Rightarrow> string \<Rightarrow> string \<Rightarrow>
   json option \<Rightarrow> (nat \<Rightarrow> event_env) \<Rightarrow> mission_manager \<Rightarrow> (engine_error + thread_id list) \<times> mission_manager" where
  "fire_on_system_event cron pretty to_str hash source ty user payload env g =
     event_loop cron pretty (\<lambda>m g. (system_event_matches source ty payload m, g)) user
       (payload_dedup_key to_str hash payload) payload env (mim_active g) g"

definition message_event_matches ::
  "(string \<Rightarrow> (string \<Rightarrow> bool) option) \<Rightarrow> string \<Rightarrow> string \<Rightarrow> mission \<Rightarrow> mission_manager \<Rightarrow> bool \<times> mission_manager" where
  "message_event_matches regex channel text_in m g =
     (case mi_cadence m of
        OnEvent _ wanted \<Rightarrow>
          if (case wanted of Some c \<Rightarrow> map ascii_lower c = map ascii_lower channel | None \<Rightarrow> True)
          then event_regex_matches regex m text_in g else (False, g)
      | _ \<Rightarrow> (False, g))"

definition fire_on_message_event ::
  "cron_lib \<Rightarrow> (json \<Rightarrow> string) \<Rightarrow> (json \<Rightarrow> string) \<Rightarrow> (string \<Rightarrow> string) \<Rightarrow>
   (string \<Rightarrow> (string \<Rightarrow> bool) option) \<Rightarrow> string \<Rightarrow> string \<Rightarrow> string \<Rightarrow>
   json option \<Rightarrow> (nat \<Rightarrow> event_env) \<Rightarrow> mission_manager \<Rightarrow> (engine_error + thread_id list) \<times> mission_manager" where
  "fire_on_message_event cron pretty to_str hash regex channel text_in user payload env g =
     event_loop cron pretty (message_event_matches regex channel text_in) user
       (payload_dedup_key to_str hash payload) payload env (mim_active g) g"

definition webhook_matches :: "string \<Rightarrow> mission \<Rightarrow> bool" where
  "webhook_matches path m = (case mi_cadence m of Webhook p _ \<Rightarrow> p = path | _ \<Rightarrow> False)"

definition fire_on_webhook ::
  "cron_lib \<Rightarrow> (json \<Rightarrow> string) \<Rightarrow> (json \<Rightarrow> string) \<Rightarrow> (string \<Rightarrow> string) \<Rightarrow> string \<Rightarrow> string \<Rightarrow>
   json option \<Rightarrow> (nat \<Rightarrow> event_env) \<Rightarrow> mission_manager \<Rightarrow> (engine_error + thread_id list) \<times> mission_manager" where
  "fire_on_webhook cron pretty to_str hash path user payload env g =
     event_loop cron pretty (\<lambda>m g. (webhook_matches path m, g)) user
       (payload_dedup_key to_str hash payload) payload env (mim_active g) g"

section \<open>Outcomes\<close>

datatype thread_outcome =
    ToCompleted "string option"
  | ToStopped
  | ToMaxIterations
  | ToFailed string
  | ToGatePaused string string string json resume_kind "json option" "capability_lease option"

record mission_notification =
  nt_mission_id :: mission_id
  nt_mission_name :: string
  nt_thread_id :: thread_id
  nt_user_id :: string
  nt_notify_channels :: "string list"
  nt_notify_user :: "string option"
  nt_response :: "string option"
  nt_is_error :: bool

definition MAX_NOTIFICATION_RESPONSE_BYTES :: nat where "MAX_NOTIFICATION_RESPONSE_BYTES = 4000"

text \<open>The ellipsis is written as its three UTF-8 bytes.\<close>

definition truncate_notification_text :: "string \<Rightarrow> string" where
  "truncate_notification_text t =
     (if byte_len t \<le> MAX_NOTIFICATION_RESPONSE_BYTES then t
      else take_bytes MAX_NOTIFICATION_RESPONSE_BYTES t @ [CHR 0xE2, CHR 0x80, CHR 0xA6])"

text \<open>What follows the first occurrence of a pattern.\<close>

fun after_str :: "string \<Rightarrow> string \<Rightarrow> nat option" where
  "after_str p [] = (if p = [] then Some 0 else None)"
| "after_str p (c # s) =
     (if starts_with (c # s) p then Some (length p) else map_option Suc (after_str p s))"

definition goal_achieved :: "string \<Rightarrow> bool" where
  "goal_achieved lower =
     (contains_str lower ''goal has been achieved: yes'' \<or> contains_str lower ''goal achieved: yes''
      \<or> contains_str lower ''mission complete'')"

definition next_focus :: "string \<Rightarrow> string \<Rightarrow> string option" where
  "next_focus lower original =
     (case after_str ''next focus:'' lower of
        None \<Rightarrow> None
      | Some n \<Rightarrow>
          let focus = (case text_lines (drop n original) of l # _ \<Rightarrow> trim l | [] \<Rightarrow> [])
          in if focus = [] then None else Some focus)"

definition absorb_response :: "string \<Rightarrow> mission \<Rightarrow> mission" where
  "absorb_response r m =
     (let lower = map ascii_lower r
      in m\<lparr>mi_status := (if goal_achieved lower then MsCompleted else mi_status m),
           mi_current_focus := or_some (next_focus lower r) (mi_current_focus m),
           mi_approach_history := mi_approach_history m @ [r]\<rparr>)"

text \<open>The accounting of a fire that the stored record does not show.\<close>

definition reconcile :: "cron_lib \<Rightarrow> time \<Rightarrow> thread_id \<Rightarrow> time option \<Rightarrow> mission \<Rightarrow> mission" where
  "reconcile cron now tid fire_at m =
     (if tid \<in> set (mi_thread_history m) then m
      else
        let m1 = (record_thread now tid m)\<lparr>mi_threads_today := sat_add (mi_threads_today m) 1,
                    mi_last_fire_at := Some (or_else fire_at now)\<rparr>
        in case mi_cadence m of
             Cron e tz \<Rightarrow>
               if (case mi_next_fire_at m of Some next \<Rightarrow> next \<le> now | None \<Rightarrow> True) then
                 (case next_cron_fire cron now e tz of
                    Inr (Some next) \<Rightarrow> m1\<lparr>mi_next_fire_at := Some next\<rparr>
                  | _ \<Rightarrow> m1)
               else m1
           | _ \<Rightarrow> m1)"

definition absorb_outcome :: "thread_outcome \<Rightarrow> mission \<Rightarrow> mission \<times> string option \<times> bool" where
  "absorb_outcome outcome m =
     (case outcome of
        ToCompleted (Some r) \<Rightarrow> (absorb_response r m, Some r, False)
      | ToFailed e \<Rightarrow>
          (m\<lparr>mi_approach_history := mi_approach_history m @ [''FAILED: '' @ e]\<rparr>, Some (''Mission failed: '' @ e), True)
      | ToMaxIterations \<Rightarrow>
          (m\<lparr>mi_approach_history := mi_approach_history m @ [''Hit max iterations without completing'']\<rparr>,
           Some ''Mission thread hit max iterations without completing'', True)
      | _ \<Rightarrow> (m, None, False))"

definition notification_of ::
  "mission \<Rightarrow> thread_id \<Rightarrow> string option \<Rightarrow> bool \<Rightarrow> mission_notification option" where
  "notification_of m tid response is_error =
     (if mi_notify_channels m \<noteq> [] \<and> response \<noteq> None then
        Some \<lparr>nt_mission_id = mi_id m, nt_mission_name = mi_name m, nt_thread_id = tid,
              nt_user_id = mi_user_id m, nt_notify_channels = mi_notify_channels m,
              nt_notify_user = mi_notify_user m,
              nt_response = map_option truncate_notification_text response, nt_is_error = is_error\<rparr>
      else None)"

text \<open>
  The further output of self-improvement and skill-repair missions goes to documents of the
  store; its errors are swallowed and it does not touch the mission.
\<close>

definition process_mission_outcome_and_notify ::
  "cron_lib \<Rightarrow> engine_error option \<Rightarrow> engine_error option \<Rightarrow> time \<Rightarrow> mission_id \<Rightarrow> thread_id \<Rightarrow> thread_outcome \<Rightarrow>
   time option \<Rightarrow> mission_manager \<Rightarrow> (engine_error + unit) \<times> mission_notification option \<times> mission_manager" where
  "process_mission_outcome_and_notify cron load_err save_err now i tid outcome fire_at g =
     (case load_mission load_err i g of
        Inl e \<Rightarrow> (Err e, None, g)
      | Inr None \<Rightarrow> (Ok (), None, g)
      | Inr (Some m) \<Rightarrow>
          let (m1, response, is_error) = absorb_outcome outcome (reconcile cron now tid fire_at m);
              (r, g') = save_mission save_err (m1\<lparr>mi_updated_at := now\<rparr>) g
          in (r, notification_of m1 tid response is_error, g'))"

section \<open>Start-up and listings\<close>

text \<open>The three answers of the backfill of one mission: the clock, the second load, the save.\<close>

record backfill_env =
  be_now :: time
  be_load :: "engine_error option"
  be_save :: "engine_error option"

definition backfill :: "cron_lib \<Rightarrow> backfill_env \<Rightarrow> mission \<Rightarrow> mission_manager \<Rightarrow> mission_manager" where
  "backfill cron env m g =
     (case mi_cadence m of
        Cron e tz \<Rightarrow>
          if mi_next_fire_at m = None then
            (case next_cron_fire cron (be_now env) e tz of
               Inr (Some next) \<Rightarrow>
                 (case load_mission (be_load env) (mi_id m) g of
                    Inr (Some fresh) \<Rightarrow>
                      if mi_next_fire_at fresh = None then
                        snd (save_mission (be_save env) (fresh\<lparr>mi_next_fire_at := Some next\<rparr>) g)
                      else g
                  | _ \<Rightarrow> g)
             | _ \<Rightarrow> g)
          else g
      | _ \<Rightarrow> g)"

definition list_all_missions :: "project_id \<Rightarrow> mission_manager \<Rightarrow> mission list" where
  "list_all_missions project g = filter (\<lambda>m. mi_project_id m = project) (hm_values (mim_missions g))"

definition bootstrap_project ::
  "cron_lib \<Rightarrow> engine_error option \<Rightarrow> (mission_id \<Rightarrow> backfill_env) \<Rightarrow> project_id \<Rightarrow> mission_manager \<Rightarrow>
   (engine_error + nat) \<times> mission_manager" where
  "bootstrap_project cron list_err env project g =
     (case list_err of
        Some e \<Rightarrow> (Err e, g)
      | None \<Rightarrow>
          let ms = filter (\<lambda>m. mi_status m = MsActive) (list_all_missions project g);
              g' = foldl (\<lambda>g m. backfill cron (env (mi_id m)) m g) g ms;
              active_ids = map mi_id ms
          in (Ok (length active_ids), g'\<lparr>mim_active := active_ids\<rparr>))"

definition list_missions :: "project_id \<Rightarrow> string \<Rightarrow> mission_manager \<Rightarrow> mission list" where
  "list_missions project user g =
     filter (\<lambda>m. mi_project_id m = project \<and> mi_user_id m = user) (hm_values (mim_missions g))"

definition ensure_mission_by_metadata ::
  "cron_lib \<Rightarrow> engine_error option \<Rightarrow> engine_error option \<Rightarrow> mission_id \<Rightarrow> time \<Rightarrow> project_id \<Rightarrow> string \<Rightarrow> string \<Rightarrow>
   string \<Rightarrow> string \<Rightarrow> mission_cadence \<Rightarrow> string \<Rightarrow> u32 \<Rightarrow> mission_manager \<Rightarrow>
   (engine_error + mission_id) \<times> mission_manager" where
  "ensure_mission_by_metadata cron list_err save_err i now project user key name goal cadence criteria max_per_day g =
     (case list_err of
        Some e \<Rightarrow> (Err e, g)
      | None \<Rightarrow>
          (case List.find (\<lambda>m. json_get (mi_metadata m) key \<noteq> None) (list_missions project user g) of
             Some existing \<Rightarrow> (Ok (mi_id existing), activate (mi_id existing) g)
           | None \<Rightarrow>
               (case scheduled cron now
                       ((mission_new i now project user name goal cadence)
                          \<lparr>mi_success_criteria := Some criteria, mi_metadata := JObject [(key, JBool True)],
                           mi_max_threads_per_day := max_per_day\<rparr>) of
                  Inl e \<Rightarrow> (Err e, g)
                | Inr m \<Rightarrow>
                    (case save_mission save_err m g of
                       (Inl e, g') \<Rightarrow> (Err e, g')
                     | (Inr _, g') \<Rightarrow> (Ok i, g'\<lparr>mim_active := mim_active g' @ [i]\<rparr>)))))"

end
