(* ===== verification/Mission_Runs.thy ===== *)
theory Mission_Runs
  imports Missions
begin

text \<open>
  Runs of the mission manager: the operations as steps under a clock that does not go back, the
  cases of a fire, and the locale \<open>mission_inv\<close> that lifts a fact every single operation keeps to
  the ticker, to the event matchers and to every run.
\<close>

record mission_libs =
  lib_cron :: cron_lib
  lib_pretty :: "json \<Rightarrow> string"
  lib_to_str :: "json \<Rightarrow> string"
  lib_hash :: "string \<Rightarrow> string"
  lib_regex :: "string \<Rightarrow> (string \<Rightarrow> bool) option"

section \<open>The cases of a fire\<close>

text \<open>Who may fire a mission, and the guards a fire has passed when it spawns a thread.\<close>

definition may_fire :: "string \<Rightarrow> mission \<Rightarrow> bool" where
  "may_fire user m \<longleftrightarrow> is_shared (mission_owner_id m) \<or> mission_is_owned_by m user"

definition fireable :: "mission \<Rightarrow> bool" where
  "fireable m \<longleftrightarrow> mi_status m \<in> {MsActive, MsPaused} \<or> (mi_status m = MsCompleted \<and> is_event_driven m)"

definition unguarded :: "fire_env \<Rightarrow> mission_id \<Rightarrow> mission \<Rightarrow> mission_manager \<Rightarrow> bool" where
  "unguarded env i m g \<longleftrightarrow> \<not> daily_budget_exhausted m \<and> \<not> cooling_down (fe_cooldown_now env) m
     \<and> \<not> max_concurrent_reached (fe_thread_state env) m
     \<and> fst (check_user_rate (fe_rate_now env) (mi_user_id m) g) \<and> budget_allows g (mi_user_id m) i"

lemma fireable_iff:
  "fireable m \<longleftrightarrow> \<not> (mission_is_terminal m \<and> \<not> (mi_status m = MsCompleted \<and> is_event_driven m))"
  by (cases "mi_status m") (auto simp: fireable_def mission_is_terminal_def)

lemma budget_allows_rate [simp]: "budget_allows (snd (check_user_rate now u g)) v i = budget_allows g v i"
  by (simp add: check_user_rate_def budget_allows_def Let_def)

lemma fire_result:
  assumes "fire_mission cron pretty i user payload env g = (r, g')"
  obtains (none) "g' = g" "\<And>tid. r \<noteq> Ok (Some tid)"
  | (refused) m where "hm_get (mim_missions g) i = Some m" "\<And>tid. r \<noteq> Ok (Some tid)"
      "g' = snd (daily_reset env m g)
       \<or> g' = snd (check_user_rate (fe_rate_now env) (mi_user_id m) (snd (daily_reset env m g)))"
  | (spawned) m m1 g1 tid where "hm_get (mim_missions g) i = Some m" "daily_reset env m g = (m1, g1)"
      "may_fire user m" "fireable m" "unguarded env i m1 g1" "r = Ok (Some tid)"
      "fe_spawn env (build_meta_prompt pretty m1 (fe_docs env) payload (context_blocks g1 m1))
         (mi_project_id m1) user = Ok tid"
      "g' = record_fire cron env i tid payload m1 (snd (check_user_rate (fe_rate_now env) (mi_user_id m1) g1))"
proof (cases "load_mission (fe_load env) i g")
  case (Inl e)
  with assms none show ?thesis by (auto simp: fire_mission_def)
next
  case (Inr mo)
  show ?thesis
  proof (cases mo)
    case None
    with Inr assms none show ?thesis by (auto simp: fire_mission_def)
  next
    case (Some m)
    have m: "hm_get (mim_missions g) i = Some m"
      using Inr Some by (auto simp: load_mission_def split: option.splits)
    obtain m1 g1 where dr: "daily_reset env m g = (m1, g1)" by (cases "daily_reset env m g")
    have u: "mi_user_id m1 = mi_user_id m" using dr by (auto simp: daily_reset_def Let_def split: if_splits)
    obtain ok g2 where cr: "check_user_rate (fe_rate_now env) (mi_user_id m1) g1 = (ok, g2)"
      by (cases "check_user_rate (fe_rate_now env) (mi_user_id m1) g1")
    have ws: "context_blocks g2 m1 = context_blocks g1 m1"
      using cr by (auto simp: check_user_rate_def context_blocks_def Let_def)
    have bud: "budget_allows g2 v j = budget_allows g1 v j" for v j
      using budget_allows_rate [of "fe_rate_now env" "mi_user_id m1" g1 v j] cr by simp
    let ?spawn = "fe_spawn env (build_meta_prompt pretty m1 (fe_docs env) payload (context_blocks g1 m1))
         (mi_project_id m1) user"
    show ?thesis
    proof (cases "may_fire user m \<and> fireable m")
      case False
      then have "g' = g \<and> (\<forall>tid. r \<noteq> Ok (Some tid))"
        using assms Inr Some fireable_iff [of m] by (auto simp: fire_mission_def may_fire_def split: if_splits)
      then show ?thesis using none by blast
    next
      case ok: True
      have body: "(r, g') = (if daily_budget_exhausted m1 \<or> cooling_down (fe_cooldown_now env) m1
             \<or> max_concurrent_reached (fe_thread_state env) m1 then (Ok None, g1)
           else if \<not> ok \<or> \<not> budget_allows g2 (mi_user_id m1) i then (Ok None, g2)
           else (case ?spawn of Inl e \<Rightarrow> (Err e, g2)
                 | Inr tid \<Rightarrow> (Ok (Some tid), record_fire cron env i tid payload m1 g2)))"
      proof -
        have "\<not> (\<not> is_shared (mission_owner_id m) \<and> \<not> mission_is_owned_by m user)"
          "\<not> (mission_is_terminal m \<and> \<not> (mi_status m = MsCompleted \<and> is_event_driven m))"
          using ok fireable_iff [of m] by (auto simp: may_fire_def)
        with assms Inr Some show ?thesis
          by (simp only: fire_mission_def sum.case option.case dr cr ws Let_def prod.case if_False not_not)
            (cases ok; cases "budget_allows g2 (mi_user_id m1) i"; auto split: if_splits)
      qed
      consider "r = Ok None" "g' = g1" | "\<And>tid. r \<noteq> Ok (Some tid)" "g' = g2"
        | tid where "?spawn = Ok tid" "unguarded env i m1 g1" "r = Ok (Some tid)"
            "g' = record_fire cron env i tid payload m1 g2"
        using body cr bud by (auto simp: unguarded_def split: if_splits sum.splits)
      then show ?thesis
      proof cases
        case 1
        then show ?thesis using refused [OF m] dr by simp
      next
        case 2
        then show ?thesis using refused [OF m] dr cr u by simp
      next
        case (3 tid)
        then show ?thesis using spawned [OF m dr _ _ _ 3(3)] ok cr by simp
      qed
    qed
  qed
qed

text \<open>The other direction: a fire that passes the guards spawns a thread.\<close>

lemma fire_spawns:
  assumes "hm_get (mim_missions g) i = Some m" "fe_load env = None" "may_fire user m" "fireable m"
    and "daily_reset env m g = (m1, g1)" "unguarded env i m1 g1"
    and "fe_spawn env (build_meta_prompt pretty m1 (fe_docs env) payload (context_blocks g1 m1))
         (mi_project_id m1) user = Ok tid"
  shows "fire_mission cron pretty i user payload env g =
     (Ok (Some tid), record_fire cron env i tid payload m1
        (snd (check_user_rate (fe_rate_now env) (mi_user_id m1) g1)))"
proof -
  obtain ok g2 where cr: "check_user_rate (fe_rate_now env) (mi_user_id m1) g1 = (ok, g2)"
    by (cases "check_user_rate (fe_rate_now env) (mi_user_id m1) g1")
  have "context_blocks g2 m1 = context_blocks g1 m1" "budget_allows g2 v j = budget_allows g1 v j" for v j
    using cr by (auto simp: check_user_rate_def context_blocks_def budget_allows_def Let_def)
  with assms fireable_iff [of m] cr show ?thesis
    by (simp add: fire_mission_def load_mission_def may_fire_def unguarded_def Let_def)
qed

section \<open>Steps\<close>

text \<open>
  The operations that neither fire nor match events. An identifier given to a new mission is
  fresh; the outcome of a thread is processed by the watcher its fire installed.
\<close>

inductive quiet_step :: "mission_libs \<Rightarrow> mission_manager \<Rightarrow> mission_manager \<Rightarrow> bool" for L where
  qs_create: "hm_get (mim_missions g) i = None \<Longrightarrow>
     create_mission (lib_cron L) save_err i now project user name goal cadence channels g = (r, g') \<Longrightarrow>
     quiet_step L g g'"
| qs_ensure: "hm_get (mim_missions g) i = None \<Longrightarrow>
     ensure_mission_by_metadata (lib_cron L) list_err save_err i now project user key name goal cadence
       criteria max_per_day g = (r', g') \<Longrightarrow>
     quiet_step L g g'"
| qs_update: "update_mission (lib_cron L) load_err save_err now i user u g = (r'', g') \<Longrightarrow> quiet_step L g g'"
| qs_pause: "pause_mission load_err status_err now i user g = (r'', g') \<Longrightarrow> quiet_step L g g'"
| qs_resume: "resume_mission (lib_cron L) load_err save_err now i user g = (r'', g') \<Longrightarrow> quiet_step L g g'"
| qs_complete: "complete_mission status_err now i g = (r'', g') \<Longrightarrow> quiet_step L g g'"
| qs_outcome: "(i, tid, f) \<in> set (mim_watchers g) \<Longrightarrow>
     process_mission_outcome_and_notify (lib_cron L) load_err save_err now i tid outcome (Some f) g = (r'', n, g') \<Longrightarrow>
     quiet_step L g g'"
| qs_bootstrap: "bootstrap_project (lib_cron L) list_err benv project g = (rn, g') \<Longrightarrow> quiet_step L g g'"

text \<open>The readings of the clock during a fire, between two instants.\<close>

definition env_ordered :: "time \<Rightarrow> fire_env \<Rightarrow> time \<Rightarrow> bool" where
  "env_ordered t env t' \<longleftrightarrow> t \<le> fe_reset_now env \<and> fe_reset_now env \<le> fe_cooldown_now env
     \<and> fe_cooldown_now env \<le> fe_rate_now env \<and> fe_rate_now env \<le> fe_instant env
     \<and> fe_instant env \<le> fe_record_now env \<and> fe_record_now env \<le> t'"

text \<open>
  Runs from a state \<open>g0\<close>: every fire satisfies \<open>ok\<close>, and a clock \<open>c\<close> gives the instants between
  the fires of one tick or one event.
\<close>

inductive mission_run ::
  "mission_libs \<Rightarrow> (fire_env \<Rightarrow> bool) \<Rightarrow> mission_manager \<Rightarrow> time \<Rightarrow> mission_manager \<Rightarrow> bool" for L ok g0 where
  run_start: "mission_run L ok g0 t g0"
| run_quiet: "mission_run L ok g0 t g \<Longrightarrow> quiet_step L g g' \<Longrightarrow> t \<le> t' \<Longrightarrow> mission_run L ok g0 t' g'"
| run_fire: "mission_run L ok g0 t g \<Longrightarrow> env_ordered t env t' \<Longrightarrow> ok env \<Longrightarrow>
     fire_mission (lib_cron L) (lib_pretty L) i user payload env g = (r, g') \<Longrightarrow> mission_run L ok g0 t' g'"
| run_tick: "mission_run L ok g0 t g \<Longrightarrow> t \<le> now \<Longrightarrow> c 0 = now \<Longrightarrow>
     \<forall>n. env_ordered (c n) (te_fire (tenv n)) (c (Suc n)) \<and> ok (te_fire (tenv n)) \<Longrightarrow>
     mission_tick (lib_cron L) (lib_pretty L) now tenv g = (r', g') \<Longrightarrow>
     mission_run L ok g0 (c (length (mim_active g))) g'"
| run_system_event: "mission_run L ok g0 t g \<Longrightarrow> t \<le> c 0 \<Longrightarrow>
     \<forall>n. env_ordered (c n) (ee_fire (eenv n)) (c (Suc n)) \<and> ok (ee_fire (eenv n)) \<Longrightarrow>
     fire_on_system_event (lib_cron L) (lib_pretty L) (lib_to_str L) (lib_hash L) source ty user payload eenv g
       = (r', g') \<Longrightarrow>
     mission_run L ok g0 (c (length (mim_active g))) g'"
| run_message_event: "mission_run L ok g0 t g \<Longrightarrow> t \<le> c 0 \<Longrightarrow>
     \<forall>n. env_ordered (c n) (ee_fire (eenv n)) (c (Suc n)) \<and> ok (ee_fire (eenv n)) \<Longrightarrow>
     fire_on_message_event (lib_cron L) (lib_pretty L) (lib_to_str L) (lib_hash L) (lib_regex L) channel
       text_in user payload eenv g = (r', g') \<Longrightarrow>
     mission_run L ok g0 (c (length (mim_active g))) g'"
| run_webhook: "mission_run L ok g0 t g \<Longrightarrow> t \<le> c 0 \<Longrightarrow>
     \<forall>n. env_ordered (c n) (ee_fire (eenv n)) (c (Suc n)) \<and> ok (ee_fire (eenv n)) \<Longrightarrow>
     fire_on_webhook (lib_cron L) (lib_pretty L) (lib_to_str L) (lib_hash L) path user payload eenv g = (r', g') \<Longrightarrow>
     mission_run L ok g0 (c (length (mim_active g))) g'"

lemma env_ordered_le: "env_ordered t env t' \<Longrightarrow> t \<le> t'"
  by (simp add: env_ordered_def)

section \<open>Invariants of runs\<close>

locale mission_inv =
  fixes L :: mission_libs and ok :: "fire_env \<Rightarrow> bool" and I :: "time \<Rightarrow> mission_manager \<Rightarrow> bool"
  assumes later: "I t g \<Longrightarrow> t \<le> t' \<Longrightarrow> I t' g"
    and quiet: "I t g \<Longrightarrow> quiet_step L g g' \<Longrightarrow> I t g'"
    and fire: "I t g \<Longrightarrow> env_ordered t env t' \<Longrightarrow> ok env \<Longrightarrow>
      fire_mission (lib_cron L) (lib_pretty L) i user payload env g = (r, g') \<Longrightarrow> I t' g'"
    and prune: "I t g \<Longrightarrow> I t (prune_attempts now g)"
    and dedup: "I t g \<Longrightarrow> I t (snd (dedup_event now i key w g))"
    and cache: "I t g \<Longrightarrow> hm_get (mim_missions g) i = Some m \<Longrightarrow>
      I t (snd (event_regex_matches (lib_regex L) m text_in g))"
begin

lemma tick_keeps:
  assumes "I (c 0) g" "\<forall>n. env_ordered (c n) (te_fire (env n)) (c (Suc n)) \<and> ok (te_fire (env n))"
  shows "I (c (length is)) (snd (tick_loop (lib_cron L) (lib_pretty L) now env is g))"
  using assms
proof (induction "is" arbitrary: c env g)
  case (Cons i "is")
  have ord: "\<forall>n. env_ordered (c (Suc n)) (te_fire (env (Suc n))) (c (Suc (Suc n))) \<and> ok (te_fire (env (Suc n)))"
    using Cons.prems(2) by blast
  have le: "c 0 \<le> c (Suc 0)" using Cons.prems(2) env_ordered_le by blast
  show ?case
  proof (cases "tick_target now (te_load (env 0)) i g")
    case None
    have "I (c (Suc 0)) g" using Cons.prems(1) le by (rule later)
    with Cons.IH [where c = "\<lambda>n. c (Suc n)" and env = "\<lambda>n. env (Suc n)", OF _ ord] None show ?thesis by simp
  next
    case (Some m)
    obtain r g1 where f: "fire_mission (lib_cron L) (lib_pretty L) i (mi_user_id m) None (te_fire (env 0)) g = (r, g1)"
      by (cases "fire_mission (lib_cron L) (lib_pretty L) i (mi_user_id m) None (te_fire (env 0)) g")
    have "I (c (Suc 0)) g1" using fire [OF Cons.prems(1) _ _ f] Cons.prems(2) by blast
    then have "I (c (Suc (length is))) (snd (tick_loop (lib_cron L) (lib_pretty L) now (\<lambda>n. env (Suc n)) is g1))"
      using Cons.IH [where c = "\<lambda>n. c (Suc n)" and env = "\<lambda>n. env (Suc n)", OF _ ord] by simp
    moreover obtain tids g2 where "tick_loop (lib_cron L) (lib_pretty L) now (\<lambda>n. env (Suc n)) is g1 = (tids, g2)"
      by (cases "tick_loop (lib_cron L) (lib_pretty L) now (\<lambda>n. env (Suc n)) is g1")
    ultimately show ?thesis using Some f by (simp split: sum.split option.split)
  qed
qed simp

lemma event_keeps:
  assumes "I (c 0) g" "\<forall>n. env_ordered (c n) (ee_fire (env n)) (c (Suc n)) \<and> ok (ee_fire (env n))"
    and "\<And>t g i m. I t g \<Longrightarrow> hm_get (mim_missions g) i = Some m \<Longrightarrow> I t (snd (matches m g))"
  shows "I (c (length is)) (snd (event_loop (lib_cron L) (lib_pretty L) matches user key payload env is g))"
  using assms(1,2)
proof (induction "is" arbitrary: c env g)
  case (Cons i "is")
  let ?rest = "event_loop (lib_cron L) (lib_pretty L) matches user key payload (\<lambda>n. env (Suc n)) is"
  have ord: "\<forall>n. env_ordered (c (Suc n)) (ee_fire (env (Suc n))) (c (Suc (Suc n))) \<and> ok (ee_fire (env (Suc n)))"
    using Cons.prems(2) by blast
  have le: "c n \<le> c (Suc n)" for n using Cons.prems(2) env_ordered_le by blast
  have up: "c n \<le> c (n + k)" for n k
  proof (induction k)
    case (Suc k)
    with le [of "n + k"] show ?case by simp
  qed simp
  have rest: "I (c (Suc (length is))) (snd (?rest g'))" if "I (c (Suc 0)) g'" for g'
    using Cons.IH [where c = "\<lambda>n. c (Suc n)" and env = "\<lambda>n. env (Suc n)", OF that ord] by simp
  have skip: "I (c (Suc (length is))) (snd (?rest g'))" if "I (c 0) g'" for g'
    using rest later [OF that le] by blast
  have stop: "I (c (Suc (length is))) g'" if "I (c 0) g'" for g'
    using later [OF that up [of 0 "Suc (length is)"]] by simp
  have stop1: "I (c (Suc (length is))) g'" if "I (c (Suc 0)) g'" for g'
    using later [OF that up [of "Suc 0" "length is"]] by simp
  consider (err) e where "load_mission (ee_load (env 0)) i g = Err e"
    | (absent) "load_mission (ee_load (env 0)) i g = Ok None"
    | (found) m where "load_mission (ee_load (env 0)) i g = Ok (Some m)"
    by (cases "load_mission (ee_load (env 0)) i g") auto
  then show ?case
  proof cases
    case err
    with stop [OF Cons.prems(1)] show ?thesis by simp
  next
    case absent
    with skip [OF Cons.prems(1)] show ?thesis by simp
  next
    case (found m)
    have m: "hm_get (mim_missions g) i = Some m"
      using found by (auto simp: load_mission_def split: option.splits)
    obtain ok1 g1 where ma: "matches m g = (ok1, g1)" by (cases "matches m g")
    obtain dup g2 where de: "dedup_event (ee_dedup_now (env 0)) i key (mi_dedup_window_secs m) g1 = (dup, g2)"
      by (cases "dedup_event (ee_dedup_now (env 0)) i key (mi_dedup_window_secs m) g1")
    obtain r g3 where f: "fire_mission (lib_cron L) (lib_pretty L) i user payload (ee_fire (env 0)) g2 = (r, g3)"
      by (cases "fire_mission (lib_cron L) (lib_pretty L) i user payload (ee_fire (env 0)) g2")
    have 1: "I (c 0) g1" using assms(3) [OF Cons.prems(1) m] ma by simp
    have 2: "I (c 0) g2" using dedup [OF 1] de by (metis snd_conv)
    have 3: "I (c (Suc 0)) g3" using fire [OF 2 _ _ f] Cons.prems(2) by blast
    show ?thesis
    proof (cases "event_candidate user m \<and> ok1 \<and> \<not> dup")
      case False
      with found ma de skip [OF Cons.prems(1)] skip [OF 1] skip [OF 2] show ?thesis by (auto simp: Let_def)
    next
      case True
      obtain q g4 where "?rest g3 = (q, g4)" by (cases "?rest g3")
      with True found ma de f rest [OF 3] stop1 [OF 3] show ?thesis
        by (cases r; cases q) (auto simp: Let_def)
    qed
  qed
qed simp

lemma mission_run_keeps:
  assumes "mission_run L ok g0 t g" "\<And>t. I t g0"
  shows "I t g"
  using assms(1)
proof (induction rule: mission_run.induct)
  case (run_start t)
  show ?case by (rule assms(2))
next
  case (run_quiet t g g' t')
  then show ?case using quiet later by blast
next
  case (run_fire t g env t' i user payload r g')
  show ?case by (rule fire [OF run_fire.IH run_fire.hyps(2,3,4)])
next
  case (run_tick t g now c tenv r' g')
  have "I (c 0) (prune_attempts now g)" using later [OF run_tick.IH] prune run_tick.hyps by simp
  from tick_keeps [OF this run_tick.hyps(4), of "mim_active g" now] run_tick.hyps(5) show ?case
    by (simp add: mission_tick_def split: prod.splits)
next
  case (run_system_event t g c eenv source ty user payload r' g')
  have "I (c 0) g" using later run_system_event by blast
  from event_keeps [OF this run_system_event.hyps(3), of "\<lambda>m g. (system_event_matches source ty payload m, g)"]
    run_system_event.hyps(4)
  show ?case by (metis fire_on_system_event_def snd_conv)
next
  case (run_message_event t g c eenv channel text_in user payload r' g')
  have keep: "I t (snd (message_event_matches (lib_regex L) channel text_in m g))"
    if "I t g" "hm_get (mim_missions g) i = Some m" for t g i m
    using that cache [OF that] by (auto simp: message_event_matches_def split: mission_cadence.splits)
  have "I (c 0) g" using later run_message_event by blast
  from event_keeps [OF this run_message_event.hyps(3), of "message_event_matches (lib_regex L) channel text_in"]
    keep run_message_event.hyps(4)
  show ?case by (metis fire_on_message_event_def snd_conv)
next
  case (run_webhook t g c eenv path user payload r' g')
  have "I (c 0) g" using later run_webhook by blast
  from event_keeps [OF this run_webhook.hyps(3), of "\<lambda>m g. (webhook_matches path m, g)"] run_webhook.hyps(4)
  show ?case by (metis fire_on_webhook_def snd_conv)
qed

end

end
