(* ===== verification/Mission_Safety.thy ===== *)
theory Mission_Safety
  imports Mission_Runs
begin

text \<open>
  What holds in every run of the mission manager: the fires of one user within a window, the
  threads of one mission on a day, who is fired for whom, the agreement of the pattern cache with
  the stored patterns, and what the ticker does after a failed save.
\<close>

section \<open>The frame of an operation\<close>

definition keyed :: "mission_manager \<Rightarrow> bool" where
  "keyed g \<longleftrightarrow> (\<forall>i m. hm_get (mim_missions g) i = Some m \<longrightarrow> mi_id m = i)"

definition owner_of :: "mission_manager \<Rightarrow> mission_id \<Rightarrow> string option" where
  "owner_of g i = map_option mi_user_id (hm_get (mim_missions g) i)"

definition watched :: "mission_manager \<Rightarrow> bool" where
  "watched g \<longleftrightarrow> (\<forall>(i, _, _) \<in> set (mim_watchers g). owner_of g i \<noteq> None)"

text \<open>
  The operation keeps the watchers, the fire log and the settings, and a stored mission either stays
  or changes as \<open>P\<close> allows.
\<close>

definition frame :: "(mission option \<Rightarrow> mission \<Rightarrow> bool) \<Rightarrow> mission_manager \<Rightarrow> mission_manager \<Rightarrow> bool" where
  "frame P g g' \<longleftrightarrow> keyed g' \<and> mim_watchers g' = mim_watchers g \<and> mim_user_fire_log g' = mim_user_fire_log g
     \<and> mim_rate_limit g' = mim_rate_limit g
     \<and> (\<forall>i. hm_get (mim_missions g') i = hm_get (mim_missions g) i
          \<or> (\<exists>m'. hm_get (mim_missions g') i = Some m' \<and> P (hm_get (mim_missions g) i) m'))"

definition kept :: "mission option \<Rightarrow> mission \<Rightarrow> bool" where
  "kept mo m' \<longleftrightarrow> (case mo of Some m \<Rightarrow> mi_user_id m' = mi_user_id m | None \<Rightarrow> True)"

text \<open>
  The edits of all operations but fires and outcomes: the accounting stays, and a new cadence is
  one whose cron expression the library has read.
\<close>

definition readable :: "cron_lib \<Rightarrow> mission_cadence \<Rightarrow> bool" where
  "readable cron c \<longleftrightarrow>
     (case c of Cron e tz \<Rightarrow> \<exists>now x. next_cron_fire cron now e tz = Ok x | _ \<Rightarrow> True)"

definition edit :: "cron_lib \<Rightarrow> mission option \<Rightarrow> mission \<Rightarrow> bool" where
  "edit cron mo m' \<longleftrightarrow>
     (case mo of
        Some m \<Rightarrow> mi_user_id m' = mi_user_id m \<and> mi_thread_history m' = mi_thread_history m
          \<and> mi_threads_today m' = mi_threads_today m \<and> mi_last_fire_at m' = mi_last_fire_at m
          \<and> (mi_cadence m' = mi_cadence m \<or> readable cron (mi_cadence m'))
      | None \<Rightarrow> mi_threads_today m' = 0 \<and> readable cron (mi_cadence m'))"

lemma frame_refl: "keyed g \<Longrightarrow> frame P g g"
  by (simp add: frame_def)

lemma frame_mono: "frame P g g' \<Longrightarrow> (\<And>mo m'. P mo m' \<Longrightarrow> Q mo m') \<Longrightarrow> frame Q g g'"
  unfolding frame_def by blast

lemma edit_kept: "edit cron mo m' \<Longrightarrow> kept mo m'"
  by (simp add: edit_def kept_def split: option.splits)

lemma edit_trans: "edit cron mo m' \<Longrightarrow> edit cron (Some m') m'' \<Longrightarrow> edit cron mo m''"
  by (auto simp: edit_def split: option.splits)

lemma frame_trans:
  assumes "frame (edit cron) g g'" "frame (edit cron) g' g''"
  shows "frame (edit cron) g g''"
proof -
  have "hm_get (mim_missions g'') i = hm_get (mim_missions g) i
     \<or> (\<exists>m. hm_get (mim_missions g'') i = Some m \<and> edit cron (hm_get (mim_missions g) i) m)" for i
  proof -
    have 1: "hm_get (mim_missions g') i = hm_get (mim_missions g) i
       \<or> (\<exists>m. hm_get (mim_missions g') i = Some m \<and> edit cron (hm_get (mim_missions g) i) m)"
      using assms(1) by (simp add: frame_def)
    have 2: "hm_get (mim_missions g'') i = hm_get (mim_missions g') i
       \<or> (\<exists>m. hm_get (mim_missions g'') i = Some m \<and> edit cron (hm_get (mim_missions g') i) m)"
      using assms(2) by (simp add: frame_def)
    from 1 2 show ?thesis by (elim disjE exE conjE) (auto intro: edit_trans)
  qed
  with assms show ?thesis by (simp add: frame_def)
qed

lemma frame_keyed: "frame P g g' \<Longrightarrow> keyed g'"
  by (simp add: frame_def)

lemma frame_cases:
  assumes "frame P g g'" "hm_get (mim_missions g') i = Some m'"
  shows "hm_get (mim_missions g) i = Some m' \<or> P (hm_get (mim_missions g) i) m'"
proof -
  have "hm_get (mim_missions g') i = hm_get (mim_missions g) i
     \<or> (\<exists>m. hm_get (mim_missions g') i = Some m \<and> P (hm_get (mim_missions g) i) m)"
    using assms(1) by (simp add: frame_def)
  with assms(2) show ?thesis by auto
qed

lemma frame_owner: "frame kept g g' \<Longrightarrow> owner_of g i = Some u \<Longrightarrow> owner_of g' i = Some u"
  unfolding frame_def owner_of_def kept_def
  by (cases "hm_get (mim_missions g) i"; elim conjE allE [where x = i]) auto

lemma frame_save:
  assumes "keyed g" "P (hm_get (mim_missions g) (mi_id m)) m"
  shows "frame P g (snd (save_mission e m g))"
  using assms by (auto simp: frame_def keyed_def save_mission_def hm_simps split: option.split)

lemma frame_status: "keyed g \<Longrightarrow> frame (edit cron) g (snd (update_mission_status e now i st g))"
proof (cases e)
  case None
  then show "keyed g \<Longrightarrow> ?thesis"
    by (cases "hm_get (mim_missions g) i")
      (auto simp: frame_def keyed_def edit_def update_mission_status_def hm_simps)
qed (simp add: frame_refl update_mission_status_def)

text \<open>Changes of the indexes and caches, which the frame does not mention.\<close>

definition same_core :: "mission_manager \<Rightarrow> mission_manager \<Rightarrow> bool" where
  "same_core g g' \<longleftrightarrow> mim_missions g' = mim_missions g \<and> mim_watchers g' = mim_watchers g
     \<and> mim_user_fire_log g' = mim_user_fire_log g \<and> mim_rate_limit g' = mim_rate_limit g
     \<and> mim_budget_gate g' = mim_budget_gate g"

lemma same_core_frame: "keyed g \<Longrightarrow> same_core g g' \<Longrightarrow> frame P g g'"
  by (simp add: same_core_def frame_def keyed_def)

lemma same_core_simps [simp]:
  "same_core g (g\<lparr>mim_active := as\<rparr>)" "same_core g (evict_event_regex i g)" "same_core g (deactivate i g)"
  "same_core g (activate i g)" "same_core g (prune_attempts now g)"
  "same_core g (snd (dedup_event now i key w g))" "same_core g (snd (event_regex_matches re m x g))"
  by (auto simp: same_core_def evict_event_regex_def deactivate_def activate_def prune_attempts_def
      dedup_event_def event_regex_matches_def Let_def split: mission_cadence.split option.split)

lemma managed_Ok: "managed_mission e i user g = Ok m \<Longrightarrow> hm_get (mim_missions g) i = Some m \<and> may_manage user m"
  by (auto simp: managed_mission_def load_mission_def split: sum.splits option.splits if_splits)

lemma scheduled_Ok:
  assumes "scheduled cron now m = Ok m'"
  shows "mi_id m' = mi_id m" "mi_user_id m' = mi_user_id m" "mi_status m' = mi_status m"
    "mi_cadence m' = mi_cadence m" "mi_thread_history m' = mi_thread_history m"
    "mi_threads_today m' = mi_threads_today m" "mi_last_fire_at m' = mi_last_fire_at m"
    "readable cron (mi_cadence m')"
  using assms
  by (auto simp: scheduled_def readable_def required_Ok split: mission_cadence.splits sum.splits) blast

lemma apply_cadence_Ok:
  assumes "apply_cadence cron now u m = Ok m'"
  shows "mi_id m' = mi_id m" "mi_user_id m' = mi_user_id m" "mi_status m' = mi_status m"
    "mi_thread_history m' = mi_thread_history m"
    "mi_threads_today m' = mi_threads_today m" "mi_last_fire_at m' = mi_last_fire_at m"
    "mi_cadence m' = mi_cadence m \<or> readable cron (mi_cadence m')"
proof -
  consider "m' = m" | c where "scheduled cron now (m\<lparr>mi_cadence := c, mi_next_fire_at := None\<rparr>) = Ok m'"
    using assms by (cases u) (auto simp: apply_cadence_def)
  note cs = this
  show "mi_id m' = mi_id m" by (rule cs) (use scheduled_Ok(1) in force)+
  show "mi_user_id m' = mi_user_id m" by (rule cs) (use scheduled_Ok(2) in force)+
  show "mi_status m' = mi_status m" by (rule cs) (use scheduled_Ok(3) in force)+
  show "mi_thread_history m' = mi_thread_history m" by (rule cs) (use scheduled_Ok(5) in force)+
  show "mi_threads_today m' = mi_threads_today m" by (rule cs) (use scheduled_Ok(6) in force)+
  show "mi_last_fire_at m' = mi_last_fire_at m" by (rule cs) (use scheduled_Ok(7) in force)+
  show "mi_cadence m' = mi_cadence m \<or> readable cron (mi_cadence m')" by (rule cs) (use scheduled_Ok(8) in blast)+
qed

lemma apply_fields_simps [simp]:
  "mi_id (apply_fields u m) = mi_id m" "mi_user_id (apply_fields u m) = mi_user_id m"
  "mi_status (apply_fields u m) = mi_status m" "mi_cadence (apply_fields u m) = mi_cadence m"
  "mi_thread_history (apply_fields u m) = mi_thread_history m"
  "mi_threads_today (apply_fields u m) = mi_threads_today m"
  "mi_last_fire_at (apply_fields u m) = mi_last_fire_at m"
  "mi_next_fire_at (apply_fields u m) = mi_next_fire_at m"
  by (simp_all add: apply_fields_def)

lemma mission_new_simps [simp]:
  "mi_id (mission_new i now project user name goal cadence) = i"
  "mi_user_id (mission_new i now project user name goal cadence) = user"
  "mi_status (mission_new i now project user name goal cadence) = MsActive"
  "mi_cadence (mission_new i now project user name goal cadence) = cadence"
  "mi_thread_history (mission_new i now project user name goal cadence) = []"
  "mi_threads_today (mission_new i now project user name goal cadence) = 0"
  "mi_last_fire_at (mission_new i now project user name goal cadence) = None"
  "mi_next_fire_at (mission_new i now project user name goal cadence) = None"
  by (simp_all add: mission_new_def Let_def split: prod.split)

lemma reconcile_simps [simp]:
  "mi_id (reconcile cron now tid f m) = mi_id m" "mi_user_id (reconcile cron now tid f m) = mi_user_id m"
  "mi_cadence (reconcile cron now tid f m) = mi_cadence m" "mi_status (reconcile cron now tid f m) = mi_status m"
  "mi_max_threads_per_day (reconcile cron now tid f m) = mi_max_threads_per_day m"
  by (simp_all add: reconcile_def Let_def split: mission_cadence.split sum.split option.split)

lemma absorb_simps [simp]:
  "mi_id (fst (absorb_outcome oc m)) = mi_id m" "mi_user_id (fst (absorb_outcome oc m)) = mi_user_id m"
  "mi_cadence (fst (absorb_outcome oc m)) = mi_cadence m"
  "mi_thread_history (fst (absorb_outcome oc m)) = mi_thread_history m"
  "mi_threads_today (fst (absorb_outcome oc m)) = mi_threads_today m"
  "mi_last_fire_at (fst (absorb_outcome oc m)) = mi_last_fire_at m"
  "mi_next_fire_at (fst (absorb_outcome oc m)) = mi_next_fire_at m"
  by (simp_all add: absorb_outcome_def absorb_response_def Let_def split: thread_outcome.split option.split)

lemma fired_simps [simp]:
  "mi_id (fired_mission cron f tid p m) = mi_id m" "mi_user_id (fired_mission cron f tid p m) = mi_user_id m"
  "mi_cadence (fired_mission cron f tid p m) = mi_cadence m"
  "mi_thread_history (fired_mission cron f tid p m) = mi_thread_history m @ [tid]"
  "mi_threads_today (fired_mission cron f tid p m) = mi_threads_today m + 1"
  by (simp_all add: fired_mission_def Let_def split: mission_cadence.split sum.split)

text \<open>The save of a stored mission that went through some changes, followed by changes of the indexes.\<close>

lemma frame_resave:
  assumes "keyed g" "hm_get (mim_missions g) i = Some m" "mi_id m' = mi_id m" "P (Some m) m'"
  shows "frame P g (snd (save_mission e m' g))"
  using assms by (intro frame_save) (auto simp: keyed_def)

lemma frame_then: "frame P g g' \<Longrightarrow> same_core g' g'' \<Longrightarrow> frame P g g''"
  by (simp add: frame_def same_core_def keyed_def)

lemma outcome_state:
  assumes "process_mission_outcome_and_notify cron le se now i tid oc f g = (r, n, g')"
  shows "g' = g \<or> (\<exists>m. hm_get (mim_missions g) i = Some m
     \<and> g' = snd (save_mission se ((fst (absorb_outcome oc (reconcile cron now tid f m)))\<lparr>mi_updated_at := now\<rparr>) g))"
  using assms
  by (auto simp: process_mission_outcome_and_notify_def load_mission_def Let_def
      split: sum.splits option.splits prod.splits)

lemma frame_backfill: "keyed g \<Longrightarrow> frame (edit cron) g (backfill cron env m g)"
  by (auto simp: backfill_def load_mission_def frame_refl edit_def intro: frame_resave
      split: mission_cadence.split sum.split option.split)

lemma frame_backfills: "keyed g \<Longrightarrow> frame (edit cron) g (foldl (\<lambda>g m. backfill cron (env (mi_id m)) m g) g ms)"
proof (induction ms arbitrary: g)
  case (Cons m ms)
  then show ?case using frame_backfill frame_keyed frame_trans by (simp, blast)
qed (simp add: frame_refl)

lemma frame_create:
  assumes "hm_get (mim_missions g) i = None"
    "create_mission cron save_err i now project user name goal cadence channels g = (r, g')" "keyed g"
  shows "frame (edit cron) g g'"
proof (cases "scheduled cron now (mission_new i now project user name goal cadence)")
  case (Inl e)
  with assms show ?thesis by (simp add: create_mission_def frame_refl)
next
  case (Inr m)
  obtain r1 g1 where sv: "save_mission save_err (m\<lparr>mi_notify_channels := channels\<rparr>) g = (r1, g1)"
    by (cases "save_mission save_err (m\<lparr>mi_notify_channels := channels\<rparr>) g")
  have "frame (edit cron) g (snd (save_mission save_err (m\<lparr>mi_notify_channels := channels\<rparr>) g))"
    using assms(1,3) scheduled_Ok [OF Inr] by (intro frame_save) (auto simp: edit_def)
  then have f: "frame (edit cron) g g1" using sv by simp
  have "same_core g1 g'"
    using assms(2) Inr sv by (cases r1) (auto simp: create_mission_def same_core_def)
  with f show ?thesis by (rule frame_then)
qed

lemma frame_ensure:
  assumes "hm_get (mim_missions g) i = None"
    "ensure_mission_by_metadata cron list_err save_err i now project user key name goal cadence
       criteria max_per_day g = (r', g')" "keyed g"
  shows "frame (edit cron) g g'"
proof -
  let ?new = "(mission_new i now project user name goal cadence)\<lparr>mi_success_criteria := Some criteria,
     mi_metadata := JObject [(key, JBool True)], mi_max_threads_per_day := max_per_day\<rparr>"
  let ?found = "List.find (\<lambda>m. json_get (mi_metadata m) key \<noteq> None) (list_missions project user g)"
  show ?thesis
  proof (cases "list_err = None \<and> ?found = None")
    case False
    then have "same_core g g'"
      using assms(2) by (auto simp: ensure_mission_by_metadata_def same_core_def activate_def split: option.splits if_splits)
    with assms(3) show ?thesis by (rule same_core_frame)
  next
    case True
    show ?thesis
    proof (cases "scheduled cron now ?new")
      case (Inl e)
      with True assms show ?thesis by (simp add: ensure_mission_by_metadata_def frame_refl)
    next
      case (Inr m)
      obtain r1 g1 where sv: "save_mission save_err m g = (r1, g1)" by (cases "save_mission save_err m g")
      have "frame (edit cron) g (snd (save_mission save_err m g))"
        using assms(1,3) scheduled_Ok [OF Inr] by (intro frame_save) (auto simp: edit_def)
      then have f: "frame (edit cron) g g1" using sv by simp
      have "same_core g1 g'"
        using assms(2) True Inr sv by (cases r1) (auto simp: ensure_mission_by_metadata_def same_core_def)
      with f show ?thesis by (rule frame_then)
    qed
  qed
qed

lemma frame_update:
  assumes "update_mission cron load_err save_err now i user u g = (r, g')" "keyed g"
  shows "frame (edit cron) g g'"
proof (cases "managed_mission load_err i user g")
  case (Inl e)
  with assms show ?thesis by (simp add: update_mission_def frame_refl)
next
  case (Inr m)
  show ?thesis
  proof (cases "apply_cadence cron now (mu_cadence u) m")
    case (Inl e)
    with Inr assms show ?thesis by (simp add: update_mission_def frame_refl)
  next
    case m': (Inr m')
    let ?m = "(apply_fields u m')\<lparr>mi_updated_at := now\<rparr>"
    obtain r1 g1 where sv: "save_mission save_err ?m g = (r1, g1)" by (cases "save_mission save_err ?m g")
    have "frame (edit cron) g (snd (save_mission save_err ?m g))"
      using managed_Ok [OF Inr] apply_cadence_Ok [OF m'] assms(2) by (intro frame_resave) (auto simp: edit_def)
    then have f: "frame (edit cron) g g1" using sv by simp
    have "same_core g1 g'"
      using assms(1) Inr m' sv by (cases r1) (auto simp: update_mission_def same_core_def evict_event_regex_def)
    with f show ?thesis by (rule frame_then)
  qed
qed

lemma frame_pause:
  assumes "pause_mission load_err status_err now i user g = (r, g')" "keyed g"
  shows "frame (edit cron) g g'"
proof (cases "managed_mission load_err i user g")
  case (Inl e)
  with assms show ?thesis by (simp add: pause_mission_def frame_refl)
next
  case (Inr m)
  obtain r1 g1 where us: "update_mission_status status_err now i MsPaused g = (r1, g1)"
    by (cases "update_mission_status status_err now i MsPaused g")
  have f: "frame (edit cron) g g1" using frame_status [OF assms(2), where e = status_err and now = now and i = i and st = MsPaused] us by simp
  have "same_core g1 g'"
    using assms(1) Inr us by (cases r1) (auto simp: pause_mission_def same_core_def deactivate_def)
  with f show ?thesis by (rule frame_then)
qed

lemma frame_resume:
  assumes "resume_mission cron load_err save_err now i user g = (r, g')" "keyed g"
  shows "frame (edit cron) g g'"
proof (cases "managed_mission load_err i user g")
  case (Inl e)
  with assms show ?thesis by (simp add: resume_mission_def frame_refl)
next
  case (Inr m)
  show ?thesis
  proof (cases "mi_status m \<noteq> MsPaused \<or> (\<exists>e. scheduled cron now (m\<lparr>mi_status := MsActive\<rparr>) = Err e)")
    case True
    with Inr assms show ?thesis by (auto simp: resume_mission_def frame_refl split: if_splits)
  next
    case False
    then obtain m' where m': "scheduled cron now (m\<lparr>mi_status := MsActive\<rparr>) = Ok m'"
      by (cases "scheduled cron now (m\<lparr>mi_status := MsActive\<rparr>)") auto
    let ?m = "m'\<lparr>mi_updated_at := now\<rparr>"
    obtain r1 g1 where sv: "save_mission save_err ?m g = (r1, g1)" by (cases "save_mission save_err ?m g")
    have "frame (edit cron) g (snd (save_mission save_err ?m g))"
      using managed_Ok [OF Inr] scheduled_Ok [OF m'] assms(2) by (intro frame_resave) (auto simp: edit_def)
    then have f: "frame (edit cron) g g1" using sv by simp
    have "same_core g1 g'"
      using assms(1) Inr False m' sv by (cases r1) (auto simp: resume_mission_def same_core_def activate_def)
    with f show ?thesis by (rule frame_then)
  qed
qed

lemma frame_complete:
  assumes "complete_mission status_err now i g = (r, g')" "keyed g"
  shows "frame (edit cron) g g'"
proof -
  obtain r1 g1 where us: "update_mission_status status_err now i MsCompleted g = (r1, g1)"
    by (cases "update_mission_status status_err now i MsCompleted g")
  have f: "frame (edit cron) g g1" using frame_status [OF assms(2), where e = status_err and now = now and i = i and st = MsCompleted] us by simp
  have "same_core g1 g'"
    using assms(1) us by (cases r1) (auto simp: complete_mission_def same_core_def deactivate_def evict_event_regex_def)
  with f show ?thesis by (rule frame_then)
qed

lemma frame_outcome:
  assumes "process_mission_outcome_and_notify cron load_err save_err now i tid oc f g = (r, n, g')" "keyed g"
  shows "frame kept g g'"
  using outcome_state [OF assms(1)] assms(2) by (auto simp: kept_def intro: frame_refl frame_resave)

lemma frame_bootstrap:
  assumes "bootstrap_project cron list_err benv project g = (r, g')" "keyed g"
  shows "frame (edit cron) g g'"
proof -
  let ?f = "\<lambda>ms. foldl (\<lambda>g m. backfill cron (benv (mi_id m)) m g) g ms"
  have "g' = g \<or> (\<exists>ms as. g' = (?f ms)\<lparr>mim_active := as\<rparr>)"
    using assms(1) by (auto simp: bootstrap_project_def Let_def split: option.splits)
  moreover have "frame (edit cron) g ((?f ms)\<lparr>mim_active := as\<rparr>)" for ms as
    using frame_backfills [OF assms(2), of "cron" benv ms] same_core_simps(1) by (rule frame_then)
  ultimately show ?thesis using frame_refl [OF assms(2)] by auto
qed

text \<open>Every step keeps the owners; every step but an outcome is an edit.\<close>

lemma quiet_edit:
  assumes "quiet_step L g g'" "keyed g"
  obtains (edit) "frame (edit (lib_cron L)) g g'"
  | (outcome) i tid f load_err save_err now oc r n where "(i, tid, f) \<in> set (mim_watchers g)"
      "process_mission_outcome_and_notify (lib_cron L) load_err save_err now i tid oc (Some f) g = (r, n, g')"
  using assms(1)
  by cases (use assms(2) in \<open>auto intro: edit outcome frame_create frame_ensure frame_update frame_pause
      frame_resume frame_complete frame_bootstrap\<close>)

lemma quiet_frame:
  assumes "quiet_step L g g'" "keyed g"
  shows "frame kept g g'"
  using assms
proof (cases rule: quiet_edit)
  case edit
  then show ?thesis using edit_kept by (rule frame_mono)
next
  case outcome
  then show ?thesis using assms(2) by (auto intro: frame_outcome)
qed

section \<open>The frame of a fire\<close>

lemma daily_reset_m:
  assumes "daily_reset env m g = (m1, g1)"
  shows "m1 = (if daily_stale (fe_reset_now env) m then m\<lparr>mi_threads_today := 0\<rparr> else m)"
    and "g1 = (if daily_stale (fe_reset_now env) m then snd (save_mission (fe_save_reset env) m1 g) else g)"
  using assms by (auto simp: daily_reset_def Let_def)

lemma daily_reset_keeps [simp]:
  assumes "daily_reset env m g = (m1, g1)"
  shows "mi_id m1 = mi_id m" "mi_user_id m1 = mi_user_id m" "mi_cadence m1 = mi_cadence m"
    "mi_thread_history m1 = mi_thread_history m" "mi_last_fire_at m1 = mi_last_fire_at m"
    "mi_max_threads_per_day m1 = mi_max_threads_per_day m" "mi_status m1 = mi_status m"
  using daily_reset_m(1) [OF assms] by auto

lemma frame_reset:
  assumes "daily_reset env m g = (m1, g1)" "keyed g" "hm_get (mim_missions g) i = Some m"
  shows "frame kept g g1"
  using daily_reset_m [OF assms(1)] assms(2,3) daily_reset_keeps(1,2) [OF assms(1)]
  by (auto simp: frame_refl kept_def intro: frame_resave)

lemma check_rate_same:
  "mim_missions (snd (check_user_rate now u g)) = mim_missions g"
  "mim_watchers (snd (check_user_rate now u g)) = mim_watchers g"
  "mim_rate_limit (snd (check_user_rate now u g)) = mim_rate_limit g"
  "mim_last_fire_attempt (snd (check_user_rate now u g)) = mim_last_fire_attempt g"
  by (simp_all add: check_user_rate_def Let_def)

lemma check_rate_log:
  "fire_log_of (snd (check_user_rate now u g)) v =
     (if v = u then dropWhile (\<lambda>ts. ts < now - fr_window (mim_rate_limit g)) (fire_log_of g u) else fire_log_of g v)"
  by (simp add: check_user_rate_def fire_log_of_def hm_simps Let_def)

lemma save_same [simp]:
  "mim_watchers (snd (save_mission e m g)) = mim_watchers g"
  "mim_user_fire_log (snd (save_mission e m g)) = mim_user_fire_log g"
  "mim_rate_limit (snd (save_mission e m g)) = mim_rate_limit g"
  "mim_last_fire_attempt (snd (save_mission e m g)) = mim_last_fire_attempt g"
  "mim_event_regex_cache (snd (save_mission e m g)) = mim_event_regex_cache g"
  by (simp_all add: save_mission_def split: option.split)

lemma record_fire_same:
  "mim_watchers (record_fire cron env i tid p m g) = mim_watchers g @ [(i, tid, fe_instant env)]"
  "mim_rate_limit (record_fire cron env i tid p m g) = mim_rate_limit g"
  "fire_log_of (record_fire cron env i tid p m g) v =
     (if v = mi_user_id m then fire_log_of g v @ [fe_record_now env] else fire_log_of g v)"
  "hm_get (mim_last_fire_attempt (record_fire cron env i tid p m g)) j =
     (if j = i then Some (fe_instant env) else hm_get (mim_last_fire_attempt g) j)"
  by (simp_all add: record_fire_def record_user_rate_def fire_log_of_def hm_simps Let_def)

lemma record_fire_missions:
  "mim_missions (record_fire cron env i tid p m g) =
     (if fe_save env = None then hm_insert (mim_missions g) (mi_id m) (fired_mission cron (fe_instant env) tid p m)
      else mim_missions g)"
  by (simp add: record_fire_def record_user_rate_def save_mission_def Let_def split: option.split)

lemma record_fire_owner:
  assumes "keyed g" "owner_of g (mi_id m) = Some (mi_user_id m)"
  shows "keyed (record_fire cron env i tid p m g)" "owner_of (record_fire cron env i tid p m g) j = owner_of g j"
  using assms by (auto simp: keyed_def owner_of_def record_fire_missions hm_simps)

section \<open>The fires of one user\<close>

definition owner_fires :: "mission_manager \<Rightarrow> string \<Rightarrow> time list" where
  "owner_fires g u = map (\<lambda>(_, _, f). f) (filter (\<lambda>(i, _, _). owner_of g i = Some u) (mim_watchers g))"

definition in_window :: "time \<Rightarrow> time \<Rightarrow> time list \<Rightarrow> nat" where
  "in_window a w fs = length (filter (\<lambda>f. a \<le> f \<and> f \<le> a + w) fs)"

text \<open>
  Each fire instant \<open>f\<close> of a user is followed by the instant \<open>r\<close> at which it entered the user's
  log, and the log holds the entries not older than some cutoff.
\<close>

definition log_inv :: "fire_rate_limit \<Rightarrow> time \<Rightarrow> mission_manager \<Rightarrow> string \<Rightarrow> bool" where
  "log_inv rl t g u \<longleftrightarrow>
     (\<exists>rs c. list_all2 (\<le>) (owner_fires g u) rs \<and> sorted rs \<and> (\<forall>r \<in> set rs. r \<le> t) \<and> c \<le> t - fr_window rl
        \<and> fire_log_of g u = filter (\<lambda>r. c \<le> r) rs)
     \<and> length (fire_log_of g u) \<le> unat (fr_max_fires rl)
     \<and> (\<forall>a. in_window a (fr_window rl) (owner_fires g u) \<le> unat (fr_max_fires rl))"

definition fire_rate_inv :: "fire_rate_limit \<Rightarrow> time \<Rightarrow> mission_manager \<Rightarrow> bool" where
  "fire_rate_inv rl t g \<longleftrightarrow> 0 \<le> fr_window rl \<and> keyed g \<and> watched g \<and> mim_rate_limit g = rl \<and> (\<forall>u. log_inv rl t g u)"

lemma dropWhile_sorted: "sorted xs \<Longrightarrow> dropWhile (\<lambda>x. x < (c::int)) xs = filter (\<lambda>x. c \<le> x) xs"
proof (induction xs)
  case (Cons x xs)
  then have "c \<le> x \<Longrightarrow> filter (\<lambda>x. c \<le> x) xs = xs" by (auto simp: filter_id_conv)
  with Cons show ?case by auto
qed simp

lemma filter_later:
  "list_all2 (\<le>) fs rs \<Longrightarrow> (\<And>f r. P f \<Longrightarrow> f \<le> r \<Longrightarrow> Q r) \<Longrightarrow> length (filter P fs) \<le> length (filter Q rs)"
  for fs rs :: "int list"
  by (induction rule: list_all2_induct) auto

lemma log_inv_later: "log_inv rl t g u \<Longrightarrow> t \<le> t' \<Longrightarrow> log_inv rl t' g u"
  unfolding log_inv_def by (meson order_trans diff_right_mono)

lemma fire_rate_inv_later: "fire_rate_inv rl t g \<Longrightarrow> t \<le> t' \<Longrightarrow> fire_rate_inv rl t' g"
  unfolding fire_rate_inv_def using log_inv_later by blast

lemma fire_rate_inv_keyed: "fire_rate_inv rl t g \<Longrightarrow> keyed g"
  by (simp add: fire_rate_inv_def)

lemma frame_fires:
  assumes "frame kept g g'" "watched g"
  shows "watched g'" "owner_fires g' u = owner_fires g u"
proof -
  have own: "owner_of g' i = owner_of g i" if "(i, tid, f) \<in> set (mim_watchers g)" for i tid f
    using assms that frame_owner by (fastforce simp: watched_def)
  then show "watched g'" using assms by (fastforce simp: frame_def watched_def)
  show "owner_fires g' u = owner_fires g u"
    using assms(1) own unfolding owner_fires_def frame_def
    by (intro arg_cong [where f = "map (\<lambda>(_, _, f). f)"]) (auto intro!: filter_cong)
qed

lemma fire_rate_inv_frame: "fire_rate_inv rl t g \<Longrightarrow> frame kept g g' \<Longrightarrow> fire_rate_inv rl t g'"
  using frame_fires [of g g'] by (auto simp: fire_rate_inv_def log_inv_def frame_def fire_log_of_def)

text \<open>A check evicts the entries before the new cutoff.\<close>

lemma log_inv_check:
  assumes "log_inv rl t g u" "t \<le> now" "mim_rate_limit g = rl"
  obtains rs where "list_all2 (\<le>) (owner_fires g u) rs" "sorted rs" "\<forall>r \<in> set rs. r \<le> t"
    "fire_log_of (snd (check_user_rate now u g)) u = filter (\<lambda>r. now - fr_window rl \<le> r) rs"
    "length (fire_log_of (snd (check_user_rate now u g)) u) \<le> unat (fr_max_fires rl)"
proof -
  obtain rs c where rs: "list_all2 (\<le>) (owner_fires g u) rs" "sorted rs" "\<forall>r \<in> set rs. r \<le> t"
    and c: "c \<le> t - fr_window rl" and log: "fire_log_of g u = filter (\<lambda>r. c \<le> r) rs"
    and len: "length (fire_log_of g u) \<le> unat (fr_max_fires rl)"
    using assms(1) unfolding log_inv_def by blast
  have "sorted (filter (\<lambda>r. c \<le> r) rs)" using rs(2) by (rule sorted_wrt_filter)
  moreover have "c \<le> now - fr_window rl" using c assms(2) by simp
  then have "filter (\<lambda>r. now - fr_window rl \<le> r) (filter (\<lambda>r. c \<le> r) rs) = filter (\<lambda>r. now - fr_window rl \<le> r) rs"
    by (auto intro: filter_cong)
  ultimately have new: "fire_log_of (snd (check_user_rate now u g)) u = filter (\<lambda>r. now - fr_window rl \<le> r) rs"
    by (simp add: check_rate_log assms(3) log dropWhile_sorted)
  have "length (fire_log_of (snd (check_user_rate now u g)) u) \<le> length (fire_log_of g u)"
    by (simp add: check_rate_log length_dropWhile_le)
  with len have "length (fire_log_of (snd (check_user_rate now u g)) u) \<le> unat (fr_max_fires rl)" by simp
  with rs new that show thesis by blast
qed

lemma check_fires [simp]:
  "owner_of (snd (check_user_rate now u g)) i = owner_of g i"
  "owner_fires (snd (check_user_rate now u g)) v = owner_fires g v"
  "keyed (snd (check_user_rate now u g)) = keyed g" "watched (snd (check_user_rate now u g)) = watched g"
  by (simp_all add: owner_of_def owner_fires_def keyed_def watched_def check_rate_same)

lemma fire_rate_inv_check:
  assumes "fire_rate_inv rl t g" "t \<le> now"
  shows "fire_rate_inv rl now (snd (check_user_rate now u g))"
  unfolding fire_rate_inv_def
proof (intro conjI allI)
  fix v
  have inv: "log_inv rl t g v" and rl: "mim_rate_limit g = rl" using assms(1) by (auto simp: fire_rate_inv_def)
  show "log_inv rl now (snd (check_user_rate now u g)) v"
  proof (cases "v = u")
    case True
    from log_inv_check [OF inv assms(2) rl] obtain rs where rs: "list_all2 (\<le>) (owner_fires g v) rs" "sorted rs"
      "\<forall>r \<in> set rs. r \<le> t" "fire_log_of (snd (check_user_rate now v g)) v = filter (\<lambda>r. now - fr_window rl \<le> r) rs"
      "length (fire_log_of (snd (check_user_rate now v g)) v) \<le> unat (fr_max_fires rl)" .
    moreover have "\<forall>r \<in> set rs. r \<le> now" using rs(3) assms(2) by auto
    moreover have "\<forall>a. in_window a (fr_window rl) (owner_fires g v) \<le> unat (fr_max_fires rl)"
      using inv by (simp add: log_inv_def)
    ultimately show ?thesis using True unfolding log_inv_def by auto
  next
    case False
    with log_inv_later [OF inv assms(2)] show ?thesis by (simp add: log_inv_def check_rate_log)
  qed
qed (use assms in \<open>auto simp: fire_rate_inv_def check_rate_same\<close>)

lemma log_inv_spawn:
  assumes "log_inv rl t g u" "t \<le> now" "mim_rate_limit g = rl" "fst (check_user_rate now u g)"
    and "now \<le> f" "f \<le> r"
    and "owner_fires g' u = owner_fires g u @ [f]"
    and "fire_log_of g' u = fire_log_of (snd (check_user_rate now u g)) u @ [r]"
    and "0 \<le> fr_window rl"
  shows "log_inv rl r g' u"
proof -
  let ?c = "now - fr_window rl" and ?log = "fire_log_of (snd (check_user_rate now u g)) u"
  obtain rs where rs: "list_all2 (\<le>) (owner_fires g u) rs" "sorted rs" "\<forall>r \<in> set rs. r \<le> t"
    and log: "?log = filter (\<lambda>r. ?c \<le> r) rs" and len: "length ?log \<le> unat (fr_max_fires rl)"
    using log_inv_check [OF assms(1,2,3)] .
  have "unat (fr_max_fires rl) < 2 ^ LENGTH(32)" by (rule unsigned_less)
  with len have "length ?log < 2 ^ 32" by simp
  then have less: "length ?log < unat (fr_max_fires rl)"
    using assms(3,4) by (simp add: check_user_rate_def fire_log_of_def hm_simps Let_def word_less_nat_alt unat_of_nat)
  have le_r: "\<forall>x \<in> set rs. x \<le> r" using rs(3) assms(2,5,6) by auto
  have "list_all2 (\<le>) (owner_fires g u @ [f]) (rs @ [r])" using rs(1) assms(6) by (simp add: list_all2_appendI)
  moreover have "sorted (rs @ [r])" using rs(2) le_r by (simp add: sorted_append)
  moreover have "fire_log_of g' u = filter (\<lambda>r. ?c \<le> r) (rs @ [r])"
    using log assms(5,6,8,9) by simp
  moreover have "?c \<le> r - fr_window rl" using assms(5,6) by simp
  moreover have "in_window a (fr_window rl) (owner_fires g u @ [f]) \<le> unat (fr_max_fires rl)" for a
  proof (cases "a \<le> f \<and> f \<le> a + fr_window rl")
    case False
    then show ?thesis using assms(1) by (auto simp: in_window_def log_inv_def)
  next
    case True
    have "in_window a (fr_window rl) (owner_fires g u) \<le> length (filter (\<lambda>r. ?c \<le> r) rs)"
      unfolding in_window_def using rs(1) True assms(5) by (intro filter_later) auto
    with less log True show ?thesis by (simp add: in_window_def)
  qed
  moreover have "length (fire_log_of g' u) \<le> unat (fr_max_fires rl)" using assms(8) less by simp
  moreover have "\<forall>x \<in> set (rs @ [r]). x \<le> r" using le_r by simp
  ultimately show ?thesis unfolding log_inv_def assms(7) by blast
qed

lemma spawn_fires:
  assumes "keyed g" "watched g" "owner_of g (mi_id m) = Some (mi_user_id m)" "mi_id m = i"
  shows "watched (record_fire cron env i tid p m g)"
    and "owner_fires (record_fire cron env i tid p m g) v =
      (if v = mi_user_id m then owner_fires g v @ [fe_instant env] else owner_fires g v)"
  using assms
  by (auto simp: watched_def owner_fires_def record_fire_same record_fire_owner)

lemma fire_rate_inv_spawn:
  assumes inv: "fire_rate_inv rl t g" and "t \<le> fe_rate_now env" "fe_rate_now env \<le> fe_instant env"
    and "fe_instant env \<le> fe_record_now env" "fst (check_user_rate (fe_rate_now env) (mi_user_id m) g)"
    and "owner_of g (mi_id m) = Some (mi_user_id m)" "mi_id m = i"
  shows "fire_rate_inv rl (fe_record_now env)
    (record_fire cron env i tid p m (snd (check_user_rate (fe_rate_now env) (mi_user_id m) g)))"
    (is "fire_rate_inv rl _ ?g'")
proof -
  have base: "keyed g" "watched g" "mim_rate_limit g = rl" "\<And>u. log_inv rl t g u"
    and w: "0 \<le> fr_window rl" using inv by (auto simp: fire_rate_inv_def)
  have "log_inv rl (fe_record_now env) ?g' v" for v
  proof (cases "v = mi_user_id m")
    case True
    have "owner_fires ?g' v = owner_fires g v @ [fe_instant env]"
      using True spawn_fires(2) [where g = "snd (check_user_rate (fe_rate_now env) (mi_user_id m) g)"] base assms(6,7)
      by simp
    moreover have "fire_log_of ?g' v = fire_log_of (snd (check_user_rate (fe_rate_now env) v g)) v @ [fe_record_now env]"
      using True by (simp add: record_fire_same)
    ultimately show ?thesis
      using log_inv_spawn [OF base(4) assms(2) base(3)] assms(3,4,5) w True by blast
  next
    case False
    have "owner_fires ?g' v = owner_fires g v"
      using False spawn_fires(2) [where g = "snd (check_user_rate (fe_rate_now env) (mi_user_id m) g)"] base assms(6,7)
      by simp
    moreover have "fire_log_of ?g' v = fire_log_of g v" using False by (simp add: record_fire_same check_rate_log)
    moreover have "log_inv rl (fe_record_now env) g v" using base(4) assms(2,3,4) by (meson log_inv_later order_trans)
    ultimately show ?thesis by (simp add: log_inv_def)
  qed
  moreover have "keyed ?g'" "watched ?g'"
    using base assms(6,7) record_fire_owner(1) [where g = "snd (check_user_rate (fe_rate_now env) (mi_user_id m) g)"]
      spawn_fires(1) [where g = "snd (check_user_rate (fe_rate_now env) (mi_user_id m) g)"] by simp_all
  ultimately show ?thesis by (simp add: fire_rate_inv_def record_fire_same check_rate_same base w)
qed

lemma fire_rate_inv_fire:
  assumes inv: "fire_rate_inv rl t g" and ord: "env_ordered t env t'"
    and f: "fire_mission cron pretty i user payload env g = (r, g')"
  shows "fire_rate_inv rl t' g'"
proof -
  have later: "fire_rate_inv rl t' h" if "fire_rate_inv rl s h" "s \<le> t'" for s h
    using that by (rule fire_rate_inv_later)
  have key: "keyed g" using inv by (simp add: fire_rate_inv_def)
  note o = ord [unfolded env_ordered_def]
  from f show ?thesis
  proof (cases rule: fire_result)
    case none
    with later [OF inv] o show ?thesis by simp
  next
    case (refused m)
    obtain m1 g1 where dr: "daily_reset env m g = (m1, g1)" by (cases "daily_reset env m g")
    have "fire_rate_inv rl t g1" by (rule fire_rate_inv_frame [OF inv frame_reset [OF dr key refused(1)]])
    with refused(3) dr later [of t g1] later [OF fire_rate_inv_check [of rl t g1 "fe_rate_now env" "mi_user_id m"]] o
    show ?thesis by auto
  next
    case (spawned m m1 g1 tid)
    have fr: "frame kept g g1" by (rule frame_reset [OF spawned(2) key spawned(1)])
    have "owner_of g1 (mi_id m1) = Some (mi_user_id m1)" "mi_id m1 = i"
      using frame_owner [OF fr] spawned(1) key daily_reset_keeps(1,2) [OF spawned(2)]
      by (simp_all add: owner_of_def keyed_def)
    moreover have "fst (check_user_rate (fe_rate_now env) (mi_user_id m1) g1)"
      using spawned(5) by (simp add: unguarded_def)
    ultimately have "fire_rate_inv rl (fe_record_now env) g'"
      unfolding spawned(8) using o by (intro fire_rate_inv_spawn [OF fire_rate_inv_frame [OF inv fr]]) auto
    with later o show ?thesis by simp
  qed
qed

text \<open>Every operation keeps the invariant, whatever saves fail.\<close>

interpretation rate: mission_inv L ok "fire_rate_inv rl" for L ok rl
proof
  show "fire_rate_inv rl t g \<Longrightarrow> t \<le> t' \<Longrightarrow> fire_rate_inv rl t' g" for t t' g by (rule fire_rate_inv_later)
next
  show "fire_rate_inv rl t g \<Longrightarrow> quiet_step L g g' \<Longrightarrow> fire_rate_inv rl t g'" for t g g'
    using quiet_frame fire_rate_inv_frame fire_rate_inv_keyed by blast
next
  show "fire_rate_inv rl t g \<Longrightarrow> env_ordered t env t' \<Longrightarrow> ok env \<Longrightarrow>
      fire_mission (lib_cron L) (lib_pretty L) i user payload env g = (r, g') \<Longrightarrow> fire_rate_inv rl t' g'"
    for t g env t' i user payload r g' using fire_rate_inv_fire by blast
next
  fix t g now i m x key w
  assume inv: "fire_rate_inv rl t g"
  then have "frame kept g g'" if "same_core g g'" for g' using that same_core_frame fire_rate_inv_keyed by blast
  then show "fire_rate_inv rl t (prune_attempts now g)" "fire_rate_inv rl t (snd (dedup_event now i key w g))"
    "fire_rate_inv rl t (snd (event_regex_matches (lib_regex L) m x g))"
    using fire_rate_inv_frame [OF inv] by simp_all
qed

text \<open>A manager that has just been built, over the missions its store holds.\<close>

definition just_started :: "mission_manager \<Rightarrow> bool" where
  "just_started g \<longleftrightarrow> keyed g \<and> mim_watchers g = [] \<and> mim_user_fire_log g = []
     \<and> mim_event_regex_cache g = [] \<and> mim_last_fire_attempt g = [] \<and> 0 \<le> fr_window (mim_rate_limit g)"

lemma fire_rate_inv_start:
  assumes "just_started g"
  shows "fire_rate_inv (mim_rate_limit g) t g"
proof -
  have "log_inv (mim_rate_limit g) t g u" for u
  proof -
    have "owner_fires g u = []" "fire_log_of g u = []"
      using assms by (simp_all add: just_started_def owner_fires_def fire_log_of_def hm_get_def)
    then show ?thesis unfolding log_inv_def
      by (intro conjI exI [of _ "[]"] exI [of _ "t - fr_window (mim_rate_limit g)"]) (auto simp: in_window_def)
  qed
  with assms show ?thesis by (simp add: fire_rate_inv_def just_started_def watched_def)
qed

end
