(* ===== verification/Mission_Days.thy ===== *)
theory Mission_Days
  imports Mission_Safety
begin

text \<open>
  The daily budget of a mission. The stored counter is an upper bound of the threads spawned on the
  day of the last fire as long as the saves of the fires succeed and the cron expressions that were
  read once stay readable.
\<close>

section \<open>The invariant\<close>

definition threads_on :: "mission_manager \<Rightarrow> mission_id \<Rightarrow> int \<Rightarrow> nat" where
  "threads_on g i d = length (filter (\<lambda>(j, _, f). j = i \<and> utc_day f = d) (mim_watchers g))"

definition cron_stable :: "cron_lib \<Rightarrow> bool" where
  "cron_stable cron \<longleftrightarrow> (\<forall>e tz t t'. cron e tz t = None \<longrightarrow> cron e tz t' = None)"

definition saved :: "fire_env \<Rightarrow> bool" where
  "saved env \<longleftrightarrow> fe_save_reset env = None \<and> fe_save env = None"

definition books :: "nat \<Rightarrow> time \<Rightarrow> mission_manager \<Rightarrow> mission_id \<Rightarrow> mission \<Rightarrow> bool" where
  "books B t g i m \<longleftrightarrow>
     (\<forall>tid f. (i, tid, f) \<in> set (mim_watchers g) \<longrightarrow>
        tid \<in> set (mi_thread_history m) \<and> (\<exists>l. mi_last_fire_at m = Some l \<and> l \<le> t \<and> utc_day f \<le> utc_day l))
     \<and> (\<forall>l. mi_last_fire_at m = Some l \<longrightarrow>
          utc_day l < utc_day t \<or> threads_on g i (utc_day l) \<le> unat (mi_threads_today m))
     \<and> unat (mi_threads_today m) \<le> B + length (mim_watchers g)"

definition day_inv :: "mission_libs \<Rightarrow> nat \<Rightarrow> time \<Rightarrow> mission_manager \<Rightarrow> bool" where
  "day_inv L B t g \<longleftrightarrow> cron_stable (lib_cron L) \<and> keyed g \<and> watched g
     \<and> (\<forall>i m. hm_get (mim_missions g) i = Some m \<longrightarrow> readable (lib_cron L) (mi_cadence m)
          \<and> (B + length (mim_watchers g) < 2 ^ 32 \<longrightarrow> books B t g i m))"

lemma readable_at:
  assumes "cron_stable cron" "readable cron (Cron e tz)"
  obtains x where "next_cron_fire cron now e tz = Ok x"
proof -
  obtain now' y where "next_cron_fire cron now' e tz = Ok y" using assms(2) by (auto simp: readable_def)
  then obtain norm where n: "normalize_cron_expression e = Ok norm" "cron norm tz now' = Some y"
    by (auto simp: next_cron_fire_def split: sum.splits option.splits)
  then obtain x where "cron norm tz now = Some x" using assms(1) unfolding cron_stable_def by fastforce
  with n that show thesis by (simp add: next_cron_fire_def)
qed

lemma fired_last:
  assumes "cron_stable cron" "readable cron (mi_cadence m)"
  shows "mi_last_fire_at (fired_mission cron f tid p m) = Some f"
proof (cases "mi_cadence m")
  case (Cron e tz)
  then obtain x where "next_cron_fire cron f e tz = Ok x" using assms readable_at by metis
  with Cron show ?thesis by (simp add: fired_mission_def Let_def)
qed (simp_all add: fired_mission_def Let_def)

lemma utc_day_mono: "a \<le> b \<Longrightarrow> utc_day a \<le> utc_day b"
  by (simp add: utc_day_def secs_def zdiv_mono1)

lemma threads_on_cong: "mim_watchers g' = mim_watchers g \<Longrightarrow> threads_on g' = threads_on g"
  by (intro ext) (simp add: threads_on_def)

lemma threads_on_none: "(\<And>tid f. (i, tid, f) \<in> set (mim_watchers g) \<Longrightarrow> utc_day f \<noteq> d) \<Longrightarrow> threads_on g i d = 0"
  by (auto simp: threads_on_def filter_empty_conv)

lemma books_later: "books B t g i m \<Longrightarrow> t \<le> t' \<Longrightarrow> books B t' g i m"
  using utc_day_mono [of t t'] unfolding books_def by (meson order_trans less_le_trans)

lemma books_cong:
  assumes "books B t g i m" "mim_watchers g' = mim_watchers g" "mi_thread_history m' = mi_thread_history m"
    "mi_threads_today m' = mi_threads_today m" "mi_last_fire_at m' = mi_last_fire_at m"
  shows "books B t g' i m'"
  using assms unfolding books_def by (simp add: threads_on_cong [OF assms(2)])

lemma day_inv_later: "day_inv L B t g \<Longrightarrow> t \<le> t' \<Longrightarrow> day_inv L B t' g"
  unfolding day_inv_def using books_later by blast

text \<open>A mission that has just been stored is not watched yet.\<close>

lemma unwatched: "watched g \<Longrightarrow> hm_get (mim_missions g) i = None \<Longrightarrow> (i, tid, f) \<notin> set (mim_watchers g)"
  by (auto simp: watched_def owner_of_def)

lemma day_inv_edit:
  assumes inv: "day_inv L B t g" and fr: "frame (edit (lib_cron L)) g g'"
  shows "day_inv L B t g'"
proof -
  have w: "mim_watchers g' = mim_watchers g" "keyed g'" using fr by (auto simp: frame_def)
  have "watched g'"
    using frame_fires(1) [OF frame_mono [OF fr edit_kept]] inv by (simp add: day_inv_def)
  moreover have "readable (lib_cron L) (mi_cadence m')
      \<and> (B + length (mim_watchers g') < 2 ^ 32 \<longrightarrow> books B t g' i m')"
    if m': "hm_get (mim_missions g') i = Some m'" for i m'
  proof (cases "hm_get (mim_missions g) i")
    case None
    then have e: "mi_threads_today m' = 0" "readable (lib_cron L) (mi_cadence m')"
      using frame_cases [OF fr m'] by (simp_all add: edit_def)
    have "(i, tid, f) \<notin> set (mim_watchers g')" for tid f
      using None inv unwatched w(1) by (simp add: day_inv_def)
    then have "books B t g' i m'"
      using e(1) by (auto simp: books_def intro!: threads_on_none)
    with e show ?thesis by simp
  next
    case (Some m)
    have i: "readable (lib_cron L) (mi_cadence m)" "B + length (mim_watchers g) < 2 ^ 32 \<longrightarrow> books B t g i m"
      using inv Some by (auto simp: day_inv_def)
    have "m' = m \<or> edit (lib_cron L) (Some m) m'"
      using frame_cases [OF fr m'] Some by auto
    then show ?thesis
    proof
      assume "m' = m"
      with i w show ?thesis using books_cong [of B t g i m g' m] by simp
    next
      assume "edit (lib_cron L) (Some m) m'"
      with i w show ?thesis using books_cong [of B t g i m g' m'] by (auto simp: edit_def)
    qed
  qed
  ultimately show ?thesis using inv w by (simp add: day_inv_def)
qed

lemma day_inv_core: "day_inv L B t g \<Longrightarrow> same_core g g' \<Longrightarrow> day_inv L B t g'"
  by (rule day_inv_edit) (auto simp: day_inv_def intro: same_core_frame)

text \<open>The outcome of a watched thread finds the thread in the stored history.\<close>

lemma day_inv_outcome:
  assumes inv: "day_inv L B t g" and w: "(i, tid, f) \<in> set (mim_watchers g)"
    and oc: "process_mission_outcome_and_notify (lib_cron L) le se now i tid oc (Some f) g = (r, n, g')"
  shows "day_inv L B t g'"
proof (cases "g' = g")
  case False
  let ?new = "\<lambda>m. (fst (absorb_outcome oc (reconcile (lib_cron L) now tid (Some f) m)))\<lparr>mi_updated_at := now\<rparr>"
  obtain m where m: "hm_get (mim_missions g) i = Some m" and g': "g' = snd (save_mission se (?new m) g)"
    using outcome_state [OF oc] False by blast
  have key: "mi_id m = i" using inv m by (auto simp: day_inv_def keyed_def)
  have fr: "frame kept g g'" using frame_outcome [OF oc] inv by (simp add: day_inv_def)
  have same: "mim_watchers g' = mim_watchers g" using g' by simp
  have get: "hm_get (mim_missions g') j = Some m' \<Longrightarrow> hm_get (mim_missions g) j = Some m' \<or> (j = i \<and> m' = ?new m)" for j m'
    using g' key by (auto simp: save_mission_def hm_simps split: option.splits if_splits)
  have "readable (lib_cron L) (mi_cadence m')
      \<and> (B + length (mim_watchers g') < 2 ^ 32 \<longrightarrow> books B t g' j m')" if "hm_get (mim_missions g') j = Some m'" for j m'
    using get [OF that]
  proof
    assume "hm_get (mim_missions g) j = Some m'"
    then have "readable (lib_cron L) (mi_cadence m')" "B + length (mim_watchers g) < 2 ^ 32 \<longrightarrow> books B t g j m'"
      using inv by (auto simp: day_inv_def)
    with same show ?thesis using books_cong [of B t g j m' g' m'] by simp
  next
    assume new: "j = i \<and> m' = ?new m"
    have old: "readable (lib_cron L) (mi_cadence m)" "B + length (mim_watchers g) < 2 ^ 32 \<longrightarrow> books B t g i m"
      using inv m by (auto simp: day_inv_def)
    have "books B t g' i m'" if small: "B + length (mim_watchers g) < 2 ^ 32"
    proof -
      have bk: "books B t g i m" using old(2) small by blast
      then have "tid \<in> set (mi_thread_history m)" using w by (auto simp: books_def)
      then have "reconcile (lib_cron L) now tid (Some f) m = m" by (simp add: reconcile_def)
      with new show ?thesis by (intro books_cong [OF bk same]) simp_all
    qed
    with new old(1) same show ?thesis by simp
  qed
  moreover have "keyed g'" "watched g'"
    using fr frame_keyed frame_fires(1) inv by (auto simp: day_inv_def)
  ultimately show ?thesis using inv by (simp add: day_inv_def)
qed (use inv in simp)

section \<open>A fire keeps the books\<close>

lemma books_last: "books B t g i m \<Longrightarrow> (i, tid, f) \<in> set (mim_watchers g) \<Longrightarrow>
    \<exists>l. mi_last_fire_at m = Some l \<and> l \<le> t \<and> utc_day f \<le> utc_day l"
  by (auto simp: books_def)

text \<open>After the reset the counter bounds the threads of the current day, and of every later one.\<close>

lemma books_today:
  assumes bk: "books B t g i m" and dr: "daily_reset env m g = (m1, g1)" and t: "t \<le> fe_reset_now env"
    and d: "utc_day (fe_reset_now env) \<le> d"
  shows "threads_on g i d \<le> unat (mi_threads_today m1)"
proof (cases "\<exists>l. mi_last_fire_at m = Some l \<and> l \<le> t \<and> d \<le> utc_day l")
  case False
  then have "threads_on g i d = 0" using books_last [OF bk] by (fastforce intro!: threads_on_none)
  then show ?thesis by simp
next
  case True
  then obtain l where l: "mi_last_fire_at m = Some l" "l \<le> t" "d \<le> utc_day l" by blast
  have days: "utc_day l = d" "utc_day (fe_reset_now env) = d" "utc_day t = d"
    using utc_day_mono [OF l(2)] utc_day_mono [OF t] d l(3) by auto
  then have "threads_on g i d \<le> unat (mi_threads_today m)" using bk l(1) unfolding books_def by fastforce
  moreover have "\<not> daily_stale (fe_reset_now env) m" using l(1) days by (simp add: daily_stale_def)
  ultimately show ?thesis using daily_reset_m(1) [OF dr] by simp
qed

lemma books_reset:
  assumes bk: "books B t g i m" and dr: "daily_reset env m g = (m1, g1)" and t: "t \<le> fe_reset_now env"
  shows "books B (fe_reset_now env) g1 i m1"
proof -
  have same: "mim_watchers g1 = mim_watchers g" using daily_reset_m(2) [OF dr] by simp
  show ?thesis
  proof (cases "daily_stale (fe_reset_now env) m")
    case False
    with daily_reset_m [OF dr] books_later [OF bk t] show ?thesis by simp
  next
    case True
    then have m1: "m1 = m\<lparr>mi_threads_today := 0\<rparr>" using daily_reset_m(1) [OF dr] by simp
    have "utc_day l < utc_day (fe_reset_now env)" if "mi_last_fire_at m = Some l" for l
      using True that by (simp add: daily_stale_def)
    with books_later [OF bk t] show ?thesis by (simp add: books_def m1 same)
  qed
qed

lemma threads_on_spawn:
  "mim_watchers g' = mim_watchers g @ [(i, tid, f)] \<Longrightarrow>
   threads_on g' j d = threads_on g j d + (if j = i \<and> utc_day f = d then 1 else 0)"
  by (simp add: threads_on_def)

lemma books_spawn:
  assumes bk: "books B t g i m" and dr: "daily_reset env m g = (m1, g1)"
    and t: "t \<le> fe_reset_now env" "fe_reset_now env \<le> f" "f \<le> t'"
    and w: "mim_watchers g' = mim_watchers g @ [(i, tid, f)]" and small: "B + length (mim_watchers g') < 2 ^ 32"
    and m': "mi_thread_history m' = mi_thread_history m1 @ [tid]" "mi_threads_today m' = mi_threads_today m1 + 1"
      "mi_last_fire_at m' = Some f"
  shows "books B t' g' i m'" and "threads_on g' i (utc_day f) \<le> unat (mi_threads_today m1) + 1"
proof -
  have today: "threads_on g i (utc_day f) \<le> unat (mi_threads_today m1)"
    by (rule books_today [OF bk dr t(1) utc_day_mono [OF t(2)]])
  have le: "unat (mi_threads_today m1) \<le> B + length (mim_watchers g)"
    using bk daily_reset_m(1) [OF dr] by (auto simp: books_def)
  have "unat (mi_threads_today m1) + 1 < 2 ^ LENGTH(32)" using le small w by simp
  then have inc: "unat (mi_threads_today m1 + 1) = unat (mi_threads_today m1) + 1" by (simp add: unat_word_ariths)
  have old: "tid' \<in> set (mi_thread_history m) \<and> utc_day f' \<le> utc_day f"
    if mem: "(i, tid', f') \<in> set (mim_watchers g)" for tid' f'
  proof -
    obtain l where l: "l \<le> t" "utc_day f' \<le> utc_day l" using books_last [OF bk mem] by blast
    have "utc_day l \<le> utc_day f" using l(1) t by (intro utc_day_mono) simp
    moreover have "tid' \<in> set (mi_thread_history m)" using bk mem by (simp add: books_def)
    ultimately show ?thesis using l(2) by simp
  qed
  show "threads_on g' i (utc_day f) \<le> unat (mi_threads_today m1) + 1"
    using today by (simp add: threads_on_spawn [OF w])
  moreover have "\<forall>tid' f'. (i, tid', f') \<in> set (mim_watchers g') \<longrightarrow>
      tid' \<in> set (mi_thread_history m') \<and> (\<exists>l. mi_last_fire_at m' = Some l \<and> l \<le> t' \<and> utc_day f' \<le> utc_day l)"
    using old w m' daily_reset_keeps(4) [OF dr] t(3) by auto
  ultimately show "books B t' g' i m'"
    using inc le w m' by (simp add: books_def)
qed

lemma books_other:
  "books B t g j m \<Longrightarrow> mim_watchers g' = mim_watchers g @ [(i, tid, f)] \<Longrightarrow> j \<noteq> i \<Longrightarrow> books B t g' j m"
  by (auto simp: books_def threads_on_spawn)

lemma day_inv_reset:
  assumes inv: "day_inv L B t g" and m: "hm_get (mim_missions g) i = Some m"
    and dr: "daily_reset env m g = (m1, g1)" and t: "t \<le> fe_reset_now env"
  shows "day_inv L B (fe_reset_now env) g1"
    and "fe_save_reset env = None \<Longrightarrow> hm_get (mim_missions g1) i = Some m1"
    and "\<And>j m'. j \<noteq> i \<Longrightarrow> hm_get (mim_missions g1) j = hm_get (mim_missions g) j"
proof -
  have key: "mi_id m1 = i" using inv m daily_reset_keeps(1) [OF dr] by (auto simp: day_inv_def keyed_def)
  have fr: "frame kept g g1" using frame_reset [OF dr _ m] inv by (simp add: day_inv_def)
  have get: "hm_get (mim_missions g1) j =
      (if daily_stale (fe_reset_now env) m \<and> fe_save_reset env = None \<and> j = i then Some m1 else hm_get (mim_missions g) j)" for j
    using daily_reset_m(2) [OF dr] key by (auto simp: save_mission_def hm_simps split: option.splits)
  have same: "mim_watchers g1 = mim_watchers g" using fr by (simp add: frame_def)
  have one: "readable (lib_cron L) (mi_cadence m')
      \<and> (B + length (mim_watchers g1) < 2 ^ 32 \<longrightarrow> books B (fe_reset_now env) g1 j m')"
    if "hm_get (mim_missions g1) j = Some m'" for j m'
  proof (cases "daily_stale (fe_reset_now env) m \<and> fe_save_reset env = None \<and> j = i")
    case True
    with that get have "m' = m1" by simp
    moreover have "readable (lib_cron L) (mi_cadence m)" "B + length (mim_watchers g) < 2 ^ 32 \<longrightarrow> books B t g i m"
      using inv m by (auto simp: day_inv_def)
    ultimately show ?thesis using True books_reset [OF _ dr t] daily_reset_keeps(3) [OF dr] same by auto
  next
    case False
    with that get have "hm_get (mim_missions g) j = Some m'" by (simp split: if_splits)
    then have "readable (lib_cron L) (mi_cadence m')" "B + length (mim_watchers g) < 2 ^ 32 \<longrightarrow> books B t g j m'"
      using inv by (auto simp: day_inv_def)
    then show ?thesis using books_later [OF _ t] books_cong [of B "fe_reset_now env" g j m' g1 m'] same by auto
  qed
  show "day_inv L B (fe_reset_now env) g1"
    using one fr inv frame_keyed frame_fires(1) by (auto simp: day_inv_def)
  show "fe_save_reset env = None \<Longrightarrow> hm_get (mim_missions g1) i = Some m1"
    using get m daily_reset_m(1) [OF dr] by auto
  show "\<And>j m'. j \<noteq> i \<Longrightarrow> hm_get (mim_missions g1) j = hm_get (mim_missions g) j"
    using get by simp
qed

lemma day_inv_check: "day_inv L B t g \<Longrightarrow> day_inv L B t (snd (check_user_rate now u g))"
proof -
  have "books B t (snd (check_user_rate now u g)) i m" if "books B t g i m" for i m
    using books_cong [OF that check_rate_same(2)] by simp
  then show "day_inv L B t g \<Longrightarrow> day_inv L B t (snd (check_user_rate now u g))"
    by (simp add: day_inv_def check_rate_same)
qed

lemma day_inv_spawn:
  assumes inv: "day_inv L B t g" and m: "hm_get (mim_missions g) i = Some m"
    and dr: "daily_reset env m g = (m1, g1)" and ord: "env_ordered t env t'" and ok: "saved env"
    and g': "g' = record_fire (lib_cron L) env i tid p m1 (snd (check_user_rate (fe_rate_now env) (mi_user_id m1) g1))"
  shows "day_inv L B t' g'"
    and "B + length (mim_watchers g') < 2 ^ 32 \<Longrightarrow>
      threads_on g' i (utc_day (fe_instant env)) \<le> unat (mi_threads_today m1) + 1"
proof -
  note o = ord [unfolded env_ordered_def]
  let ?m' = "fired_mission (lib_cron L) (fe_instant env) tid p m1"
  have t: "t \<le> fe_reset_now env" "fe_reset_now env \<le> fe_instant env" "fe_instant env \<le> t'" using o by auto
  have key: "mi_id m1 = i" using inv m daily_reset_keeps(1) [OF dr] by (auto simp: day_inv_def keyed_def)
  have w1: "mim_watchers g1 = mim_watchers g" using daily_reset_m(2) [OF dr] by simp
  have w: "mim_watchers g' = mim_watchers g @ [(i, tid, fe_instant env)]"
    by (simp add: g' record_fire_same check_rate_same w1)
  have rd: "readable (lib_cron L) (mi_cadence m)" using inv m by (auto simp: day_inv_def)
  have st: "cron_stable (lib_cron L)" using inv by (simp add: day_inv_def)
  have last: "mi_last_fire_at ?m' = Some (fe_instant env)"
    using fired_last [OF st] rd daily_reset_keeps(3) [OF dr] by simp
  have get: "hm_get (mim_missions g') j = (if j = i then Some ?m' else hm_get (mim_missions g) j)" for j
    using ok day_inv_reset(3) [OF inv m dr t(1), of j] key
    by (simp add: g' record_fire_missions saved_def hm_simps check_rate_same)
  have bk: "books B t g i m" if "B + length (mim_watchers g') < 2 ^ 32"
    using inv m that w by (simp add: day_inv_def)
  have spawn: "books B t' g' i ?m'" "threads_on g' i (utc_day (fe_instant env)) \<le> unat (mi_threads_today m1) + 1"
    if "B + length (mim_watchers g') < 2 ^ 32"
    using books_spawn [OF bk [OF that] dr t w that _ _ last] by simp_all
  have one: "readable (lib_cron L) (mi_cadence m')
      \<and> (B + length (mim_watchers g') < 2 ^ 32 \<longrightarrow> books B t' g' j m')"
    if "hm_get (mim_missions g') j = Some m'" for j m'
  proof (cases "j = i")
    case True
    with that get have "m' = ?m'" by simp
    with True spawn(1) rd daily_reset_keeps(3) [OF dr] show ?thesis by simp
  next
    case False
    with that get have "hm_get (mim_missions g) j = Some m'" by simp
    then have "readable (lib_cron L) (mi_cadence m')" "B + length (mim_watchers g) < 2 ^ 32 \<longrightarrow> books B t g j m'"
      using inv by (auto simp: day_inv_def)
    moreover have "books B t' g' j m'" if "books B t g j m'"
      by (rule books_other [OF books_later [OF that env_ordered_le [OF ord]] w False])
    ultimately show ?thesis by (simp add: w)
  qed
  have "watched g'"
    using inv w get m by (auto simp: day_inv_def watched_def owner_of_def)
  moreover have "keyed g'" using get key inv by (auto simp: keyed_def day_inv_def)
  ultimately show "day_inv L B t' g'" using one st by (simp add: day_inv_def)
  show "B + length (mim_watchers g') < 2 ^ 32 \<Longrightarrow>
      threads_on g' i (utc_day (fe_instant env)) \<le> unat (mi_threads_today m1) + 1" by (rule spawn(2))
qed

lemma day_inv_fire:
  assumes inv: "day_inv L B t g" and ord: "env_ordered t env t'" and ok: "saved env"
    and f: "fire_mission (lib_cron L) pretty i user payload env g = (r, g')"
  shows "day_inv L B t' g'"
  using f
proof (cases rule: fire_result)
  case none
  with day_inv_later [OF inv env_ordered_le [OF ord]] show ?thesis by simp
next
  case (refused m)
  obtain m1 g1 where dr: "daily_reset env m g = (m1, g1)" by (cases "daily_reset env m g")
  have "day_inv L B (fe_reset_now env) g1"
    using day_inv_reset(1) [OF inv refused(1) dr] ord by (simp add: env_ordered_def)
  then have "day_inv L B t' g1" by (rule day_inv_later) (use ord in \<open>simp add: env_ordered_def\<close>)
  with refused(3) dr day_inv_check show ?thesis by auto
next
  case (spawned m m1 g1 tid)
  show ?thesis by (rule day_inv_spawn(1) [OF inv spawned(1,2) ord ok spawned(8)])
qed

interpretation days: mission_inv L saved "day_inv L B" for L B
proof
  show "day_inv L B t g \<Longrightarrow> t \<le> t' \<Longrightarrow> day_inv L B t' g" for t t' g by (rule day_inv_later)
next
  fix t g g'
  assume inv: "day_inv L B t g" and q: "quiet_step L g g'"
  have "keyed g" using inv by (simp add: day_inv_def)
  with q show "day_inv L B t g'"
  proof (cases rule: quiet_edit)
    case edit
    with inv show ?thesis by (rule day_inv_edit)
  next
    case outcome
    with inv show ?thesis by (rule day_inv_outcome)
  qed
next
  show "day_inv L B t g \<Longrightarrow> env_ordered t env t' \<Longrightarrow> saved env \<Longrightarrow>
      fire_mission (lib_cron L) (lib_pretty L) i user payload env g = (r, g') \<Longrightarrow> day_inv L B t' g'"
    for t g env t' i user payload r g' by (rule day_inv_fire)
qed (rule day_inv_core, assumption, simp)+

section \<open>The start\<close>

lemma day_inv_start:
  assumes "just_started g" "cron_stable (lib_cron L)"
    and "\<forall>i m. hm_get (mim_missions g) i = Some m \<longrightarrow>
       readable (lib_cron L) (mi_cadence m) \<and> unat (mi_threads_today m) \<le> B"
  shows "day_inv L B t g"
  using assms by (auto simp: day_inv_def just_started_def watched_def books_def threads_on_def)

end
