(* ===== verification/Mission_Props.thy ===== *)
theory Mission_Props
  imports Mission_Days
begin

text \<open>
  What each operation of the mission manager guarantees on its own, and instances of the
  properties on a small manager.
\<close>

section \<open>A manager with one mission\<close>

definition daily_libs :: mission_libs where
  "daily_libs = \<lparr>lib_cron = \<lambda>_ _ now. Some (Some (now + secs 60)), lib_pretty = \<lambda>_. [], lib_to_str = \<lambda>_. [],
     lib_hash = id, lib_regex = \<lambda>p. Some (\<lambda>s. contains_str s p)\<rparr>"

definition one_mission :: mission where
  "one_mission = (mission_new 3 0 7 ''alice'' ''digest'' ''read the news'' (Cron ''* * * * *'' None))
     \<lparr>mi_next_fire_at := Some 5\<rparr>"

definition one_manager :: mission_manager where
  "one_manager = mission_manager_new\<lparr>mim_missions := [(3, one_mission)], mim_active := [3]\<rparr>"

definition env_at :: "time \<Rightarrow> thread_id \<Rightarrow> fire_env" where
  "env_at t tid = \<lparr>fe_load = None, fe_reset_now = t, fe_save_reset = None, fe_cooldown_now = t,
     fe_thread_state = \<lambda>_. None, fe_rate_now = t, fe_docs = [], fe_spawn = \<lambda>_ _ _. Ok tid,
     fe_instant = t, fe_save = None, fe_record_now = t\<rparr>"

lemma env_at_ordered: "s \<le> t \<Longrightarrow> env_ordered s (env_at t tid) t"
  by (simp add: env_ordered_def env_at_def)

lemma env_at_saved: "saved (env_at t tid)"
  by (simp add: saved_def env_at_def)

lemma one_manager_started: "just_started one_manager"
  by (simp add: just_started_def one_manager_def mission_manager_new_def keyed_def one_mission_def hm_get_def
      fire_rate_limit_default_def secs_def)

lemma five_fields: "normalize_cron_expression ''* * * * *'' = Ok ''0 * * * * * *''"
  by code_simp

lemma one_cadence: "mi_cadence one_mission = Cron ''* * * * *'' None"
  by (simp add: one_mission_def)

lemma one_reads: "readable (lib_cron daily_libs) (mi_cadence one_mission)"
proof -
  have "next_cron_fire (lib_cron daily_libs) 0 ''* * * * *'' None = Ok (Some (secs 60))"
    by (simp only: next_cron_fire_def five_fields daily_libs_def mission_libs.simps sum.case option.case add_0)
  then show ?thesis unfolding one_cadence readable_def by auto
qed

lemma one_stable: "cron_stable (lib_cron daily_libs)"
  by (simp add: cron_stable_def daily_libs_def)

lemma one_stored: "hm_get (mim_missions one_manager) 3 = Some one_mission"
  by (simp add: one_manager_def mission_manager_new_def hm_get_def)

lemma one_fields: "mi_user_id one_mission = ''alice''" "mi_status one_mission = MsActive"
  "mi_threads_today one_mission = 0" "mi_last_fire_at one_mission = None" "mi_thread_history one_mission = []"
  "mi_max_threads_per_day one_mission = 10" "mi_cooldown_secs one_mission = 0" "mi_max_concurrent one_mission = 0"
  "mi_next_fire_at one_mission = Some 5"
  by (simp_all add: one_mission_def) (simp_all add: mission_new_def default_guardrails_def)

lemma one_may: "may_fire ''alice'' one_mission"
  by (simp add: may_fire_def mission_is_owned_by_def mission_owner_id_def one_fields from_user_id_def
      is_shared_owner_def SHARED_OWNER_ID_def LEGACY_SHARED_OWNER_ID_def)

lemma one_fireable: "fireable one_mission"
  by (simp add: fireable_def one_fields)

lemma one_reset: "daily_reset (env_at 10 77) one_mission one_manager = (one_mission, one_manager)"
  by (simp add: daily_reset_def daily_stale_def one_fields)

lemma one_unguarded: "unguarded (env_at 10 77) 3 one_mission one_manager"
  by (simp add: unguarded_def daily_budget_exhausted_def cooling_down_def max_concurrent_reached_def one_fields)
    (simp add: check_user_rate_def fire_log_of_def budget_allows_def one_manager_def mission_manager_new_def
      hm_get_def Let_def fire_rate_limit_default_def)

lemma one_fires:
  "fire_mission (lib_cron daily_libs) (lib_pretty daily_libs) 3 ''alice'' None (env_at 10 77) one_manager
     = (Ok (Some 77), record_fire (lib_cron daily_libs) (env_at 10 77) 3 77 None one_mission
          (snd (check_user_rate (fe_rate_now (env_at 10 77)) (mi_user_id one_mission) one_manager)))"
  by (rule fire_spawns [OF one_stored _ one_may one_fireable one_reset one_unguarded]) (simp_all add: env_at_def)

section \<open>Bounds over runs\<close>



lemma one_run:
  "mission_run daily_libs ok one_manager 10
     (snd (fire_mission (lib_cron daily_libs) (lib_pretty daily_libs) 3 ''alice'' None (env_at 10 77) one_manager))"
  if "ok (env_at 10 77)"
  using run_fire [where ok = ok and env = "env_at 10 77", OF run_start env_at_ordered [OF order_refl] that one_fires]
    one_fires by simp





section \<open>One fire\<close>

text \<open>
  C37. A fire spawns a thread only on behalf of the mission's owner or for a shared mission; never
  for a failed mission and for a completed one only if events drive it; only within the daily
  budget, unless the counter is of an earlier day; only when the cooldown since the last fire is
  over; only while fewer threads than \<open>max_concurrent\<close> are running; and only with the consent of
  the budget gate.
\<close>

theorem mission_fire_guarded:
  assumes "fire_mission cron pretty i user payload env g = (Ok (Some tid), g')"
  shows "\<exists>m. hm_get (mim_missions g) i = Some m
     \<and> (is_shared (mission_owner_id m) \<or> mi_user_id m = user)
     \<and> mi_status m \<noteq> MsFailed \<and> (mi_status m = MsCompleted \<longrightarrow> is_event_driven m)
     \<and> (mi_max_threads_per_day m = 0 \<or> mi_threads_today m < mi_max_threads_per_day m
          \<or> daily_stale (fe_reset_now env) m)
     \<and> (\<forall>l. mi_last_fire_at m = Some l \<longrightarrow> l \<le> fe_cooldown_now env \<longrightarrow>
          uint (mi_cooldown_secs m) \<le> num_seconds (fe_cooldown_now env - l))
     \<and> (mi_max_concurrent m = 0 \<or> count_running_threads (fe_thread_state env) m < unat (mi_max_concurrent m))
     \<and> (\<forall>gate. mim_budget_gate g = Some gate \<longrightarrow> gate (mi_user_id m) i)"
  using assms
proof (cases rule: fire_result)
  case (spawned m m1 g1 tid')
  note dr = daily_reset_m(1) [OF spawned(2)]
  have same: "mi_cooldown_secs m1 = mi_cooldown_secs m" "mi_max_concurrent m1 = mi_max_concurrent m"
    "count_running_threads (fe_thread_state env) m1 = count_running_threads (fe_thread_state env) m"
    using dr by (auto simp: count_running_threads_def)
  note kept = daily_reset_keeps [OF spawned(2)]
  have gate: "mim_budget_gate g1 = mim_budget_gate g"
    using daily_reset_m(2) [OF spawned(2)] by (simp add: save_mission_def split: option.split)
  have u: "\<not> daily_budget_exhausted m1" "\<not> cooling_down (fe_cooldown_now env) m1"
    "\<not> max_concurrent_reached (fe_thread_state env) m1" "budget_allows g1 (mi_user_id m1) i"
    using spawned(5) by (simp_all add: unguarded_def)
  have 1: "is_shared (mission_owner_id m) \<or> mi_user_id m = user"
    using spawned(3) by (auto simp: may_fire_def mission_is_owned_by_def mission_owner_id_def from_user_id_def split: if_splits)
  have 2: "mi_status m \<noteq> MsFailed" "mi_status m = MsCompleted \<longrightarrow> is_event_driven m"
    using spawned(4) by (auto simp: fireable_def)
  have 3: "mi_max_threads_per_day m = 0 \<or> mi_threads_today m < mi_max_threads_per_day m
      \<or> daily_stale (fe_reset_now env) m"
  proof (cases "daily_stale (fe_reset_now env) m")
    case False
    with dr have "m1 = m" by simp
    with u(1) show ?thesis by (auto simp: daily_budget_exhausted_def word_gt_0)
  qed simp
  have 4: "uint (mi_cooldown_secs m) \<le> num_seconds (fe_cooldown_now env - l)"
    if "mi_last_fire_at m = Some l" "l \<le> fe_cooldown_now env" for l
  proof -
    have "0 \<le> num_seconds (fe_cooldown_now env - l)" using that(2) by (simp add: num_seconds_def)
    with u(2) that(1) kept(5) same(1) show ?thesis
      by (cases "mi_cooldown_secs m = 0") (simp_all add: cooling_down_def Let_def word_gt_0)
  qed
  have 5: "mi_max_concurrent m = 0 \<or> count_running_threads (fe_thread_state env) m < unat (mi_max_concurrent m)"
    using u(3) same by (auto simp: max_concurrent_reached_def word_gt_0 not_le)
  have 6: "gate (mi_user_id m) i" if "mim_budget_gate g = Some gate" for gate
    using u(4) that gate kept(2) by (simp add: budget_allows_def)
  show ?thesis using spawned(1) 1 2 3 4 5 6 by blast
qed auto

lemma mission_fire_guarded_witness:
  "\<exists>m. hm_get (mim_missions one_manager) 3 = Some m \<and> mi_status m \<noteq> MsFailed
     \<and> (mi_max_threads_per_day m = 0 \<or> mi_threads_today m < mi_max_threads_per_day m
          \<or> daily_stale (fe_reset_now (env_at 10 77)) m)"
  using mission_fire_guarded [OF one_fires] by blast

section \<open>The ticker\<close>

text \<open>What a fire changes of the other missions, and of its own when it is refused.\<close>

lemma save_other: "j \<noteq> mi_id m \<Longrightarrow> hm_get (mim_missions (snd (save_mission e m g))) j = hm_get (mim_missions g) j"
  by (simp add: save_mission_def hm_simps split: option.split)

lemma fire_other:
  assumes "fire_mission cron pretty i user payload env g = (r, g')" "keyed g" "j \<noteq> i"
  shows "hm_get (mim_missions g') j = hm_get (mim_missions g) j"
    "hm_get (mim_last_fire_attempt g') j = hm_get (mim_last_fire_attempt g) j"
proof -
  have reset: "hm_get (mim_missions g1) j = hm_get (mim_missions g) j \<and> mim_last_fire_attempt g1 = mim_last_fire_attempt g"
    if "daily_reset env m g = (m1, g1)" "hm_get (mim_missions g) i = Some m" for m m1 g1
    using that daily_reset_m(2) [OF that(1)] daily_reset_keeps(1) [OF that(1)] assms(2,3)
    by (auto simp: keyed_def intro!: save_other)
  from assms(1) have "hm_get (mim_missions g') j = hm_get (mim_missions g) j
     \<and> hm_get (mim_last_fire_attempt g') j = hm_get (mim_last_fire_attempt g) j"
  proof (cases rule: fire_result)
    case (refused m)
    obtain m1 g1 where dr: "daily_reset env m g = (m1, g1)" by (cases "daily_reset env m g")
    with refused(3) reset [OF dr refused(1)] show ?thesis by (auto simp: check_rate_same)
  next
    case (spawned m m1 g1 tid)
    have "mi_id m1 = i" using spawned(1) assms(2) daily_reset_keeps(1) [OF spawned(2)] by (auto simp: keyed_def)
    with reset [OF spawned(2,1)] assms(3) show ?thesis
      by (simp add: spawned(8) record_fire_missions record_fire_same check_rate_same hm_simps)
  qed simp_all
  then show "hm_get (mim_missions g') j = hm_get (mim_missions g) j"
    "hm_get (mim_last_fire_attempt g') j = hm_get (mim_last_fire_attempt g) j" by auto
qed

lemma fire_keyed:
  assumes "fire_mission cron pretty i user payload env g = (r, g')" "keyed g"
  shows "keyed g'"
  using assms(1)
proof (cases rule: fire_result)
  case none
  with assms(2) show ?thesis by simp
next
  case (refused m)
  obtain m1 g1 where dr: "daily_reset env m g = (m1, g1)" by (cases "daily_reset env m g")
  have "keyed g1" using frame_reset [OF dr assms(2) refused(1)] by (rule frame_keyed)
  with refused(3) dr show ?thesis by auto
next
  case (spawned m m1 g1 tid)
  have "keyed g1" using frame_reset [OF spawned(2) assms(2) spawned(1)] by (rule frame_keyed)
  then show ?thesis
    unfolding spawned(8) by (auto simp: keyed_def record_fire_missions check_rate_same hm_simps)
qed

text \<open>The watchers a fire adds.\<close>

lemma fire_watchers:
  assumes "fire_mission cron pretty i user payload env g = (r, g')"
  shows "mim_watchers g' = mim_watchers g @ (case r of Inr (Some tid) \<Rightarrow> [(i, tid, fe_instant env)] | _ \<Rightarrow> [])"
  using assms
proof (cases rule: fire_result)
  case none
  then show ?thesis by (simp split: sum.split option.split)
next
  case (refused m)
  have "mim_watchers (snd (daily_reset env m g)) = mim_watchers g" by (simp add: daily_reset_def Let_def)
  with refused(2,3) show ?thesis by (auto simp: check_rate_same split: sum.split option.split)
next
  case (spawned m m1 g1 tid)
  then have "mim_watchers g1 = mim_watchers g" using daily_reset_m(2) [OF spawned(2)] by simp
  with spawned(6,8) show ?thesis by (simp add: record_fire_same check_rate_same)
qed

lemma tick_target_load: "tick_target now e i g = Some m \<Longrightarrow> tick_target now None i g = Some m"
  by (auto simp: tick_target_def load_mission_def split: option.splits)

lemma tick_target_cong:
  "hm_get (mim_missions g') j = hm_get (mim_missions g) j \<Longrightarrow>
   hm_get (mim_last_fire_attempt g') j = hm_get (mim_last_fire_attempt g) j \<Longrightarrow>
   tick_target now e j g' = tick_target now e j g"
  by (simp add: tick_target_def load_mission_def on_cooldown_def split: option.split)

lemma tick_loop_watchers:
  assumes "keyed g" "tick_loop cron pretty now env is g = (tids, g')"
  shows "\<exists>ws. mim_watchers g' = mim_watchers g @ ws \<and> tids = map (\<lambda>(_, tid, _). tid) ws
     \<and> (\<forall>(j, _, _) \<in> set ws. j \<in> set is \<and> tick_target now None j g \<noteq> None)"
  using assms
proof (induction "is" arbitrary: env g tids g')
  case (Cons i "is")
  show ?case
  proof (cases "tick_target now (te_load (env 0)) i g")
    case None
    with Cons.prems have "tick_loop cron pretty now (\<lambda>n. env (Suc n)) is g = (tids, g')" by simp
    from Cons.IH [OF Cons.prems(1) this] show ?thesis by (force simp: list.set_intros)
  next
    case (Some m)
    obtain r g1 where f: "fire_mission cron pretty i (mi_user_id m) None (te_fire (env 0)) g = (r, g1)"
      by (cases "fire_mission cron pretty i (mi_user_id m) None (te_fire (env 0)) g")
    obtain tids1 g2 where l: "tick_loop cron pretty now (\<lambda>n. env (Suc n)) is g1 = (tids1, g2)"
      by (cases "tick_loop cron pretty now (\<lambda>n. env (Suc n)) is g1")
    obtain ws where ws: "mim_watchers g2 = mim_watchers g1 @ ws" "tids1 = map (\<lambda>(_, tid, _). tid) ws"
      "\<forall>(j, _, _) \<in> set ws. j \<in> set is \<and> tick_target now None j g1 \<noteq> None"
      using Cons.IH [OF fire_keyed [OF f Cons.prems(1)] l] by blast
    have target: "tick_target now None j g \<noteq> None" if "tick_target now None j g1 \<noteq> None \<or> j = i" for j
    proof (cases "j = i")
      case True
      with tick_target_load [OF Some] show ?thesis by simp
    next
      case False
      with that tick_target_cong [where now = now and e = None, OF fire_other [OF f Cons.prems(1) False]] show ?thesis by simp
    qed
    define w0 where "w0 = (case r of Inr (Some tid) \<Rightarrow> [(i, tid, fe_instant (te_fire (env 0)))] | _ \<Rightarrow> [])"
    have "g' = g2" "tids = map (\<lambda>(_, tid, _). tid) w0 @ tids1"
      using Cons.prems(2) Some f l by (auto simp: w0_def split: sum.splits option.splits)
    moreover have "mim_watchers g1 = mim_watchers g @ w0" using fire_watchers [OF f] by (simp add: w0_def)
    moreover have "j = i" if "(j, tid, t) \<in> set w0" for j tid t
      using that by (auto simp: w0_def split: sum.splits option.splits)
    ultimately show ?thesis
      using ws target by (intro exI [of _ "w0 @ ws"]) fastforce
  qed
qed simp

text \<open>
  C38. A tick cannot fail. The threads it returns are those it started a watcher for, in order; each
  was started for a mission of the active list that was, when the tick began, stored as active, with
  a cron cadence whose next fire time had passed.
\<close>

theorem tick_fires_due:
  assumes "keyed g" "mission_tick cron pretty now env g = (r, g')"
  shows "\<exists>ws. r = Ok (map (\<lambda>(_, tid, _). tid) ws) \<and> mim_watchers g' = mim_watchers g @ ws
     \<and> (\<forall>(i, _, _) \<in> set ws. i \<in> set (mim_active g)
          \<and> (\<exists>m e tz next. hm_get (mim_missions g) i = Some m \<and> mi_status m = MsActive
               \<and> mi_cadence m = Cron e tz \<and> mi_next_fire_at m = Some next \<and> next \<le> now))"
proof -
  obtain tids g2 where l: "tick_loop cron pretty now env (mim_active g) (prune_attempts now g) = (tids, g2)"
    by (cases "tick_loop cron pretty now env (mim_active g) (prune_attempts now g)")
  have "keyed (prune_attempts now g)" using assms(1) by (simp add: keyed_def prune_attempts_def)
  from tick_loop_watchers [OF this l] obtain ws where
    ws: "mim_watchers g2 = mim_watchers g @ ws" "tids = map (\<lambda>(_, tid, _). tid) ws"
      "\<forall>(j, _, _) \<in> set ws. j \<in> set (mim_active g) \<and> tick_target now None j (prune_attempts now g) \<noteq> None"
    by (auto simp: prune_attempts_def)
  have due: "\<exists>m e tz next. hm_get (mim_missions g) i = Some m \<and> mi_status m = MsActive
        \<and> mi_cadence m = Cron e tz \<and> mi_next_fire_at m = Some next \<and> next \<le> now"
    if target: "tick_target now None i (prune_attempts now g) \<noteq> None" for i
  proof -
    obtain m where "hm_get (mim_missions g) i = Some m" "mi_status m = MsActive" "tick_due now m"
      using target by (auto simp: tick_target_def load_mission_def prune_attempts_def split: option.splits if_splits)
    then show ?thesis by (auto simp: tick_due_def split: mission_cadence.splits option.splits)
  qed
  show ?thesis
  proof (intro exI conjI)
    show "r = Ok (map (\<lambda>(_, tid, _). tid) ws)" "mim_watchers g' = mim_watchers g @ ws"
      using assms(2) l ws(1,2) by (auto simp: mission_tick_def)
    show "\<forall>(i, _, _) \<in> set ws. i \<in> set (mim_active g)
          \<and> (\<exists>m e tz next. hm_get (mim_missions g) i = Some m \<and> mi_status m = MsActive
               \<and> mi_cadence m = Cron e tz \<and> mi_next_fire_at m = Some next \<and> next \<le> now)"
      using ws(3) due by auto
  qed
qed

lemma one_keyed: "keyed one_manager"
  using one_manager_started by (simp add: just_started_def)

lemma tick_fires_due_witness:
  "\<exists>ws :: (mission_id \<times> thread_id \<times> time) list. fst (mission_tick (lib_cron daily_libs) (lib_pretty daily_libs) 10
            (\<lambda>_. \<lparr>te_load = None, te_fire = env_at 10 77\<rparr>) one_manager) = Ok (map (\<lambda>(_, tid, _). tid) ws)"
proof -
  obtain r g' where t: "mission_tick (lib_cron daily_libs) (lib_pretty daily_libs) 10
            (\<lambda>_. \<lparr>te_load = None, te_fire = env_at 10 77\<rparr>) one_manager = (r, g')"
    by (cases "mission_tick (lib_cron daily_libs) (lib_pretty daily_libs) 10
            (\<lambda>_. \<lparr>te_load = None, te_fire = env_at 10 77\<rparr>) one_manager")
  from tick_fires_due [OF one_keyed t] show ?thesis unfolding t fst_conv by blast
qed

lemma retain_first: "hm_get m k = Some v \<Longrightarrow> P k v \<Longrightarrow> hm_get (hm_retain m P) k = Some v"
  by (induction m) (auto simp: hm_get_def hm_retain_def split: if_splits)

text \<open>
  C39. If the store does not show a fire, because saving it failed or because the cron expression
  could not be read, no tick within the next 90 seconds fires the mission again.
\<close>

theorem lost_fire_not_repeated:
  assumes "keyed g" "fire_mission cron pretty i user payload env g = (Ok (Some tid), g1)"
    and "hm_get (mim_missions g1) i = Some m1" "mi_last_fire_at m1 \<noteq> Some (fe_instant env)"
    and "now - fe_instant env < FIRE_COOLDOWN"
    and "mission_tick cron pretty now tenv g1 = (r, g2)"
  shows "\<forall>(j, _, _) \<in> set (drop (length (mim_watchers g1)) (mim_watchers g2)). j \<noteq> i"
proof -
  have k1: "keyed g1" by (rule fire_keyed [OF assms(2,1)])
  have "hm_get (mim_last_fire_attempt g1) i = Some (fe_instant env)"
    using assms(2) by (cases rule: fire_result) (auto simp: record_fire_same)
  then have "hm_get (mim_last_fire_attempt (prune_attempts now g1)) i = Some (fe_instant env)"
    using assms(5) by (simp add: prune_attempts_def retain_first)
  then have cool: "on_cooldown now i m1 (prune_attempts now g1)"
    using assms(4,5) by (simp add: on_cooldown_def)
  obtain tids g' where l: "tick_loop cron pretty now tenv (mim_active g1) (prune_attempts now g1) = (tids, g')"
    by (cases "tick_loop cron pretty now tenv (mim_active g1) (prune_attempts now g1)")
  have kp: "keyed (prune_attempts now g1)" using k1 by (simp add: keyed_def prune_attempts_def)
  have none: "tick_target now None i (prune_attempts now g1) = None"
    using cool assms(3) by (simp add: tick_target_def load_mission_def prune_attempts_def)
  obtain ws where "mim_watchers g' = mim_watchers g1 @ ws"
      "\<forall>(j, _, _) \<in> set ws. tick_target now None j (prune_attempts now g1) \<noteq> None"
  proof -
    assume that: "\<And>ws. mim_watchers g' = mim_watchers g1 @ ws \<Longrightarrow>
      \<forall>(j, _, _) \<in> set ws. tick_target now None j (prune_attempts now g1) \<noteq> None \<Longrightarrow> thesis"
    from tick_loop_watchers [OF kp l] obtain ws where "mim_watchers g' = mim_watchers (prune_attempts now g1) @ ws"
      "\<forall>(j, _, _) \<in> set ws. tick_target now None j (prune_attempts now g1) \<noteq> None" by fast
    then show thesis by (intro that) (auto simp: prune_attempts_def)
  qed
  moreover have "g2 = g'" using assms(6) l by (simp add: mission_tick_def)
  ultimately show ?thesis using none by auto
qed

text \<open>The same mission with a store that loses the save of the fire.\<close>

definition losing_env :: fire_env where
  "losing_env = (env_at 10 77)\<lparr>fe_save := Some (Store ''down'')\<rparr>"

lemma losing_fires:
  "fire_mission (lib_cron daily_libs) (lib_pretty daily_libs) 3 ''alice'' None losing_env one_manager
     = (Ok (Some 77), record_fire (lib_cron daily_libs) losing_env 3 77 None one_mission
          (snd (check_user_rate (fe_rate_now losing_env) (mi_user_id one_mission) one_manager)))"
proof (rule fire_spawns [OF one_stored _ one_may one_fireable])
  show "daily_reset losing_env one_mission one_manager = (one_mission, one_manager)"
    by (simp add: daily_reset_def daily_stale_def one_fields)
  show "unguarded losing_env 3 one_mission one_manager"
    using one_unguarded by (simp add: unguarded_def losing_env_def)
qed (simp_all add: losing_env_def env_at_def)

lemma lost_fire_not_repeated_witness:
  "\<exists>g1 m1. fire_mission (lib_cron daily_libs) (lib_pretty daily_libs) 3 ''alice'' None losing_env one_manager
        = (Ok (Some 77), g1) \<and> hm_get (mim_missions g1) 3 = Some m1 \<and> tick_due 70 m1
     \<and> (\<forall>(j, _, _) \<in> set (drop (length (mim_watchers g1)) (mim_watchers (snd (mission_tick (lib_cron daily_libs)
            (lib_pretty daily_libs) 70 (\<lambda>_. \<lparr>te_load = None, te_fire = env_at 70 78\<rparr>) g1)))). j \<noteq> 3)"
proof -
  let ?g1 = "record_fire (lib_cron daily_libs) losing_env 3 77 None one_mission
          (snd (check_user_rate (fe_rate_now losing_env) (mi_user_id one_mission) one_manager))"
  have stored: "hm_get (mim_missions ?g1) 3 = Some one_mission"
    using one_stored by (simp add: record_fire_missions check_rate_same losing_env_def)
  obtain r g2 where t: "mission_tick (lib_cron daily_libs) (lib_pretty daily_libs) 70
      (\<lambda>_. \<lparr>te_load = None, te_fire = env_at 70 78\<rparr>) ?g1 = (r, g2)"
    by (cases "mission_tick (lib_cron daily_libs) (lib_pretty daily_libs) 70
      (\<lambda>_. \<lparr>te_load = None, te_fire = env_at 70 78\<rparr>) ?g1")
  have due: "tick_due 70 one_mission" by (simp add: tick_due_def one_cadence one_fields)
  have "\<forall>(j, _, _) \<in> set (drop (length (mim_watchers ?g1)) (mim_watchers g2)). j \<noteq> 3"
    by (rule lost_fire_not_repeated [OF one_keyed losing_fires stored _ _ t])
      (simp_all add: one_fields FIRE_COOLDOWN_def secs_def losing_env_def env_at_def)
  with losing_fires stored due t show ?thesis by auto
qed

section \<open>Reconciliation\<close>

text \<open>The fields that say what has been spawned and what came of it.\<close>

definition accounting where
  "accounting m = (mi_thread_history m, mi_threads_today m, mi_last_fire_at m, mi_status m,
     mi_current_focus m, mi_approach_history m)"

lemma absorb_accounting:
  "accounting m = accounting m' \<Longrightarrow>
   accounting (fst (absorb_outcome oc m)) = accounting (fst (absorb_outcome oc m'))"
  by (simp add: accounting_def absorb_outcome_def absorb_response_def Let_def split: thread_outcome.split option.split)

lemma reconcile_fired:
  assumes "cron_stable cron" "readable cron (mi_cadence m)" "tid \<notin> set (mi_thread_history m)"
    and "unat (mi_threads_today m) + 1 < 2 ^ 32"
  shows "accounting (reconcile cron now tid (Some f) m) = accounting (fired_mission cron f tid p m)"
proof -
  have "sat_add (mi_threads_today m) 1 = mi_threads_today m + 1" using assms(4) by (simp add: sat_add_def)
  moreover have "mi_status (fired_mission cron f tid p m) = mi_status m"
    "mi_current_focus (fired_mission cron f tid p m) = mi_current_focus m"
    "mi_approach_history (fired_mission cron f tid p m) = mi_approach_history m"
    by (simp_all add: fired_mission_def record_thread_def Let_def split: mission_cadence.split sum.split)
  ultimately show ?thesis
    using assms(3) fired_last [OF assms(1,2)]
    by (simp add: accounting_def reconcile_def or_else_def record_thread_def Let_def
        split: mission_cadence.split sum.split option.split)
qed

lemma outcome_stored:
  assumes "hm_get (mim_missions g) i = Some m" "mi_id m = i"
  shows "hm_get (mim_missions (snd (snd (process_mission_outcome_and_notify cron None None now i tid oc f g)))) i
     = Some ((fst (absorb_outcome oc (reconcile cron now tid f m)))\<lparr>mi_updated_at := now\<rparr>)"
proof -
  obtain m1 response err where ab: "absorb_outcome oc (reconcile cron now tid f m) = (m1, response, err)"
    by (cases "absorb_outcome oc (reconcile cron now tid f m)")
  have "mi_id m1 = i" using absorb_simps(1) [of oc "reconcile cron now tid f m"] ab assms(2) by simp
  with assms ab show ?thesis
    by (simp add: process_mission_outcome_and_notify_def load_mission_def save_mission_def hm_simps)
qed



section \<open>Lifecycle\<close>

text \<open>
  Pausing does not look at the status, so a finished mission of whatever kind can be brought back:
  pausing and then resuming makes it active again.
\<close>

theorem pause_resume_revives:
  assumes "keyed g" "hm_get (mim_missions g) i = Some m" "may_manage user m"
    and "\<And>e tz. mi_cadence m \<noteq> Cron e tz"
    and "pause_mission None None now i user g = (r1, g1)" "resume_mission cron None None now' i user g1 = (r2, g2)"
  shows "r1 = Ok () \<and> r2 = Ok () \<and> (\<exists>m2. hm_get (mim_missions g2) i = Some m2 \<and> mi_status m2 = MsActive)
     \<and> i \<in> set (mim_active g2)"
proof -
  let ?m = "m\<lparr>mi_status := MsPaused, mi_updated_at := now\<rparr>"
  have 1: "r1 = Ok ()" "hm_get (mim_missions g1) i = Some ?m"
    using assms(2,3,5) by (auto simp: pause_mission_def managed_mission_def load_mission_def
        update_mission_status_def deactivate_def hm_simps)
  have "may_manage user ?m" using assms(3)
    by (auto simp: may_manage_def mission_is_owned_by_def mission_owner_id_def split: if_splits)
  moreover have "scheduled cron now' (?m\<lparr>mi_status := MsActive\<rparr>) = Ok (?m\<lparr>mi_status := MsActive\<rparr>)"
    using assms(4) by (simp add: scheduled_def split: mission_cadence.split)
  moreover have "mi_id m = i" using assms(1,2) by (simp add: keyed_def)
  ultimately show ?thesis
    using assms(6) 1 by (auto simp: resume_mission_def managed_mission_def load_mission_def save_mission_def
        activate_def hm_simps)
qed

text \<open>A mission is completed whoever asks: the operation takes no user.\<close>

lemma complete_unchecked:
  assumes "hm_get (mim_missions g) i = Some m"
  shows "fst (complete_mission None now i g) = Ok ()"
    "hm_get (mim_missions (snd (complete_mission None now i g))) i
       = Some (m\<lparr>mi_status := MsCompleted, mi_updated_at := now\<rparr>)"
  using assms
  by (simp_all add: complete_mission_def update_mission_status_def deactivate_def evict_event_regex_def hm_simps)

text \<open>An update that fails changes nothing; one that succeeds leaves a cron mission scheduled.\<close>

theorem update_atomic:
  assumes "update_mission cron load_err save_err now i user u g = (r, g')" "keyed g"
  shows "case r of
       Inl _ \<Rightarrow> g' = g
     | Inr _ \<Rightarrow> (\<exists>m m'. hm_get (mim_missions g) i = Some m \<and> may_manage user m
          \<and> hm_get (mim_missions g') i = Some m' \<and> hm_get (mim_event_regex_cache g') i = None
          \<and> (\<forall>e tz. mu_cadence u = Some (Cron e tz) \<longrightarrow>
               mi_cadence m' = Cron e tz \<and> (\<exists>t. mi_next_fire_at m' = Some t)))"
proof (cases "managed_mission load_err i user g")
  case (Inl e)
  with assms show ?thesis by (auto simp: update_mission_def)
next
  case (Inr m)
  note st = managed_Ok [OF Inr]
  show ?thesis
  proof (cases "apply_cadence cron now (mu_cadence u) m")
    case (Inl e)
    with Inr assms show ?thesis by (auto simp: update_mission_def)
  next
    case ap: (Inr m')
    have key: "mi_id m' = i" using apply_cadence_Ok(1) [OF ap] st assms(2) by (simp add: keyed_def)
    have cron: "mi_cadence m' = Cron e tz \<and> (\<exists>t. mi_next_fire_at m' = Some t)" if "mu_cadence u = Some (Cron e tz)" for e tz
      using ap that by (auto simp: apply_cadence_def scheduled_def split: sum.splits)
    let ?n = "(apply_fields u m')\<lparr>mi_updated_at := now\<rparr>"
    show ?thesis
    proof (cases save_err)
      case None
      then have r: "r = Ok ()" and g': "g' = evict_event_regex i (g\<lparr>mim_missions := hm_insert (mim_missions g) i ?n\<rparr>)"
        using assms(1) Inr ap key by (auto simp: update_mission_def save_mission_def)
      have "hm_get (mim_missions g') i = Some ?n" "hm_get (mim_event_regex_cache g') i = None"
        by (simp_all add: g' evict_event_regex_def hm_simps)
      with st cron r show ?thesis by auto
    next
      case (Some e)
      with assms(1) Inr ap show ?thesis by (auto simp: update_mission_def save_mission_def)
    qed
  qed
qed

section \<open>Where the guards do not hold\<close>

text \<open>
  Without a recorded fire every count is stale: the daily budget never refuses, whatever the count.
  A cron mission whose expression cannot be read at the fire stays in that state.
\<close>

theorem unreadable_cron_unbudgeted:
  assumes "mi_last_fire_at m = None" "mi_max_threads_per_day m > 0" "daily_reset env m g = (m1, g1)"
    and "mi_cadence m = Cron e tz" "next_cron_fire cron (fe_instant env) e tz = Err err"
  shows "\<not> daily_budget_exhausted m1 \<and> mi_last_fire_at (fired_mission cron (fe_instant env) tid payload m1) = None"
proof -
  have "mi_threads_today m1 = 0" "mi_last_fire_at m1 = None" "mi_cadence m1 = Cron e tz"
    "mi_max_threads_per_day m1 = mi_max_threads_per_day m"
    using daily_reset_m(1) [OF assms(3)] assms(1,4) by (auto simp: daily_stale_def word_gt_0)
  with assms(2,5) show ?thesis
    by (simp add: daily_budget_exhausted_def fired_mission_def record_thread_def Let_def)
qed

text \<open>When the reset at the start of a day is lost too, the reconciled count includes the day before.\<close>

theorem lost_reset_overcounts:
  assumes "mi_threads_today m = mi_max_threads_per_day m" "unat (mi_max_threads_per_day m) + 1 < 2 ^ 32"
    and "0 < mi_max_threads_per_day m" "tid \<notin> set (mi_thread_history m)"
  shows "daily_budget_exhausted (reconcile cron now tid (Some f) m)"
    and "utc_day f = utc_day now' \<Longrightarrow> \<not> daily_stale now' (reconcile cron now tid (Some f) m)"
proof -
  have "sat_add (mi_threads_today m) 1 = mi_max_threads_per_day m + 1" using assms(1,2) by (simp add: sat_add_def)
  then have t: "mi_threads_today (reconcile cron now tid (Some f) m) = mi_max_threads_per_day m + 1"
    "mi_last_fire_at (reconcile cron now tid (Some f) m) = Some f"
    using assms(4) by (simp_all add: reconcile_def or_else_def record_thread_def Let_def
        split: mission_cadence.split sum.split option.split)
  have "unat (mi_max_threads_per_day m + 1) = unat (mi_max_threads_per_day m) + 1"
    using assms(2) by (simp add: unat_word_ariths)
  with t assms(3) show "daily_budget_exhausted (reconcile cron now tid (Some f) m)"
    by (simp add: daily_budget_exhausted_def word_le_nat_alt)
  show "utc_day f = utc_day now' \<Longrightarrow> \<not> daily_stale now' (reconcile cron now tid (Some f) m)"
    using t(2) by (simp add: daily_stale_def)
qed

text \<open>A response that only contains the words completes the mission.\<close>

lemma mission_completely_failed: "goal_achieved ''the mission completely failed''"
  by code_simp

text \<open>An event is remembered before its fire is tried; when the fire is refused, the same event is
  taken for a duplicate.\<close>

lemma refused_event_is_duplicate:
  assumes "dedup_event now i key w g = (False, g1)" "w \<noteq> 0" "now' - now < secs (sint w)"
    and "mim_dedup_table g2 = mim_dedup_table g1"
  shows "fst (dedup_event now' i key w g2)"
  using assms by (auto simp: dedup_event_def hm_simps Let_def split: option.splits if_splits)

text \<open>After a restart the matchers no longer see completed missions, also those that events drive.\<close>

lemma bootstrap_only_active:
  assumes "bootstrap_project cron None env project g = (r, g')" "i \<in> set (mim_active g')"
  shows "\<exists>m \<in> set (hm_values (mim_missions g)). mi_id m = i \<and> mi_status m = MsActive \<and> mi_project_id m = project"
  using assms by (auto simp: bootstrap_project_def list_all_missions_def Let_def)

end
