(* ===== verification/Spec2Isabelle.thy ===== *)
theory Spec2Isabelle
  imports Thread_Life Thread_Tree Lease_Manager Policy_Engine Lease_Refresh Rate_Limiter Gate_Pipeline Gate_Store
    Context_Manager Undo Llm_Chain Cost_Guard Response_Cache Network_Policy Agentic_Loop Workspace_Mounts
    Session_Manager Identity Tool_Permissions Chat_History Compaction Thread_Safety Mission_Props
begin

text \<open>
  A verification development for \<^bold>\<open>t3-claw\<close>, an assistant that lets a language model call tools on behalf
  of its users. The program consists of a newer execution engine (\<open>crates/t3claw_engine\<close>) and of an
  agent (\<open>src/\<close>) that talks to users over channels, runs conversations turn by turn and uses the engine,
  the tools, the model providers and a database. What the program has to get right, and what is
  modelled here, is the logic that stands between the model and the effects: who may call what,
  under which lease, policy, approval, budget and rate; what is kept of a conversation; what happens
  when a provider, a hook or the database fails.

  \<^bold>\<open>From a message to an effect.\<close> A message is parsed (\<open>Submission\<close>), its conversation is found, created or
  hydrated (\<open>Session_Manager\<close>, \<open>Chat_History\<close>, \<open>Message_Loop\<close>), and an operation on its thread is carried out
  (\<open>Thread_Ops\<close>): a user's input is checked, the thread is compacted when it is too long (\<open>Compaction\<close>), a
  checkpoint is taken (\<open>Undo\<close>), a turn is started (\<open>Session\<close>) and the agentic loop runs (\<open>Agentic_Loop\<close>) with
  the chat delegate (\<open>Chat_Agent\<close>). The delegate shows the model the tools the user may use
  (\<open>Tool_Permissions\<close>), asks the provider chain (\<open>Retry\<close>, \<open>Failover\<close>, \<open>Circuit_Breaker\<close>, \<open>Llm_Chain\<close>,
  \<open>Response_Cache\<close>) within the budget (\<open>Cost_Guard\<close>), and executes the calls of the answer (\<open>Chat_Tools\<close>)
  after hooks and approvals (\<open>Hooks\<close>, \<open>Tool_Registry\<close>). In the engine the same decision is the gate pipeline
  (\<open>Gate_Pipeline\<close>, \<open>Rate_Limiter\<close>) over leases and policies (\<open>Capability\<close>, \<open>Lease_Manager\<close>,
  \<open>Lease_Refresh\<close>, \<open>Planner\<close>, \<open>Policy_Engine\<close>), with the paused calls in the gate store (\<open>Gate_Store\<close>). Files are
  reached through mounts (\<open>Workspace_Mounts\<close> over \<open>Posix_Fs\<close>), hosts through allowlists
  (\<open>Network_Policy\<close>).

  \<^bold>\<open>Theories, sources and results.\<close>
  \<^item> \<open>Prelude\<close>, \<open>Text\<close>, \<open>Keyed_Store\<close>, \<open>Lifecycle\<close>: machine integers, results, time, JSON; the string functions
    of the standard library; hash maps as association lists behind the locale \<open>keyed_store\<close>; the locale
    \<open>lifecycle\<close> of state machines with a log.
  \<^item> \<open>Engine_Types\<close>, \<open>Thread_Life\<close>, \<open>Thread_Tree\<close> (\<open>types/\<close>, \<open>runtime/tree.rs\<close>): the data of the engine, the
    thread state machine whose log is a path of its table, the forest of threads and its terminating
    ancestor walk.
  \<^item> \<open>Capability\<close>, \<open>Lease_Manager\<close>, \<open>Lease_Refresh\<close>, \<open>Planner\<close>, \<open>Policy_Engine\<close> (\<open>capability/\<close>, \<open>gate/\<close>): leases
    are budgets that never wrap, stay revoked, and shrink from parent to child; the policy decision
    by precedence and provenance.
  \<^item> \<open>Rate_Limiter\<close>, \<open>Hooks\<close>, \<open>Tool_Registry\<close>, \<open>Gate_Pipeline\<close>, \<open>Gate_Store\<close> (\<open>src/tools\<close>, \<open>src/hooks\<close>, \<open>src/gate\<close>):
    how many calls pass in a time, what the first stopping gate decides, that a paused call is handed
    out once and what survives a restart (a refinement of the file by the store).
  \<^item> \<open>Mission_Types\<close>, \<open>Missions\<close>, \<open>Mission_Runs\<close>, \<open>Mission_Safety\<close>, \<open>Mission_Days\<close>, \<open>Mission_Props\<close>
    (\<open>types/mission.rs\<close>, \<open>runtime/mission.rs\<close>): long-running goals that spawn threads by schedule, message, event or
    webhook. Runs of all their operations under a clock, with the locale \<open>mission_inv\<close> for what
    every operation keeps; how many threads one user and one day see; what a fire requires, what the ticker
    fires, and that a lost save neither repeats a fire nor loses its accounting.
  \<^item> \<open>Job_State\<close>, \<open>Context_Manager\<close> (\<open>src/context\<close>): the job state machine (an interpretation of
    \<open>lifecycle\<close>), the limit on parallel jobs, memories, and a race between two locks.
  \<^item> \<open>Llm_Error\<close>, \<open>Llm_Message\<close>, \<open>Retry\<close>, \<open>Circuit_Breaker\<close>, \<open>Failover\<close>, \<open>Llm_Chain\<close>, \<open>Response_Cache\<close>,
    \<open>Cost_Guard\<close> (\<open>src/llm\<close>, \<open>src/agent/cost_guard.rs\<close>): bounded and justified calls of providers, the breaker
    under any interleaving, fresh cache hits, bounded spending, canonical JSON.
  \<^item> \<open>Tool_Intent\<close>, \<open>Agentic_Loop\<close>, \<open>Chat_Tools\<close>, \<open>Chat_Agent\<close>, \<open>Tool_Permissions\<close> (\<open>src/agent\<close>, \<open>src/tools\<close>): the
    protocol of the loop as a refinement of a trace specification, escalation to text, one result per
    call, only checked calls run, only permitted tools are shown.
  \<^item> \<open>Session\<close>, \<open>Session_Manager\<close>, \<open>Undo\<close>, \<open>Compaction\<close>, \<open>Chat_History\<close>, \<open>Submission\<close>, \<open>Thread_Ops\<close>,
    \<open>Message_Loop\<close>, \<open>Thread_Safety\<close> (\<open>src/agent\<close>): consistent turns, threads that are never shared, what undo,
    restoring, storing and compacting keep of a conversation, the operations of the agent on a thread, and that
    every message is handled to its end, an approval is used once and a token stays out of conversations.
  \<^item> \<open>Identity\<close>, \<open>Network_Policy\<close>, \<open>Posix_Fs\<close>, \<open>Workspace_Mounts\<close>: canonical names, the exact set of allowed
    requests, reads and writes that stay in their mount.

  \<^bold>\<open>Conventions.\<close> A struct is a record, an enum a datatype, \<open>Result<T, E>\<close> is \<open>'e + 'a\<close>; a \<open>HashMap\<close> is an
  association list whose order no result depends on unless the code iterates over it. \<open>u32\<close> and \<open>u64\<close> counters are words
  that wrap; \<open>usize\<close> lengths are natural numbers; \<open>Decimal\<close> and \<open>f64\<close> amounts are exact rationals. Readings of
  the clock, fresh identifiers and random numbers are arguments. A string is a list of bytes-like characters
  (Latin-1; case conversion is the ASCII one; the few literals outside Latin-1 are their UTF-8 bytes), and byte lengths are those of its UTF-8 encoding.
  An operation under one lock is one function; where the code releases a lock between two steps, the steps are separate
  and may interleave. Code outside \<open>src/\<close> (the JSON and UUID
  parsers, the \<open>url\<close>, \<open>regex\<close> and hash crates, the database, the provider services, the bodies of tools) is a
  parameter, and what a theorem needs of it is a hypothesis of the theorem.

  \<^bold>\<open>Bounds and fuel.\<close> Loops of the code are structural or well-founded recursions; no theorem rests on fuel
  except the ancestor walk (a \<open>partial_function\<close>, proved to return on every forest the code builds) and path
  resolution, where \<open>MAX_LINKS\<close> is the forty links after which the operating system itself gives up.
  The drain loop of \<open>Message_Loop\<close> takes one environment per round and is \<open>None\<close> when they run out; it is proved to need none when messages are handled one after the other.
  The agentic loop runs over \<open>1..=max_iterations\<close>, the retry loop over \<open>0..=max_retries\<close>.

  \<^bold>\<open>Not modelled.\<close> Input and output (channels, web gateway, terminal interface, command line, setup), the SQL
  of the database, the HTTP clients of model providers, the WebAssembly, container and Python
  runtimes with the engine code that drives them (executor, orchestrator, job workers), the
  extension manager, document search and embeddings, the regular-expression sets of
  the safety layer and of skill selection, cryptography. They are listed as components with the reason; where
  modelled code uses them they are parameters. Logging and status messages do not influence
  the state and are left out everywhere.
\<close>

end
